(* ===== verification/Prelude.thy ===== *)
theory Prelude
  imports Main "HOL-Library.AList"
begin

text \<open>
  What the component theories share: the model's names for Go's types, decimal printing,
  the lemmas on association lists (Go maps) and lists (Go slices) used by several
  components, and the locale of a state machine with an inductive invariant.
\<close>

subsection \<open>Types and collections\<close>

text \<open>
  Instants (\<^verbatim>\<open>time.Time\<close>) and durations (\<^verbatim>\<open>time.Duration\<close>) are integers, in nanoseconds; the
  clock reading of an operation is an argument of it, named \<open>now\<close>.  A byte slice is a
  \<^typ>\<open>string\<close>.  A Go map that is iterated over or counted is an association list: the list order is the
  order of one iteration.
\<close>

type_synonym gotime = int
type_synonym duration = int
type_synonym bytes = string
type_synonym ('k, 'v) gomap = "('k \<times> 'v) list"

named_theorems keep_inv \<open>operations keep the invariant of their component\<close>
named_theorems progress \<open>loop bodies make progress\<close>
named_theorems frame \<open>parts of the state an operation does not write\<close>

subsection \<open>Decimal printing\<close>

definition digit_char :: "nat \<Rightarrow> char" where
  "digit_char d = char_of (48 + d)"

fun dec :: "nat \<Rightarrow> string" where
  "dec n = (if n < 10 then [digit_char n] else dec (n div 10) @ [digit_char (n mod 10)])"

declare dec.simps [simp del]

definition undec :: "string \<Rightarrow> nat" where
  "undec s = foldl (\<lambda>a c. 10 * a + (of_char c - 48)) 0 s"

lemma of_char_digit_char: "d < 10 \<Longrightarrow> (of_char (digit_char d) :: nat) = 48 + d"
  by (simp add: digit_char_def)

lemma undec_dec: "undec (dec n) = n"
proof (induction n rule: dec.induct)
  case (1 n)
  show ?case
  proof (cases "n < 10")
    case True
    then show ?thesis
      by (subst dec.simps) (simp add: undec_def of_char_digit_char)
  next
    case False
    with "1.IH" have "undec (dec (n div 10)) = n div 10" by simp
    with False show ?thesis
      by (subst dec.simps) (simp add: undec_def of_char_digit_char)
  qed
qed

lemma dec_inject [simp]: "dec m = dec n \<longleftrightarrow> m = n"
  by (metis undec_dec)

lemma dec_no_colon: "CHR '':'' \<notin> set (dec n)"
proof (induction n rule: dec.induct)
  case (1 n)
  have colon: "CHR '':'' \<noteq> digit_char d" if "d < 10" for d
    using of_char_digit_char [OF that] that by (auto dest: arg_cong [of _ _ "of_char :: char \<Rightarrow> nat"])
  have "CHR '':'' \<noteq> digit_char n" if "n < 10" using colon [OF that] .
  moreover have "CHR '':'' \<noteq> digit_char (n mod 10)" using colon [of "n mod 10"] by simp
  ultimately show ?case using "1.IH" by (subst dec.simps) simp
qed

subsection \<open>Association lists\<close>

lemma update_new: "k \<notin> fst ` set m \<Longrightarrow> AList.update k v m = m @ [(k, v)]"
  by (induction m) auto

lemma delete_absent: "k \<notin> fst ` set m \<Longrightarrow> AList.delete k m = m"
  by (induction m) auto

lemma length_update_new: "k \<notin> fst ` set m \<Longrightarrow> length (AList.update k v m) = Suc (length m)"
  by (induction m) auto

lemma length_update_old: "k \<in> fst ` set m \<Longrightarrow> length (AList.update k v m) = length m"
  by (induction m) auto

lemma length_delete_le: "length (AList.delete k m) \<le> length m"
  by (simp add: AList.delete_eq)

lemma keys_delete: "fst ` set (AList.delete k m) = fst ` set m - {k}"
  by (auto simp: AList.delete_eq)

lemma map_of_update [simp]: "map_of (AList.update k v m) = (map_of m)(k \<mapsto> v)"
  by (simp add: AList.update_conv')

lemma map_of_delete [simp]: "map_of (AList.delete k m) = (map_of m)(k := None)"
  by (simp add: AList.delete_conv')

lemma set_update_snd: "snd ` set (AList.update k v m) \<subseteq> insert v (snd ` set m)"
  by (induction m) auto

lemma set_update_sub: "set (AList.update k v m) \<subseteq> insert (k, v) (set m)"
  by (induction m) auto

lemma set_delete_sub: "set (AList.delete k m) \<subseteq> set m"
  by (auto simp: AList.delete_eq)

lemma in_set_update: "(k, v) \<in> set (AList.update k v m)"
  by (induction m) auto

lemma map_of_filter:
  "distinct (map fst m) \<Longrightarrow> map_of (filter (\<lambda>(k, v). P k v) m) k =
     (case map_of m k of None \<Rightarrow> None | Some v \<Rightarrow> if P k v then Some v else None)"
proof (induction m)
  case (Cons kv m)
  then show ?case
    by (cases kv) (auto simp: map_of_eq_None_iff image_iff split: option.split)
qed simp

subsection \<open>State machines with an invariant\<close>

text \<open>
  An object whose methods are run one after the other (each under the object's mutex):
  \<open>step\<close> is one call, \<open>inv\<close> an invariant every call keeps.  Every component whose state
  invariant is proved below interprets this locale.
\<close>

locale machine =
  fixes step :: "'s \<Rightarrow> 'e \<Rightarrow> 's"
    and inv :: "'s \<Rightarrow> bool"
  assumes step_inv: "inv s \<Longrightarrow> inv (step s e)"
begin

lemma run_inv: "inv s \<Longrightarrow> inv (foldl step s es)"
  by (induction es arbitrary: s) (auto intro: step_inv)

end

end
