(* ===== verification/Flow_Token.thy ===== *)
theory Flow_Token
  imports Prelude
begin

text \<open>
  The token vocabulary of the \<^verbatim>\<open>.flow\<close> language: the token types, the keyword table
  and the token record of \<^verbatim>\<open>server/internal/flow/lexer.go\<close>.  The Go type
  \<^verbatim>\<open>TokenType\<close> is an integer numbered by \<^verbatim>\<open>iota\<close>, and the parser compares token types
  with \<open>\<le>\<close>; here it is a datatype whose order is the order of the Go constants.
\<close>

subsection \<open>Token types\<close>

datatype (plugins only: code size) TokenType =
    TokenIdent | TokenString | TokenNumber | TokenDuration | TokenBool | TokenVersion
  | TokenFlow | TokenService | TokenEvent | TokenWorkflow | TokenIf | TokenElse
  | TokenSwitch | TokenCase | TokenDefault | TokenParallel | TokenJoin | TokenRetry
  | TokenBreaker | TokenTimeout | TokenWait | TokenForeach | TokenWhile | TokenOutput
  | TokenImport | TokenInclude | TokenCompensate | TokenOnError | TokenEmit | TokenStart
  | TokenEnd | TokenReturn | TokenSuccess | TokenFailure
  | TokenGRPC | TokenHTTP | TokenKafka | TokenRedis | TokenPostgres | TokenTCP
  | TokenArrow | TokenEquals | TokenNotEquals | TokenLess | TokenGreater | TokenLE
  | TokenGE | TokenAnd | TokenOr | TokenNot
  | TokenLParen | TokenRParen | TokenLBrace | TokenRBrace | TokenLBracket | TokenRBracket
  | TokenColon | TokenComma | TokenDot | TokenDollar | TokenAt | TokenHash | TokenNewline
  | TokenEOF | TokenError

definition tokenTypes :: "TokenType list" where
  "tokenTypes =
    [TokenIdent, TokenString, TokenNumber, TokenDuration, TokenBool, TokenVersion,
     TokenFlow, TokenService, TokenEvent, TokenWorkflow, TokenIf, TokenElse,
     TokenSwitch, TokenCase, TokenDefault, TokenParallel, TokenJoin, TokenRetry,
     TokenBreaker, TokenTimeout, TokenWait, TokenForeach, TokenWhile, TokenOutput,
     TokenImport, TokenInclude, TokenCompensate, TokenOnError, TokenEmit, TokenStart,
     TokenEnd, TokenReturn, TokenSuccess, TokenFailure,
     TokenGRPC, TokenHTTP, TokenKafka, TokenRedis, TokenPostgres, TokenTCP,
     TokenArrow, TokenEquals, TokenNotEquals, TokenLess, TokenGreater, TokenLE,
     TokenGE, TokenAnd, TokenOr, TokenNot,
     TokenLParen, TokenRParen, TokenLBrace, TokenRBrace, TokenLBracket, TokenRBracket,
     TokenColon, TokenComma, TokenDot, TokenDollar, TokenAt, TokenHash, TokenNewline,
     TokenEOF, TokenError]"

primrec iota :: "TokenType \<Rightarrow> nat" where
  "iota TokenIdent = 0"
| "iota TokenString = 1"
| "iota TokenNumber = 2"
| "iota TokenDuration = 3"
| "iota TokenBool = 4"
| "iota TokenVersion = 5"
| "iota TokenFlow = 6"
| "iota TokenService = 7"
| "iota TokenEvent = 8"
| "iota TokenWorkflow = 9"
| "iota TokenIf = 10"
| "iota TokenElse = 11"
| "iota TokenSwitch = 12"
| "iota TokenCase = 13"
| "iota TokenDefault = 14"
| "iota TokenParallel = 15"
| "iota TokenJoin = 16"
| "iota TokenRetry = 17"
| "iota TokenBreaker = 18"
| "iota TokenTimeout = 19"
| "iota TokenWait = 20"
| "iota TokenForeach = 21"
| "iota TokenWhile = 22"
| "iota TokenOutput = 23"
| "iota TokenImport = 24"
| "iota TokenInclude = 25"
| "iota TokenCompensate = 26"
| "iota TokenOnError = 27"
| "iota TokenEmit = 28"
| "iota TokenStart = 29"
| "iota TokenEnd = 30"
| "iota TokenReturn = 31"
| "iota TokenSuccess = 32"
| "iota TokenFailure = 33"
| "iota TokenGRPC = 34"
| "iota TokenHTTP = 35"
| "iota TokenKafka = 36"
| "iota TokenRedis = 37"
| "iota TokenPostgres = 38"
| "iota TokenTCP = 39"
| "iota TokenArrow = 40"
| "iota TokenEquals = 41"
| "iota TokenNotEquals = 42"
| "iota TokenLess = 43"
| "iota TokenGreater = 44"
| "iota TokenLE = 45"
| "iota TokenGE = 46"
| "iota TokenAnd = 47"
| "iota TokenOr = 48"
| "iota TokenNot = 49"
| "iota TokenLParen = 50"
| "iota TokenRParen = 51"
| "iota TokenLBrace = 52"
| "iota TokenRBrace = 53"
| "iota TokenLBracket = 54"
| "iota TokenRBracket = 55"
| "iota TokenColon = 56"
| "iota TokenComma = 57"
| "iota TokenDot = 58"
| "iota TokenDollar = 59"
| "iota TokenAt = 60"
| "iota TokenHash = 61"
| "iota TokenNewline = 62"
| "iota TokenEOF = 63"
| "iota TokenError = 64"

lemma nth_iota: "tokenTypes ! iota t = t"
  by (cases t) (simp_all add: tokenTypes_def)

lemma iota_inject: "iota s = iota t \<longleftrightarrow> s = t"
  by (metis nth_iota)

instantiation TokenType :: linorder
begin

definition less_eq_TokenType :: "TokenType \<Rightarrow> TokenType \<Rightarrow> bool" where
  "less_eq_TokenType s t \<longleftrightarrow> iota s \<le> iota t"

definition less_TokenType :: "TokenType \<Rightarrow> TokenType \<Rightarrow> bool" where
  "less_TokenType s t \<longleftrightarrow> iota s < iota t"

instance
  by standard (auto simp: less_eq_TokenType_def less_TokenType_def iota_inject)

end

subsection \<open>Tokens and keywords\<close>

record Token =
  Type :: TokenType
  Value :: string
  Line :: nat
  Column :: nat

definition keyword_table :: "(string \<times> TokenType) list" where
  "keyword_table =
    [(''flow'', TokenFlow), (''service'', TokenService), (''event'', TokenEvent),
     (''workflow'', TokenWorkflow), (''if'', TokenIf), (''else'', TokenElse),
     (''switch'', TokenSwitch), (''case'', TokenCase), (''default'', TokenDefault),
     (''parallel'', TokenParallel), (''join'', TokenJoin), (''retry'', TokenRetry),
     (''breaker'', TokenBreaker), (''timeout'', TokenTimeout), (''wait'', TokenWait),
     (''foreach'', TokenForeach), (''while'', TokenWhile), (''output'', TokenOutput),
     (''import'', TokenImport), (''include'', TokenInclude),
     (''compensate'', TokenCompensate), (''onError'', TokenOnError), (''emit'', TokenEmit),
     (''Start'', TokenStart), (''End'', TokenEnd), (''Return'', TokenReturn),
     (''success'', TokenSuccess), (''failure'', TokenFailure), (''grpc'', TokenGRPC),
     (''http'', TokenHTTP), (''kafka'', TokenKafka), (''redis'', TokenRedis),
     (''postgres'', TokenPostgres), (''tcp'', TokenTCP), (''version'', TokenVersion),
     (''true'', TokenBool), (''false'', TokenBool)]"

definition FilterNewlines :: "Token list \<Rightarrow> Token list" where
  "FilterNewlines tokens = filter (\<lambda>t. Type t \<noteq> TokenNewline) tokens"

text \<open>No keyword is lexed as a newline, an end-of-file, an error or a plain identifier.\<close>

lemma keywords_types:
  assumes "map_of keyword_table v = Some t"
  shows "t \<notin> {TokenIdent, TokenNewline, TokenEOF, TokenError}"
  using map_of_SomeD [OF assms] by (auto simp: keyword_table_def)

lemma set_FilterNewlines [simp]:
  "set (FilterNewlines ts) = {t \<in> set ts. Type t \<noteq> TokenNewline}"
  by (auto simp: FilterNewlines_def)

end
