(* ===== verification/Flow_Lexer.thy ===== *)
theory Flow_Lexer
  imports Flow_Token
begin

text \<open>
  The lexer of \<^verbatim>\<open>server/internal/flow/lexer.go\<close>.  The state is the \<^verbatim>\<open>Lexer\<close> struct; the input is
  a Go string, indexed by bytes, and a byte is converted to a rune before it is
  classified, so the character classes below are those of \<^verbatim>\<open>unicode.IsLetter\<close> and
  \<^verbatim>\<open>unicode.IsDigit\<close> on the code points 0 to 255.  An index out of range is a run-time panic of
  the code and the value \<open>LexPanic\<close> here.  The main loop need not end, so it is a
  \<^theory_text>\<open>partial_function (option)\<close> whose value \<^term>\<open>None\<close> is \<open>does not return\<close>.
\<close>

subsection \<open>State\<close>

record Lexer =
  input :: string
  pos :: nat
  line :: nat
  col :: nat
  tokens :: "Token list"

definition NewLexer :: "string \<Rightarrow> Lexer" where
  "NewLexer s = \<lparr>input = s, pos = 0, line = 1, col = 1, tokens = []\<rparr>"

definition mkToken :: "TokenType \<Rightarrow> string \<Rightarrow> Lexer \<Rightarrow> Token" where
  "mkToken t v l = \<lparr>Type = t, Value = v, Line = line l, Column = col l\<rparr>"

definition appendToken :: "TokenType \<Rightarrow> string \<Rightarrow> Lexer \<Rightarrow> Lexer" where
  "appendToken t v l = l\<lparr>tokens := tokens l @ [mkToken t v l]\<rparr>"

subsection \<open>Characters\<close>

definition isDigit :: "char \<Rightarrow> bool" where
  "isDigit c \<longleftrightarrow> (let n = of_char c :: nat in 48 \<le> n \<and> n \<le> 57)"

definition isLetter :: "char \<Rightarrow> bool" where
  "isLetter c \<longleftrightarrow> (let n = of_char c :: nat in
     65 \<le> n \<and> n \<le> 90 \<or> 97 \<le> n \<and> n \<le> 122 \<or> n = 170 \<or> n = 181 \<or> n = 186 \<or>
     192 \<le> n \<and> n \<le> 214 \<or> 216 \<le> n \<and> n \<le> 246 \<or> 248 \<le> n \<and> n \<le> 255)"

definition isIdentStart :: "char \<Rightarrow> bool" where
  "isIdentStart c \<longleftrightarrow> isLetter c \<or> c = CHR ''_''"

definition isIdentChar :: "char \<Rightarrow> bool" where
  "isIdentChar c \<longleftrightarrow>
     isLetter c \<or> isDigit c \<or> c = CHR ''_'' \<or> c = CHR ''.'' \<or> c = CHR ''-''"

abbreviation newline :: char where
  "newline \<equiv> CHR 0x0A"

abbreviation rune0 :: char where
  "rune0 \<equiv> CHR 0x00"

subsection \<open>Looking ahead and advancing\<close>

definition peekAt :: "Lexer \<Rightarrow> nat \<Rightarrow> char" where
  "peekAt l offset =
     (if pos l + offset \<ge> length (input l) then rune0 else input l ! (pos l + offset))"

definition peek :: "Lexer \<Rightarrow> char" where
  "peek l = (if pos l \<ge> length (input l) then rune0 else input l ! pos l)"

text \<open>
  \<open>skip n l\<close> is \<open>n\<close> calls of \<^verbatim>\<open>l.advance()\<close> where the code has checked that the
  characters exist; \<open>scan_while p s i\<close> is the loop that advances from index \<open>i\<close> while
  the current byte satisfies \<open>p\<close>.
\<close>

definition skip :: "nat \<Rightarrow> Lexer \<Rightarrow> Lexer" where
  "skip n l = l\<lparr>pos := pos l + n\<rparr>"

function scan_while :: "(char \<Rightarrow> bool) \<Rightarrow> string \<Rightarrow> nat \<Rightarrow> nat" where
  "scan_while p s i = (if i < length s \<and> p (s ! i) then scan_while p s (Suc i) else i)"
  by pat_completeness auto
termination
  by (relation "measure (\<lambda>(p, s, i). length s - i)") auto

declare scan_while.simps [simp del]

definition slice :: "string \<Rightarrow> nat \<Rightarrow> nat \<Rightarrow> string" where
  "slice s i j = take (j - i) (drop i s)"

subsection \<open>Whitespace and comments\<close>

definition isBlank :: "char \<Rightarrow> bool" where
  "isBlank c \<longleftrightarrow> c = CHR '' '' \<or> c = CHR 0x09 \<or> c = CHR 0x0D"

definition skipWhitespace :: "Lexer \<Rightarrow> Lexer" where
  "skipWhitespace l =
     (let p = scan_while isBlank (input l) (pos l)
      in l\<lparr>pos := p, col := col l + (p - pos l)\<rparr>)"

definition skipComment :: "Lexer \<Rightarrow> Lexer" where
  "skipComment l = l\<lparr>pos := scan_while (\<lambda>c. c \<noteq> newline) (input l) (pos l)\<rparr>"

text \<open>The loop of \<^verbatim>\<open>skipBlockComment\<close>, on position, line and column.\<close>

function blockLoop :: "string \<Rightarrow> nat \<Rightarrow> nat \<Rightarrow> nat \<Rightarrow> nat \<times> nat \<times> nat" where
  "blockLoop s p ln cl =
     (if Suc p < length s then
        if s ! p = CHR ''*'' \<and> s ! Suc p = CHR ''/'' then (p + 2, ln, cl)
        else if s ! p = newline then blockLoop s (Suc p) (Suc ln) 1
        else blockLoop s (Suc p) ln cl
      else (p, ln, cl))"
  by pat_completeness auto
termination
  by (relation "measure (\<lambda>(s, p, ln, cl). length s - p)") auto

declare blockLoop.simps [simp del]

definition skipBlockComment :: "Lexer \<Rightarrow> Lexer" where
  "skipBlockComment l =
     (case blockLoop (input l) (pos l + 2) (line l) (col l) of
        (p, ln, cl) \<Rightarrow> l\<lparr>pos := p, line := ln, col := cl\<rparr>)"

subsection \<open>Literals, versions and identifiers\<close>

definition addToken :: "TokenType \<Rightarrow> string \<Rightarrow> Lexer \<Rightarrow> Lexer" where
  "addToken t v l = (let l' = skip 1 (appendToken t v l) in l'\<lparr>col := col l' + 1\<rparr>)"

text \<open>
  The loop of \<^verbatim>\<open>readString\<close>: after a backslash it advances twice, and the second advance
  reads \<^verbatim>\<open>input[pos]\<close> without a bound check, so a backslash at the end of the input panics
  (\<^term>\<open>None\<close>).
\<close>

function stringLoop :: "char \<Rightarrow> string \<Rightarrow> nat \<Rightarrow> nat option" where
  "stringLoop quote s p =
     (if p < length s \<and> s ! p \<noteq> quote then
        if s ! p = CHR 0x5C then
          (if Suc p < length s then stringLoop quote s (p + 2) else None)
        else stringLoop quote s (Suc p)
      else Some p)"
  by pat_completeness auto
termination
  by (relation "measure (\<lambda>(q, s, p). length s - p)") auto

declare stringLoop.simps [simp del]

definition readString :: "Lexer \<Rightarrow> Lexer option" where
  "readString l =
     (let quote = input l ! pos l; start = pos l + 1 in
      case stringLoop quote (input l) start of
        None \<Rightarrow> None
      | Some p \<Rightarrow>
          (if p \<ge> length (input l) then
             Some ((appendToken TokenError ''unclosed string'' l)\<lparr>pos := length (input l)\<rparr>)
           else
             let l' = appendToken TokenString (slice (input l) start p) l;
                 q = p + 1
             in Some (l'\<lparr>pos := q, col := col l + (q - start + 2)\<rparr>)))"

definition emitSlice :: "TokenType \<Rightarrow> nat \<Rightarrow> Lexer \<Rightarrow> Lexer" where
  "emitSlice t p l =
     (appendToken t (slice (input l) (pos l) p) l)\<lparr>pos := p, col := col l + (p - pos l)\<rparr>"

text \<open>
  The type and end of a number whose digits end at \<open>p\<close>: the check for a duration suffix
  (\<^verbatim>\<open>ms\<close> first, then one letter not followed by an identifier character).
\<close>

definition numberSuffix :: "string \<Rightarrow> nat \<Rightarrow> TokenType \<times> nat" where
  "numberSuffix s p =
     (if p < length s then
        let ch = s ! p; ch2 = (if p + 1 < length s then s ! (p + 1) else rune0) in
        if ch = CHR ''m'' \<and> ch2 = CHR ''s'' then (TokenDuration, p + 2)
        else if ch \<in> set ''smhdwMy'' \<and>
                (p + 1 \<ge> length s \<or> \<not> isIdentChar (s ! (p + 1)))
        then (TokenDuration, p + 1)
        else (TokenNumber, p)
      else (TokenNumber, p))"

definition readNumber :: "Lexer \<Rightarrow> Lexer" where
  "readNumber l =
     (let s = input l; start = pos l;
          first = (if s ! start = CHR ''-'' then start + 1 else start);
          p = scan_while (\<lambda>c. isDigit c \<or> c = CHR ''.'') s first
      in case numberSuffix s p of (t, q) \<Rightarrow> emitSlice t q l)"

definition readVersion :: "Lexer \<Rightarrow> Lexer" where
  "readVersion l =
     emitSlice TokenVersion
       (scan_while (\<lambda>c. c = CHR ''.'' \<or> isDigit c) (input l) (pos l)) l"

definition readIdent :: "Lexer \<Rightarrow> Lexer" where
  "readIdent l =
     (let p = scan_while isIdentChar (input l) (pos l);
          v = slice (input l) (pos l) p;
          t = (case map_of keyword_table v of Some k \<Rightarrow> k | None \<Rightarrow> TokenIdent)
      in emitSlice t p l)"

text \<open>One operator token of \<open>n\<close> characters, as the branches of \<^verbatim>\<open>Tokenize\<close> append it.\<close>

definition operator :: "TokenType \<Rightarrow> string \<Rightarrow> nat \<Rightarrow> Lexer \<Rightarrow> Lexer" where
  "operator t v n l = (let l' = skip n (appendToken t v l) in l'\<lparr>col := col l' + n\<rparr>)"

subsection \<open>The main loop\<close>

datatype lex_error =
    UnexpectedChar char nat nat
  | ErrorToken string nat nat

text \<open>
  What one iteration of the loop of \<^verbatim>\<open>Tokenize\<close> does: continue with a new state, leave the
  loop (\<open>break\<close>), return an error, or panic.
\<close>

datatype lex_step = Continue Lexer | Break Lexer | Fail lex_error | StepPanic

definition lexDelimiter :: "char \<Rightarrow> (TokenType \<times> string) option" where
  "lexDelimiter ch =
     (if ch = CHR ''('' then Some (TokenLParen, ''('')
      else if ch = CHR '')'' then Some (TokenRParen, '')'')
      else if ch = CHR ''{'' then Some (TokenLBrace, ''{'')
      else if ch = CHR ''}'' then Some (TokenRBrace, ''}'')
      else if ch = CHR ''['' then Some (TokenLBracket, ''['')
      else if ch = CHR '']'' then Some (TokenRBracket, '']'')
      else if ch = CHR '':'' then Some (TokenColon, '':'')
      else if ch = CHR '','' then Some (TokenComma, '','')
      else if ch = CHR ''.'' then Some (TokenDot, ''.'')
      else if ch = CHR ''$'' then Some (TokenDollar, ''$'')
      else if ch = CHR ''@'' then Some (TokenAt, ''@'')
      else None)"

definition lexOperator :: "char \<Rightarrow> char \<Rightarrow> (TokenType \<times> string) option" where
  "lexOperator ch ch1 =
     (if ch = CHR ''-'' \<and> ch1 = CHR ''>'' then Some (TokenArrow, ''->'')
      else if ch = CHR ''='' \<and> ch1 \<noteq> CHR ''='' then Some (TokenEquals, ''='')
      else if ch = CHR ''!'' \<and> ch1 = CHR ''='' then Some (TokenNotEquals, ''!='')
      else if ch = CHR ''<'' \<and> ch1 = CHR ''='' then Some (TokenLE, ''<='')
      else if ch = CHR ''>'' \<and> ch1 = CHR ''='' then Some (TokenGE, ''>='')
      else if ch = CHR ''<'' then Some (TokenLess, ''<'')
      else if ch = CHR ''>'' then Some (TokenGreater, ''>'')
      else if ch = CHR ''&'' \<and> ch1 = CHR ''&'' then Some (TokenAnd, ''&&'')
      else if ch = CHR ''|'' \<and> ch1 = CHR ''|'' then Some (TokenOr, ''||'')
      else if ch = CHR ''!'' then Some (TokenNot, ''!'')
      else None)"

definition lexDefault :: "Lexer \<Rightarrow> lex_step" where
  "lexDefault l =
     (let ch = peek l in
      if ch = CHR 0x22 \<or> ch = CHR 0x27 then
        (case readString l of None \<Rightarrow> StepPanic | Some l' \<Rightarrow> Continue l')
      else if isDigit ch \<or> ch = CHR ''-'' \<and> isDigit (peekAt l 1) then Continue (readNumber l)
      else if ch = CHR ''v'' \<and> peekAt l 1 = CHR ''.'' then Continue (readVersion l)
      else if isIdentStart ch then Continue (readIdent l)
      else Fail (UnexpectedChar ch (line l) (col l)))"

definition tokenizeStep :: "Lexer \<Rightarrow> lex_step" where
  "tokenizeStep l0 =
     (let l = skipWhitespace l0 in
      if pos l \<ge> length (input l) then Break l
      else
        let ch = peek l; ch1 = peekAt l 1 in
        if ch = CHR ''#'' \<or> ch = CHR ''/'' \<and> ch1 = CHR ''/'' then Continue (skipComment l)
        else if ch = CHR ''/'' \<and> ch1 = CHR ''*'' then Continue (skipBlockComment l)
        else if ch = newline then
          Continue ((skip 1 (appendToken TokenNewline [newline] l))
                      \<lparr>line := line l + 1, col := 1\<rparr>)
        else case lexOperator ch ch1 of
          Some (t, v) \<Rightarrow> Continue (operator t v (length v) l)
        | None \<Rightarrow>
           (case lexDelimiter ch of
              Some (t, v) \<Rightarrow> Continue (addToken t v l)
            | None \<Rightarrow> lexDefault l))"

datatype lex_result = LexOk "Token list" | LexErr lex_error | LexPanic

definition finishTokens :: "Lexer \<Rightarrow> lex_result" where
  "finishTokens l =
     (let toks = tokens l @ [mkToken TokenEOF [] l] in
      case find (\<lambda>t. Type t = TokenError) toks of
        Some t \<Rightarrow> LexErr (ErrorToken (Value t) (Line t) (Column t))
      | None \<Rightarrow> LexOk toks)"

partial_function (option) tokenizeLoop :: "Lexer \<Rightarrow> lex_result option" where
  "tokenizeLoop l =
     (if pos l < length (input l) then
        (case tokenizeStep l of
           Continue l' \<Rightarrow> tokenizeLoop l'
         | Break l' \<Rightarrow> Some (finishTokens l')
         | Fail e \<Rightarrow> Some (LexErr e)
         | StepPanic \<Rightarrow> Some LexPanic)
      else Some (finishTokens l))"

declare tokenizeLoop.simps [code]

definition Tokenize :: "string \<Rightarrow> lex_result option" where
  "Tokenize s = tokenizeLoop (NewLexer s)"

subsection \<open>Inputs without a version marker\<close>


fun vdot_free :: "string \<Rightarrow> bool" where
  "vdot_free (a # b # s) \<longleftrightarrow> \<not> (a = CHR ''v'' \<and> b = CHR ''.'') \<and> vdot_free (b # s)"
| "vdot_free _ \<longleftrightarrow> True"

lemma vdot_free_nth:
  "vdot_free s \<Longrightarrow> Suc i < length s \<Longrightarrow> s ! i = CHR ''v'' \<Longrightarrow> s ! Suc i \<noteq> CHR ''.''"
proof (induction s arbitrary: i rule: vdot_free.induct)
  case (1 a b s)
  then show ?case by (cases i) auto
qed auto

lemma scan_while_ge: "i \<le> scan_while p s i"
proof (induction p s i rule: scan_while.induct)
  case (1 p s i)
  then show ?case by (subst scan_while.simps) auto
qed

lemma scan_while_le: "i \<le> length s \<Longrightarrow> scan_while p s i \<le> length s"
proof (induction p s i rule: scan_while.induct)
  case (1 p s i)
  then show ?case by (subst scan_while.simps) auto
qed

lemma scan_while_gt: "i < length s \<Longrightarrow> p (s ! i) \<Longrightarrow> i < scan_while p s i"
  using scan_while_ge [of "Suc i" p s] by (subst scan_while.simps) simp

lemma scan_while_stop: "i \<ge> length s \<or> \<not> p (s ! i) \<Longrightarrow> scan_while p s i = i"
  by (subst scan_while.simps) auto

lemma blockLoop_ge: "blockLoop s p ln cl = (p', ln', cl') \<Longrightarrow> p \<le> p'"
proof (induction s p ln cl rule: blockLoop.induct)
  case (1 s p ln cl)
  from "1.prems" show ?case
    by (subst (asm) blockLoop.simps) (auto split: if_splits dest: "1.IH")
qed

lemma stringLoop_ge: "stringLoop q s p = Some p' \<Longrightarrow> p \<le> p'"
proof (induction q s p rule: stringLoop.induct)
  case (1 q s p)
  from "1.prems" show ?case
    by (subst (asm) stringLoop.simps) (use "1.IH" [simplified] in \<open>force split: if_splits\<close>)
qed

lemma stringLoop_total:
  "s \<noteq> [] \<Longrightarrow> last s \<noteq> CHR 0x5C \<Longrightarrow> stringLoop q s p \<noteq> None"
proof (induction q s p rule: stringLoop.induct)
  case (1 q s p)
  have *: "Suc p < length s" if "p < length s" "s ! p = CHR 0x5C"
  proof (rule ccontr)
    assume "\<not> Suc p < length s"
    with that have "p = length s - 1" by simp
    with that "1.prems" show False by (simp add: last_conv_nth)
  qed
  from "1.prems" * show ?case
    by (subst stringLoop.simps) (use "1.IH" [simplified] in auto)
qed

subsection \<open>Frame and progress\<close>

lemmas lexer_defs = skip_def appendToken_def emitSlice_def operator_def addToken_def Let_def

lemma input_skipWhitespace [simp]: "input (skipWhitespace l) = input l"
  by (simp add: skipWhitespace_def Let_def)

lemma pos_skipWhitespace: "pos l \<le> pos (skipWhitespace l)"
  by (simp add: skipWhitespace_def Let_def scan_while_ge)

lemma tokens_skipWhitespace [simp]: "tokens (skipWhitespace l) = tokens l"
  by (simp add: skipWhitespace_def Let_def)

lemma numberSuffix_ge: "numberSuffix s p = (t, q) \<Longrightarrow> p \<le> q"
  by (auto simp: numberSuffix_def Let_def split: if_splits)

lemma numberSuffix_type: "numberSuffix s p = (t, q) \<Longrightarrow> t = TokenDuration \<or> t = TokenNumber"
  by (auto simp: numberSuffix_def Let_def split: if_splits)

lemma number_digits_gt:
  assumes "i < length s" and "isDigit (s ! i) \<or> s ! i = CHR ''-''"
  shows "i < scan_while (\<lambda>c. isDigit c \<or> c = CHR ''.'') s (if s ! i = CHR ''-'' then i + 1 else i)"
  using assms scan_while_ge [of "Suc i" "\<lambda>c. isDigit c \<or> c = CHR ''.''" s]
  by (auto intro: scan_while_gt)

lemma readNumber_progress:
  assumes "pos l < length (input l)"
    and "isDigit (peek l) \<or> peek l = CHR ''-'' \<and> isDigit (peekAt l 1)"
  shows "input (readNumber l) = input l \<and> pos l < pos (readNumber l)"
  using number_digits_gt [of "pos l" "input l"] assms
  by (auto simp: readNumber_def emitSlice_def appendToken_def Let_def peek_def
      split: prod.splits dest!: numberSuffix_ge)

lemma readIdent_progress:
  assumes "pos l < length (input l)" and "isIdentStart (peek l)"
  shows "input (readIdent l) = input l \<and> pos l < pos (readIdent l)"
proof -
  from assms have "isIdentChar (input l ! pos l)"
    by (auto simp: peek_def isIdentStart_def isIdentChar_def)
  with assms(1) show ?thesis
    by (simp add: readIdent_def lexer_defs scan_while_gt)
qed

lemma readString_progress:
  assumes "pos l < length (input l)" and "readString l = Some l'"
  shows "input l' = input l \<and> pos l < pos l'"
  using assms
  by (auto simp: readString_def lexer_defs dest: stringLoop_ge split: option.splits if_splits)

lemma lexDefault_cases:
  assumes "lexDefault l = Continue l'"
  obtains (string) "readString l = Some l'"
  | (number) "isDigit (peek l) \<or> peek l = CHR ''-'' \<and> isDigit (peekAt l 1)" "l' = readNumber l"
  | (version) "peek l = CHR ''v'' \<and> peekAt l 1 = CHR ''.''" "l' = readVersion l"
  | (ident) "isIdentStart (peek l)" "l' = readIdent l"
  using assms unfolding lexDefault_def Let_def
  by (simp split: if_split_asm option.split_asm)

lemma lexDefault_progress:
  assumes "pos l < length (input l)" and "lexDefault l = Continue l'"
    and "\<not> (peek l = CHR ''v'' \<and> peekAt l 1 = CHR ''.'')"
  shows "input l' = input l \<and> pos l < pos l'"
  using assms(2)
proof (cases rule: lexDefault_cases)
  case string
  with assms(1) show ?thesis by (rule readString_progress)
next
  case number
  with assms(1) show ?thesis by (simp add: readNumber_progress)
next
  case version
  with assms(3) show ?thesis by simp
next
  case ident
  with assms(1) show ?thesis by (simp add: readIdent_progress)
qed

lemma lexOperator_length: "lexOperator c d = Some (t, v) \<Longrightarrow> 0 < length v"
  by (auto simp: lexOperator_def split: if_splits)

lemma skipComment_progress:
  assumes "pos l < length (input l)" and "peek l \<noteq> newline"
  shows "pos l < pos (skipComment l)"
  using assms by (simp add: skipComment_def peek_def scan_while_gt)

lemma skipBlockComment_progress: "pos l < pos (skipBlockComment l)"
  by (auto simp: skipBlockComment_def dest: blockLoop_ge split: prod.splits)

lemma input_skipComments [simp]:
  "input (skipComment l) = input l" "input (skipBlockComment l) = input l"
  by (auto simp: skipComment_def skipBlockComment_def split: prod.splits)

lemma tokens_skipComments [simp]:
  "tokens (skipComment l) = tokens l" "tokens (skipBlockComment l) = tokens l"
  by (auto simp: skipComment_def skipBlockComment_def split: prod.splits)

lemma tokenizeStep_cases:
  assumes "tokenizeStep l = Continue l'"
  obtains (range) "pos (skipWhitespace l) < length (input l)"
    and "l' = skipComment (skipWhitespace l) \<and> peek (skipWhitespace l) \<noteq> newline \<or>
      l' = skipBlockComment (skipWhitespace l) \<or>
      l' = (skip 1 (appendToken TokenNewline [newline] (skipWhitespace l)))
             \<lparr>line := line (skipWhitespace l) + 1, col := 1\<rparr> \<or>
      (\<exists>t v. lexOperator (peek (skipWhitespace l)) (peekAt (skipWhitespace l) 1) = Some (t, v) \<and>
         l' = operator t v (length v) (skipWhitespace l)) \<or>
      (\<exists>t v. lexDelimiter (peek (skipWhitespace l)) = Some (t, v) \<and>
         l' = addToken t v (skipWhitespace l)) \<or>
      lexDefault (skipWhitespace l) = Continue l'"
  using assms that
  by (simp add: tokenizeStep_def Let_def not_le split: if_split_asm option.split_asm prod.split_asm)
    auto

lemma tokenizeStep_progress:
  assumes "vdot_free (input l)" and "tokenizeStep l = Continue l'"
  shows "input l' = input l \<and> pos l < pos l'"
  using assms(2)
proof (cases rule: tokenizeStep_cases)
  case range
  let ?l = "skipWhitespace l"
  from range(1) have in_range: "pos ?l < length (input ?l)" by simp
  have no_v: "\<not> (peek ?l = CHR ''v'' \<and> peekAt ?l 1 = CHR ''.'')"
    using vdot_free_nth [OF assms(1), of "pos ?l"] in_range
    by (auto simp: peek_def peekAt_def split: if_splits)
  from range(2) have "input l' = input ?l \<and> pos ?l < pos l'"
    by (elim disjE)
      (auto simp: lexer_defs in_range skipBlockComment_progress
        intro: skipComment_progress [OF in_range] dest: lexOperator_length
          lexDefault_progress [OF in_range _ no_v])
  with pos_skipWhitespace [of l] show ?thesis by simp
qed

lemma tokenizeLoop_terminates: "vdot_free (input l) \<Longrightarrow> \<exists>r. tokenizeLoop l = Some r"
proof (induction "length (input l) - pos l" arbitrary: l rule: less_induct)
  case less
  show ?case
  proof (cases "pos l < length (input l) \<and> (\<exists>l'. tokenizeStep l = Continue l')")
    case True
    then obtain l' where l': "tokenizeStep l = Continue l'" and lt: "pos l < length (input l)" by blast
    from tokenizeStep_progress [OF less.prems l'] have "input l' = input l" "pos l < pos l'" by auto
    with less.hyps [of l'] less.prems lt obtain r where "tokenizeLoop l' = Some r" by fastforce
    with l' lt show ?thesis by (subst tokenizeLoop.simps) simp
  next
    case False
    then show ?thesis
      by (subst tokenizeLoop.simps) (auto split: lex_step.splits)
  qed
qed


text \<open>
  The rule for facts about what the loop returns: \<open>Q\<close> is kept by every iteration, and \<open>R\<close>
  holds of each way to leave the loop from a state that satisfies \<open>Q\<close>.
\<close>

lemma tokenizeLoop_rule:
  assumes "tokenizeLoop l = Some r" and "Q l"
    and step: "\<And>l l'. Q l \<Longrightarrow> tokenizeStep l = Continue l' \<Longrightarrow> Q l'"
    and stop: "\<And>l. Q l \<Longrightarrow> \<not> pos l < length (input l) \<Longrightarrow> R (finishTokens l)"
    and break: "\<And>l l'. Q l \<Longrightarrow> tokenizeStep l = Break l' \<Longrightarrow> R (finishTokens l')"
    and fail: "\<And>l e. Q l \<Longrightarrow> tokenizeStep l = Fail e \<Longrightarrow> R (LexErr e)"
    and panic: "\<And>l. Q l \<Longrightarrow> tokenizeStep l = StepPanic \<Longrightarrow> R LexPanic"
  shows "R r"
proof -
  have "Q l \<longrightarrow> R r"
    using assms(1)
  proof (rule tokenizeLoop.raw_induct [where P = "\<lambda>l r. Q l \<longrightarrow> R r", rotated])
    fix loop l r
    assume IH: "\<And>l r. loop l = Some r \<Longrightarrow> Q l \<longrightarrow> R r"
      and eq: "(if pos l < length (input l) then
         case tokenizeStep l of Continue l' \<Rightarrow> loop l' | Break l' \<Rightarrow> Some (finishTokens l')
         | Fail e \<Rightarrow> Some (LexErr e) | StepPanic \<Rightarrow> Some LexPanic
         else Some (finishTokens l)) = Some r"
    show "Q l \<longrightarrow> R r"
    proof
      assume q: "Q l"
      show "R r"
      proof (cases "pos l < length (input l)")
        case True
        with eq show ?thesis
          by (cases "tokenizeStep l") (use IH q step break fail panic in auto)
      next
        case False
        with eq q stop show ?thesis by auto
      qed
    qed
  qed
  with assms(2) show ?thesis by simp
qed

subsection \<open>The lexer stuck on a version\<close>

definition at_version :: "Lexer \<Rightarrow> bool" where
  "at_version l \<longleftrightarrow> Suc (pos l) < length (input l) \<and>
     input l ! pos l = CHR ''v'' \<and> input l ! Suc (pos l) = CHR ''.''"

lemma readVersion_stuck: "at_version l \<Longrightarrow> at_version (readVersion l)"
  by (simp add: at_version_def readVersion_def emitSlice_def appendToken_def
      scan_while_stop isDigit_def)

lemma skipWhitespace_stuck: "at_version l \<Longrightarrow> skipWhitespace l = l"
  by (simp add: at_version_def skipWhitespace_def scan_while_stop isBlank_def)

lemma tokenizeStep_stuck: "at_version l \<Longrightarrow> tokenizeStep l = Continue (readVersion l)"
  by (auto simp: tokenizeStep_def skipWhitespace_stuck lexDefault_def Let_def peek_def peekAt_def
      at_version_def lexOperator_def lexDelimiter_def isDigit_def)

lemma tokenizeLoop_stuck:
  assumes "at_version l"
  shows "tokenizeLoop l = None"
proof (cases "tokenizeLoop l")
  case (Some r)
  then have False
    by (rule tokenizeLoop_rule [where Q = at_version])
      (use assms in \<open>auto simp: tokenizeStep_stuck readVersion_stuck, simp add: at_version_def\<close>)
  then show ?thesis ..
qed

subsection \<open>The token stream\<close>

text \<open>
  What the main loop appends: no end-of-file token, and identifier tokens only for words that
  are not keywords.
\<close>

definition lexed :: "TokenType \<Rightarrow> string \<Rightarrow> bool" where
  "lexed t v \<longleftrightarrow> t \<noteq> TokenEOF \<and> (t = TokenIdent \<longrightarrow> map_of keyword_table v = None)"

definition tokens_ok :: "Lexer \<Rightarrow> bool" where
  "tokens_ok l \<longleftrightarrow> (\<forall>t \<in> set (tokens l). lexed (Type t) (Value t))"

lemma tokens_ok_append:
  "lexed t v \<Longrightarrow> tokens_ok l \<Longrightarrow> tokens_ok (appendToken t v l)"
  by (auto simp: tokens_ok_def appendToken_def mkToken_def)

lemma tokens_ok_upd [simp]:
  "tokens_ok (l\<lparr>pos := p\<rparr>) = tokens_ok l" "tokens_ok (l\<lparr>line := n\<rparr>) = tokens_ok l"
  "tokens_ok (l\<lparr>col := n\<rparr>) = tokens_ok l" "tokens_ok (skip n l) = tokens_ok l"
  "tokens_ok (skipWhitespace l) = tokens_ok l" "tokens_ok (skipComment l) = tokens_ok l"
  "tokens_ok (skipBlockComment l) = tokens_ok l"
  by (simp_all add: tokens_ok_def skip_def)

lemma tokens_ok_emit:
  "lexed t (slice (input l) (pos l) p) \<Longrightarrow> tokens_ok l \<Longrightarrow> tokens_ok (emitSlice t p l)"
  by (simp add: emitSlice_def tokens_ok_append)

lemma lexDefault_tokens_ok:
  assumes "tokens_ok l" and "lexDefault l = Continue l'"
  shows "tokens_ok l'"
  using assms(2)
proof (cases rule: lexDefault_cases)
  case string
  then show ?thesis using assms(1)
    by (auto simp: readString_def Let_def tokens_ok_append lexed_def split: option.splits if_splits)
next
  case number
  then show ?thesis using assms(1)
    by (auto simp: readNumber_def Let_def tokens_ok_emit lexed_def dest!: numberSuffix_type split: prod.splits)
next
  case version
  then show ?thesis using assms(1) by (simp add: readVersion_def tokens_ok_emit lexed_def)
next
  case ident
  then show ?thesis using assms(1) keywords_types
    by (auto simp: readIdent_def Let_def lexed_def intro!: tokens_ok_emit split: option.splits)
qed

lemma lexOperator_type: "lexOperator c d = Some (t, v) \<Longrightarrow> lexed t v"
  by (auto simp: lexed_def lexOperator_def split: if_splits)

lemma lexDelimiter_type: "lexDelimiter c = Some (t, v) \<Longrightarrow> lexed t v"
  by (auto simp: lexed_def lexDelimiter_def split: if_splits)

lemma tokenizeStep_tokens_ok:
  assumes "tokens_ok l" and "tokenizeStep l = Continue l'"
  shows "tokens_ok l'"
  using assms(2)
proof (cases rule: tokenizeStep_cases)
  case range
  from range(2) assms(1) show ?thesis
    by (elim disjE)
      (auto simp: operator_def addToken_def Let_def tokens_ok_append lexed_def [of TokenNewline]
        dest: lexOperator_type lexDelimiter_type lexDefault_tokens_ok [rotated])
qed

lemma lexDefault_not_Break: "lexDefault l \<noteq> Break l'"
  by (simp add: lexDefault_def Let_def split: option.split)

lemma tokenizeStep_Break: "tokenizeStep l = Break l' \<Longrightarrow> l' = skipWhitespace l"
  by (simp add: tokenizeStep_def Let_def lexDefault_not_Break
      split: if_split_asm option.split_asm prod.split_asm)

text \<open>A token list as the parser needs it: one end-of-file token, at the end.\<close>

definition eof_terminated :: "Token list \<Rightarrow> bool" where
  "eof_terminated ts \<longleftrightarrow> ts \<noteq> [] \<and> Type (last ts) = TokenEOF \<and>
     (\<forall>t \<in> set (butlast ts). Type t \<noteq> TokenEOF)"

definition no_keyword_ident :: "Token \<Rightarrow> bool" where
  "no_keyword_ident t \<longleftrightarrow> (Type t = TokenIdent \<longrightarrow> map_of keyword_table (Value t) = None)"

lemma finishTokens_LexOk:
  assumes "tokens_ok l" and "finishTokens l = LexOk ts"
  shows "eof_terminated ts \<and> (\<forall>t \<in> set ts. Type t \<noteq> TokenError \<and> no_keyword_ident t)"
  using assms
  by (auto simp: finishTokens_def eof_terminated_def tokens_ok_def lexed_def no_keyword_ident_def
      mkToken_def Let_def
      find_None_iff split: option.splits)

lemma tokenizeLoop_LexOk:
  assumes "tokenizeLoop l = Some (LexOk ts)" and "tokens_ok l"
  shows "eof_terminated ts \<and> (\<forall>t \<in> set ts. Type t \<noteq> TokenError \<and> no_keyword_ident t)"
proof -
  let ?R = "\<lambda>r. \<forall>ts. r = LexOk ts \<longrightarrow> eof_terminated ts \<and> (\<forall>t \<in> set ts. Type t \<noteq> TokenError \<and> no_keyword_ident t)"
  from assms(1) have "?R (LexOk ts)"
    by (rule tokenizeLoop_rule [where Q = tokens_ok and R = ?R])
      (auto simp: assms(2) dest: tokenizeStep_tokens_ok dest!: tokenizeStep_Break finishTokens_LexOk [rotated])
  then show ?thesis by simp
qed

subsection \<open>Panics\<close>

lemma readString_total:
  assumes "input l \<noteq> []" and "last (input l) \<noteq> CHR 0x5C"
  shows "readString l \<noteq> None"
  using stringLoop_total [OF assms, of "input l ! pos l" "pos l + 1"]
  by (simp add: readString_def Let_def split: option.split)

lemma lexDefault_no_panic:
  assumes "input l \<noteq> []" and "last (input l) \<noteq> CHR 0x5C"
  shows "lexDefault l \<noteq> StepPanic"
proof -
  from readString_total [OF assms] obtain l' where "readString l = Some l'" by blast
  then show ?thesis by (simp add: lexDefault_def Let_def)
qed

lemma tokenizeStep_no_panic:
  "input l \<noteq> [] \<Longrightarrow> last (input l) \<noteq> CHR 0x5C \<Longrightarrow> tokenizeStep l \<noteq> StepPanic"
  using lexDefault_no_panic [of "skipWhitespace l"]
  by (simp add: tokenizeStep_def Let_def split: option.split)

lemma input_lexDefault: "lexDefault l = Continue l' \<Longrightarrow> input l' = input l"
  by (erule lexDefault_cases)
    (auto simp: readString_def readNumber_def readVersion_def readIdent_def lexer_defs
      split: option.splits if_splits prod.splits)

lemma input_tokenizeStep: "tokenizeStep l = Continue l' \<Longrightarrow> input l' = input l"
  by (erule tokenizeStep_cases) (auto simp: lexer_defs dest: input_lexDefault)

lemma finishTokens_not_panic: "finishTokens l \<noteq> LexPanic"
  by (simp add: finishTokens_def Let_def split: option.split)

lemma tokenizeLoop_no_panic:
  assumes "tokenizeLoop l = Some r" and "input l = [] \<or> last (input l) \<noteq> CHR 0x5C"
  shows "r \<noteq> LexPanic"
proof (cases "input l = []")
  case True
  with assms(1) show ?thesis by (subst (asm) tokenizeLoop.simps) (auto simp: finishTokens_not_panic)
next
  case False
  let ?Q = "\<lambda>l. input l \<noteq> [] \<and> last (input l) \<noteq> CHR 0x5C"
  from assms(1) show ?thesis
    by (rule tokenizeLoop_rule [where Q = ?Q])
      (use False assms(2) in \<open>auto dest: input_tokenizeStep tokenizeStep_no_panic
         simp: finishTokens_not_panic\<close>)
qed

subsection \<open>Properties\<close>

text \<open>
  On every input that does not contain the two characters \<^verbatim>\<open>v.\<close> next to each other the
  main loop of \<^verbatim>\<open>Tokenize\<close> ends: every iteration consumes a character.
\<close>

lemma Tokenize_terminates: "vdot_free s \<Longrightarrow> \<exists>r. Tokenize s = Some r"
  unfolding Tokenize_def by (rule tokenizeLoop_terminates) (simp add: NewLexer_def)

text \<open>
  On an input that starts with \<^verbatim>\<open>v.\<close> the lexer never returns: \<^verbatim>\<open>readVersion\<close> stops at the
  \<^verbatim>\<open>v\<close> without consuming it, and the loop dispatches to it again.
\<close>

lemma Tokenize_version_diverges: "Tokenize (''v.'' @ s) = None"
  unfolding Tokenize_def by (rule tokenizeLoop_stuck) (simp add: at_version_def NewLexer_def)

text \<open>
  A token slice \<^verbatim>\<open>Tokenize\<close> returns ends with the end-of-file token and has no other one,
  contains no error token, and no identifier token in it spells a keyword.
\<close>

lemma Tokenize_stream:
  assumes "Tokenize s = Some (LexOk ts)"
  shows "eof_terminated ts \<and> (\<forall>t \<in> set ts. Type t \<noteq> TokenError \<and> no_keyword_ident t)"
  using tokenizeLoop_LexOk [of "NewLexer s" ts] assms
  by (simp add: Tokenize_def tokens_ok_def NewLexer_def)

text \<open>
  \<^verbatim>\<open>Tokenize\<close> does not panic on an input that does not end in a backslash: every index
  into the input is checked or guarded.
\<close>

lemma Tokenize_no_panic:
  assumes "s = [] \<or> last s \<noteq> CHR 0x5C"
  shows "Tokenize s \<noteq> Some LexPanic"
  using assms tokenizeLoop_no_panic [of "NewLexer s"] by (auto simp: Tokenize_def NewLexer_def)

text \<open>
  An unterminated string literal that ends in a backslash makes \<^verbatim>\<open>Tokenize\<close> panic: the
  escape in \<^verbatim>\<open>readString\<close> skips past the end of the input before slicing it.
\<close>

lemma Tokenize_backslash_panics: "Tokenize [CHR 0x22, CHR 0x5C] = Some LexPanic"
  by code_simp

end
