(* ===== verification/Flow_AST.thy ===== *)
theory Flow_AST
  imports Prelude
begin

text \<open>
  The abstract syntax of \<^verbatim>\<open>server/internal/flow/ast.go\<close>.  A struct is a record, the interface
  \<^verbatim>\<open>WorkflowStep\<close> with its nine implementations is a datatype (with \<^verbatim>\<open>CaseBlock\<close>, whose steps it
  nests), a nil pointer is \<^term>\<open>None\<close>, and the \<^verbatim>\<open>interface{}\<close> value of a service option is the
  datatype of the four types the parser stores in it.
\<close>

record Metadata =
  md_Name :: string
  md_Description :: string
  md_Tags :: "string list"

record Trigger =
  tr_Type :: string
  tr_Topic :: string
  tr_Schema :: "(string, string) gomap"
  tr_Path :: string
  tr_Cron :: string
  tr_Method :: string

record Import =
  imp_Path :: string
  imp_As :: string
  imp_Line :: nat

record Variable =
  var_Name :: string
  var_Type :: string
  var_Line :: nat

record Constant =
  const_Name :: string
  const_Value :: string
  const_Line :: nat

datatype OptionValue =
    OptString string
  | OptList "string list"
  | OptMap "(string, string) gomap"
  | OptBool bool

record ServiceOption =
  opt_Key :: string
  opt_Value :: OptionValue
  opt_Line :: nat

record Service =
  svc_Name :: string
  svc_Type :: string
  svc_Options :: "ServiceOption list"
  svc_Line :: nat

record Event =
  evt_Name :: string
  evt_Payload :: string
  evt_Line :: nat

text \<open>Arguments in the order of the Go fields; the last one is the line.\<close>

datatype WorkflowStep =
    StepRef string nat
  | IfBlock string "WorkflowStep list" "WorkflowStep list" nat
  | SwitchBlock string "CaseBlock list" "WorkflowStep list" nat
  | ParallelBlock "WorkflowStep list" nat
  | WaitBlock string string nat
  | ForeachLoop string "WorkflowStep list" nat
  | WhileLoop string "WorkflowStep list" nat
  | EmitEvent string nat
  | ReturnStep string nat
and CaseBlock = CaseBlock (case_Value: string) (case_Steps: "WorkflowStep list") (case_Line: nat)

record Output =
  out_Name :: string
  out_Line :: nat

record RetryPolicy =
  rp_Attempts :: int
  rp_Backoff :: string
  rp_Delay :: string
  rp_MaxDelay :: string
  rp_Line :: nat

record BreakerConfig =
  br_FailureRate :: int
  br_Window :: int
  br_Cooldown :: string
  br_Line :: nat

record ErrorCase =
  ec_ErrorType :: string
  ec_Steps :: "WorkflowStep list"
  ec_Line :: nat

record ErrorBlock =
  eb_Cases :: "ErrorCase list"
  eb_Fallback :: "WorkflowStep list"
  eb_Line :: nat

record CompensateStep =
  cs_Step :: string
  cs_Compensation :: string
  cs_Line :: nat

record Flow =
  fl_Metadata :: Metadata
  fl_Imports :: "Import list"
  fl_Variables :: "Variable list"
  fl_Constants :: "Constant list"
  fl_Services :: "Service list"
  fl_Events :: "Event list"
  fl_Trigger :: "Trigger option"
  fl_Workflow :: "WorkflowStep list option"
  fl_Outputs :: "Output list"
  fl_Retry :: "RetryPolicy option"
  fl_Breaker :: "BreakerConfig option"
  fl_Timeout :: string
  fl_Errors :: "ErrorBlock option"
  fl_Compensate :: "CompensateStep list"

definition emptyFlow :: Flow where
  "emptyFlow = \<lparr>fl_Metadata = \<lparr>md_Name = [], md_Description = [], md_Tags = []\<rparr>,
     fl_Imports = [], fl_Variables = [], fl_Constants = [], fl_Services = [], fl_Events = [],
     fl_Trigger = None, fl_Workflow = None, fl_Outputs = [], fl_Retry = None,
     fl_Breaker = None, fl_Timeout = [], fl_Errors = None, fl_Compensate = []\<rparr>"

end
