(* ===== verification/Flow_Parser.thy ===== *)
theory Flow_Parser
  imports Flow_Lexer Flow_AST
begin

text \<open>
  The recursive-descent parser of \<^verbatim>\<open>server/internal/flow/parser.go\<close>.  The parser's state is the
  pair of its token slice and an index that only grows, so it is represented by the
  remaining tokens \<^verbatim>\<open>tokens[pos:]\<close>.  \<^verbatim>\<open>advance\<close> indexes the slice without a bound check: at the end
  it panics (\<open>PPanic\<close>).  A loop carries a number of iterations; it starts with one more than
  the number of remaining tokens, and the lemmas below show that it never runs out
  (\<open>PFuel\<close>), since every iteration consumes a token.  The mutual recursion between
  \<^verbatim>\<open>parseWorkflowSteps\<close> and the block parsers is tied in \<open>parseWorkflowStepsLoop\<close>: a block parser
  takes the parser of its nested steps as an argument.
\<close>

subsection \<open>Results\<close>

datatype parse_error =
    LexFailure lex_error
  | ExpectedIdent string nat
  | ExpectedValue string nat
  | UnexpectedSection string nat
  | UnexpectedToken string nat
  | UnknownRetryOption string nat
  | UnknownBreakerOption string nat

datatype 'a presult = POk 'a "Token list" | PErr parse_error | PPanic | PFuel

definition pbind :: "'a presult \<Rightarrow> ('a \<Rightarrow> Token list \<Rightarrow> 'b presult) \<Rightarrow> 'b presult" where
  "pbind m f = (case m of POk a ts \<Rightarrow> f a ts | PErr e \<Rightarrow> PErr e | PPanic \<Rightarrow> PPanic | PFuel \<Rightarrow> PFuel)"

subsection \<open>Helper methods\<close>

definition eofToken :: Token where
  "eofToken = \<lparr>Type = TokenEOF, Value = [], Line = 0, Column = 0\<rparr>"

definition ppeek :: "Token list \<Rightarrow> Token" where
  "ppeek ts = (case ts of [] \<Rightarrow> eofToken | t # _ \<Rightarrow> t)"

definition advance :: "Token list \<Rightarrow> Token presult" where
  "advance ts = (case ts of [] \<Rightarrow> PPanic | t # ts' \<Rightarrow> POk t ts')"

definition match :: "TokenType \<Rightarrow> Token list \<Rightarrow> bool" where
  "match typ ts \<longleftrightarrow> Type (ppeek ts) = typ"

definition eof :: "Token list \<Rightarrow> bool" where
  "eof ts \<longleftrightarrow> ts = [] \<or> Type (hd ts) = TokenEOF"

definition isKeyword :: "TokenType \<Rightarrow> bool" where
  "isKeyword t \<longleftrightarrow> TokenFlow \<le> t \<and> t \<le> TokenTCP"

definition expectIdent :: "Token list \<Rightarrow> string presult" where
  "expectIdent ts =
     (let tok = ppeek ts in
      if Type tok \<noteq> TokenIdent then
        if isKeyword (Type tok) then pbind (advance ts) (\<lambda>t ts. POk (Value t) ts)
        else PErr (ExpectedIdent (Value tok) (Line tok))
      else pbind (advance ts) (\<lambda>t ts. POk (Value t) ts))"

definition expectValue :: "Token list \<Rightarrow> string presult" where
  "expectValue ts =
     (let tok = ppeek ts in
      if Type tok \<in> {TokenString, TokenNumber, TokenDuration, TokenBool, TokenIdent}
      then pbind (advance ts) (\<lambda>t ts. POk (Value t) ts)
      else if isKeyword (Type tok) then pbind (advance ts) (\<lambda>t ts. POk (Value t) ts)
      else PErr (ExpectedValue (Value tok) (Line tok)))"

fun joinWords :: "string list \<Rightarrow> string" where
  "joinWords [] = []"
| "joinWords [w] = w"
| "joinWords (w # ws) = w @ '' '' @ joinWords ws"

text \<open>
  \<^verbatim>\<open>strconv.Atoi\<close> with the error ignored: 0 when the text is not a decimal integer, the nearest
  64-bit value when it is out of range.
\<close>

definition Atoi :: "string \<Rightarrow> int" where
  "Atoi s =
     (let neg = (s \<noteq> [] \<and> hd s = CHR ''-'');
          ds = (if s \<noteq> [] \<and> (hd s = CHR ''-'' \<or> hd s = CHR ''+'') then tl s else s)
      in if ds = [] \<or> \<not> list_all isDigit ds then 0
         else if neg then max (- int (undec ds)) (- (2 ^ 63))
         else min (int (undec ds)) (2 ^ 63 - 1))"

subsection \<open>Description, variables, constants, outputs, imports\<close>

fun wordsLoop :: "string list \<Rightarrow> Token list \<Rightarrow> string list \<times> Token list" where
  "wordsLoop ws [] = (ws, [])"
| "wordsLoop ws (t # ts) =
     (if Type t = TokenEOF \<or> Type t = TokenNewline then (ws, t # ts)
      else wordsLoop (ws @ [Value t]) ts)"

definition parseIndentedLine :: "Token list \<Rightarrow> string presult" where
  "parseIndentedLine ts =
     (case wordsLoop [] ts of (ws, ts1) \<Rightarrow>
        if \<not> eof ts1 \<and> match TokenNewline ts1
        then pbind (advance ts1) (\<lambda>_ ts2. POk (joinWords ws) ts2)
        else POk (joinWords ws) ts1)"

fun tagsLoop :: "string list \<Rightarrow> Token list \<Rightarrow> string list \<times> Token list" where
  "tagsLoop tags [] = (tags, [])"
| "tagsLoop tags (t # ts) =
     (if Type t = TokenIdent then tagsLoop (tags @ [Value t]) ts else (tags, t # ts))"

fun descriptionLoop :: "nat \<Rightarrow> Metadata \<Rightarrow> Token list \<Rightarrow> Metadata presult" where
  "descriptionLoop 0 meta ts = PFuel"
| "descriptionLoop (Suc n) meta ts =
     (if \<not> eof ts \<and> match TokenIdent ts then
        pbind (parseIndentedLine ts) (\<lambda>ln ts1.
          if take 4 ln = ''tags'' then
            (case tagsLoop (md_Tags meta) ts1 of (tags, ts2) \<Rightarrow>
               descriptionLoop n (meta\<lparr>md_Tags := tags\<rparr>) ts2)
          else
            descriptionLoop n
              (meta\<lparr>md_Description :=
                 (if md_Description meta \<noteq> [] then md_Description meta @ '' '' else []) @ ln\<rparr>)
              ts1)
      else POk meta ts)"

definition parseDescription :: "Token list \<Rightarrow> Metadata presult" where
  "parseDescription ts =
     pbind (advance ts) (\<lambda>_ ts1.
       descriptionLoop (Suc (length ts1)) \<lparr>md_Name = [], md_Description = [], md_Tags = []\<rparr> ts1)"

fun variablesLoop :: "nat \<Rightarrow> Variable list \<Rightarrow> Token list \<Rightarrow> Variable list presult" where
  "variablesLoop 0 vars ts = PFuel"
| "variablesLoop (Suc n) vars ts =
     (if eof ts then POk vars ts
      else
        let tok = ppeek ts in
        if Type tok \<noteq> TokenIdent then POk vars ts
        else if 1 < length ts \<and> Type (ts ! 1) \<in> {TokenIdent, TokenGRPC, TokenHTTP} then
          pbind (advance ts) (\<lambda>t ts1.
            pbind (expectIdent ts1) (\<lambda>typ ts2.
              variablesLoop n
                (vars @ [\<lparr>var_Name = Value t, var_Type = typ, var_Line = Line tok\<rparr>]) ts2))
        else POk vars ts)"

definition parseVariables :: "Token list \<Rightarrow> Variable list presult" where
  "parseVariables ts =
     pbind (advance ts) (\<lambda>_ ts1. variablesLoop (Suc (length ts1)) [] ts1)"

fun constantsLoop :: "nat \<Rightarrow> Constant list \<Rightarrow> Token list \<Rightarrow> Constant list presult" where
  "constantsLoop 0 consts ts = PFuel"
| "constantsLoop (Suc n) consts ts =
     (if eof ts then POk consts ts
      else
        let tok = ppeek ts in
        if Type tok \<noteq> TokenIdent then POk consts ts
        else
          pbind (advance ts) (\<lambda>t ts1.
            pbind (if match TokenEquals ts1 then pbind (advance ts1) (\<lambda>_ ts2. POk () ts2)
                   else POk () ts1) (\<lambda>_ ts2.
              pbind (advance ts2) (\<lambda>v ts3.
                constantsLoop n
                  (consts @ [\<lparr>const_Name = Value t, const_Value = Value v,
                              const_Line = Line tok\<rparr>]) ts3))))"

definition parseConstants :: "Token list \<Rightarrow> Constant list presult" where
  "parseConstants ts =
     pbind (advance ts) (\<lambda>_ ts1. constantsLoop (Suc (length ts1)) [] ts1)"

fun outputsLoop :: "Output list \<Rightarrow> Token list \<Rightarrow> Output list \<times> Token list" where
  "outputsLoop outs [] = (outs, [])"
| "outputsLoop outs (t # ts) =
     (if Type t = TokenIdent
      then outputsLoop (outs @ [\<lparr>out_Name = Value t, out_Line = Line t\<rparr>]) ts
      else (outs, t # ts))"

definition parseOutputs :: "Token list \<Rightarrow> Output list presult" where
  "parseOutputs ts =
     pbind (advance ts) (\<lambda>_ ts1. case outputsLoop [] ts1 of (outs, ts2) \<Rightarrow> POk outs ts2)"

definition parseImport :: "Token list \<Rightarrow> Import presult" where
  "parseImport ts =
     pbind (advance ts) (\<lambda>_ ts1.
       pbind (expectValue ts1) (\<lambda>path ts2.
         if match TokenIdent ts2 \<and> Value (ppeek ts2) = ''as'' then
           pbind (advance ts2) (\<lambda>_ ts3.
             pbind (expectIdent ts3) (\<lambda>alias ts4.
               POk \<lparr>imp_Path = path, imp_As = alias, imp_Line = 0\<rparr> ts4))
         else POk \<lparr>imp_Path = path, imp_As = [], imp_Line = 0\<rparr> ts2))"

definition parseInclude :: "Token list \<Rightarrow> Import presult" where
  "parseInclude ts =
     pbind (advance ts) (\<lambda>_ ts1.
       pbind (expectValue ts1) (\<lambda>path ts2.
         POk \<lparr>imp_Path = path, imp_As = [], imp_Line = 0\<rparr> ts2))"

subsection \<open>Services and events\<close>

definition serviceSections :: "string list" where
  "serviceSections =
    [''service'', ''event'', ''workflow'', ''description'', ''variables'', ''constants'',
     ''output'', ''import'', ''include'', ''retry'', ''breaker'', ''timeout'', ''onError'',
     ''compensate'']"

text \<open>The loop that joins values separated by colons, as in \<^verbatim>\<open>kafka1:9092\<close>.\<close>

fun colonLoop :: "nat \<Rightarrow> string \<Rightarrow> Token list \<Rightarrow> string presult" where
  "colonLoop 0 item ts = PFuel"
| "colonLoop (Suc n) item ts =
     (if match TokenColon ts then
        pbind (advance ts) (\<lambda>_ ts1.
          pbind (advance ts1) (\<lambda>v ts2. colonLoop n (item @ '':'' @ Value v) ts2))
      else POk item ts)"

fun itemsLoop :: "nat \<Rightarrow> string list \<Rightarrow> Token list \<Rightarrow> string list presult" where
  "itemsLoop 0 items ts = PFuel"
| "itemsLoop (Suc n) items ts =
     (if \<not> eof ts \<and> Type (ppeek ts) \<in> {TokenIdent, TokenNumber} then
        pbind (advance ts) (\<lambda>t ts1.
          pbind (colonLoop (Suc (length ts1)) (Value t) ts1) (\<lambda>item ts2.
            itemsLoop n (items @ [item]) ts2))
      else POk items ts)"

fun connectionLoop ::
  "nat \<Rightarrow> (string, string) gomap \<Rightarrow> Token list \<Rightarrow> (string, string) gomap presult" where
  "connectionLoop 0 conn ts = PFuel"
| "connectionLoop (Suc n) conn ts =
     (if \<not> eof ts \<and> match TokenIdent ts then
        pbind (advance ts) (\<lambda>k ts1.
          pbind (advance ts1) (\<lambda>v ts2.
            connectionLoop n (AList.update (Value k) (Value v) conn) ts2))
      else POk conn ts)"

definition addOption :: "string \<Rightarrow> OptionValue \<Rightarrow> Service \<Rightarrow> Service" where
  "addOption key v svc =
     svc\<lparr>svc_Options := svc_Options svc @ [\<lparr>opt_Key = key, opt_Value = v, opt_Line = 0\<rparr>]\<rparr>"

definition serviceTypeName :: "Token \<Rightarrow> string" where
  "serviceTypeName t =
     (if Type t = TokenGRPC then ''grpc''
      else if Type t = TokenHTTP then ''http''
      else if Type t = TokenKafka then ''kafka''
      else if Type t = TokenRedis then ''redis''
      else if Type t = TokenPostgres then ''postgres''
      else if Type t = TokenTCP then ''tcp''
      else Value t)"

text \<open>One option of a service, after its key has been consumed.\<close>

definition parseServiceOption :: "string \<Rightarrow> Service \<Rightarrow> Token list \<Rightarrow> Service presult" where
  "parseServiceOption key svc ts =
     (if key = ''type'' then
        pbind (advance ts) (\<lambda>t ts1. POk (svc\<lparr>svc_Type := serviceTypeName t\<rparr>) ts1)
      else if key = ''tls'' \<or> key = ''idempotent'' \<or> key = ''enabled'' then
        pbind (advance ts) (\<lambda>t ts1. POk (addOption key (OptBool (Value t = ''true'')) svc) ts1)
      else if key = ''brokers'' \<or> key = ''headers'' then
        pbind (itemsLoop (Suc (length ts)) [] ts) (\<lambda>items ts1.
          POk (addOption key (OptList items) svc) ts1)
      else if key = ''connection'' then
        pbind (connectionLoop (Suc (length ts)) [] ts) (\<lambda>conn ts1.
          POk (addOption key (OptMap conn) svc) ts1)
      else
        pbind (if match TokenColon ts then pbind (advance ts) (\<lambda>_ ts1. POk () ts1)
               else POk () ts) (\<lambda>_ ts1.
          pbind (advance ts1) (\<lambda>t ts2.
            pbind (colonLoop (Suc (length ts2)) (Value t) ts2) (\<lambda>v ts3.
              POk (addOption key (OptString v) svc) ts3))))"

fun serviceLoop :: "nat \<Rightarrow> Service \<Rightarrow> Token list \<Rightarrow> Service presult" where
  "serviceLoop 0 svc ts = PFuel"
| "serviceLoop (Suc n) svc ts =
     (if eof ts then POk svc ts
      else if Type (ppeek ts) \<noteq> TokenIdent then POk svc ts
      else if Value (ppeek ts) \<in> set serviceSections then POk svc ts
      else
        pbind (advance ts) (\<lambda>k ts1.
          pbind (parseServiceOption (Value k) svc ts1) (\<lambda>svc' ts2.
            serviceLoop n svc' ts2)))"

definition parseService :: "Token list \<Rightarrow> Service presult" where
  "parseService ts =
     pbind (advance ts) (\<lambda>_ ts1.
       pbind (expectIdent ts1) (\<lambda>name ts2.
         serviceLoop (Suc (length ts2))
           \<lparr>svc_Name = name, svc_Type = [], svc_Options = [], svc_Line = 0\<rparr> ts2))"

definition parseEvent :: "Token list \<Rightarrow> Event presult" where
  "parseEvent ts =
     pbind (advance ts) (\<lambda>_ ts1.
       pbind (expectIdent ts1) (\<lambda>name ts2.
         if match TokenIdent ts2 \<and> Value (ppeek ts2) = ''payload'' then
           pbind (advance ts2) (\<lambda>_ ts3.
             pbind (expectIdent ts3) (\<lambda>payload ts4.
               POk \<lparr>evt_Name = name, evt_Payload = payload, evt_Line = 0\<rparr> ts4))
         else POk \<lparr>evt_Name = name, evt_Payload = [], evt_Line = 0\<rparr> ts2))"

subsection \<open>Workflow steps\<close>

type_synonym steps_parser = "Token list \<Rightarrow> WorkflowStep list presult"

definition parseCondition :: "Token list \<Rightarrow> string presult" where
  "parseCondition ts = (case wordsLoop [] ts of (parts, ts1) \<Rightarrow> POk (joinWords parts) ts1)"

definition parseIfBlock :: "steps_parser \<Rightarrow> Token list \<Rightarrow> WorkflowStep presult" where
  "parseIfBlock steps ts =
     pbind (advance ts) (\<lambda>_ ts1.
       pbind (parseCondition ts1) (\<lambda>cond ts2.
         pbind (steps ts2) (\<lambda>thenSteps ts3.
           if match TokenElse ts3 then
             pbind (advance ts3) (\<lambda>_ ts4.
               pbind (steps ts4) (\<lambda>elseSteps ts5.
                 POk (IfBlock cond thenSteps elseSteps 0) ts5))
           else POk (IfBlock cond thenSteps [] 0) ts3)))"

fun switchLoop ::
  "nat \<Rightarrow> steps_parser \<Rightarrow> string \<Rightarrow> CaseBlock list \<Rightarrow> WorkflowStep list \<Rightarrow> Token list
     \<Rightarrow> WorkflowStep presult" where
  "switchLoop 0 steps variable cases deflt ts = PFuel"
| "switchLoop (Suc n) steps variable cases deflt ts =
     (if eof ts then POk (SwitchBlock variable cases deflt 0) ts
      else if Type (ppeek ts) = TokenCase then
        pbind (advance ts) (\<lambda>_ ts1.
          pbind (advance ts1) (\<lambda>v ts2.
            pbind (steps ts2) (\<lambda>ss ts3.
              switchLoop n steps variable (cases @ [CaseBlock (Value v) ss 0]) deflt ts3)))
      else if Type (ppeek ts) = TokenDefault then
        pbind (advance ts) (\<lambda>_ ts1.
          pbind (steps ts1) (\<lambda>ss ts2. switchLoop n steps variable cases ss ts2))
      else POk (SwitchBlock variable cases deflt 0) ts)"

definition parseSwitchBlock :: "steps_parser \<Rightarrow> Token list \<Rightarrow> WorkflowStep presult" where
  "parseSwitchBlock steps ts =
     pbind (advance ts) (\<lambda>_ ts1.
       pbind (expectIdent ts1) (\<lambda>variable ts2.
         switchLoop (Suc (length ts2)) steps variable [] [] ts2))"

definition parseParallelBlock :: "steps_parser \<Rightarrow> Token list \<Rightarrow> WorkflowStep presult" where
  "parseParallelBlock steps ts =
     pbind (advance ts) (\<lambda>_ ts1.
       pbind (steps ts1) (\<lambda>ss ts2.
         if match TokenJoin ts2
         then pbind (advance ts2) (\<lambda>_ ts3. POk (ParallelBlock ss 0) ts3)
         else POk (ParallelBlock ss 0) ts2))"

definition parseWaitBlock :: "Token list \<Rightarrow> WorkflowStep presult" where
  "parseWaitBlock ts =
     pbind (advance ts) (\<lambda>_ ts1.
       pbind (expectIdent ts1) (\<lambda>event ts2.
         if \<not> eof ts2 \<and> match TokenIdent ts2 \<and> Value (ppeek ts2) = ''timeout'' then
           pbind (advance ts2) (\<lambda>_ ts3.
             pbind (expectValue ts3) (\<lambda>timeout ts4. POk (WaitBlock event timeout 0) ts4))
         else POk (WaitBlock event [] 0) ts2))"

definition parseForeachLoop :: "steps_parser \<Rightarrow> Token list \<Rightarrow> WorkflowStep presult" where
  "parseForeachLoop steps ts =
     pbind (advance ts) (\<lambda>_ ts1.
       pbind (expectIdent ts1) (\<lambda>variable ts2.
         pbind (steps ts2) (\<lambda>ss ts3. POk (ForeachLoop variable ss 0) ts3)))"

definition parseWhileLoop :: "steps_parser \<Rightarrow> Token list \<Rightarrow> WorkflowStep presult" where
  "parseWhileLoop steps ts =
     pbind (advance ts) (\<lambda>_ ts1.
       pbind (parseCondition ts1) (\<lambda>cond ts2.
         pbind (steps ts2) (\<lambda>ss ts3. POk (WhileLoop cond ss 0) ts3)))"

definition someStep :: "WorkflowStep presult \<Rightarrow> WorkflowStep option presult" where
  "someStep m = pbind m (\<lambda>s ts. POk (Some s) ts)"

definition parseWorkflowStep :: "steps_parser \<Rightarrow> Token list \<Rightarrow> WorkflowStep option presult" where
  "parseWorkflowStep steps ts =
     (let tok = ppeek ts; ty = Type tok in
      if ty = TokenArrow then
        pbind (advance ts) (\<lambda>_ ts1.
          pbind (expectIdent ts1) (\<lambda>name ts2. POk (Some (StepRef name (Line tok))) ts2))
      else if ty = TokenIf then someStep (parseIfBlock steps ts)
      else if ty = TokenSwitch then someStep (parseSwitchBlock steps ts)
      else if ty = TokenParallel then someStep (parseParallelBlock steps ts)
      else if ty = TokenWait then someStep (parseWaitBlock ts)
      else if ty = TokenForeach then someStep (parseForeachLoop steps ts)
      else if ty = TokenWhile then someStep (parseWhileLoop steps ts)
      else if ty = TokenEmit then
        pbind (advance ts) (\<lambda>_ ts1.
          pbind (expectIdent ts1) (\<lambda>event ts2. POk (Some (EmitEvent event (Line tok))) ts2))
      else if ty = TokenReturn then
        pbind (advance ts) (\<lambda>_ ts1.
          if \<not> eof ts1 \<and> \<not> match TokenNewline ts1
          then pbind (advance ts1) (\<lambda>v ts2. POk (Some (ReturnStep (Value v) (Line tok))) ts2)
          else POk (Some (ReturnStep [] (Line tok))) ts1)
      else if ty = TokenStart \<or> ty = TokenEnd then
        pbind (advance ts) (\<lambda>_ ts1. POk (Some (StepRef (Value tok) (Line tok))) ts1)
      else if ty = TokenIdent then
        pbind (advance ts) (\<lambda>t ts1. POk (Some (StepRef (Value t) (Line tok))) ts1)
      else pbind (advance ts) (\<lambda>_ ts1. POk None ts1))"

definition stepSections :: "string list" where
  "stepSections =
    [''service'', ''event'', ''workflow'', ''description'', ''variables'', ''constants'',
     ''output'', ''import'', ''include'']"

definition endsSteps :: "Token \<Rightarrow> bool" where
  "endsSteps tok \<longleftrightarrow>
     Type tok = TokenIdent \<and> Value tok \<in> set stepSections \<or>
     Type tok \<in> {TokenRetry, TokenBreaker, TokenTimeout, TokenOnError, TokenCompensate,
                  TokenService, TokenEvent, TokenWorkflow} \<or>
     Type tok = TokenEOF"

fun parseWorkflowStepsLoop ::
  "nat \<Rightarrow> WorkflowStep list \<Rightarrow> Token list \<Rightarrow> WorkflowStep list presult" where
  "parseWorkflowStepsLoop 0 acc ts = PFuel"
| "parseWorkflowStepsLoop (Suc n) acc ts =
     (if eof ts then POk acc ts
      else if endsSteps (ppeek ts) then POk acc ts
      else
        pbind (parseWorkflowStep (parseWorkflowStepsLoop n []) ts) (\<lambda>step ts1.
          parseWorkflowStepsLoop n
            (case step of None \<Rightarrow> acc | Some s \<Rightarrow> acc @ [s]) ts1))"

definition parseWorkflowSteps :: "Token list \<Rightarrow> WorkflowStep list presult" where
  "parseWorkflowSteps ts = parseWorkflowStepsLoop (Suc (length ts)) [] ts"

definition parseWorkflow :: "Token list \<Rightarrow> WorkflowStep list presult" where
  "parseWorkflow ts = pbind (advance ts) (\<lambda>_ ts1. parseWorkflowSteps ts1)"

subsection \<open>Retry, breaker, error handling, compensation\<close>

fun retryLoop :: "nat \<Rightarrow> RetryPolicy \<Rightarrow> Token list \<Rightarrow> RetryPolicy presult" where
  "retryLoop 0 r ts = PFuel"
| "retryLoop (Suc n) r ts =
     (if eof ts then POk r ts
      else
        let tok = ppeek ts in
        if Type tok \<noteq> TokenIdent then POk r ts
        else if Value tok = ''attempts'' then
          pbind (advance ts) (\<lambda>_ ts1.
            pbind (expectValue ts1) (\<lambda>v ts2. retryLoop n (r\<lparr>rp_Attempts := Atoi v\<rparr>) ts2))
        else if Value tok = ''backoff'' then
          pbind (advance ts) (\<lambda>_ ts1.
            pbind (advance ts1) (\<lambda>v ts2. retryLoop n (r\<lparr>rp_Backoff := Value v\<rparr>) ts2))
        else if Value tok = ''delay'' then
          pbind (advance ts) (\<lambda>_ ts1.
            pbind (advance ts1) (\<lambda>v ts2. retryLoop n (r\<lparr>rp_Delay := Value v\<rparr>) ts2))
        else if Value tok = ''maxDelay'' then
          pbind (advance ts) (\<lambda>_ ts1.
            pbind (advance ts1) (\<lambda>v ts2. retryLoop n (r\<lparr>rp_MaxDelay := Value v\<rparr>) ts2))
        else PErr (UnknownRetryOption (Value tok) (Line tok)))"

definition parseRetry :: "Token list \<Rightarrow> RetryPolicy presult" where
  "parseRetry ts =
     pbind (advance ts) (\<lambda>_ ts1.
       retryLoop (Suc (length ts1))
         \<lparr>rp_Attempts = 0, rp_Backoff = [], rp_Delay = [], rp_MaxDelay = [], rp_Line = 0\<rparr> ts1)"

fun breakerLoop :: "nat \<Rightarrow> BreakerConfig \<Rightarrow> Token list \<Rightarrow> BreakerConfig presult" where
  "breakerLoop 0 b ts = PFuel"
| "breakerLoop (Suc n) b ts =
     (if eof ts then POk b ts
      else
        let tok = ppeek ts in
        if Type tok \<noteq> TokenIdent then POk b ts
        else if Value tok = ''failureRate'' then
          pbind (advance ts) (\<lambda>_ ts1.
            pbind (expectValue ts1) (\<lambda>v ts2. breakerLoop n (b\<lparr>br_FailureRate := Atoi v\<rparr>) ts2))
        else if Value tok = ''window'' then
          pbind (advance ts) (\<lambda>_ ts1.
            pbind (expectValue ts1) (\<lambda>v ts2. breakerLoop n (b\<lparr>br_Window := Atoi v\<rparr>) ts2))
        else if Value tok = ''cooldown'' then
          pbind (advance ts) (\<lambda>_ ts1.
            pbind (advance ts1) (\<lambda>v ts2. breakerLoop n (b\<lparr>br_Cooldown := Value v\<rparr>) ts2))
        else PErr (UnknownBreakerOption (Value tok) (Line tok)))"

definition parseBreaker :: "Token list \<Rightarrow> BreakerConfig presult" where
  "parseBreaker ts =
     pbind (advance ts) (\<lambda>_ ts1.
       breakerLoop (Suc (length ts1))
         \<lparr>br_FailureRate = 0, br_Window = 0, br_Cooldown = [], br_Line = 0\<rparr> ts1)"

fun onErrorLoop :: "nat \<Rightarrow> ErrorBlock \<Rightarrow> Token list \<Rightarrow> ErrorBlock presult" where
  "onErrorLoop 0 b ts = PFuel"
| "onErrorLoop (Suc n) b ts =
     (if eof ts then POk b ts
      else if Type (ppeek ts) \<noteq> TokenIdent then POk b ts
      else if Value (ppeek ts) = ''Default'' then
        pbind (advance ts) (\<lambda>_ ts1.
          pbind (parseWorkflowSteps ts1) (\<lambda>ss ts2. onErrorLoop n (b\<lparr>eb_Fallback := ss\<rparr>) ts2))
      else
        pbind (advance ts) (\<lambda>t ts1.
          pbind (parseWorkflowSteps ts1) (\<lambda>ss ts2.
            onErrorLoop n
              (b\<lparr>eb_Cases := eb_Cases b @
                   [\<lparr>ec_ErrorType = Value t, ec_Steps = ss, ec_Line = 0\<rparr>]\<rparr>) ts2)))"

definition parseOnError :: "Token list \<Rightarrow> ErrorBlock presult" where
  "parseOnError ts =
     pbind (advance ts) (\<lambda>_ ts1.
       onErrorLoop (Suc (length ts1)) \<lparr>eb_Cases = [], eb_Fallback = [], eb_Line = 0\<rparr> ts1)"

fun compensateLoop :: "nat \<Rightarrow> CompensateStep list \<Rightarrow> Token list \<Rightarrow> CompensateStep list presult" where
  "compensateLoop 0 cs ts = PFuel"
| "compensateLoop (Suc n) cs ts =
     (if eof ts then POk cs ts
      else if Type (ppeek ts) \<noteq> TokenIdent then POk cs ts
      else
        pbind (advance ts) (\<lambda>s ts1.
          pbind (advance ts1) (\<lambda>c ts2.
            compensateLoop n
              (cs @ [\<lparr>cs_Step = Value s, cs_Compensation = Value c, cs_Line = 0\<rparr>]) ts2)))"

definition parseCompensate :: "Token list \<Rightarrow> CompensateStep list presult" where
  "parseCompensate ts =
     pbind (advance ts) (\<lambda>_ ts1. compensateLoop (Suc (length ts1)) [] ts1)"

subsection \<open>Flows\<close>

text \<open>One iteration of the section loop of \<^verbatim>\<open>parseFlow\<close>.\<close>

definition parseSection :: "Flow \<Rightarrow> Token list \<Rightarrow> Flow presult" where
  "parseSection fl ts =
     (let tok = ppeek ts; ty = Type tok; v = Value tok in
      if ty = TokenIdent then
        if v = ''description'' then
          pbind (parseDescription ts) (\<lambda>meta ts1.
            POk (fl\<lparr>fl_Metadata := (fl_Metadata fl)
              \<lparr>md_Description := md_Description meta, md_Tags := md_Tags meta\<rparr>\<rparr>) ts1)
        else if v = ''variables'' then
          pbind (parseVariables ts) (\<lambda>vars ts1. POk (fl\<lparr>fl_Variables := vars\<rparr>) ts1)
        else if v = ''constants'' then
          pbind (parseConstants ts) (\<lambda>consts ts1. POk (fl\<lparr>fl_Constants := consts\<rparr>) ts1)
        else if v = ''output'' then
          pbind (parseOutputs ts) (\<lambda>outs ts1. POk (fl\<lparr>fl_Outputs := outs\<rparr>) ts1)
        else if v = ''import'' then
          pbind (parseImport ts) (\<lambda>imp ts1. POk (fl\<lparr>fl_Imports := fl_Imports fl @ [imp]\<rparr>) ts1)
        else if v = ''include'' then
          pbind (parseInclude ts) (\<lambda>imp ts1. POk (fl\<lparr>fl_Imports := fl_Imports fl @ [imp]\<rparr>) ts1)
        else PErr (UnexpectedSection v (Line tok))
      else if ty = TokenRetry then
        pbind (parseRetry ts) (\<lambda>r ts1. POk (fl\<lparr>fl_Retry := Some r\<rparr>) ts1)
      else if ty = TokenBreaker then
        pbind (parseBreaker ts) (\<lambda>b ts1. POk (fl\<lparr>fl_Breaker := Some b\<rparr>) ts1)
      else if ty = TokenTimeout then
        pbind (advance ts) (\<lambda>_ ts1.
          pbind (expectValue ts1) (\<lambda>timeout ts2. POk (fl\<lparr>fl_Timeout := timeout\<rparr>) ts2))
      else if ty = TokenOnError then
        pbind (parseOnError ts) (\<lambda>b ts1. POk (fl\<lparr>fl_Errors := Some b\<rparr>) ts1)
      else if ty = TokenCompensate then
        pbind (parseCompensate ts) (\<lambda>cs ts1. POk (fl\<lparr>fl_Compensate := cs\<rparr>) ts1)
      else if ty = TokenService then
        pbind (parseService ts) (\<lambda>svc ts1. POk (fl\<lparr>fl_Services := fl_Services fl @ [svc]\<rparr>) ts1)
      else if ty = TokenEvent then
        pbind (parseEvent ts) (\<lambda>evt ts1. POk (fl\<lparr>fl_Events := fl_Events fl @ [evt]\<rparr>) ts1)
      else if ty = TokenWorkflow then
        pbind (parseWorkflow ts) (\<lambda>wf ts1. POk (fl\<lparr>fl_Workflow := Some wf\<rparr>) ts1)
      else PErr (UnexpectedToken v (Line tok)))"

fun sectionsLoop :: "nat \<Rightarrow> Flow \<Rightarrow> Token list \<Rightarrow> Flow presult" where
  "sectionsLoop 0 fl ts = PFuel"
| "sectionsLoop (Suc n) fl ts =
     (if eof ts then POk fl ts
      else pbind (parseSection fl ts) (\<lambda>fl' ts1. sectionsLoop n fl' ts1))"

definition parseFlow :: "Token list \<Rightarrow> Flow presult" where
  "parseFlow ts =
     pbind (if match TokenVersion ts then
              pbind (advance ts) (\<lambda>_ ts1.
                if match TokenNumber ts1 then pbind (advance ts1) (\<lambda>_ ts2. POk () ts2)
                else POk () ts1)
            else POk () ts) (\<lambda>_ ts1.
       pbind (if match TokenFlow ts1 then
                pbind (advance ts1) (\<lambda>_ ts2.
                  pbind (expectIdent ts2) (\<lambda>name ts3.
                    POk (emptyFlow\<lparr>fl_Metadata := (fl_Metadata emptyFlow)\<lparr>md_Name := name\<rparr>\<rparr>) ts3))
              else POk emptyFlow ts1) (\<lambda>fl ts2.
         sectionsLoop (Suc (length ts2)) fl ts2))"

text \<open>\<^verbatim>\<open>Parse\<close>: \<^term>\<open>None\<close> when the lexer does not return.\<close>

datatype flow_result = FlowOk Flow | FlowErr parse_error | FlowPanic | FlowFuel

definition Parse :: "string \<Rightarrow> flow_result option" where
  "Parse data =
     (case Tokenize data of
        None \<Rightarrow> None
      | Some LexPanic \<Rightarrow> Some FlowPanic
      | Some (LexErr e) \<Rightarrow> Some (FlowErr (LexFailure e))
      | Some (LexOk toks) \<Rightarrow>
          Some (case parseFlow (FilterNewlines toks) of
                  POk fl _ \<Rightarrow> FlowOk fl
                | PErr e \<Rightarrow> FlowErr e
                | PPanic \<Rightarrow> FlowPanic
                | PFuel \<Rightarrow> FlowFuel))"


subsection \<open>The parser consumes its input\<close>

text \<open>
  \<open>wf_tokens ts\<close>: what \<^verbatim>\<open>tokens[pos:]\<close> looks like while parsing a lexer's output: empty, or
  ending with the end-of-file token, and without newline tokens (\<^verbatim>\<open>Parse\<close> filters them)
  or identifier tokens that spell a keyword.  \<open>pgood n r\<close>: the result \<open>r\<close> is an error or leaves fewer than \<open>n\<close>
  tokens; it is neither a panic nor an exhausted loop bound.
\<close>

definition wf_tokens :: "Token list \<Rightarrow> bool" where
  "wf_tokens ts \<longleftrightarrow>
     (ts = [] \<or> Type (last ts) = TokenEOF) \<and>
     (\<forall>t \<in> set ts. Type t \<noteq> TokenNewline \<and> no_keyword_ident t)"

definition pgood :: "nat \<Rightarrow> 'a presult \<Rightarrow> bool" where
  "pgood n r = (case r of POk _ ts \<Rightarrow> wf_tokens ts \<and> length ts < n | PErr _ \<Rightarrow> True
                | PPanic \<Rightarrow> False | PFuel \<Rightarrow> False)"

named_theorems parser_intro \<open>parsers that leave a well-formed, shorter token list\<close>

lemma pgood_POk [simp]: "pgood n (POk a ts) \<longleftrightarrow> wf_tokens ts \<and> length ts < n"
  by (simp add: pgood_def)

lemma pgood_PErr [intro, simp]: "pgood n (PErr e)"
  by (simp add: pgood_def)

lemma pgood_mono: "pgood m r \<Longrightarrow> m \<le> n \<Longrightarrow> pgood n r"
  by (auto simp: pgood_def split: presult.splits)

lemma pgood_pbind:
  assumes "pgood m r" and "\<And>a ts. wf_tokens ts \<Longrightarrow> length ts < m \<Longrightarrow> pgood n (f a ts)"
  shows "pgood n (pbind r f)"
proof (cases r)
  case (POk a ts)
  with assms show ?thesis by (simp add: pbind_def pgood_def [of m])
qed (use assms(1) in \<open>simp_all add: pgood_def pbind_def\<close>)

lemma pbind_simps [simp]:
  "pbind (POk a ts) f = f a ts"
  "pbind (PErr e) f = PErr e"
  "pbind (pbind m g) h = pbind m (\<lambda>a ts. pbind (g a ts) h)"
  by (simp_all add: pbind_def split: presult.splits)

lemma wf_tokens_Cons: "wf_tokens (t # ts) \<Longrightarrow> wf_tokens ts"
  by (auto simp: wf_tokens_def split: if_splits)

lemma eof_ppeek: "eof ts \<longleftrightarrow> Type (ppeek ts) = TokenEOF"
  by (auto simp: eof_def ppeek_def eofToken_def split: list.splits)

lemma ppeek_Nil [simp]: "ppeek [] = eofToken" "Type eofToken = TokenEOF"
  by (simp_all add: ppeek_def eofToken_def)

lemmas guard_simps = eof_ppeek match_def Let_def

text \<open>Consuming a token that is not the end of file leaves at least one token.\<close>

lemma pgood_bind_advance [parser_intro]:
  assumes "wf_tokens ts" and "ts \<noteq> [] \<or> Type (ppeek ts) \<noteq> TokenEOF"
    and "\<And>t ts1. wf_tokens ts1 \<Longrightarrow> length ts1 < length ts \<Longrightarrow>
           (Type (ppeek ts) \<noteq> TokenEOF \<longrightarrow> ts1 \<noteq> []) \<Longrightarrow> pgood n (f t ts1)"
  shows "pgood n (pbind (advance ts) f)"
proof (cases ts)
  case Nil
  with assms(2) show ?thesis by simp
next
  case (Cons t ts1)
  moreover from this assms(1) have "Type t \<noteq> TokenEOF \<longrightarrow> ts1 \<noteq> []"
    by (auto simp: wf_tokens_def)
  ultimately show ?thesis
    using assms(3) [of ts1 t] wf_tokens_Cons [of t ts1] assms(1)
    by (simp add: pbind_def advance_def ppeek_def)
qed

lemma isKeyword_EOF [simp]: "\<not> isKeyword TokenEOF"
  by code_simp

lemma isKeyword_not_EOF: "isKeyword (Type t) \<Longrightarrow> Type t \<noteq> TokenEOF"
  by auto

lemma pgood_expectIdent: "wf_tokens ts \<Longrightarrow> pgood (length ts) (expectIdent ts)"
  unfolding expectIdent_def Let_def
  by (auto intro!: parser_intro dest: isKeyword_not_EOF)

lemma pgood_expectValue: "wf_tokens ts \<Longrightarrow> pgood (length ts) (expectValue ts)"
  unfolding expectValue_def Let_def
  by (auto intro!: parser_intro dest: isKeyword_not_EOF)

lemmas [parser_intro] = pgood_pbind [OF pgood_expectIdent] pgood_pbind [OF pgood_expectValue]

lemma wordsLoop_good:
  "wf_tokens ts \<Longrightarrow> wordsLoop ws ts = (ws', ts') \<Longrightarrow> wf_tokens ts' \<and> length ts' \<le> length ts \<and>
     (Type (ppeek ts) \<noteq> TokenEOF \<and> Type (ppeek ts) \<noteq> TokenNewline \<longrightarrow> length ts' < length ts)"
  by (induction ws ts rule: wordsLoop.induct)
    (fastforce split: if_splits dest: wf_tokens_Cons simp: ppeek_def)+

lemma tagsLoop_good:
  "wf_tokens ts \<Longrightarrow> tagsLoop ws ts = (ws', ts') \<Longrightarrow> wf_tokens ts' \<and> length ts' \<le> length ts"
  by (induction ws ts rule: tagsLoop.induct) (fastforce split: if_splits dest: wf_tokens_Cons)+

lemma outputsLoop_good:
  "wf_tokens ts \<Longrightarrow> outputsLoop ws ts = (ws', ts') \<Longrightarrow> wf_tokens ts' \<and> length ts' \<le> length ts"
  by (induction ws ts rule: outputsLoop.induct) (fastforce split: if_splits dest: wf_tokens_Cons)+

lemma pgood_parseCondition:
  assumes "wf_tokens ts"
  shows "pgood (Suc (length ts)) (parseCondition ts)"
proof -
  obtain ws ts' where "wordsLoop [] ts = (ws, ts')" by fastforce
  with wordsLoop_good [OF assms this] show ?thesis
    by (auto simp: parseCondition_def)
qed

lemma pgood_parseIndentedLine:
  assumes "wf_tokens ts" and "Type (ppeek ts) = TokenIdent"
  shows "pgood (length ts) (parseIndentedLine ts)"
proof -
  obtain ws ts' where "wordsLoop [] ts = (ws, ts')" by fastforce
  with wordsLoop_good [OF assms(1) this] assms(2) show ?thesis
    by (auto simp: parseIndentedLine_def guard_simps intro!: parser_intro)
qed

lemmas [parser_intro] =
  pgood_pbind [OF pgood_parseCondition] pgood_pbind [OF pgood_parseIndentedLine]

lemma pgood_case_tagsLoop [parser_intro]:
  assumes "wf_tokens ts"
    and "\<And>tags ts'. wf_tokens ts' \<Longrightarrow> length ts' \<le> length ts \<Longrightarrow> pgood k (f tags ts')"
  shows "pgood k (case tagsLoop ws ts of (tags, ts') \<Rightarrow> f tags ts')"
  using assms by (auto dest: tagsLoop_good split: prod.split)

lemma pgood_descriptionLoop:
  "length ts < n \<Longrightarrow> wf_tokens ts \<Longrightarrow> length ts < k \<Longrightarrow> pgood k (descriptionLoop n meta ts)"
  by (induction n arbitrary: meta ts)
    (auto simp: guard_simps intro!: parser_intro)

lemma pgood_variablesLoop:
  "length ts < n \<Longrightarrow> wf_tokens ts \<Longrightarrow> length ts < k \<Longrightarrow> pgood k (variablesLoop n vars ts)"
  by (induction n vars ts rule: variablesLoop.induct) (auto simp: guard_simps intro!: parser_intro)

lemma pgood_constantsLoop:
  "length ts < n \<Longrightarrow> wf_tokens ts \<Longrightarrow> length ts < k \<Longrightarrow> pgood k (constantsLoop n cs ts)"
  by (induction n cs ts rule: constantsLoop.induct) (auto simp: guard_simps intro!: parser_intro)

lemma pgood_colonLoop:
  "length ts < n \<Longrightarrow> wf_tokens ts \<Longrightarrow> length ts < k \<Longrightarrow> pgood k (colonLoop n item ts)"
  by (induction n item ts rule: colonLoop.induct) (auto simp: guard_simps intro!: parser_intro)

lemma pgood_connectionLoop:
  "length ts < n \<Longrightarrow> wf_tokens ts \<Longrightarrow> length ts < k \<Longrightarrow> pgood k (connectionLoop n conn ts)"
  by (induction n conn ts rule: connectionLoop.induct) (auto simp: guard_simps intro!: parser_intro)

lemma pgood_retryLoop:
  "length ts < n \<Longrightarrow> wf_tokens ts \<Longrightarrow> length ts < k \<Longrightarrow> pgood k (retryLoop n r ts)"
  by (induction n r ts rule: retryLoop.induct) (auto simp: guard_simps intro!: parser_intro)

lemma pgood_breakerLoop:
  "length ts < n \<Longrightarrow> wf_tokens ts \<Longrightarrow> length ts < k \<Longrightarrow> pgood k (breakerLoop n b ts)"
  by (induction n b ts rule: breakerLoop.induct) (auto simp: guard_simps intro!: parser_intro)

lemma pgood_compensateLoop:
  "length ts < n \<Longrightarrow> wf_tokens ts \<Longrightarrow> length ts < k \<Longrightarrow> pgood k (compensateLoop n cs ts)"
  by (induction n cs ts rule: compensateLoop.induct) (auto simp: guard_simps intro!: parser_intro)


declare descriptionLoop.simps [simp del] variablesLoop.simps [simp del] constantsLoop.simps [simp del]
  colonLoop.simps [simp del] connectionLoop.simps [simp del] retryLoop.simps [simp del]
  breakerLoop.simps [simp del] compensateLoop.simps [simp del]

lemmas [parser_intro] =
  pgood_descriptionLoop pgood_variablesLoop pgood_constantsLoop pgood_connectionLoop
  pgood_retryLoop pgood_breakerLoop pgood_compensateLoop
  pgood_pbind [OF pgood_colonLoop [OF _ _ lessI]]
  pgood_pbind [OF pgood_connectionLoop [OF _ _ lessI]]

lemma pgood_itemsLoop:
  "length ts < n \<Longrightarrow> wf_tokens ts \<Longrightarrow> length ts < k \<Longrightarrow> pgood k (itemsLoop n items ts)"
  by (induction n arbitrary: items ts) (auto simp: guard_simps intro!: parser_intro)

declare itemsLoop.simps [simp del]

lemmas [parser_intro] = pgood_pbind [OF pgood_itemsLoop [OF _ _ lessI]]

lemma pgood_if: "pgood n r \<Longrightarrow> pgood n r' \<Longrightarrow> pgood n (if b then r else r')"
  by simp

lemma pgood_parseServiceOption:
  "wf_tokens ts \<Longrightarrow> ts \<noteq> [] \<Longrightarrow> pgood (Suc (length ts)) (parseServiceOption key svc ts)"
  unfolding parseServiceOption_def
  by (intro pgood_if) (auto simp: guard_simps intro!: parser_intro)

lemmas [parser_intro] = pgood_pbind [OF pgood_parseServiceOption]

lemma pgood_serviceLoop [parser_intro]:
  "length ts < n \<Longrightarrow> wf_tokens ts \<Longrightarrow> length ts < k \<Longrightarrow> pgood k (serviceLoop n svc ts)"
  by (induction n arbitrary: svc ts) (auto simp: guard_simps intro!: parser_intro)

text \<open>
  The block parsers, for a parser of nested steps that is good on inputs of fewer than
  \<open>n\<close> tokens.
\<close>

definition steps_good :: "nat \<Rightarrow> steps_parser \<Rightarrow> bool" where
  "steps_good n steps \<longleftrightarrow>
     (\<forall>ts. wf_tokens ts \<and> length ts < n \<longrightarrow> pgood (Suc (length ts)) (steps ts))"

lemma pgood_bind_steps:
  assumes "steps_good n steps" and "wf_tokens ts" and "length ts < n"
    and "\<And>a ts1. wf_tokens ts1 \<Longrightarrow> length ts1 \<le> length ts \<Longrightarrow> pgood k (f a ts1)"
  shows "pgood k (pbind (steps ts) f)"
  using assms by (auto simp: steps_good_def less_Suc_eq_le intro: pgood_pbind)

lemma pgood_switchLoop:
  assumes steps: "steps_good m steps"
  shows "length ts < n \<Longrightarrow> wf_tokens ts \<Longrightarrow> length ts \<le> m \<Longrightarrow> length ts < k \<Longrightarrow>
    pgood k (switchLoop n steps var cases deflt ts)"
  by (induction n arbitrary: cases deflt ts)
    (auto simp: guard_simps intro!: parser_intro pgood_bind_steps [OF steps])

declare switchLoop.simps [simp del] serviceLoop.simps [simp del]

lemma pgood_parseIfBlock:
  assumes steps: "steps_good n steps" and "wf_tokens ts" and "\<not> eof ts" and "length ts \<le> n"
  shows "pgood (length ts) (parseIfBlock steps ts)"
  using assms(2-) unfolding parseIfBlock_def
  by (auto simp: guard_simps intro!: parser_intro pgood_bind_steps [OF steps])

lemma pgood_parseSwitchBlock:
  assumes steps: "steps_good n steps" and "wf_tokens ts" and "\<not> eof ts" and "length ts \<le> n"
  shows "pgood (length ts) (parseSwitchBlock steps ts)"
  using assms(2-) unfolding parseSwitchBlock_def
  by (auto simp: guard_simps intro!: parser_intro pgood_switchLoop [OF steps])

lemma pgood_parseParallelBlock:
  assumes steps: "steps_good n steps" and "wf_tokens ts" and "\<not> eof ts" and "length ts \<le> n"
  shows "pgood (length ts) (parseParallelBlock steps ts)"
  using assms(2-) unfolding parseParallelBlock_def
  by (auto simp: guard_simps intro!: parser_intro pgood_bind_steps [OF steps])

lemma pgood_parseWaitBlock:
  "wf_tokens ts \<Longrightarrow> \<not> eof ts \<Longrightarrow> pgood (length ts) (parseWaitBlock ts)"
  unfolding parseWaitBlock_def by (auto simp: guard_simps intro!: parser_intro)

lemma pgood_parseForeachLoop:
  assumes steps: "steps_good n steps" and "wf_tokens ts" and "\<not> eof ts" and "length ts \<le> n"
  shows "pgood (length ts) (parseForeachLoop steps ts)"
  using assms(2-) unfolding parseForeachLoop_def
  by (auto simp: guard_simps intro!: parser_intro pgood_bind_steps [OF steps])

lemma pgood_parseWhileLoop:
  assumes steps: "steps_good n steps" and "wf_tokens ts" and "\<not> eof ts" and "length ts \<le> n"
  shows "pgood (length ts) (parseWhileLoop steps ts)"
  using assms(2-) unfolding parseWhileLoop_def
  by (auto simp: guard_simps intro!: parser_intro pgood_bind_steps [OF steps])

lemma pgood_someStep: "pgood n m \<Longrightarrow> pgood n (someStep m)"
  unfolding someStep_def by (auto intro: pgood_pbind)

lemma pgood_parseWorkflowStep:
  assumes "steps_good n steps" and "wf_tokens ts" and "\<not> eof ts" and "length ts \<le> n"
  shows "pgood (length ts) (parseWorkflowStep steps ts)"
proof -
  note block = pgood_parseIfBlock [OF assms] pgood_parseSwitchBlock [OF assms]
    pgood_parseParallelBlock [OF assms] pgood_parseWaitBlock [OF assms(2,3)]
    pgood_parseForeachLoop [OF assms] pgood_parseWhileLoop [OF assms]
  from assms(2,3) show ?thesis
    unfolding parseWorkflowStep_def Let_def
    by (simp add: pgood_someStep [OF block(1)] pgood_someStep [OF block(2)]
        pgood_someStep [OF block(3)] pgood_someStep [OF block(4)]
        pgood_someStep [OF block(5)] pgood_someStep [OF block(6)])
      (auto simp: guard_simps intro!: parser_intro)
qed

lemma pgood_parseWorkflowStepsLoop:
  "length ts < n \<Longrightarrow> wf_tokens ts \<Longrightarrow> length ts < k \<Longrightarrow> pgood k (parseWorkflowStepsLoop n acc ts)"
proof (induction n arbitrary: acc ts k)
  case (Suc n)
  from Suc.IH have steps: "steps_good n (parseWorkflowStepsLoop n [])"
    by (auto simp: steps_good_def)
  show ?case
  proof (cases "eof ts \<or> endsSteps (ppeek ts)")
    case False
    with Suc.prems have "pgood (length ts) (parseWorkflowStep (parseWorkflowStepsLoop n []) ts)"
      by (auto intro!: pgood_parseWorkflowStep [OF steps])
    from this Suc False show ?thesis by (auto intro!: pgood_pbind)
  qed (use Suc.prems in auto)
qed simp


declare parseWorkflowStepsLoop.simps [simp del]

lemma pgood_parseWorkflowSteps:
  "wf_tokens ts \<Longrightarrow> pgood (Suc (length ts)) (parseWorkflowSteps ts)"
  unfolding parseWorkflowSteps_def by (auto intro: pgood_parseWorkflowStepsLoop)

lemmas [parser_intro] = pgood_pbind [OF pgood_parseWorkflowSteps]

lemma pgood_onErrorLoop [parser_intro]:
  "length ts < n \<Longrightarrow> wf_tokens ts \<Longrightarrow> length ts < k \<Longrightarrow> pgood k (onErrorLoop n b ts)"
  by (induction n arbitrary: b ts) (auto simp: guard_simps intro!: parser_intro)

declare onErrorLoop.simps [simp del]

lemma pgood_case_outputsLoop [parser_intro]:
  assumes "wf_tokens ts"
    and "\<And>outs ts'. wf_tokens ts' \<Longrightarrow> length ts' \<le> length ts \<Longrightarrow> pgood k (f outs ts')"
  shows "pgood k (case outputsLoop ws ts of (outs, ts') \<Rightarrow> f outs ts')"
  using assms by (auto dest: outputsLoop_good split: prod.split)

lemma pgood_parseSections:
  assumes "wf_tokens ts" and "Type (ppeek ts) \<noteq> TokenEOF"
  shows "pgood (length ts) (parseDescription ts)" "pgood (length ts) (parseVariables ts)"
    "pgood (length ts) (parseConstants ts)" "pgood (length ts) (parseOutputs ts)"
    "pgood (length ts) (parseImport ts)" "pgood (length ts) (parseInclude ts)"
    "pgood (length ts) (parseRetry ts)" "pgood (length ts) (parseBreaker ts)"
    "pgood (length ts) (parseOnError ts)" "pgood (length ts) (parseCompensate ts)"
    "pgood (length ts) (parseService ts)" "pgood (length ts) (parseEvent ts)"
    "pgood (length ts) (parseWorkflow ts)"
  using assms
  unfolding parseDescription_def parseVariables_def parseConstants_def parseOutputs_def
    parseImport_def parseInclude_def parseRetry_def parseBreaker_def parseOnError_def
    parseCompensate_def parseService_def parseEvent_def parseWorkflow_def
  by (auto simp: guard_simps intro!: parser_intro pgood_mono [OF pgood_parseWorkflowSteps])

lemma pgood_parseSection:
  assumes "wf_tokens ts" and "\<not> eof ts"
  shows "pgood (length ts) (parseSection fl ts)"
proof -
  have first: "Type (ppeek ts) \<noteq> TokenEOF" and "ts \<noteq> []"
    using assms(2) by (auto simp: eof_ppeek)
  note sect = pgood_parseSections [OF assms(1) first, THEN pgood_pbind]
  show ?thesis
    unfolding parseSection_def Let_def
    by (intro pgood_if sect pgood_PErr)
      (auto intro!: parser_intro simp: assms first \<open>ts \<noteq> []\<close>)
qed

lemma pgood_sectionsLoop [parser_intro]:
  "length ts < n \<Longrightarrow> wf_tokens ts \<Longrightarrow> length ts < k \<Longrightarrow> pgood k (sectionsLoop n fl ts)"
proof (induction n arbitrary: fl ts k)
  case (Suc n)
  then show ?case
    by (cases "eof ts") (auto intro!: pgood_pbind [OF pgood_parseSection])
qed simp

declare sectionsLoop.simps [simp del]

lemma pgood_parseFlow: "wf_tokens ts \<Longrightarrow> pgood (Suc (length ts)) (parseFlow ts)"
  unfolding parseFlow_def by (auto simp: guard_simps intro!: parser_intro)

subsection \<open>Nested blocks\<close>

text \<open>
  Because the newlines are gone when the parser runs, the condition of an \<^verbatim>\<open>if\<close> or \<^verbatim>\<open>while\<close>
  takes every remaining token, and a nested \<^verbatim>\<open>parseWorkflowSteps\<close> skips the \<^verbatim>\<open>else\<close>,
  \<^verbatim>\<open>case\<close>, \<^verbatim>\<open>default\<close> and \<^verbatim>\<open>join\<close> tokens of the enclosing block.  \<open>degenerate\<close> is the shape of the
  steps that can come out.
\<close>

fun degenerate :: "WorkflowStep \<Rightarrow> bool" and degenerateCase :: "CaseBlock \<Rightarrow> bool" where
  "degenerate (IfBlock _ thn els _) \<longleftrightarrow> thn = [] \<and> els = []"
| "degenerate (WhileLoop _ ss _) \<longleftrightarrow> ss = []"
| "degenerate (SwitchBlock _ cases deflt _) \<longleftrightarrow>
     length cases \<le> 1 \<and> (cases = [] \<or> deflt = []) \<and>
     list_all degenerateCase cases \<and> list_all degenerate deflt"
| "degenerate (ParallelBlock ss _) \<longleftrightarrow> list_all degenerate ss"
| "degenerate (ForeachLoop _ ss _) \<longleftrightarrow> list_all degenerate ss"
| "degenerate _ \<longleftrightarrow> True"
| "degenerateCase (CaseBlock _ ss _) \<longleftrightarrow> list_all degenerate ss"

definition pres :: "('a \<Rightarrow> Token list \<Rightarrow> bool) \<Rightarrow> 'a presult \<Rightarrow> bool" where
  "pres Q r = (case r of POk a ts \<Rightarrow> Q a ts | _ \<Rightarrow> True)"

lemma pres_simps [simp]: "pres Q (POk a ts) = Q a ts" "pres Q (PErr e)"  "pres Q PFuel"
  by (simp_all add: pres_def)

lemma pres_pbind:
  assumes "pres P r" and "\<And>a ts. P a ts \<Longrightarrow> pres Q (f a ts)"
  shows "pres Q (pbind r f)"
  using assms by (cases r) (simp_all add: pres_def pbind_def)

lemma pres_pgood: "pgood n r \<Longrightarrow> pres (\<lambda>_ ts. wf_tokens ts \<and> length ts < n) r"
  by (cases r) (simp_all add: pgood_def)

lemma pres_bind_advance:
  assumes "wf_tokens ts" and "\<And>t ts1. wf_tokens ts1 \<Longrightarrow> pres Q (f t ts1)"
  shows "pres Q (pbind (advance ts) f)"
  using assms by (cases ts) (auto simp: advance_def pbind_def pres_def dest: wf_tokens_Cons)

lemmas pres_bind_expect =
  pres_pbind [OF pres_pgood [OF pgood_expectIdent]] pres_pbind [OF pres_pgood [OF pgood_expectValue]]

lemma wordsLoop_eof: "wf_tokens ts \<Longrightarrow> wordsLoop ws ts = (ws', ts') \<Longrightarrow> wf_tokens ts' \<and> eof ts'"
  by (induction ws ts rule: wordsLoop.induct)
    (fastforce split: if_splits dest: wf_tokens_Cons simp: eof_def wf_tokens_def)+

lemma pres_parseCondition: "wf_tokens ts \<Longrightarrow> pres (\<lambda>_ ts1. wf_tokens ts1 \<and> eof ts1) (parseCondition ts)"
  by (auto simp: parseCondition_def dest: wordsLoop_eof split: prod.split)

definition steps_degenerate :: "steps_parser \<Rightarrow> bool" where
  "steps_degenerate steps \<longleftrightarrow> (\<forall>ts. wf_tokens ts \<longrightarrow>
     pres (\<lambda>ss ts1. list_all degenerate ss \<and> wf_tokens ts1 \<and> (eof ts1 \<or> endsSteps (ppeek ts1)) \<and>
       (eof ts \<longrightarrow> ss = [] \<and> ts1 = ts)) (steps ts))"

lemma pres_bind_steps:
  assumes "steps_degenerate steps" and "wf_tokens ts"
    and "\<And>ss ts1. list_all degenerate ss \<Longrightarrow> wf_tokens ts1 \<Longrightarrow> eof ts1 \<or> endsSteps (ppeek ts1) \<Longrightarrow>
      (eof ts \<longrightarrow> ss = [] \<and> ts1 = ts) \<Longrightarrow> pres Q (f ss ts1)"
  shows "pres Q (pbind (steps ts) f)"
  using assms pres_pbind [where r = "steps ts" and f = f and Q = Q] by (auto simp: steps_degenerate_def)

lemma switchLoop_stop:
  "eof ts \<or> endsSteps (ppeek ts) \<Longrightarrow>
     pres (\<lambda>s ts1. s = SwitchBlock var cases deflt 0 \<and> ts1 = ts) (switchLoop n steps var cases deflt ts)"
  by (cases n) (auto simp: switchLoop.simps endsSteps_def)

lemma pres_mono: "pres P r \<Longrightarrow> (\<And>a ts. P a ts \<Longrightarrow> Q a ts) \<Longrightarrow> pres Q r"
  by (cases r) (auto simp: pres_def)

lemma pres_parseSwitchBlock:
  assumes steps: "steps_degenerate steps" and "wf_tokens ts"
  shows "pres (\<lambda>s ts1. degenerate s \<and> wf_tokens ts1) (parseSwitchBlock steps ts)"
  using assms(2) unfolding parseSwitchBlock_def
  by (auto simp: switchLoop.simps
      intro!: pres_bind_advance pres_bind_expect pres_bind_steps [OF steps]
        pres_mono [OF switchLoop_stop])

lemma pres_blocks:
  assumes steps: "steps_degenerate steps" and "wf_tokens ts"
  shows "pres (\<lambda>s ts1. degenerate s \<and> wf_tokens ts1) (parseIfBlock steps ts)"
    "pres (\<lambda>s ts1. degenerate s \<and> wf_tokens ts1) (parseParallelBlock steps ts)"
    "pres (\<lambda>s ts1. degenerate s \<and> wf_tokens ts1) (parseWaitBlock ts)"
    "pres (\<lambda>s ts1. degenerate s \<and> wf_tokens ts1) (parseForeachLoop steps ts)"
    "pres (\<lambda>s ts1. degenerate s \<and> wf_tokens ts1) (parseWhileLoop steps ts)"
  using assms(2)
  unfolding parseIfBlock_def parseParallelBlock_def parseWaitBlock_def parseForeachLoop_def
    parseWhileLoop_def
  by (auto simp: eof_ppeek match_def
      intro!: pres_bind_advance pres_bind_expect pres_bind_steps [OF steps]
        pres_pbind [OF pres_parseCondition])

lemma pres_someStep:
  "pres (\<lambda>s ts1. degenerate s \<and> wf_tokens ts1) m \<Longrightarrow>
     pres (\<lambda>s ts1. list_all degenerate (case s of None \<Rightarrow> [] | Some s \<Rightarrow> [s]) \<and> wf_tokens ts1) (someStep m)"
  unfolding someStep_def by (rule pres_pbind) auto

lemma pres_parseWorkflowStep:
  assumes "steps_degenerate steps" and "wf_tokens ts"
  shows "pres (\<lambda>s ts1. list_all degenerate (case s of None \<Rightarrow> [] | Some s \<Rightarrow> [s]) \<and> wf_tokens ts1)
    (parseWorkflowStep steps ts)"
  using assms(2)
  unfolding parseWorkflowStep_def Let_def
  by (simp add: pres_blocks [OF assms, THEN pres_someStep] pres_parseSwitchBlock [OF assms, THEN pres_someStep])
    (auto intro!: pres_bind_advance pres_bind_expect)

lemma pres_parseWorkflowStepsLoop:
  "wf_tokens ts \<Longrightarrow> list_all degenerate acc \<Longrightarrow>
     pres (\<lambda>ss ts1. list_all degenerate ss \<and> wf_tokens ts1 \<and> (eof ts1 \<or> endsSteps (ppeek ts1)) \<and>
       (eof ts \<longrightarrow> ss = acc \<and> ts1 = ts)) (parseWorkflowStepsLoop n acc ts)"
proof (induction n arbitrary: acc ts)
  case (Suc n)
  from Suc.IH have steps: "steps_degenerate (parseWorkflowStepsLoop n [])"
    by (simp add: steps_degenerate_def)
  show ?case
  proof (cases "eof ts \<or> endsSteps (ppeek ts)")
    case False
    then show ?thesis
      using Suc.prems
      by (auto simp: parseWorkflowStepsLoop.simps split: option.splits
          intro!: pres_pbind [OF pres_parseWorkflowStep [OF steps]] pres_mono [OF Suc.IH])
  qed (use Suc.prems in \<open>auto simp: parseWorkflowStepsLoop.simps\<close>)
qed (simp add: parseWorkflowStepsLoop.simps)

lemma pres_parseWorkflow:
  "wf_tokens ts \<Longrightarrow> pres (\<lambda>ss _. list_all degenerate ss) (parseWorkflow ts)"
  unfolding parseWorkflow_def parseWorkflowSteps_def
  by (auto intro!: pres_bind_advance pres_mono [OF pres_parseWorkflowStepsLoop])

text \<open>
  A flow the parser returns: it has no trigger, its \<^verbatim>\<open>output\<close>, \<^verbatim>\<open>import\<close> and \<^verbatim>\<open>include\<close> sections
  cannot be reached (the three words are keywords, the section loop looks for identifiers),
  and its workflow is degenerate.
\<close>

definition parsed_shape :: "Flow \<Rightarrow> bool" where
  "parsed_shape fl \<longleftrightarrow> fl_Trigger fl = None \<and> fl_Imports fl = [] \<and> fl_Outputs fl = [] \<and>
     (\<forall>ss. fl_Workflow fl = Some ss \<longrightarrow> list_all degenerate ss)"

lemma ppeek_no_keyword:
  assumes "wf_tokens ts" and "Type (ppeek ts) = TokenIdent"
  shows "Value (ppeek ts) \<notin> {''output'', ''import'', ''include''}"
proof -
  have "map_of keyword_table (Value (ppeek ts)) = None"
    using assms by (cases ts) (auto simp: wf_tokens_def ppeek_def no_keyword_ident_def eofToken_def)
  then show ?thesis by (auto simp: keyword_table_def)
qed

lemma pres_trivial: "pres (\<lambda>_ _. True) r"
  by (cases r) (auto simp: pres_def)

lemma pres_if: "(b \<Longrightarrow> pres Q r) \<Longrightarrow> (\<not> b \<Longrightarrow> pres Q r') \<Longrightarrow> pres Q (if b then r else r')"
  by simp

lemma pres_shape_parseSection:
  assumes "parsed_shape fl" and "wf_tokens ts"
  shows "pres (\<lambda>fl' _. parsed_shape fl') (parseSection fl ts)"
  using assms(1) ppeek_no_keyword [OF assms(2)]
  unfolding parseSection_def Let_def
  by (intro pres_if pres_pbind [OF pres_parseWorkflow [OF assms(2)]] pres_pbind [OF pres_trivial] pres_simps(2))
    (simp_all add: parsed_shape_def)

lemma pres_sectionsLoop:
  "parsed_shape fl \<Longrightarrow> wf_tokens ts \<Longrightarrow>
     pres (\<lambda>fl' ts'. parsed_shape fl' \<and> eof ts') (sectionsLoop n fl ts)"
proof (induction n arbitrary: fl ts)
  case (Suc n)
  show ?case
  proof (cases "eof ts")
    case False
    have "pres (\<lambda>fl' ts'. parsed_shape fl' \<and> wf_tokens ts') (parseSection fl ts)"
      using pres_shape_parseSection [OF Suc.prems]
        pres_pgood [OF pgood_parseSection [OF Suc.prems(2) False, of fl]]
      by (cases "parseSection fl ts") (simp_all add: pres_def)
    then show ?thesis using False Suc.IH by (auto simp: sectionsLoop.simps intro: pres_pbind)
  qed (use Suc.prems in \<open>simp add: sectionsLoop.simps\<close>)
qed (simp add: sectionsLoop.simps)

lemma parsed_shape_empty [simp]:
  "parsed_shape emptyFlow" "parsed_shape (emptyFlow\<lparr>fl_Metadata := m\<rparr>)"
  by (simp_all add: parsed_shape_def emptyFlow_def)

lemma pres_parseFlow:
  "wf_tokens ts \<Longrightarrow> pres (\<lambda>fl ts'. parsed_shape fl \<and> eof ts') (parseFlow ts)"
  unfolding parseFlow_def
  by (auto intro!: pres_bind_advance pres_bind_expect pres_sectionsLoop)

lemma wf_tokens_FilterNewlines:
  assumes "Tokenize s = Some (LexOk ts)"
  shows "wf_tokens (FilterNewlines ts)"
proof -
  from assms have ok: "eof_terminated ts \<and> (\<forall>t \<in> set ts. Type t \<noteq> TokenError \<and> no_keyword_ident t)"
    by (auto simp: Tokenize_def tokens_ok_def NewLexer_def dest!: tokenizeLoop_LexOk)
  then obtain us e where "ts = us @ [e]" "Type e = TokenEOF"
    by (metis append_butlast_last_id eof_terminated_def)
  with ok show ?thesis by (auto simp: wf_tokens_def FilterNewlines_def)
qed

lemma parsed_flow_shape: "Parse s = Some (FlowOk fl) \<Longrightarrow> parsed_shape fl"
  using pres_parseFlow [OF wf_tokens_FilterNewlines, of s]
  by (auto simp: Parse_def pres_def split: option.splits lex_result.splits presult.splits)

subsection \<open>Straight-line workflows\<close>

text \<open>
  The tokens of a step without nested steps.  A wait with a timeout has none: its
  \<^verbatim>\<open>timeout\<close> word is lexed as a keyword and ends the workflow instead.
\<close>

abbreviation tok :: "TokenType \<Rightarrow> string \<Rightarrow> nat \<Rightarrow> Token" where
  "tok t v n \<equiv> \<lparr>Type = t, Value = v, Line = n, Column = 0\<rparr>"

fun stepTokens :: "WorkflowStep \<Rightarrow> Token list option" where
  "stepTokens (StepRef name n) = Some [tok TokenArrow ''->'' n, tok TokenIdent name n]"
| "stepTokens (EmitEvent event n) = Some [tok TokenEmit ''emit'' n, tok TokenIdent event n]"
| "stepTokens (ReturnStep v n) = Some [tok TokenReturn ''Return'' n, tok TokenIdent v n]"
| "stepTokens (WaitBlock event t n) =
     (if t = [] \<and> n = 0 then Some [tok TokenWait ''wait'' 0, tok TokenIdent event 0] else None)"
| "stepTokens _ = None"

definition straightLine :: "WorkflowStep list \<Rightarrow> bool" where
  "straightLine ss \<longleftrightarrow> (\<forall>s \<in> set ss. stepTokens s \<noteq> None)"

definition stepsTokens :: "WorkflowStep list \<Rightarrow> Token list" where
  "stepsTokens ss = concat (map (the \<circ> stepTokens) ss)"

lemma straightLine_Cons [simp]: "straightLine (s # ss) \<longleftrightarrow> stepTokens s \<noteq> None \<and> straightLine ss"
  by (simp add: straightLine_def)

lemma stepsTokens_simps [simp]:
  "stepsTokens [] = []" "stepsTokens (s # ss) = the (stepTokens s) @ stepsTokens ss"
  by (simp_all add: stepsTokens_def)

lemma stepTokens_cases:
  assumes "stepTokens s \<noteq> None"
  obtains a b where "stepTokens s = Some [a, b]" "\<not> endsSteps a" "Type a \<noteq> TokenEOF" "Type a \<noteq> TokenIdent"
    "\<And>steps t ts. Type t \<noteq> TokenIdent \<Longrightarrow>
       parseWorkflowStep steps (a # b # t # ts) = POk (Some s) (t # ts)"
  using assms
  by (cases s) (auto simp: endsSteps_def parseWorkflowStep_def ppeek_def advance_def expectIdent_def
      eof_def match_def parseWaitBlock_def someStep_def split: if_splits)

lemma stepsTokens_hd:
  assumes "straightLine ss" and "Type e = TokenEOF"
  obtains t ts where "stepsTokens ss @ [e] = t # ts" "Type t \<noteq> TokenIdent"
proof (cases ss)
  case Nil
  with assms that show ?thesis by simp
next
  case (Cons s ss')
  with assms(1) have "stepTokens s \<noteq> None" by simp
  then obtain a b where "stepTokens s = Some [a, b]" "Type a \<noteq> TokenIdent" by (rule stepTokens_cases)
  with Cons that [of a "b # stepsTokens ss' @ [e]"] show ?thesis by simp
qed

lemma parseWorkflowStepsLoop_straightLine:
  assumes "straightLine ss" and "Type e = TokenEOF" and "length (stepsTokens ss) < n"
  shows "parseWorkflowStepsLoop n acc (stepsTokens ss @ [e]) = POk (acc @ ss) [e]"
  using assms
proof (induction ss arbitrary: acc n)
  case Nil
  then show ?case by (cases n) (simp_all add: parseWorkflowStepsLoop.simps eof_def)
next
  case (Cons s ss)
  then obtain m where n: "n = Suc m" by (cases n) auto
  from Cons.prems obtain t ts where rest: "stepsTokens ss @ [e] = t # ts" "Type t \<noteq> TokenIdent"
    by (auto elim: stepsTokens_hd)
  from Cons.prems have "stepTokens s \<noteq> None" by simp
  then show ?case
  proof (cases rule: stepTokens_cases)
    case (1 a b)
    with Cons.IH [of m "acc @ [s]"] Cons.prems rest show ?thesis
      by (simp add: n parseWorkflowStepsLoop.simps eof_def ppeek_def)
  qed
qed

subsection \<open>Properties\<close>

text \<open>
  C12: On every text without the two characters \<^verbatim>\<open>v.\<close> next to each other that does not end in
  a backslash, \<^verbatim>\<open>Parser.Parse\<close> returns, with a flow or an error: the lexer loop ends, no loop
  of the parser runs forever, and no \<^verbatim>\<open>advance\<close> indexes past the token slice.
\<close>

theorem Parse_total:
  assumes "vdot_free s" and "s = [] \<or> last s \<noteq> CHR 0x5C"
  shows "\<exists>r. Parse s = Some r \<and> r \<noteq> FlowPanic \<and> r \<noteq> FlowFuel"
proof -
  obtain r where r: "Tokenize s = Some r" "r \<noteq> LexPanic"
    using assms tokenizeLoop_terminates [of "NewLexer s"] tokenizeLoop_no_panic [of "NewLexer s"]
    by (auto simp: Tokenize_def NewLexer_def)
  show ?thesis
  proof (cases r)
    case (LexOk ts)
    with r have "pgood (Suc (length (FilterNewlines ts))) (parseFlow (FilterNewlines ts))"
      using wf_tokens_FilterNewlines pgood_parseFlow by blast
    with r LexOk show ?thesis by (auto simp: Parse_def pgood_def split: presult.splits)
  qed (use r in \<open>auto simp: Parse_def\<close>)
qed

theorem Parse_total_witness:
  "\<exists>r. Parse ''flow f workflow -> a if'' = Some r \<and> r \<noteq> FlowPanic \<and> r \<noteq> FlowFuel"
  by (rule Parse_total) simp_all

text \<open>
  Every flow \<^verbatim>\<open>Parse\<close> returns has no trigger, no imports and no outputs, and in its
  workflow every \<^verbatim>\<open>if\<close> and \<^verbatim>\<open>while\<close> block has an empty body and every \<^verbatim>\<open>switch\<close> at most one
  case: the parser filters the newlines its conditions end at, nested step lists take the
  \<^verbatim>\<open>else\<close>, \<^verbatim>\<open>case\<close> and \<^verbatim>\<open>join\<close> tokens, and \<^verbatim>\<open>output\<close>, \<^verbatim>\<open>import\<close> and \<^verbatim>\<open>include\<close> are never
  identifier tokens.
\<close>

lemma Parse_shape:
  assumes "Parse s = Some (FlowOk fl)"
  shows "parsed_shape fl"
  using assms by (rule parsed_flow_shape)

text \<open>
  A straight-line workflow (step references, emits, returns and waits without a
  timeout) is read back from its tokens: \<^verbatim>\<open>parseWorkflowSteps\<close> returns exactly these steps and
  stops at the end of file.
\<close>

lemma parseWorkflowSteps_roundtrip:
  assumes "straightLine ss" and "Type e = TokenEOF"
  shows "parseWorkflowSteps (stepsTokens ss @ [e]) = POk ss [e]"
  using assms by (simp add: parseWorkflowSteps_def parseWorkflowStepsLoop_straightLine)

end
