(* ===== verification/Flow_Semantic.thy ===== *)
theory Flow_Semantic
  imports Flow_AST
begin

text \<open>
  The semantic analyser of \<^verbatim>\<open>server/internal/flow/semantic.go\<close>.  The analyser's tables persist
  between calls of \<^verbatim>\<open>Analyze\<close>: only the error slice is reset.  An error is a constructor per
  message with the values the message prints and, where the code sets it, the line.
  Names are ASCII, so that ranging over the runes of a string is ranging over its characters.
\<close>

subsection \<open>Operations\<close>

datatype SemanticError =
    DuplicateService string
  | DuplicateEvent string
  | UnknownService string string nat
  | UnknownEvent string nat
  | UnknownCompensation string

record Analyzer =
  an_errors :: "SemanticError list"
  an_services :: "(string, Service) gomap"
  an_events :: "(string, Event) gomap"
  an_vars :: "(string, Variable) gomap"
  an_consts :: "(string, Constant) gomap"

definition NewAnalyzer :: Analyzer where
  "NewAnalyzer = \<lparr>an_errors = [], an_services = [], an_events = [], an_vars = [], an_consts = []\<rparr>"

definition addError :: "SemanticError \<Rightarrow> Analyzer \<Rightarrow> Analyzer" where
  "addError e a = a\<lparr>an_errors := an_errors a @ [e]\<rparr>"

fun registerServices :: "Service list \<Rightarrow> Analyzer \<Rightarrow> Analyzer" where
  "registerServices [] a = a"
| "registerServices (svc # svcs) a =
     (let a1 = (if map_of (an_services a) (svc_Name svc) \<noteq> None
                then addError (DuplicateService (svc_Name svc)) a else a)
      in registerServices svcs (a1\<lparr>an_services := AList.update (svc_Name svc) svc (an_services a1)\<rparr>))"

fun registerEvents :: "Event list \<Rightarrow> Analyzer \<Rightarrow> Analyzer" where
  "registerEvents [] a = a"
| "registerEvents (evt # evts) a =
     (let a1 = (if map_of (an_events a) (evt_Name evt) \<noteq> None
                then addError (DuplicateEvent (evt_Name evt)) a else a)
      in registerEvents evts (a1\<lparr>an_events := AList.update (evt_Name evt) evt (an_events a1)\<rparr>))"

fun registerVariables :: "Variable list \<Rightarrow> Analyzer \<Rightarrow> Analyzer" where
  "registerVariables [] a = a"
| "registerVariables (v # vs) a =
     registerVariables vs (a\<lparr>an_vars := AList.update (var_Name v) v (an_vars a)\<rparr>)"

fun registerConstants :: "Constant list \<Rightarrow> Analyzer \<Rightarrow> Analyzer" where
  "registerConstants [] a = a"
| "registerConstants (c # cs) a =
     registerConstants cs (a\<lparr>an_consts := AList.update (const_Name c) c (an_consts a)\<rparr>)"

fun splitLoop :: "string list \<Rightarrow> string \<Rightarrow> string \<Rightarrow> string list" where
  "splitLoop parts current [] = (if current \<noteq> [] then parts @ [current] else parts)"
| "splitLoop parts current (ch # name) =
     (if ch = CHR ''.'' then
        if current \<noteq> [] then splitLoop (parts @ [current]) [] name else splitLoop parts current name
      else splitLoop parts (current @ [ch]) name)"

definition splitRef :: "string \<Rightarrow> string list" where
  "splitRef name = splitLoop [] [] name"

fun validateStep :: "Analyzer \<Rightarrow> WorkflowStep \<Rightarrow> Analyzer"
  and validateCase :: "Analyzer \<Rightarrow> CaseBlock \<Rightarrow> Analyzer" where
  "validateStep a (StepRef name line) =
     (let parts = splitRef name in
      if 1 < length parts \<and> map_of (an_services a) (hd parts) = None
      then addError (UnknownService (hd parts) name line) a
      else a)"
| "validateStep a (IfBlock _ thn els _) = foldl validateStep (foldl validateStep a thn) els"
| "validateStep a (SwitchBlock _ cases deflt _) =
     foldl validateStep (foldl validateCase a cases) deflt"
| "validateStep a (ParallelBlock ss _) = foldl validateStep a ss"
| "validateStep a (ForeachLoop _ ss _) = foldl validateStep a ss"
| "validateStep a (WhileLoop _ ss _) = foldl validateStep a ss"
| "validateStep a (EmitEvent event line) =
     (if map_of (an_events a) event = None then addError (UnknownEvent event line) a else a)"
| "validateStep a (WaitBlock _ _ _) = a"
| "validateStep a (ReturnStep _ _) = a"
| "validateCase a (CaseBlock _ ss _) = foldl validateStep a ss"

definition validateWorkflow :: "WorkflowStep list \<Rightarrow> Analyzer \<Rightarrow> Analyzer" where
  "validateWorkflow steps a = foldl validateStep a steps"

definition validateErrorBlock :: "ErrorBlock \<Rightarrow> Analyzer \<Rightarrow> Analyzer" where
  "validateErrorBlock block a =
     foldl validateStep
       (foldl (\<lambda>a c. foldl validateStep a (ec_Steps c)) a (eb_Cases block)) (eb_Fallback block)"

text \<open>The map \<^verbatim>\<open>names\<close> of \<^verbatim>\<open>collectStepNames\<close> is the list of the keys set to true.\<close>

fun collectStep :: "string list \<Rightarrow> WorkflowStep \<Rightarrow> string list"
  and collectCase :: "string list \<Rightarrow> CaseBlock \<Rightarrow> string list" where
  "collectStep names (StepRef name _) = List.insert name names"
| "collectStep names (IfBlock _ thn els _) = foldl collectStep (foldl collectStep names thn) els"
| "collectStep names (SwitchBlock _ cases deflt _) =
     foldl collectStep (foldl collectCase names cases) deflt"
| "collectStep names (ParallelBlock ss _) = foldl collectStep names ss"
| "collectStep names (ForeachLoop _ ss _) = foldl collectStep names ss"
| "collectStep names (WhileLoop _ ss _) = foldl collectStep names ss"
| "collectStep names (WaitBlock _ _ _) = names"
| "collectStep names (EmitEvent _ _) = names"
| "collectStep names (ReturnStep _ _) = names"
| "collectCase names (CaseBlock _ ss _) = foldl collectStep names ss"

definition collectStepNames :: "WorkflowStep list \<Rightarrow> string list \<Rightarrow> string list" where
  "collectStepNames steps names = foldl collectStep names steps"

definition validateCompensation ::
  "CompensateStep list \<Rightarrow> WorkflowStep list option \<Rightarrow> Analyzer \<Rightarrow> Analyzer" where
  "validateCompensation steps workflow a =
     (case workflow of None \<Rightarrow> a
      | Some ss \<Rightarrow>
          foldl (\<lambda>a comp.
            if cs_Step comp \<notin> set (collectStepNames ss [])
            then addError (UnknownCompensation (cs_Step comp)) a else a) a steps)"

definition Analyze :: "Flow \<Rightarrow> Analyzer \<Rightarrow> SemanticError list \<times> Analyzer" where
  "Analyze fl a0 =
     (let a1 = registerConstants (fl_Constants fl)
                 (registerVariables (fl_Variables fl)
                    (registerEvents (fl_Events fl)
                       (registerServices (fl_Services fl) (a0\<lparr>an_errors := []\<rparr>))));
          a2 = (case fl_Workflow fl of None \<Rightarrow> a1 | Some steps \<Rightarrow> validateWorkflow steps a1);
          a3 = (case fl_Errors fl of None \<Rightarrow> a2 | Some b \<Rightarrow> validateErrorBlock b a2);
          a4 = validateCompensation (fl_Compensate fl) (fl_Workflow fl) a3
      in (an_errors a4, a4))"

subsection \<open>Analysis as a list of errors\<close>

text \<open>
  The steps that carry a check, in the order \<^verbatim>\<open>validateStep\<close> reaches them, and the error
  of one of them under the tables of services and events.
\<close>

fun leaves :: "WorkflowStep \<Rightarrow> WorkflowStep list" and caseLeaves :: "CaseBlock \<Rightarrow> WorkflowStep list" where
  "leaves (IfBlock _ thn els _) = concat (map leaves thn) @ concat (map leaves els)"
| "leaves (SwitchBlock _ cases deflt _) = concat (map caseLeaves cases) @ concat (map leaves deflt)"
| "leaves (ParallelBlock ss _) = concat (map leaves ss)"
| "leaves (ForeachLoop _ ss _) = concat (map leaves ss)"
| "leaves (WhileLoop _ ss _) = concat (map leaves ss)"
| "leaves s = [s]"
| "caseLeaves (CaseBlock _ ss _) = concat (map leaves ss)"

definition leafError :: "string set \<Rightarrow> string set \<Rightarrow> WorkflowStep \<Rightarrow> SemanticError list" where
  "leafError svcs evts s =
     (case s of
        StepRef name n \<Rightarrow>
          if 1 < length (splitRef name) \<and> hd (splitRef name) \<notin> svcs
          then [UnknownService (hd (splitRef name)) name n] else []
      | EmitEvent e n \<Rightarrow> if e \<notin> evts then [UnknownEvent e n] else []
      | _ \<Rightarrow> [])"

abbreviation errorsOf :: "Analyzer \<Rightarrow> WorkflowStep list \<Rightarrow> SemanticError list" where
  "errorsOf a ss \<equiv>
     concat (map (leafError (fst ` set (an_services a)) (fst ` set (an_events a))) ss)"

abbreviation withErrors :: "Analyzer \<Rightarrow> SemanticError list \<Rightarrow> Analyzer" where
  "withErrors a es \<equiv> a\<lparr>an_errors := an_errors a @ es\<rparr>"

lemma foldl_withErrors:
  assumes "\<And>a x. x \<in> set xs \<Longrightarrow> f a x = withErrors a (errorsOf a (g x))"
  shows "foldl f a xs = withErrors a (errorsOf a (concat (map g xs)))"
  using assms by (induction xs arbitrary: a) simp_all

lemmas foldl_leaves = foldl_withErrors [where f = validateStep and g = leaves]
  foldl_withErrors [where f = validateCase and g = caseLeaves]

lemma leafError_simps [simp]:
  "leafError svcs evts (WaitBlock e t n) = []" "leafError svcs evts (ReturnStep v n) = []"
  by (simp_all add: leafError_def)

lemma validateStep_errors:
  "validateStep a s = withErrors a (errorsOf a (leaves s))"
  "validateCase a c = withErrors a (errorsOf a (caseLeaves c))"
proof (induction a s and a c rule: validateStep_validateCase.induct)
  case (1 a name line)
  then show ?case by (simp add: Let_def addError_def leafError_def map_of_eq_None_iff)
next
  case (7 a event line)
  then show ?case by (simp add: addError_def leafError_def map_of_eq_None_iff)
qed (simp_all add: foldl_leaves)

lemma foldl_validateStep: "foldl validateStep a ss = withErrors a (errorsOf a (concat (map leaves ss)))"
  by (rule foldl_withErrors) (rule validateStep_errors)

definition blockLeaves :: "ErrorBlock \<Rightarrow> WorkflowStep list" where
  "blockLeaves b = concat (map (\<lambda>c. concat (map leaves (ec_Steps c))) (eb_Cases b)) @
     concat (map leaves (eb_Fallback b))"

lemma validateErrorBlock_errors: "validateErrorBlock b a = withErrors a (errorsOf a (blockLeaves b))"
proof -
  have "foldl (\<lambda>a c. foldl validateStep a (ec_Steps c)) a (eb_Cases b) =
      withErrors a (errorsOf a (concat (map (\<lambda>c. concat (map leaves (ec_Steps c))) (eb_Cases b))))"
    by (rule foldl_withErrors) (rule foldl_validateStep)
  then show ?thesis by (simp add: validateErrorBlock_def foldl_validateStep blockLeaves_def)
qed

text \<open>The names \<^verbatim>\<open>collectStepNames\<close> collects are those of the step references.\<close>

definition refNames :: "WorkflowStep list \<Rightarrow> string set" where
  "refNames ss = {name. \<exists>n. StepRef name n \<in> set ss}"

lemma refNames_simps [simp]:
  "refNames [] = {}" "refNames (ss @ ts) = refNames ss \<union> refNames ts"
  "refNames [StepRef name n] = {name}" "refNames [EmitEvent e n] = {}"
  "refNames [WaitBlock e t n] = {}" "refNames [ReturnStep e n] = {}"
  by (auto simp: refNames_def)

lemma set_foldl_collect:
  assumes "\<And>ns x. x \<in> set xs \<Longrightarrow> set (f ns x) = set ns \<union> refNames (g x)"
  shows "set (foldl f ns xs) = set ns \<union> refNames (concat (map g xs))"
  using assms by (induction xs arbitrary: ns) (auto simp: refNames_def)

lemmas foldl_collect = set_foldl_collect [where f = collectStep and g = leaves]
  set_foldl_collect [where f = collectCase and g = caseLeaves]

lemma collectStep_names:
  "set (collectStep ns s) = set ns \<union> refNames (leaves s)"
  "set (collectCase ns c) = set ns \<union> refNames (caseLeaves c)"
  by (induction ns s and ns c rule: collectStep_collectCase.induct)
    (auto simp: foldl_collect)

lemma set_collectStepNames:
  "set (collectStepNames ss []) = refNames (concat (map leaves ss))"
  unfolding collectStepNames_def by (subst foldl_collect(1)) (simp_all add: collectStep_names)

text \<open>Registration: one error for every name seen before.\<close>

fun dups :: "(string \<Rightarrow> SemanticError) \<Rightarrow> string set \<Rightarrow> string list \<Rightarrow> SemanticError list" where
  "dups err seen [] = []"
| "dups err seen (n # ns) = (if n \<in> seen then [err n] else []) @ dups err (insert n seen) ns"

lemma dups_Nil_iff: "dups err seen ns = [] \<longleftrightarrow> distinct ns \<and> set ns \<inter> seen = {}"
  by (induction ns arbitrary: seen) auto

lemma registerServices_result:
  "an_errors (registerServices svcs a) =
     an_errors a @ dups DuplicateService (fst ` set (an_services a)) (map svc_Name svcs)"
  "fst ` set (an_services (registerServices svcs a)) =
     fst ` set (an_services a) \<union> svc_Name ` set svcs"
  "an_events (registerServices svcs a) = an_events a"
  by (induction svcs a rule: registerServices.induct)
    (auto simp: Let_def addError_def dom_update map_of_eq_None_iff insert_commute)

lemma registerEvents_result:
  "an_errors (registerEvents evts a) =
     an_errors a @ dups DuplicateEvent (fst ` set (an_events a)) (map evt_Name evts)"
  "fst ` set (an_events (registerEvents evts a)) = fst ` set (an_events a) \<union> evt_Name ` set evts"
  "an_services (registerEvents evts a) = an_services a"
  by (induction evts a rule: registerEvents.induct)
    (auto simp: Let_def addError_def dom_update map_of_eq_None_iff insert_commute)

lemma registerVariables_frame [simp]:
  "an_errors (registerVariables vs a) = an_errors a"
  "an_services (registerVariables vs a) = an_services a"
  "an_events (registerVariables vs a) = an_events a"
  by (induction vs a rule: registerVariables.induct) auto

lemma registerConstants_frame [simp]:
  "an_errors (registerConstants cs a) = an_errors a"
  "an_services (registerConstants cs a) = an_services a"
  "an_events (registerConstants cs a) = an_events a"
  by (induction cs a rule: registerConstants.induct) auto

definition compErrors :: "string set \<Rightarrow> CompensateStep list \<Rightarrow> SemanticError list" where
  "compErrors names cs =
     map (UnknownCompensation \<circ> cs_Step) (filter (\<lambda>c. cs_Step c \<notin> names) cs)"

lemma validateCompensation_errors:
  "validateCompensation cs workflow a = withErrors a
     (case workflow of None \<Rightarrow> [] | Some ss \<Rightarrow> compErrors (refNames (concat (map leaves ss))) cs)"
proof -
  have "foldl (\<lambda>a comp. if cs_Step comp \<notin> names
          then addError (UnknownCompensation (cs_Step comp)) a else a) a cs =
        withErrors a (compErrors names cs)" for names
    by (induction cs arbitrary: a) (simp_all add: compErrors_def addError_def)
  then show ?thesis
    by (simp add: validateCompensation_def set_collectStepNames split: option.split)
qed

definition workflowLeaves :: "Flow \<Rightarrow> WorkflowStep list" where
  "workflowLeaves fl =
     (case fl_Workflow fl of None \<Rightarrow> [] | Some ss \<Rightarrow> concat (map leaves ss))"

definition handlerLeaves :: "Flow \<Rightarrow> WorkflowStep list" where
  "handlerLeaves fl = (case fl_Errors fl of None \<Rightarrow> [] | Some b \<Rightarrow> blockLeaves b)"

text \<open>All errors of one analysis, in order.\<close>

lemma Analyze_errors:
  fixes a fl
  defines "svcs \<equiv> fst ` set (an_services a) \<union> svc_Name ` set (fl_Services fl)"
    and "evts \<equiv> fst ` set (an_events a) \<union> evt_Name ` set (fl_Events fl)"
  shows "fst (Analyze fl a) =
      dups DuplicateService (fst ` set (an_services a)) (map svc_Name (fl_Services fl)) @
      dups DuplicateEvent (fst ` set (an_events a)) (map evt_Name (fl_Events fl)) @
      concat (map (leafError svcs evts) (workflowLeaves fl @ handlerLeaves fl)) @
      (case fl_Workflow fl of None \<Rightarrow> []
       | Some ss \<Rightarrow> compErrors (refNames (concat (map leaves ss))) (fl_Compensate fl))"
  unfolding svcs_def evts_def
  by (simp add: Analyze_def Let_def validateWorkflow_def foldl_validateStep validateErrorBlock_errors
      validateCompensation_errors registerServices_result registerEvents_result
      workflowLeaves_def handlerLeaves_def split: option.split)

lemma Analyze_tables:
  "fst ` set (an_services (snd (Analyze fl a))) =
     fst ` set (an_services a) \<union> svc_Name ` set (fl_Services fl)"
  "fst ` set (an_events (snd (Analyze fl a))) =
     fst ` set (an_events a) \<union> evt_Name ` set (fl_Events fl)"
  by (simp_all add: Analyze_def Let_def validateWorkflow_def foldl_validateStep validateErrorBlock_errors
      validateCompensation_errors registerServices_result registerEvents_result split: option.split)

subsection \<open>Names\<close>

text \<open>\<^verbatim>\<open>splitRef\<close> cuts a name at its dots and drops the empty parts.\<close>

lemma concat_splitLoop:
  "concat (splitLoop parts current name) = concat parts @ current @ filter (\<lambda>c. c \<noteq> CHR ''.'') name"
  by (induction parts current name rule: splitLoop.induct) simp_all

abbreviation plain :: "string \<Rightarrow> bool" where
  "plain p \<equiv> p \<noteq> [] \<and> CHR ''.'' \<notin> set p"

lemma splitLoop_plain:
  "list_all plain parts \<Longrightarrow> CHR ''.'' \<notin> set current \<Longrightarrow> list_all plain (splitLoop parts current name)"
  by (induction parts current name rule: splitLoop.induct) simp_all

lemma splitLoop_no_dot:
  "CHR ''.'' \<notin> set name \<Longrightarrow>
     splitLoop parts current name = (if current @ name = [] then parts else parts @ [current @ name])"
  by (induction name arbitrary: current) auto

lemma splitRef_simple:
  "name \<noteq> [] \<Longrightarrow> CHR ''.'' \<notin> set name \<Longrightarrow> splitRef name = [name]"
  by (simp add: splitRef_def splitLoop_no_dot)

subsection \<open>Properties\<close>

text \<open>
  The contract of the analyser: service names and event names are declared once; every
  step \<^verbatim>\<open>svc.method\<close> names a declared service and every emitted event is declared, anywhere in
  the workflow and the error handlers; every compensation is for a step of the workflow.
\<close>

definition resolved :: "Flow \<Rightarrow> WorkflowStep \<Rightarrow> bool" where
  "resolved fl s \<longleftrightarrow>
     (case s of
        StepRef name _ \<Rightarrow>
          length (splitRef name) \<le> 1 \<or> hd (splitRef name) \<in> svc_Name ` set (fl_Services fl)
      | EmitEvent e _ \<Rightarrow> e \<in> evt_Name ` set (fl_Events fl)
      | _ \<Rightarrow> True)"

definition well_formed :: "Flow \<Rightarrow> bool" where
  "well_formed fl \<longleftrightarrow>
     distinct (map svc_Name (fl_Services fl)) \<and> distinct (map evt_Name (fl_Events fl)) \<and>
     list_all (resolved fl) (workflowLeaves fl @ handlerLeaves fl) \<and>
     (fl_Workflow fl = None \<or>
      cs_Step ` set (fl_Compensate fl) \<subseteq> refNames (workflowLeaves fl))"

lemma leafError_Nil_iff:
  "leafError (svc_Name ` set (fl_Services fl)) (evt_Name ` set (fl_Events fl)) s = [] \<longleftrightarrow> resolved fl s"
  by (cases s) (auto simp: leafError_def resolved_def)


text \<open>
  Analysing a flow that declares a service or an event a second time with the same
  analyser always fails, whatever the flow: the tables of the first analysis are still there.
\<close>

lemma Analyze_twice:
  assumes "fl_Services fl \<noteq> [] \<or> fl_Events fl \<noteq> []"
  shows "fst (Analyze fl (snd (Analyze fl a))) \<noteq> []"
  using assms
  by (auto simp: Analyze_errors Analyze_tables dups_Nil_iff Int_Un_distrib2 neq_Nil_conv)

end
