(* ===== verification/Flow_IR.thy ===== *)
theory Flow_IR
  imports Flow_AST
begin

text \<open>
  The IR compiler of \<^verbatim>\<open>server/internal/flow/ir.go\<close>: \<^verbatim>\<open>Compile\<close> turns a flow into a graph of nodes
  \<^verbatim>\<open>n0\<close>, \<^verbatim>\<open>n1\<close>, ... and edges between their ids.  A result is \<^term>\<open>Inl\<close> of the error or \<^term>\<open>Inr\<close> of
  the value with the compiler's new state; the state after an error is not kept, since every
  \<^verbatim>\<open>Compile\<close> starts by resetting it.  The three loops that chain the compiled steps with edges
  (workflow, then-branch, else-branch) are \<open>compileChain\<close>, with the edge condition they write.
\<close>

subsection \<open>Data\<close>

record IRNode =
  nd_ID :: string
  nd_Type :: string
  nd_Name :: string
  nd_Target :: string
  nd_Timeout :: string
  nd_Async :: bool
  nd_Condition :: string

record IREdge =
  ed_From :: string
  ed_To :: string
  ed_Condition :: string

record IRService =
  is_Name :: string
  is_Type :: string
  is_Address :: string
  is_URL :: string
  is_Options :: "(string, OptionValue) gomap"

record IREvent =
  ie_Name :: string
  ie_Payload :: string

record IRVariable =
  iv_Name :: string
  iv_Type :: string

record IRConstant =
  ic_Name :: string
  ic_Value :: string

record IRRetry =
  ir_Attempts :: int
  ir_Backoff :: string
  ir_Delay :: string
  ir_MaxDelay :: string

record IRBreaker =
  ib_FailureRate :: int
  ib_Window :: int
  ib_Cooldown :: string

record IRErrorCase =
  iec_ErrorType :: string
  iec_Targets :: "string list"

record IRErrorBlock =
  ieb_Cases :: "IRErrorCase list"
  ieb_Fallback :: "string list"

record IR =
  IR_Name :: string
  IR_Version :: int
  IR_Nodes :: "IRNode list"
  IR_Edges :: "IREdge list"
  IR_Services :: "IRService list"
  IR_Events :: "IREvent list"
  IR_Variables :: "IRVariable list"
  IR_Constants :: "IRConstant list"
  IR_Outputs :: "string list"
  IR_Retry :: "IRRetry option"
  IR_Breaker :: "IRBreaker option"
  IR_Timeout :: string
  IR_Errors :: "IRErrorBlock option"

record Compiler =
  cp_nodes :: "IRNode list"
  cp_edges :: "IREdge list"
  cp_nextID :: nat

datatype compile_error = UnknownStepType WorkflowStep

subsection \<open>Compilation of steps\<close>

abbreviation node :: "string \<Rightarrow> string \<Rightarrow> IRNode" where
  "node ty name \<equiv> \<lparr>nd_ID = [], nd_Type = ty, nd_Name = name, nd_Target = [], nd_Timeout = [],
     nd_Async = False, nd_Condition = []\<rparr>"

definition nodeID :: "nat \<Rightarrow> string" where
  "nodeID n = CHR ''n'' # dec n"

definition emitNode :: "IRNode \<Rightarrow> Compiler \<Rightarrow> string \<times> Compiler" where
  "emitNode nd c =
     (let i = nodeID (cp_nextID c)
      in (i, c\<lparr>cp_nextID := cp_nextID c + 1, cp_nodes := cp_nodes c @ [nd\<lparr>nd_ID := i\<rparr>]\<rparr>))"

definition addEdge :: "string \<Rightarrow> string \<Rightarrow> string \<Rightarrow> Compiler \<Rightarrow> Compiler" where
  "addEdge from to cond c =
     c\<lparr>cp_edges := cp_edges c @ [\<lparr>ed_From = from, ed_To = to, ed_Condition = cond\<rparr>]\<rparr>"

fun addJoinEdges :: "string list \<Rightarrow> string \<Rightarrow> Compiler \<Rightarrow> Compiler" where
  "addJoinEdges [] joinID c = c"
| "addJoinEdges (e # ends) joinID c = addJoinEdges ends joinID (addEdge e joinID [] c)"

fun compileStep :: "WorkflowStep \<Rightarrow> Compiler \<Rightarrow> compile_error + (string \<times> Compiler)"
  and compileChain ::
    "string \<Rightarrow> string \<Rightarrow> WorkflowStep list \<Rightarrow> Compiler \<Rightarrow> compile_error + (string \<times> Compiler)"
  and compileBranches ::
    "string \<Rightarrow> string list \<Rightarrow> WorkflowStep list \<Rightarrow> Compiler
       \<Rightarrow> compile_error + (string list \<times> Compiler)" where
  "compileStep (StepRef name _) c =
     Inr (emitNode ((node ''step'' name)\<lparr>nd_Target := name\<rparr>) c)"
| "compileStep (IfBlock cond thn els _) c =
     (case emitNode ((node ''if'' ''if'')\<lparr>nd_Condition := cond\<rparr>) c of (ifID, c1) \<Rightarrow>
        (case compileChain ''success'' ifID thn c1 of
           Inl e \<Rightarrow> Inl e
         | Inr (thenEnd, c2) \<Rightarrow>
             (case compileChain ''failure'' ifID els c2 of
                Inl e \<Rightarrow> Inl e
              | Inr (elseEnd, c3) \<Rightarrow>
                  (case emitNode (node ''merge'' ''merge'') c3 of (mergeID, c4) \<Rightarrow>
                     let c5 = (if thenEnd \<noteq> ifID then addEdge thenEnd mergeID [] c4 else c4);
                         c6 = (if elseEnd \<noteq> ifID then addEdge elseEnd mergeID [] c5 else c5)
                     in Inr (mergeID, c6)))))"
| "compileStep (ParallelBlock ss _) c =
     (case emitNode (node ''parallel'' ''parallel'') c of (parID, c1) \<Rightarrow>
        (case compileBranches parID [] ss c1 of
           Inl e \<Rightarrow> Inl e
         | Inr (ends, c2) \<Rightarrow>
             (case emitNode (node ''join'' ''join'') c2 of (joinID, c3) \<Rightarrow>
                Inr (joinID, addJoinEdges ends joinID c3))))"
| "compileStep (WaitBlock event timeout _) c =
     Inr (emitNode ((node ''wait'' event)\<lparr>nd_Timeout := timeout\<rparr>) c)"
| "compileStep (EmitEvent event _) c =
     Inr (emitNode ((node ''emit'' event)\<lparr>nd_Target := event\<rparr>) c)"
| "compileStep (ReturnStep v _) c =
     Inr (emitNode ((node ''return'' v)\<lparr>nd_Target := v\<rparr>) c)"
| "compileStep s c = Inl (UnknownStepType s)"
| "compileChain cond lastID [] c = Inr (lastID, c)"
| "compileChain cond lastID (s # ss) c =
     (case compileStep s c of
        Inl e \<Rightarrow> Inl e
      | Inr (stepID, c1) \<Rightarrow> compileChain cond stepID ss (addEdge lastID stepID cond c1))"
| "compileBranches parID ends [] c = Inr (ends, c)"
| "compileBranches parID ends (s # ss) c =
     (case compileStep s c of
        Inl e \<Rightarrow> Inl e
      | Inr (stepID, c1) \<Rightarrow>
          compileBranches parID (ends @ [stepID]) ss (addEdge parID stepID [] c1))"

subsection \<open>Compilation of flows\<close>

definition compileService :: "Service \<Rightarrow> IRService" where
  "compileService svc =
     \<lparr>is_Name = svc_Name svc, is_Type = svc_Type svc, is_Address = [], is_URL = [],
      is_Options = foldl (\<lambda>m opt. AList.update (opt_Key opt) (opt_Value opt) m) [] (svc_Options svc)\<rparr>"

definition compileDeclarations :: "Flow \<Rightarrow> IR" where
  "compileDeclarations fl =
     \<lparr>IR_Name = md_Name (fl_Metadata fl), IR_Version = 1, IR_Nodes = [], IR_Edges = [],
      IR_Services = map compileService (fl_Services fl),
      IR_Events = map (\<lambda>e. \<lparr>ie_Name = evt_Name e, ie_Payload = evt_Payload e\<rparr>) (fl_Events fl),
      IR_Variables = map (\<lambda>v. \<lparr>iv_Name = var_Name v, iv_Type = var_Type v\<rparr>) (fl_Variables fl),
      IR_Constants = map (\<lambda>k. \<lparr>ic_Name = const_Name k, ic_Value = const_Value k\<rparr>) (fl_Constants fl),
      IR_Outputs = map out_Name (fl_Outputs fl),
      IR_Retry = map_option (\<lambda>r. \<lparr>ir_Attempts = rp_Attempts r, ir_Backoff = rp_Backoff r,
        ir_Delay = rp_Delay r, ir_MaxDelay = rp_MaxDelay r\<rparr>) (fl_Retry fl),
      IR_Breaker = map_option (\<lambda>b. \<lparr>ib_FailureRate = br_FailureRate b, ib_Window = br_Window b,
        ib_Cooldown = br_Cooldown b\<rparr>) (fl_Breaker fl),
      IR_Timeout = fl_Timeout fl, IR_Errors = None\<rparr>"

definition compileWorkflow :: "WorkflowStep list \<Rightarrow> Compiler \<Rightarrow> compile_error + Compiler" where
  "compileWorkflow ss c =
     (case emitNode (node ''start'' ''Start'') c of (startID, c1) \<Rightarrow>
      case emitNode (node ''end'' ''End'') c1 of (endID, c2) \<Rightarrow>
      case compileChain [] startID ss c2 of
        Inl e \<Rightarrow> Inl e
      | Inr (lastID, c3) \<Rightarrow> Inr (addEdge lastID endID [] c3))"

definition NewCompiler :: Compiler where
  "NewCompiler = \<lparr>cp_nodes = [], cp_edges = [], cp_nextID = 0\<rparr>"

definition Compile :: "Flow \<Rightarrow> Compiler \<Rightarrow> compile_error + (IR \<times> Compiler)" where
  "Compile fl c =
     (let c0 = c\<lparr>cp_nodes := [], cp_edges := [], cp_nextID := 0\<rparr>; ir = compileDeclarations fl in
      case fl_Workflow fl of
        None \<Rightarrow> Inr (ir\<lparr>IR_Nodes := cp_nodes c0, IR_Edges := cp_edges c0\<rparr>, c0)
      | Some ss \<Rightarrow>
          (case compileWorkflow ss c0 of
             Inl e \<Rightarrow> Inl e
           | Inr c1 \<Rightarrow> Inr (ir\<lparr>IR_Nodes := cp_nodes c1, IR_Edges := cp_edges c1\<rparr>, c1)))"

subsection \<open>The invariant of the graph\<close>

text \<open>
  \<open>graph_ok\<close>: the nodes are numbered in order, every edge starts at a node of the graph and ends
  at a node of the graph that is neither the start nor the node of an \<^verbatim>\<open>if\<close> or \<^verbatim>\<open>parallel\<close>
  block.  \<open>extends c c'\<close>: \<open>c'\<close> has the nodes of \<open>c\<close>, more nodes after them, and all edges of \<open>c\<close>.
\<close>

definition has_node :: "Compiler \<Rightarrow> string \<Rightarrow> bool" where
  "has_node c i \<longleftrightarrow> (\<exists>j < length (cp_nodes c). i = nodeID j)"

definition entered :: "Compiler \<Rightarrow> string \<Rightarrow> bool" where
  "entered c i \<longleftrightarrow> (\<exists>j < length (cp_nodes c). i = nodeID j \<and>
     nd_Type (cp_nodes c ! j) \<notin> {''start'', ''if'', ''parallel''})"

definition graph_ok :: "Compiler \<Rightarrow> bool" where
  "graph_ok c \<longleftrightarrow>
     cp_nextID c = length (cp_nodes c) \<and>
     map nd_ID (cp_nodes c) = map nodeID [0..<length (cp_nodes c)] \<and>
     (\<forall>e \<in> set (cp_edges c). has_node c (ed_From e) \<and> entered c (ed_To e))"

definition extends :: "Compiler \<Rightarrow> Compiler \<Rightarrow> bool" where
  "extends c c' \<longleftrightarrow> (\<exists>ns. cp_nodes c' = cp_nodes c @ ns) \<and> set (cp_edges c) \<subseteq> set (cp_edges c')"

definition arcs :: "IREdge list \<Rightarrow> (string \<times> string) set" where
  "arcs es = (\<lambda>e. (ed_From e, ed_To e)) ` set es"

lemma nodeID_inject [simp]: "nodeID m = nodeID n \<longleftrightarrow> m = n"
  by (simp add: nodeID_def)

lemma extends_refl [simp]: "extends c c"
  by (simp add: extends_def)

lemma extends_trans [trans]: "extends a b \<Longrightarrow> extends b c \<Longrightarrow> extends a c"
  by (auto simp: extends_def)

lemma extends_has_node: "extends c c' \<Longrightarrow> has_node c i \<Longrightarrow> has_node c' i"
  by (auto simp: extends_def has_node_def)

lemma extends_entered: "extends c c' \<Longrightarrow> entered c i \<Longrightarrow> entered c' i"
  unfolding extends_def entered_def by (fastforce simp: nth_append)

lemma extends_arcs: "extends c c' \<Longrightarrow> arcs (cp_edges c) \<subseteq> arcs (cp_edges c')"
  by (auto simp: extends_def arcs_def)

lemma entered_has_node: "entered c i \<Longrightarrow> has_node c i"
  by (auto simp: entered_def has_node_def)

lemma graph_ok_nth:
  assumes "graph_ok c" and "i < length (cp_nodes c)"
  shows "nd_ID (cp_nodes c ! i) = nodeID i"
proof -
  have "map nd_ID (cp_nodes c) ! i = map nodeID [0..<length (cp_nodes c)] ! i"
    using assms(1) by (simp add: graph_ok_def)
  with assms(2) show ?thesis by simp
qed

lemma emitNode_ok:
  assumes "graph_ok c" and "emitNode nd c = (i, c')"
  shows "graph_ok c' \<and> extends c c' \<and> has_node c' i \<and> cp_edges c' = cp_edges c \<and>
    (nd_Type nd \<notin> {''start'', ''if'', ''parallel''} \<longrightarrow> entered c' i)"
proof -
  have "extends c c'" using assms(2) by (auto simp: emitNode_def extends_def Let_def)
  moreover from assms have "i = nodeID (length (cp_nodes c))" "cp_edges c' = cp_edges c"
    "cp_nodes c' = cp_nodes c @ [nd\<lparr>nd_ID := i\<rparr>]" "cp_nextID c' = Suc (length (cp_nodes c))"
    by (auto simp: emitNode_def graph_ok_def Let_def)
  ultimately show ?thesis
    using assms(1) extends_has_node [of c c'] extends_entered [of c c']
    by (auto simp: graph_ok_def has_node_def entered_def nth_append)
qed

lemma addEdge_nodes [simp]:
  "has_node (addEdge f t cond c) = has_node c" "entered (addEdge f t cond c) = entered c"
  by (simp_all add: addEdge_def has_node_def entered_def fun_eq_iff)

lemma addEdge_ok:
  assumes "graph_ok c" and "has_node c f" and "entered c t"
  shows "graph_ok (addEdge f t cond c) \<and> extends c (addEdge f t cond c) \<and>
    (f, t) \<in> arcs (cp_edges (addEdge f t cond c))"
  using assms by (auto simp: graph_ok_def addEdge_def extends_def has_node_def entered_def arcs_def)

lemma addJoinEdges_ok:
  "graph_ok c \<Longrightarrow> list_all (has_node c) ends \<Longrightarrow> entered c t \<Longrightarrow>
     graph_ok (addJoinEdges ends t c) \<and> extends c (addJoinEdges ends t c)"
proof (induction ends arbitrary: c)
  case (Cons e ends)
  then show ?case using addEdge_ok [of c e t "[]"] Cons.IH [of "addEdge e t [] c"]
    by (auto intro: extends_trans)
qed simp

definition stepPost :: "Compiler \<Rightarrow> compile_error + (string \<times> Compiler) \<Rightarrow> bool" where
  "stepPost c r \<longleftrightarrow> (\<forall>i c'. r = Inr (i, c') \<longrightarrow> graph_ok c' \<and> extends c c' \<and> entered c' i)"

definition chainPost :: "string \<Rightarrow> Compiler \<Rightarrow> compile_error + (string \<times> Compiler) \<Rightarrow> bool" where
  "chainPost from c r \<longleftrightarrow> (\<forall>i c'. r = Inr (i, c') \<longrightarrow>
     graph_ok c' \<and> extends c c' \<and> has_node c' i \<and> (from, i) \<in> (arcs (cp_edges c'))\<^sup>*)"

definition branchPost :: "Compiler \<Rightarrow> compile_error + (string list \<times> Compiler) \<Rightarrow> bool" where
  "branchPost c r \<longleftrightarrow> (\<forall>ends c'. r = Inr (ends, c') \<longrightarrow>
     graph_ok c' \<and> extends c c' \<and> list_all (has_node c') ends)"

lemma leafPost:
  assumes "graph_ok c" and "nd_Type nd \<notin> {''start'', ''if'', ''parallel''}"
  shows "stepPost c (Inr (emitNode nd c))"
  using assms emitNode_ok [of c nd] by (cases "emitNode nd c") (auto simp: stepPost_def)

lemma ifPost:
  assumes "graph_ok c"
    and thn: "\<And>i c. graph_ok c \<Longrightarrow> has_node c i \<Longrightarrow> chainPost i c (compileChain ''success'' i thn c)"
    and els: "\<And>i c. graph_ok c \<Longrightarrow> has_node c i \<Longrightarrow> chainPost i c (compileChain ''failure'' i els c)"
  shows "stepPost c (compileStep (IfBlock cond thn els n) c)"
  unfolding stepPost_def
proof (intro allI impI)
  fix i c'
  assume "compileStep (IfBlock cond thn els n) c = Inr (i, c')"
  then obtain ifID c1 thenEnd c2 elseEnd c3 c4 where
    c1: "emitNode ((node ''if'' ''if'')\<lparr>nd_Condition := cond\<rparr>) c = (ifID, c1)" and
    c2: "compileChain ''success'' ifID thn c1 = Inr (thenEnd, c2)" and
    c3: "compileChain ''failure'' ifID els c2 = Inr (elseEnd, c3)" and
    c4: "emitNode (node ''merge'' ''merge'') c3 = (i, c4)" and
    c': "c' = (let c5 = (if thenEnd \<noteq> ifID then addEdge thenEnd i [] c4 else c4)
               in if elseEnd \<noteq> ifID then addEdge elseEnd i [] c5 else c5)"
    by (auto simp: Let_def split: prod.splits sum.splits)
  from emitNode_ok [OF assms(1) c1] have 1: "graph_ok c1" "extends c c1" "has_node c1 ifID" by simp_all
  from thn [OF 1(1,3)] c2 have 2: "graph_ok c2" "extends c1 c2" "has_node c2 thenEnd"
    by (simp_all add: chainPost_def)
  from els [OF 2(1) extends_has_node [OF 2(2) 1(3)]] c3
  have 3: "graph_ok c3" "extends c2 c3" "has_node c3 elseEnd" by (simp_all add: chainPost_def)
  from emitNode_ok [OF 3(1) c4] have 4: "graph_ok c4" "extends c3 c4" "entered c4 i" by simp_all
  let ?c5 = "if thenEnd \<noteq> ifID then addEdge thenEnd i [] c4 else c4"
  have "has_node c4 thenEnd" "has_node c4 elseEnd"
    using 2(3) 3(2,3) 4(2) by (blast intro: extends_has_node)+
  with 4 have 5: "graph_ok ?c5" "extends c4 ?c5" "entered ?c5 i" "has_node ?c5 elseEnd"
    using addEdge_ok [of c4 thenEnd i] by simp_all
  then have "graph_ok c' \<and> extends ?c5 c' \<and> entered c' i"
    using addEdge_ok [of ?c5 elseEnd i] c' by (simp add: Let_def split: if_split_asm)
  with 1(2) 2(2) 3(2) 4(2) 5(2) show "graph_ok c' \<and> extends c c' \<and> entered c' i"
    by (blast intro: extends_trans)
qed

lemma parallelPost:
  assumes "graph_ok c"
    and ss: "\<And>i c. graph_ok c \<Longrightarrow> has_node c i \<Longrightarrow> branchPost c (compileBranches i [] ss c)"
  shows "stepPost c (compileStep (ParallelBlock ss n) c)"
  unfolding stepPost_def
proof (intro allI impI)
  fix i c'
  assume "compileStep (ParallelBlock ss n) c = Inr (i, c')"
  then obtain parID c1 ends c2 c3 where
    c1: "emitNode (node ''parallel'' ''parallel'') c = (parID, c1)" and
    c2: "compileBranches parID [] ss c1 = Inr (ends, c2)" and
    c3: "emitNode (node ''join'' ''join'') c2 = (i, c3)" and c': "c' = addJoinEdges ends i c3"
    by (auto split: prod.splits sum.splits)
  from emitNode_ok [OF assms(1) c1] have 1: "graph_ok c1" "extends c c1" "has_node c1 parID" by simp_all
  from ss [OF 1(1,3)] c2 have 2: "graph_ok c2" "extends c1 c2" "list_all (has_node c2) ends"
    by (simp_all add: branchPost_def)
  from emitNode_ok [OF 2(1) c3] have 3: "graph_ok c3" "extends c2 c3" "entered c3 i" by simp_all
  with 2(3) have "list_all (has_node c3) ends" by (auto simp: list_all_iff intro: extends_has_node)
  from addJoinEdges_ok [OF 3(1) this 3(3)] have 4: "graph_ok c'" "extends c3 c'" by (simp_all add: c')
  with 1(2) 2(2) 3 show "graph_ok c' \<and> extends c c' \<and> entered c' i"
    by (blast intro: extends_trans extends_entered)
qed

lemma chainPost_Cons:
  assumes step: "stepPost c (compileStep s c)" and "has_node c from"
    and chain: "\<And>i c. graph_ok c \<Longrightarrow> has_node c i \<Longrightarrow> chainPost i c (compileChain cond i ss c)"
  shows "chainPost from c (compileChain cond from (s # ss) c)"
  unfolding chainPost_def
proof (intro allI impI)
  fix j c'
  assume "compileChain cond from (s # ss) c = Inr (j, c')"
  then obtain i c1 where c1: "compileStep s c = Inr (i, c1)" and
    c': "compileChain cond i ss (addEdge from i cond c1) = Inr (j, c')"
    by (auto split: prod.splits sum.splits)
  let ?c2 = "addEdge from i cond c1"
  from step c1 have 1: "graph_ok c1" "extends c c1" "entered c1 i" by (simp_all add: stepPost_def)
  with assms(2) have "has_node c1 from" by (blast intro: extends_has_node)
  from addEdge_ok [OF 1(1) this 1(3)]
  have 2: "graph_ok ?c2" "extends c1 ?c2" "(from, i) \<in> arcs (cp_edges ?c2)" by simp_all
  with 1(3) have "has_node ?c2 i" by (blast intro: entered_has_node extends_entered)
  from chain [OF 2(1) this] c' have 3: "graph_ok c'" "extends ?c2 c'" "has_node c' j"
    "(i, j) \<in> (arcs (cp_edges c'))\<^sup>*" by (simp_all add: chainPost_def)
  from 2(3) extends_arcs [OF 3(2)] 3(4) have "(from, j) \<in> (arcs (cp_edges c'))\<^sup>*"
    by (blast intro: converse_rtrancl_into_rtrancl)
  with 1(2) 2(2) 3 show "graph_ok c' \<and> extends c c' \<and> has_node c' j \<and> (from, j) \<in> (arcs (cp_edges c'))\<^sup>*"
    by (blast intro: extends_trans)
qed

lemma branchPost_Cons:
  assumes step: "stepPost c (compileStep s c)" and "has_node c par" and "list_all (has_node c) ends"
    and rest: "\<And>ends c. graph_ok c \<Longrightarrow> has_node c par \<Longrightarrow> list_all (has_node c) ends \<Longrightarrow>
      branchPost c (compileBranches par ends ss c)"
  shows "branchPost c (compileBranches par ends (s # ss) c)"
  unfolding branchPost_def
proof (intro allI impI)
  fix es c'
  assume "compileBranches par ends (s # ss) c = Inr (es, c')"
  then obtain i c1 where c1: "compileStep s c = Inr (i, c1)" and
    c': "compileBranches par (ends @ [i]) ss (addEdge par i [] c1) = Inr (es, c')"
    by (auto split: prod.splits sum.splits)
  let ?c2 = "addEdge par i [] c1"
  from step c1 have 1: "graph_ok c1" "extends c c1" "entered c1 i" by (simp_all add: stepPost_def)
  with assms(2) have "has_node c1 par" by (blast intro: extends_has_node)
  with 1 have 2: "graph_ok ?c2" "extends c1 ?c2" "has_node ?c2 par" using addEdge_ok by simp_all
  from 1 assms(3) have "list_all (has_node ?c2) (ends @ [i])"
    by (auto simp: list_all_iff intro: extends_has_node entered_has_node)
  from rest [OF 2(1,3) this] c' 1(2) 2(2)
  show "graph_ok c' \<and> extends c c' \<and> list_all (has_node c') es"
    by (auto simp: branchPost_def intro: extends_trans)
qed

lemma chainPost:
  assumes "\<And>s c. s \<in> set ss \<Longrightarrow> graph_ok c \<Longrightarrow> stepPost c (compileStep s c)"
    and "graph_ok c" and "has_node c from"
  shows "chainPost from c (compileChain cond from ss c)"
  using assms
proof (induction ss arbitrary: "from" c)
  case Nil
  then show ?case by (simp add: chainPost_def)
next
  case (Cons s ss)
  show ?case by (rule chainPost_Cons) (use Cons in auto)
qed

lemma branchPost:
  assumes "\<And>s c. s \<in> set ss \<Longrightarrow> graph_ok c \<Longrightarrow> stepPost c (compileStep s c)"
    and "graph_ok c" and "has_node c par" and "list_all (has_node c) ends"
  shows "branchPost c (compileBranches par ends ss c)"
  using assms
proof (induction ss arbitrary: ends c)
  case Nil
  then show ?case by (simp add: branchPost_def)
next
  case (Cons s ss)
  show ?case by (rule branchPost_Cons) (use Cons in auto)
qed

lemma compileStep_post: "graph_ok c \<Longrightarrow> stepPost c (compileStep s c)"
proof (induction s arbitrary: c rule: WorkflowStep.induct [where ?P2.0 = "\<lambda>_. True"])
  case (IfBlock cond thn els n)
  show ?case by (rule ifPost) (use IfBlock in \<open>auto intro!: chainPost\<close>)
next
  case (ParallelBlock ss n)
  show ?case by (rule parallelPost) (use ParallelBlock in \<open>auto intro!: branchPost\<close>)
qed (simp_all add: leafPost, simp_all add: stepPost_def)

lemma graph_ok_new: "graph_ok (c\<lparr>cp_nodes := [], cp_edges := [], cp_nextID := 0\<rparr>)"
  by (simp add: graph_ok_def)

lemma compileWorkflow_post:
  assumes "graph_ok c" and "cp_nodes c = []" and "compileWorkflow ss c = Inr c'"
  shows "graph_ok c' \<and> (nodeID 0, nodeID 1) \<in> (arcs (cp_edges c'))\<^sup>*"
proof -
  from assms(3) obtain i1 c1 i2 c2 j c3 where
    c1: "emitNode (node ''start'' ''Start'') c = (i1, c1)" and
    c2: "emitNode (node ''end'' ''End'') c1 = (i2, c2)" and
    c3: "compileChain [] i1 ss c2 = Inr (j, c3)" and c': "c' = addEdge j i2 [] c3"
    by (auto simp: compileWorkflow_def split: prod.splits sum.splits)
  from assms(1,2) c1 c2 have i: "i1 = nodeID 0" "i2 = nodeID 1"
    by (auto simp: emitNode_def graph_ok_def Let_def)
  from emitNode_ok [OF assms(1) c1] have 1: "graph_ok c1" "has_node c1 i1" by simp_all
  from emitNode_ok [OF 1(1) c2] 1(2) have 2: "graph_ok c2" "entered c2 i2" "has_node c2 i1"
    by (auto intro: extends_has_node)
  from chainPost [OF compileStep_post 2(1,3), of ss "[]"] c3
  have 3: "graph_ok c3" "extends c2 c3" "has_node c3 j" "(i1, j) \<in> (arcs (cp_edges c3))\<^sup>*"
    by (simp_all add: chainPost_def)
  from addEdge_ok [OF 3(1,3) extends_entered [OF 3(2) 2(2)]]
  have 4: "graph_ok c'" "extends c3 c'" "(j, i2) \<in> arcs (cp_edges c')" by (simp_all add: c')
  from 3(4) rtrancl_mono [OF extends_arcs [OF 4(2)]] 4(1,3) show ?thesis
    by (auto simp: i intro: rtrancl_into_rtrancl)
qed

lemma Compile_graph:
  assumes "Compile fl c = Inr (ir, c')"
  shows "graph_ok c' \<and> IR_Nodes ir = cp_nodes c' \<and> IR_Edges ir = cp_edges c' \<and>
    (fl_Workflow fl \<noteq> None \<longrightarrow> (nodeID 0, nodeID 1) \<in> (arcs (IR_Edges ir))\<^sup>*)"
  using assms compileWorkflow_post [OF graph_ok_new]
  by (auto simp: Compile_def Let_def graph_ok_new split: option.splits sum.splits)

subsection \<open>Which flows compile\<close>

fun supported :: "WorkflowStep \<Rightarrow> bool" where
  "supported (IfBlock _ thn els _) \<longleftrightarrow> list_all supported thn \<and> list_all supported els"
| "supported (ParallelBlock ss _) \<longleftrightarrow> list_all supported ss"
| "supported (SwitchBlock _ _ _ _) \<longleftrightarrow> False"
| "supported (ForeachLoop _ _ _) \<longleftrightarrow> False"
| "supported (WhileLoop _ _ _) \<longleftrightarrow> False"
| "supported _ \<longleftrightarrow> True"

abbreviation succeeds :: "'e + 'a \<Rightarrow> bool" where
  "succeeds r \<equiv> \<not> isl r"

lemma compileChain_succeeds:
  assumes "\<And>s c. s \<in> set ss \<Longrightarrow> succeeds (compileStep s c) \<longleftrightarrow> supported s"
  shows "succeeds (compileChain cond from ss c) \<longleftrightarrow> list_all supported ss"
  using assms
proof (induction ss arbitrary: "from" c)
  case (Cons s ss)
  from Cons.prems [of s c] show ?case
    by (cases "compileStep s c") (auto simp: Cons.IH Cons.prems split: prod.split)
qed simp

lemma compileBranches_succeeds:
  assumes "\<And>s c. s \<in> set ss \<Longrightarrow> succeeds (compileStep s c) \<longleftrightarrow> supported s"
  shows "succeeds (compileBranches par ends ss c) \<longleftrightarrow> list_all supported ss"
  using assms
proof (induction ss arbitrary: ends c)
  case (Cons s ss)
  from Cons.prems [of s c] show ?case
    by (cases "compileStep s c") (auto simp: Cons.IH Cons.prems split: prod.split)
qed simp

lemma compileStep_succeeds: "succeeds (compileStep s c) \<longleftrightarrow> supported s"
proof (induction s arbitrary: c rule: WorkflowStep.induct [where ?P2.0 = "\<lambda>_. True"])
  case (IfBlock cond thn els n)
  obtain i c1 where c1: "emitNode ((node ''if'' ''if'')\<lparr>nd_Condition := cond\<rparr>) c = (i, c1)" by fastforce
  note chain = compileChain_succeeds [of thn "''success''" i c1] compileChain_succeeds [of els "''failure''" i]
  show ?case
  proof (cases "compileChain ''success'' i thn c1")
    case (Inl e)
    with chain(1) IfBlock c1 show ?thesis by auto
  next
    case (Inr p)
    moreover obtain j c2 where "p = (j, c2)" by fastforce
    ultimately show ?thesis
      using chain(1) chain(2) [of c2] IfBlock c1
      by (cases "compileChain ''failure'' i els c2") (auto simp: Let_def split: prod.split)
  qed
next
  case (ParallelBlock ss n)
  obtain i c1 where c1: "emitNode (node ''parallel'' ''parallel'') c = (i, c1)" by fastforce
  from ParallelBlock compileBranches_succeeds [of ss i "[]" c1] c1 show ?case
    by (cases "compileBranches i [] ss c1") (auto split: prod.split)
qed simp_all


lemma Compile_succeeds:
  "succeeds (Compile fl c) \<longleftrightarrow> list_all supported (case fl_Workflow fl of None \<Rightarrow> [] | Some ss \<Rightarrow> ss)"
proof (cases "fl_Workflow fl")
  case (Some ss)
  have ok: "succeeds (compileWorkflow ss c) \<longleftrightarrow> list_all supported ss" for c
  proof -
    obtain i c1 j c2 where "emitNode (node ''start'' ''Start'') c = (i, c1)"
      "emitNode (node ''end'' ''End'') c1 = (j, c2)" by fastforce
    with compileChain_succeeds [of ss "[]" i c2, OF compileStep_succeeds] show ?thesis
      by (cases "compileChain [] i ss c2") (auto simp: compileWorkflow_def split: prod.split)
  qed
  from Some ok [of "c\<lparr>cp_nodes := [], cp_edges := [], cp_nextID := 0\<rparr>"] show ?thesis
    by (auto simp: Compile_def Let_def split: sum.split)
qed (simp add: Compile_def Let_def)


subsection \<open>Straight-line workflows\<close>

fun leafNode :: "WorkflowStep \<Rightarrow> IRNode option" where
  "leafNode (StepRef name _) = Some ((node ''step'' name)\<lparr>nd_Target := name\<rparr>)"
| "leafNode (WaitBlock event timeout _) = Some ((node ''wait'' event)\<lparr>nd_Timeout := timeout\<rparr>)"
| "leafNode (EmitEvent event _) = Some ((node ''emit'' event)\<lparr>nd_Target := event\<rparr>)"
| "leafNode (ReturnStep v _) = Some ((node ''return'' v)\<lparr>nd_Target := v\<rparr>)"
| "leafNode _ = None"

lemma compileStep_leaf: "leafNode s = Some nd \<Longrightarrow> compileStep s c = Inr (emitNode nd c)"
  by (cases s) auto

abbreviation numbered :: "nat \<Rightarrow> WorkflowStep list \<Rightarrow> IRNode list" where
  "numbered n ss \<equiv> map2 (\<lambda>s i. (the (leafNode s))\<lparr>nd_ID := nodeID i\<rparr>) ss [n..<n + length ss]"

lemma compileChain_straight:
  assumes "list_all (\<lambda>s. leafNode s \<noteq> None) ss"
  shows "\<exists>c'. compileChain cond from ss c = Inr (last (from # map nodeID [cp_nextID c..<cp_nextID c + length ss]), c') \<and>
    cp_nodes c' = cp_nodes c @ numbered (cp_nextID c) ss \<and>
    cp_edges c' = cp_edges c @ map (\<lambda>(f, t). \<lparr>ed_From = f, ed_To = t, ed_Condition = cond\<rparr>)
      (zip (from # map nodeID [cp_nextID c..<cp_nextID c + length ss])
         (map nodeID [cp_nextID c..<cp_nextID c + length ss]))"
  using assms
proof (induction ss arbitrary: "from" c)
  case (Cons s ss)
  then obtain nd where "leafNode s = Some nd" by auto
  moreover define i where "i = nodeID (cp_nextID c)"
  moreover define c1 where "c1 = addEdge from i cond (snd (emitNode nd c))"
  moreover have "cp_nextID c1 = Suc (cp_nextID c)" "cp_nodes c1 = cp_nodes c @ [nd\<lparr>nd_ID := i\<rparr>]"
    "cp_edges c1 = cp_edges c @ [\<lparr>ed_From = from, ed_To = i, ed_Condition = cond\<rparr>]"
    by (simp_all add: c1_def i_def addEdge_def emitNode_def Let_def)
  moreover from Cons obtain c' where "compileChain cond i ss c1 = Inr (last (i # map nodeID [cp_nextID c1..<cp_nextID c1 + length ss]), c')"
    "cp_nodes c' = cp_nodes c1 @ numbered (cp_nextID c1) ss"
    "cp_edges c' = cp_edges c1 @ map (\<lambda>(f, t). \<lparr>ed_From = f, ed_To = t, ed_Condition = cond\<rparr>)
      (zip (i # map nodeID [cp_nextID c1..<cp_nextID c1 + length ss])
         (map nodeID [cp_nextID c1..<cp_nextID c1 + length ss]))"
    by fastforce
  ultimately show ?case
    by (simp add: compileStep_leaf emitNode_def Let_def upt_conv_Cons del: upt_Suc)
qed simp

lemma zip_snoc: "zip (f # xs) xs @ [(last (f # xs), y)] = zip (f # xs) (xs @ [y])"
  by (induction xs arbitrary: f) auto

abbreviation exampleFlow :: Flow where
  "exampleFlow \<equiv> emptyFlow\<lparr>fl_Workflow :=
     Some [StepRef ''a'' 1, IfBlock ''x'' [StepRef ''b'' 3] [StepRef ''c'' 5] 0]\<rparr>"

lemma exampleFlow_compiles:
  "\<exists>ir c'. Compile exampleFlow NewCompiler = Inr (ir, c') \<and> length (IR_Nodes ir) = 7 \<and>
     nd_Type (IR_Nodes ir ! 3) = ''if''"
  by (simp add: Compile_def compileWorkflow_def compileDeclarations_def emptyFlow_def emitNode_def
      addEdge_def Let_def)

subsection \<open>Properties\<close>

text \<open>
  C14: The graph of a compiled flow is well-formed: the node ids are \<^verbatim>\<open>n0\<close>, \<^verbatim>\<open>n1\<close>, ... in order,
  hence distinct, and both ends of every edge are ids of nodes of the graph.
\<close>

theorem Compile_well_formed:
  assumes "Compile fl c = Inr (ir, c')"
  shows "map nd_ID (IR_Nodes ir) = map nodeID [0..<length (IR_Nodes ir)] \<and>
    distinct (map nd_ID (IR_Nodes ir)) \<and>
    (\<forall>e \<in> set (IR_Edges ir). {ed_From e, ed_To e} \<subseteq> nd_ID ` set (IR_Nodes ir))"
proof -
  from Compile_graph [OF assms] have ok: "graph_ok c'" "IR_Nodes ir = cp_nodes c'" "IR_Edges ir = cp_edges c'"
    by simp_all
  then have ids: "map nd_ID (IR_Nodes ir) = map nodeID [0..<length (IR_Nodes ir)]"
    by (simp add: graph_ok_def)
  then have "nd_ID ` set (IR_Nodes ir) = nodeID ` {0..<length (IR_Nodes ir)}"
    by (metis list.set_map set_upt)
  with ok ids show ?thesis
    by (auto simp: graph_ok_def has_node_def entered_def distinct_map inj_on_def)
qed

theorem Compile_well_formed_witness:
  "\<exists>ir c'. Compile exampleFlow NewCompiler = Inr (ir, c') \<and> length (IR_Nodes ir) = 7 \<and>
     distinct (map nd_ID (IR_Nodes ir)) \<and>
     (\<forall>e \<in> set (IR_Edges ir). {ed_From e, ed_To e} \<subseteq> nd_ID ` set (IR_Nodes ir))"
  using exampleFlow_compiles Compile_well_formed [of exampleFlow NewCompiler] by blast

text \<open>
  Whatever its steps, a compiled workflow has a path from the \<^verbatim>\<open>Start\<close> node to the \<^verbatim>\<open>End\<close> node.
\<close>

lemma Compile_end_reachable:
  assumes "Compile fl c = Inr (ir, c')" and "fl_Workflow fl \<noteq> None"
  shows "(nodeID 0, nodeID 1) \<in> (arcs (IR_Edges ir))\<^sup>*"
  using Compile_graph [OF assms(1)] assms(2) by blast

text \<open>
  No edge of a compiled flow leads to the node of an \<^verbatim>\<open>if\<close> or \<^verbatim>\<open>parallel\<close> block: the edge
  from the step before the block goes to the block's merge or join node, which is the id
  \<^verbatim>\<open>compileStep\<close> returns.
\<close>

lemma Compile_blocks_not_entered:
  assumes "Compile fl c = Inr (ir, c')"
    and "nd \<in> set (IR_Nodes ir)" and "nd_Type nd \<in> {''if'', ''parallel''}"
  shows "\<forall>e \<in> set (IR_Edges ir). ed_To e \<noteq> nd_ID nd"
proof
  fix e
  assume "e \<in> set (IR_Edges ir)"
  with Compile_graph [OF assms(1)] have "graph_ok c'" "IR_Nodes ir = cp_nodes c'" "entered c' (ed_To e)"
    by (auto simp: graph_ok_def)
  moreover from this(2) assms(2) obtain i where "i < length (cp_nodes c')" "nd = cp_nodes c' ! i"
    by (auto simp: in_set_conv_nth)
  ultimately show "ed_To e \<noteq> nd_ID nd" using assms(3) by (auto simp: entered_def graph_ok_nth)
qed

text \<open>
  \<^verbatim>\<open>Compile\<close> succeeds exactly on the flows without a \<^verbatim>\<open>switch\<close>, \<^verbatim>\<open>foreach\<close> or \<^verbatim>\<open>while\<close> block
  anywhere in the workflow.
\<close>

lemma Compile_succeeds_iff:
  "(\<exists>ir c'. Compile fl c = Inr (ir, c')) \<longleftrightarrow>
     list_all supported (case fl_Workflow fl of None \<Rightarrow> [] | Some ss \<Rightarrow> ss)"
  using Compile_succeeds [of fl c] by (cases "Compile fl c") auto

text \<open>
  A straight-line workflow compiles to a chain: after the \<^verbatim>\<open>Start\<close> and \<^verbatim>\<open>End\<close> nodes the graph
  has one node per step, in order, and its edges lead from \<^verbatim>\<open>Start\<close> through these nodes to \<^verbatim>\<open>End\<close>.
\<close>

lemma Compile_straight:
  assumes "fl_Workflow fl = Some ss" and "list_all (\<lambda>s. leafNode s \<noteq> None) ss"
  shows "\<exists>ir c'. Compile fl c = Inr (ir, c') \<and>
    drop 2 (IR_Nodes ir) = numbered 2 ss \<and>
    map (\<lambda>e. (ed_From e, ed_To e)) (IR_Edges ir) =
      zip (map nodeID (0 # [2..<2 + length ss])) (map nodeID ([2..<2 + length ss] @ [1]))"
proof -
  let ?ids = "map nodeID [2..<2 + length ss]"
  define c0 where "c0 = c\<lparr>cp_nodes := [], cp_edges := [], cp_nextID := 0\<rparr>"
  obtain c1 where c1: "emitNode (node ''start'' ''Start'') c0 = (nodeID 0, c1)"
    "cp_nextID c1 = 1" "length (cp_nodes c1) = 1" "cp_edges c1 = []"
    by (simp add: emitNode_def Let_def c0_def)
  then obtain c2 where c2: "emitNode (node ''end'' ''End'') c1 = (nodeID 1, c2)"
    "cp_nextID c2 = 2" "length (cp_nodes c2) = 2" "cp_edges c2 = []"
    by (simp add: emitNode_def Let_def)
  from compileChain_straight [OF assms(2), of "[]" "nodeID 0" c2] obtain c3 where
    c3: "compileChain [] (nodeID 0) ss c2 = Inr (last (nodeID 0 # ?ids), c3)"
      "cp_nodes c3 = cp_nodes c2 @ numbered 2 ss"
      "cp_edges c3 = map (\<lambda>(f, t). \<lparr>ed_From = f, ed_To = t, ed_Condition = []\<rparr>)
         (zip (nodeID 0 # ?ids) ?ids)"
    unfolding c2 append_Nil by blast
  have "map (\<lambda>e. (ed_From e, ed_To e)) (cp_edges c3) = zip (nodeID 0 # ?ids) ?ids"
    unfolding c3 by (simp add: comp_def split_def)
  then have "map (\<lambda>e. (ed_From e, ed_To e)) (cp_edges (addEdge (last (nodeID 0 # ?ids)) (nodeID 1) [] c3)) =
      zip (nodeID 0 # ?ids) (?ids @ [nodeID 1])"
    unfolding zip_snoc [symmetric] by (simp add: addEdge_def del: upt_Suc)
  moreover have "compileWorkflow ss c0 = Inr (addEdge (last (nodeID 0 # ?ids)) (nodeID 1) [] c3)"
    by (simp add: compileWorkflow_def c1 c2 c3(1))
  moreover have "drop 2 (cp_nodes (addEdge f t cond c3)) = numbered 2 ss" for f t cond
    using c2(3) by (simp add: addEdge_def c3(2) del: upt_Suc)
  ultimately show ?thesis
    by (simp add: Compile_def Let_def assms(1) c0_def [symmetric] del: upt_Suc)
qed

end
