(* ===== verification/Mem_Cache.thy ===== *)
theory Mem_Cache
  imports Prelude
begin

text \<open>
  The cache interface of \<^verbatim>\<open>server/internal/cache/cache.go\<close> and its in-memory implementation
  \<^verbatim>\<open>memory.go\<close>.  The interface is a record of operations, as the Go interface value is; its laws
  are the locale \<open>cache_laws\<close>, interpreted on the memory cache.  \<^verbatim>\<open>Get\<close> takes the lock twice, once to
  read and once (in \<^verbatim>\<open>Delete\<close>) to drop an expired entry: \<open>getRead\<close> is the first half, and \<open>Get\<close> the
  two halves without another call between them.  The zero expiry time is \<^term>\<open>None\<close>.
\<close>

subsection \<open>The interface\<close>

record 'c Cache =
  c_Get :: "gotime \<Rightarrow> string \<Rightarrow> 'c \<Rightarrow> bytes option \<times> 'c"
  c_Set :: "gotime \<Rightarrow> string \<Rightarrow> bytes \<Rightarrow> duration \<Rightarrow> 'c \<Rightarrow> 'c"
  c_Delete :: "string \<Rightarrow> 'c \<Rightarrow> 'c"
  c_Exists :: "string \<Rightarrow> 'c \<Rightarrow> bool"
  c_Clear :: "'c \<Rightarrow> 'c"

subsection \<open>The memory cache\<close>

record entry =
  e_value :: bytes
  e_expiresAt :: "gotime option"

record MemoryCache =
  mc_entries :: "(string, entry) gomap"

definition NewMemoryCache :: MemoryCache where
  "NewMemoryCache = \<lparr>mc_entries = []\<rparr>"

definition expired :: "gotime \<Rightarrow> entry \<Rightarrow> bool" where
  "expired now e = (case e_expiresAt e of None \<Rightarrow> False | Some t \<Rightarrow> t < now)"

definition Delete :: "string \<Rightarrow> MemoryCache \<Rightarrow> MemoryCache" where
  "Delete key c = c\<lparr>mc_entries := AList.delete key (mc_entries c)\<rparr>"

datatype get_read = Missing | Stale | Found bytes

definition getRead :: "gotime \<Rightarrow> string \<Rightarrow> MemoryCache \<Rightarrow> get_read" where
  "getRead now key c =
     (case map_of (mc_entries c) key of
        None \<Rightarrow> Missing
      | Some e \<Rightarrow> if expired now e then Stale else Found (e_value e))"

definition getFinish :: "string \<Rightarrow> get_read \<Rightarrow> MemoryCache \<Rightarrow> bytes option \<times> MemoryCache" where
  "getFinish key r c =
     (case r of Missing \<Rightarrow> (None, c) | Stale \<Rightarrow> (None, Delete key c) | Found v \<Rightarrow> (Some v, c))"

definition Get :: "gotime \<Rightarrow> string \<Rightarrow> MemoryCache \<Rightarrow> bytes option \<times> MemoryCache" where
  "Get now key c = getFinish key (getRead now key c) c"

definition Set :: "gotime \<Rightarrow> string \<Rightarrow> bytes \<Rightarrow> duration \<Rightarrow> MemoryCache \<Rightarrow> MemoryCache" where
  "Set now key v ttl c =
     c\<lparr>mc_entries := AList.update key
        \<lparr>e_value = v, e_expiresAt = (if 0 < ttl then Some (now + ttl) else None)\<rparr> (mc_entries c)\<rparr>"

definition Exists :: "string \<Rightarrow> MemoryCache \<Rightarrow> bool" where
  "Exists key c \<longleftrightarrow> map_of (mc_entries c) key \<noteq> None"

definition Clear :: "MemoryCache \<Rightarrow> MemoryCache" where
  "Clear c = c\<lparr>mc_entries := []\<rparr>"

definition evictExpired :: "gotime \<Rightarrow> MemoryCache \<Rightarrow> MemoryCache" where
  "evictExpired now c = c\<lparr>mc_entries := filter (\<lambda>(k, e). \<not> expired now e) (mc_entries c)\<rparr>"

definition Len :: "MemoryCache \<Rightarrow> nat" where
  "Len c = length (mc_entries c)"

definition memoryCache :: "MemoryCache Cache" where
  "memoryCache = \<lparr>c_Get = Get, c_Set = Set, c_Delete = Delete, c_Exists = Exists, c_Clear = Clear\<rparr>"

subsection \<open>The providers\<close>

datatype CacheProvider = Provider (provider_Name: string) (provider_New: "(string, string) gomap \<Rightarrow> MemoryCache")

definition MemoryProvider :: CacheProvider where
  "MemoryProvider = Provider ''memory'' (\<lambda>_. NewMemoryCache)"

record Config =
  cfg_Provider :: string
  cfg_Options :: "(string, string) gomap"

definition DefaultConfig :: Config where
  "DefaultConfig = \<lparr>cfg_Provider = ''memory'', cfg_Options = []\<rparr>"

definition RegisterProvider ::
  "CacheProvider \<Rightarrow> (string, CacheProvider) gomap \<Rightarrow> (string, CacheProvider) gomap" where
  "RegisterProvider p registry = AList.update (provider_Name p) p registry"

definition GetProvider :: "string \<Rightarrow> (string, CacheProvider) gomap \<Rightarrow> CacheProvider option" where
  "GetProvider name registry = map_of registry name"

definition NewFromConfig :: "Config \<Rightarrow> (string, CacheProvider) gomap \<Rightarrow> MemoryCache" where
  "NewFromConfig cfg registry =
     (case GetProvider (cfg_Provider cfg) registry of
        None \<Rightarrow> provider_New MemoryProvider (cfg_Options cfg)
      | Some p \<Rightarrow> provider_New p (cfg_Options cfg))"

subsection \<open>The laws of a cache\<close>

text \<open>
  \<open>look\<close> is what a \<^verbatim>\<open>Get\<close> at time \<open>t\<close> would return.  Entries written with a positive time to live
  can be read until it has passed, other keys are not touched, and reading or evicting does
  not change what later reads see.
\<close>

locale cache_laws =
  fixes ops :: "'c Cache" and ok :: "'c \<Rightarrow> bool"
  assumes ok_Set: "ok c \<Longrightarrow> ok (c_Set ops now k v ttl c)"
    and ok_Delete: "ok c \<Longrightarrow> ok (c_Delete ops k c)"
    and ok_Get: "ok c \<Longrightarrow> ok (snd (c_Get ops t k c))"
    and Get_Set: "ok c \<Longrightarrow> t \<le> now + ttl \<or> ttl \<le> 0 \<Longrightarrow> fst (c_Get ops t k (c_Set ops now k v ttl c)) = Some v"
    and Get_Set_other: "ok c \<Longrightarrow> k \<noteq> k' \<Longrightarrow>
      fst (c_Get ops t k' (c_Set ops now k v ttl c)) = fst (c_Get ops t k' c)"
    and Get_Delete: "ok c \<Longrightarrow> fst (c_Get ops t k (c_Delete ops k c)) = None"
    and Get_Delete_other: "ok c \<Longrightarrow> k \<noteq> k' \<Longrightarrow>
      fst (c_Get ops t k' (c_Delete ops k c)) = fst (c_Get ops t k' c)"
    and Get_Get: "ok c \<Longrightarrow> t \<le> t' \<Longrightarrow> fst (c_Get ops t' k' (snd (c_Get ops t k c))) = fst (c_Get ops t' k' c)"
begin

lemma Get_Delete_Set:
  "ok c \<Longrightarrow> fst (c_Get ops t k (c_Delete ops k (c_Set ops now k v ttl c))) = None"
  by (simp add: Get_Delete ok_Set)

lemma Get_Set_Set:
  "ok c \<Longrightarrow> k \<noteq> k' \<Longrightarrow> t \<le> now + ttl \<Longrightarrow>
     fst (c_Get ops t k (c_Set ops now k' v' ttl' (c_Set ops now k v ttl c))) = Some v"
  by (simp add: Get_Set_other Get_Set ok_Set)

end

definition cache_ok :: "MemoryCache \<Rightarrow> bool" where
  "cache_ok c \<longleftrightarrow> distinct (map fst (mc_entries c))"

lemma fst_Get:
  "fst (Get t k c) =
     (case map_of (mc_entries c) k of None \<Rightarrow> None
      | Some e \<Rightarrow> if expired t e then None else Some (e_value e))"
  by (simp add: Get_def getRead_def getFinish_def split: option.split)

lemma snd_Get:
  "snd (Get t k c) =
     (case map_of (mc_entries c) k of None \<Rightarrow> c | Some e \<Rightarrow> if expired t e then Delete k c else c)"
  by (simp add: Get_def getRead_def getFinish_def split: option.split)

lemma expired_later: "t \<le> t' \<Longrightarrow> expired t e \<Longrightarrow> expired t' e"
  by (auto simp: expired_def split: option.splits)

lemma cache_ok_ops [simp]:
  "cache_ok NewMemoryCache" "cache_ok (Clear c)"
  "cache_ok c \<Longrightarrow> cache_ok (Set now k v ttl c)" "cache_ok c \<Longrightarrow> cache_ok (Delete k c)"
  "cache_ok c \<Longrightarrow> cache_ok (evictExpired now c)"
  by (simp_all add: cache_ok_def NewMemoryCache_def Clear_def Set_def Delete_def evictExpired_def
      distinct_update distinct_delete distinct_map_filter)

lemma cache_ok_Get [simp]: "cache_ok c \<Longrightarrow> cache_ok (snd (Get t k c))"
  by (simp add: snd_Get split: option.split)

interpretation mem: cache_laws memoryCache cache_ok
proof (standard, goal_cases)
  case (8 c t t' k' k)
  then show ?case
    using expired_later [of t t']
    by (auto simp: memoryCache_def fst_Get snd_Get Delete_def split: option.split)
qed (simp_all add: memoryCache_def,
     auto simp: fst_Get Set_def Delete_def expired_def split: option.split)

lemma map_of_evictExpired:
  "cache_ok c \<Longrightarrow> map_of (mc_entries (evictExpired now c)) k =
     (case map_of (mc_entries c) k of None \<Rightarrow> None | Some e \<Rightarrow> if expired now e then None else Some e)"
  by (simp add: evictExpired_def cache_ok_def map_of_filter split: option.split)

subsection \<open>Properties\<close>

text \<open>
  A value written to the memory cache with a positive time to live is read back by every
  \<^verbatim>\<open>Get\<close> until that time has passed and by none after it, whatever evictions run in between.
\<close>

lemma Get_after_Set:
  assumes "cache_ok c" and "0 < ttl"
  shows "fst (Get t k (evictExpired t' (Set now k v ttl c))) =
    (if now + ttl < t \<or> now + ttl < t' then None else Some v)"
  using assms by (simp add: fst_Get map_of_evictExpired) (simp add: Set_def expired_def)

text \<open>
  \<^verbatim>\<open>Get\<close> is not atomic: when another goroutine sets the key between the read of an expired
  entry and the deletion, the fresh value is deleted with it.
\<close>

lemma Get_loses_concurrent_Set:
  assumes "getRead now k c = Stale"
  shows "map_of (mc_entries (snd (getFinish k (getRead now k c) (Set now k v ttl c)))) k = None"
  using assms by (simp add: getFinish_def Delete_def)

end
