(* ===== verification/Flow_Registry.thy ===== *)
theory Flow_Registry
  imports Flow_Parser Flow_Semantic Flow_IR Mem_Cache
begin

text \<open>
  The flow registry of \<^verbatim>\<open>server/internal/flow/registry.go\<close>: it runs parser, analyser and compiler and
  keeps the flows and their cached IR.  The cache is the interface value the registry was
  created with.  JSON encoding and hashing of Go structs are the parameter \<open>codec\<close>.  The
  error text of a state is kept as the error it prints.  The order of the association list of flows is the
  order in which a \<^verbatim>\<open>range\<close> over the map visits them.  A call returns \<open>Ret\<close> of its
  value, \<open>Err\<close> of its error, or panics.
\<close>

subsection \<open>State\<close>

record FlowState =
  fs_Name :: string
  fs_Hash :: string
  fs_AST :: "Flow option"
  fs_IR :: "IR option"
  fs_Status :: string
  fs_Error :: "SemanticError option"

record 'c Registry =
  rg_flows :: "(string, FlowState) gomap"
  rg_cache :: 'c
  rg_analyzer :: Analyzer
  rg_compiler :: Compiler
  rg_ttl :: duration

record codec =
  x_marshal :: "IR \<Rightarrow> bytes"
  x_unmarshal :: "bytes \<Rightarrow> IR option"
  x_hash :: "Flow \<Rightarrow> string"

datatype registry_error =
    NameRequired
  | Invalid SemanticError
  | CompileFailed string compile_error
  | NotFound string
  | UnmarshalFailed string
  | NoFlowForTopic string
  | ParseFailed parse_error

datatype 'a outcome = Ret 'a | Err registry_error | Panic

definition NewRegistry :: "'c \<Rightarrow> 'c Registry" where
  "NewRegistry c = \<lparr>rg_flows = [], rg_cache = c, rg_analyzer = NewAnalyzer,
     rg_compiler = NewCompiler, rg_ttl = 5 * 60 * 10 ^ 9\<rparr>"

definition irKey :: "string \<Rightarrow> string" where
  "irKey name = ''flow:'' @ name @ '':ir''"

definition routeKey :: "string \<Rightarrow> string" where
  "routeKey topic = ''flow:route:'' @ topic"

subsection \<open>Operations\<close>

definition cacheFlow ::
  "'c Cache \<Rightarrow> codec \<Rightarrow> gotime \<Rightarrow> Flow \<Rightarrow> string \<Rightarrow> IR \<Rightarrow> duration \<Rightarrow> 'c \<Rightarrow> 'c" where
  "cacheFlow C X now ast name ir ttl c =
     (let c1 = c_Set C now (irKey name) (x_marshal X ir) ttl c in
      case fl_Trigger ast of
        None \<Rightarrow> c1
      | Some tr \<Rightarrow>
          if tr_Topic tr \<noteq> [] then c_Set C now (routeKey (tr_Topic tr)) name ttl c1 else c1)"

definition Register ::
  "'c Cache \<Rightarrow> codec \<Rightarrow> gotime \<Rightarrow> Flow \<Rightarrow> 'c Registry \<Rightarrow> unit outcome \<times> 'c Registry" where
  "Register C X now ast r =
     (let name = md_Name (fl_Metadata ast) in
      if name = [] then (Err NameRequired, r)
      else
        case Analyze ast (rg_analyzer r) of (errs, an) \<Rightarrow>
          let r1 = r\<lparr>rg_analyzer := an\<rparr> in
          case errs of
            e # _ \<Rightarrow>
              (Err (Invalid e),
               r1\<lparr>rg_flows := AList.update name
                    \<lparr>fs_Name = name, fs_Hash = [], fs_AST = None, fs_IR = None,
                     fs_Status = ''error'', fs_Error = Some e\<rparr> (rg_flows r1)\<rparr>)
          | [] \<Rightarrow>
              (case Compile ast (rg_compiler r1) of
                 Inl e \<Rightarrow> (Err (CompileFailed name e), r1)
               | Inr (ir, cp) \<Rightarrow>
                   (Ret (),
                    r1\<lparr>rg_compiler := cp,
                       rg_cache := cacheFlow C X now ast name ir (rg_ttl r1) (rg_cache r1),
                       rg_flows := AList.update name
                         \<lparr>fs_Name = name, fs_Hash = x_hash X ast, fs_AST = Some ast,
                          fs_IR = Some ir, fs_Status = ''active'', fs_Error = None\<rparr>
                         (rg_flows r1)\<rparr>)))"

definition LoadFile ::
  "'c Cache \<Rightarrow> codec \<Rightarrow> gotime \<Rightarrow> bytes \<Rightarrow> 'c Registry \<Rightarrow> (unit outcome \<times> 'c Registry) option" where
  "LoadFile C X now data r =
     (case Parse data of
        None \<Rightarrow> None
      | Some (FlowOk ast) \<Rightarrow> Some (Register C X now ast r)
      | Some (FlowErr e) \<Rightarrow> Some (Err (ParseFailed e), r)
      | Some FlowPanic \<Rightarrow> Some (Panic, r)
      | Some FlowFuel \<Rightarrow> None)"

definition GetFlow ::
  "'c Cache \<Rightarrow> codec \<Rightarrow> gotime \<Rightarrow> string \<Rightarrow> 'c Registry \<Rightarrow> FlowState outcome \<times> 'c Registry" where
  "GetFlow C X now name r =
     (case map_of (rg_flows r) name of
        Some state \<Rightarrow> (Ret state, r)
      | None \<Rightarrow>
          (case c_Get C now (irKey name) (rg_cache r) of (data, c1) \<Rightarrow>
             let r1 = r\<lparr>rg_cache := c1\<rparr> in
             case data of
               None \<Rightarrow> (Err (NotFound name), r1)
             | Some bs \<Rightarrow>
                 (case x_unmarshal X bs of
                    None \<Rightarrow> (Err (UnmarshalFailed name), r1)
                  | Some ir \<Rightarrow>
                      (Ret \<lparr>fs_Name = name, fs_Hash = [], fs_AST = None, fs_IR = Some ir,
                            fs_Status = ''active'', fs_Error = None\<rparr>, r1))))"

fun searchTopic :: "string \<Rightarrow> FlowState list \<Rightarrow> FlowState outcome" where
  "searchTopic topic [] = Err (NoFlowForTopic topic)"
| "searchTopic topic (state # states) =
     (case fs_AST state of
        None \<Rightarrow> searchTopic topic states
      | Some ast \<Rightarrow>
          (case fl_Trigger ast of
             None \<Rightarrow> Panic
           | Some tr \<Rightarrow> if tr_Topic tr = topic then Ret state else searchTopic topic states))"

definition GetByTopic ::
  "'c Cache \<Rightarrow> codec \<Rightarrow> gotime \<Rightarrow> string \<Rightarrow> 'c Registry \<Rightarrow> FlowState outcome \<times> 'c Registry" where
  "GetByTopic C X now topic r =
     (case c_Get C now (routeKey topic) (rg_cache r) of (data, c1) \<Rightarrow>
        let r1 = r\<lparr>rg_cache := c1\<rparr> in
        case data of
          Some name \<Rightarrow> GetFlow C X now name r1
        | None \<Rightarrow> (searchTopic topic (map snd (rg_flows r1)), r1))"

definition ListFlows :: "'c Registry \<Rightarrow> FlowState list" where
  "ListFlows r = map snd (rg_flows r)"

definition DeleteFlow :: "'c Cache \<Rightarrow> string \<Rightarrow> 'c Registry \<Rightarrow> unit outcome \<times> 'c Registry" where
  "DeleteFlow C name r =
     (if map_of (rg_flows r) name = None then (Err (NotFound name), r)
      else (Ret (), r\<lparr>rg_flows := AList.delete name (rg_flows r),
                      rg_cache := c_Delete C (irKey name) (rg_cache r)\<rparr>))"

definition hasFlowExtension :: "string \<Rightarrow> bool" where
  "hasFlowExtension name \<longleftrightarrow> 5 < length name \<and> drop (length name - 5) name = ''.flow''"

text \<open>\<^verbatim>\<open>LoadDirectory\<close> over the entries of a directory: name, whether it is a directory, contents.\<close>

fun LoadDirectory ::
  "'c Cache \<Rightarrow> codec \<Rightarrow> gotime \<Rightarrow> (string \<times> bool \<times> bytes) list \<Rightarrow> 'c Registry
     \<Rightarrow> (unit outcome \<times> 'c Registry) option" where
  "LoadDirectory C X now [] r = Some (Ret (), r)"
| "LoadDirectory C X now ((name, isDir, data) # entries) r =
     (if \<not> isDir \<and> hasFlowExtension name then
        (case LoadFile C X now data r of
           None \<Rightarrow> None
         | Some (Ret _, r1) \<Rightarrow> LoadDirectory C X now entries r1
         | Some (res, r1) \<Rightarrow> Some (res, r1))
      else LoadDirectory C X now entries r)"

subsection \<open>Lemmas\<close>

lemma Register_Ret:
  assumes "Register C X now ast r = (Ret (), r')"
  shows "md_Name (fl_Metadata ast) \<noteq> [] \<and> fst (Analyze ast (rg_analyzer r)) = [] \<and>
    rg_analyzer r' = snd (Analyze ast (rg_analyzer r)) \<and>
    (\<exists>ir cp. Compile ast (rg_compiler r) = Inr (ir, cp) \<and>
      rg_flows r' = AList.update (md_Name (fl_Metadata ast))
        \<lparr>fs_Name = md_Name (fl_Metadata ast), fs_Hash = x_hash X ast, fs_AST = Some ast,
         fs_IR = Some ir, fs_Status = ''active'', fs_Error = None\<rparr> (rg_flows r) \<and>
      rg_cache r' = cacheFlow C X now ast (md_Name (fl_Metadata ast)) ir (rg_ttl r) (rg_cache r))"
  using assms
  by (auto simp: Register_def Let_def split: if_splits prod.splits list.splits sum.splits)

lemma Register_flows:
  assumes "Register C X now ast r = (Ret (), r')"
  obtains st where "fs_AST st = Some ast" "rg_flows r' = AList.update (md_Name (fl_Metadata ast)) st (rg_flows r)"
proof -
  from Register_Ret [OF assms] obtain ir where
    "rg_flows r' = AList.update (md_Name (fl_Metadata ast))
        \<lparr>fs_Name = md_Name (fl_Metadata ast), fs_Hash = x_hash X ast, fs_AST = Some ast,
         fs_IR = Some ir, fs_Status = ''active'', fs_Error = None\<rparr> (rg_flows r)" by blast
  then show ?thesis by (rule that [rotated]) simp
qed

lemma Register_Invalid:
  assumes "md_Name (fl_Metadata ast) \<noteq> []" and "fst (Analyze ast (rg_analyzer r)) = e # es"
  shows "Register C X now ast r =
    (Err (Invalid e),
     r\<lparr>rg_analyzer := snd (Analyze ast (rg_analyzer r)),
       rg_flows := AList.update (md_Name (fl_Metadata ast))
         \<lparr>fs_Name = md_Name (fl_Metadata ast), fs_Hash = [], fs_AST = None, fs_IR = None,
          fs_Status = ''error'', fs_Error = Some e\<rparr> (rg_flows r)\<rparr>)"
  using assms by (cases "Analyze ast (rg_analyzer r)") (simp add: Register_def Let_def)

lemma searchTopic_nil_trigger:
  assumes "\<forall>s \<in> set states. \<forall>ast. fs_AST s = Some ast \<longrightarrow> fl_Trigger ast = None"
    and "\<exists>s \<in> set states. fs_AST s \<noteq> None"
  shows "searchTopic topic states = Panic"
  using assms by (induction states) (auto split: option.split)

context cache_laws
begin

lemma GetFlow_DeleteFlow:
  assumes "ok (rg_cache r)" and "DeleteFlow ops name r = (Ret (), r')"
  shows "fst (GetFlow ops X now name r') = Err (NotFound name)"
proof -
  from assms(2) have "rg_flows r' = AList.delete name (rg_flows r)"
    "rg_cache r' = c_Delete ops (irKey name) (rg_cache r)"
    by (auto simp: DeleteFlow_def split: if_splits)
  with Get_Delete [OF assms(1), of now "irKey name"] show ?thesis
    by (auto simp: GetFlow_def Let_def split: prod.split)
qed

end

subsection \<open>Properties\<close>

text \<open>
  After a successful \<^verbatim>\<open>Register\<close>, \<^verbatim>\<open>Get\<close> of the flow's name returns the registered flow: active,
  with its syntax tree and the IR the compiler made of it; other names are not affected.
\<close>

lemma Get_after_Register:
  assumes "Register C X now ast r = (Ret (), r')"
  shows "(\<exists>st ir cp. GetFlow C X t (md_Name (fl_Metadata ast)) r' = (Ret st, r') \<and> fs_Status st = ''active'' \<and>
      fs_AST st = Some ast \<and> fs_IR st = Some ir \<and> Compile ast (rg_compiler r) = Inr (ir, cp)) \<and>
    (\<forall>n. n \<noteq> md_Name (fl_Metadata ast) \<longrightarrow> map_of (rg_flows r') n = map_of (rg_flows r) n)"
  using Register_Ret [OF assms] by (auto simp: GetFlow_def)

text \<open>
  Registering a flow that declares a service or an event a second time (an update, or
  a reload of the same file) always fails, and replaces the working flow by an error state
  without syntax tree and IR: the registry's analyser still holds the first registration's
  declarations.
\<close>

lemma Register_twice:
  assumes "Register C X now ast r = (Ret (), r1)"
    and "fl_Services ast \<noteq> [] \<or> fl_Events ast \<noteq> []"
  shows "\<exists>e r2 st. Register C X now' ast r1 = (Err (Invalid e), r2) \<and>
    map_of (rg_flows r2) (md_Name (fl_Metadata ast)) = Some st \<and>
    fs_Status st = ''error'' \<and> fs_AST st = None \<and> fs_IR st = None"
proof -
  note first = Register_Ret [OF assms(1)]
  have "fst (Analyze ast (rg_analyzer r1)) \<noteq> []"
    using first assms(2) by (auto simp: Analyze_errors Analyze_tables dups_Nil_iff Int_Un_distrib2 neq_Nil_conv)
  then obtain e es where "fst (Analyze ast (rg_analyzer r1)) = e # es" by (cases "fst (Analyze ast (rg_analyzer r1))") auto
  from Register_Invalid [OF _ this, of C X now'] first show ?thesis by simp
qed

text \<open>
  With the memory cache, a deleted flow is gone: \<^verbatim>\<open>Get\<close> reports it as not found, from
  the registry and from the cache.
\<close>

lemma Get_after_Delete:
  assumes "cache_ok (rg_cache r)" and "DeleteFlow memoryCache name r = (Ret (), r')"
  shows "fst (GetFlow memoryCache X now name r') = Err (NotFound name)"
  using assms by (rule mem.GetFlow_DeleteFlow)

text \<open>
  As soon as one flow file has been loaded into a registry whose flows all come from files,
  \<^verbatim>\<open>GetByTopic\<close> of a topic without a cached route panics: the parser never sets the trigger
  the linear search dereferences.
\<close>

lemma GetByTopic_panics:
  assumes "LoadFile C X now data r = Some (Ret (), r')"
    and "\<forall>s \<in> snd ` set (rg_flows r). \<forall>ast. fs_AST s = Some ast \<longrightarrow> parsed_shape ast"
    and "fst (c_Get C t (routeKey topic) (rg_cache r')) = None"
  shows "fst (GetByTopic C X t topic r') = Panic"
proof -
  from assms(1) obtain ast where ast: "Parse data = Some (FlowOk ast)" and
    reg: "Register C X now ast r = (Ret (), r')"
    by (auto simp: LoadFile_def split: option.splits flow_result.splits)
  from reg obtain st where st: "fs_AST st = Some ast"
    "rg_flows r' = AList.update (md_Name (fl_Metadata ast)) st (rg_flows r)" by (rule Register_flows)
  have "snd ` set (rg_flows r') \<subseteq> insert st (snd ` set (rg_flows r))"
    unfolding st(2) by (rule set_update_snd)
  then have "\<forall>s \<in> snd ` set (rg_flows r'). \<forall>ast. fs_AST s = Some ast \<longrightarrow> fl_Trigger ast = None"
    using assms(2) parsed_flow_shape [OF ast] st(1) by (fastforce simp: parsed_shape_def)
  moreover have "st \<in> snd ` set (rg_flows r')"
    unfolding st(2) using in_set_update by force
  ultimately have "searchTopic topic (map snd (rg_flows r')) = Panic"
    using st(1) by (intro searchTopic_nil_trigger) auto
  with assms(3) show ?thesis by (auto simp: GetByTopic_def Let_def split: prod.splits)
qed

end
