(* ===== verification/Timer_Wheel.thy ===== *)
theory Timer_Wheel
  imports Prelude
begin

text \<open>
  The timer wheel of \<^verbatim>\<open>server/internal/scheduler/worker.go\<close>.  A slot is the list of its timers in
  order; a callback is identified by the timer's id; the map \<^verbatim>\<open>entries\<close> from ids to list elements is
  the map \<open>tw_entries\<close> from ids to the slot the element is in.  \<open>tickOnce\<close> is one tick of the ticker: it
  returns the ids whose callbacks are started.  \<open>tickLoop\<close> is its loop over the slot: with a
  single slot the timers it re-adds go to the list it is walking along, which is why it is not a
  structural recursion.  Ids do not wrap around.
\<close>

subsection \<open>Operations\<close>

record timerEntry =
  te_id :: nat
  te_remaining :: nat
  te_slotIdx :: nat

record TimerWheel =
  tw_tick :: duration
  tw_slotCount :: nat
  tw_slots :: "timerEntry list list"
  tw_currentSlot :: nat
  tw_nextID :: nat
  tw_entries :: "(nat, nat) gomap"

definition NewTimerWheel :: "duration \<Rightarrow> nat \<Rightarrow> TimerWheel" where
  "NewTimerWheel tick slotCount =
     \<lparr>tw_tick = tick, tw_slotCount = slotCount, tw_slots = replicate slotCount [],
      tw_currentSlot = 0, tw_nextID = 0, tw_entries = []\<rparr>"

definition ticksOf :: "TimerWheel \<Rightarrow> duration \<Rightarrow> nat" where
  "ticksOf tw d = (if d div tw_tick tw < 1 then 1 else nat (d div tw_tick tw))"

text \<open>\<^verbatim>\<open>Add\<close> divides by the tick and by the number of slots: \<^term>\<open>None\<close> when one of them is zero.\<close>

definition Add :: "duration \<Rightarrow> TimerWheel \<Rightarrow> (nat \<times> TimerWheel) option" where
  "Add d tw =
     (if tw_tick tw = 0 \<or> tw_slotCount tw = 0 then None
      else
        let i = tw_nextID tw + 1;
            ticks = ticksOf tw d;
            slot = (tw_currentSlot tw + ticks) mod tw_slotCount tw;
            e = \<lparr>te_id = i, te_remaining = ticks div tw_slotCount tw, te_slotIdx = slot\<rparr>
        in Some (i, tw\<lparr>tw_nextID := i,
                       tw_slots := (tw_slots tw)[slot := tw_slots tw ! slot @ [e]],
                       tw_entries := AList.update i slot (tw_entries tw)\<rparr>))"

definition Cancel :: "nat \<Rightarrow> TimerWheel \<Rightarrow> bool \<times> TimerWheel" where
  "Cancel i tw =
     (case map_of (tw_entries tw) i of
        None \<Rightarrow> (False, tw)
      | Some slot \<Rightarrow>
          (True, tw\<lparr>tw_slots := (tw_slots tw)[slot := filter (\<lambda>e. te_id e \<noteq> i) (tw_slots tw ! slot)],
                    tw_entries := AList.delete i (tw_entries tw)\<rparr>))"

definition Len :: "TimerWheel \<Rightarrow> nat" where
  "Len tw = length (tw_entries tw)"

text \<open>The arguments: the timers of the current slot still to be visited, the ids to fire, the wheel.\<close>

function tickLoop :: "timerEntry list \<Rightarrow> nat list \<Rightarrow> TimerWheel \<Rightarrow> nat list \<times> TimerWheel" where
  "tickLoop [] fire tw = (fire, tw)"
| "tickLoop (e # es) fire tw =
     (if 0 < te_remaining e then
        let target = (tw_currentSlot tw + 1) mod tw_slotCount tw;
            e1 = e\<lparr>te_remaining := te_remaining e - 1, te_slotIdx := target\<rparr>;
            tw1 = tw\<lparr>tw_entries := AList.delete (te_id e) (AList.update (te_id e) target (tw_entries tw))\<rparr>
        in if target = tw_currentSlot tw then tickLoop (es @ [e1]) fire tw1
           else tickLoop es fire (tw1\<lparr>tw_slots := (tw_slots tw1)[target := tw_slots tw1 ! target @ [e1]]\<rparr>)
      else tickLoop es (fire @ [te_id e]) (tw\<lparr>tw_entries := AList.delete (te_id e) (tw_entries tw)\<rparr>))"
  by pat_completeness auto

termination
  by (relation "measure (\<lambda>(es, _, _). sum_list (map (\<lambda>e. te_remaining e + 1) es))") auto

definition tickOnce :: "TimerWheel \<Rightarrow> nat list \<times> TimerWheel" where
  "tickOnce tw =
     (let cur = tw_currentSlot tw in
      case tickLoop (tw_slots tw ! cur) [] (tw\<lparr>tw_slots := (tw_slots tw)[cur := []]\<rparr>) of
        (fire, tw1) \<Rightarrow> (fire, tw1\<lparr>tw_currentSlot := (cur + 1) mod tw_slotCount tw\<rparr>))"

fun ticks :: "nat \<Rightarrow> TimerWheel \<Rightarrow> TimerWheel" where
  "ticks 0 tw = tw"
| "ticks (Suc k) tw = ticks k (snd (tickOnce tw))"

subsection \<open>One tick\<close>

text \<open>
  With at least two slots the loop moves the timers with rounds left to the next slot, each with
  one round less, and fires the others.
\<close>

definition moved :: "nat \<Rightarrow> timerEntry \<Rightarrow> timerEntry" where
  "moved target e = e\<lparr>te_remaining := te_remaining e - 1, te_slotIdx := target\<rparr>"

lemma tickLoop_result:
  assumes "(tw_currentSlot tw + 1) mod tw_slotCount tw \<noteq> tw_currentSlot tw"
    and "(tw_currentSlot tw + 1) mod tw_slotCount tw < length (tw_slots tw)"
  shows "tickLoop es fire tw = (f', tw') \<Longrightarrow>
    f' = fire @ map te_id (filter (\<lambda>e. te_remaining e = 0) es) \<and>
    tw_slots tw' = (tw_slots tw)[(tw_currentSlot tw + 1) mod tw_slotCount tw :=
      tw_slots tw ! ((tw_currentSlot tw + 1) mod tw_slotCount tw) @
      map (moved ((tw_currentSlot tw + 1) mod tw_slotCount tw)) (filter (\<lambda>e. 0 < te_remaining e) es)] \<and>
    tw_currentSlot tw' = tw_currentSlot tw \<and> tw_slotCount tw' = tw_slotCount tw \<and>
    tw_nextID tw' = tw_nextID tw \<and> tw_tick tw' = tw_tick tw \<and>
    map_of (tw_entries tw') = (map_of (tw_entries tw)) |` (- (te_id ` set es))"
  using assms
proof (induction es fire tw rule: tickLoop.induct)
  case (1 fire tw)
  then show ?case by auto
next
  case (2 e es fire tw)
  show ?case
  proof (cases "0 < te_remaining e")
    case True
    with 2 show ?thesis
      by (auto simp: Let_def moved_def restrict_map_def fun_eq_iff)
  next
    case False
    with 2 show ?thesis by (auto simp: restrict_map_def fun_eq_iff)
  qed
qed

text \<open>The timers in a slot, and the invariant: ids are unique and were handed out by \<^verbatim>\<open>Add\<close>.\<close>

definition inSlot :: "TimerWheel \<Rightarrow> nat \<Rightarrow> timerEntry \<Rightarrow> bool" where
  "inSlot tw a e \<longleftrightarrow> a < tw_slotCount tw \<and> e \<in> set (tw_slots tw ! a)"

definition wheel_ok :: "TimerWheel \<Rightarrow> bool" where
  "wheel_ok tw \<longleftrightarrow> 2 \<le> tw_slotCount tw \<and> length (tw_slots tw) = tw_slotCount tw \<and>
     tw_currentSlot tw < tw_slotCount tw \<and> 0 < tw_tick tw \<and>
     (\<forall>a b e e'. inSlot tw a e \<and> inSlot tw b e' \<and> te_id e = te_id e' \<longrightarrow> a = b \<and> e = e') \<and>
     (\<forall>a e. inSlot tw a e \<longrightarrow> te_id e \<le> tw_nextID tw)"

abbreviation nextSlot :: "TimerWheel \<Rightarrow> nat" where
  "nextSlot tw \<equiv> (tw_currentSlot tw + 1) mod tw_slotCount tw"

lemma nextSlot_neq: "wheel_ok tw \<Longrightarrow> nextSlot tw \<noteq> tw_currentSlot tw"
  by (cases "tw_currentSlot tw + 1 = tw_slotCount tw") (auto simp: wheel_ok_def)

lemma nextSlot_less: "wheel_ok tw \<Longrightarrow> nextSlot tw < tw_slotCount tw"
  by (auto simp: wheel_ok_def)

lemma tickOnce_result:
  assumes "wheel_ok tw" and "tickOnce tw = (fire, tw')"
  shows "fire = map te_id (filter (\<lambda>e. te_remaining e = 0) (tw_slots tw ! tw_currentSlot tw))"
    and "tw_slots tw' = (tw_slots tw)[tw_currentSlot tw := [], nextSlot tw := tw_slots tw ! nextSlot tw @
      map (moved (nextSlot tw)) (filter (\<lambda>e. 0 < te_remaining e) (tw_slots tw ! tw_currentSlot tw))]"
    and "tw_currentSlot tw' = nextSlot tw" and "tw_slotCount tw' = tw_slotCount tw"
    and "tw_nextID tw' = tw_nextID tw" and "tw_tick tw' = tw_tick tw"
    and "map_of (tw_entries tw') = map_of (tw_entries tw) |` (- (te_id ` set (tw_slots tw ! tw_currentSlot tw)))"
proof -
  let ?tw = "tw\<lparr>tw_slots := (tw_slots tw)[tw_currentSlot tw := []]\<rparr>"
  obtain f1 tw1 where l: "tickLoop (tw_slots tw ! tw_currentSlot tw) [] ?tw = (f1, tw1)" by fastforce
  have "nextSlot ?tw < length (tw_slots ?tw)"
    using nextSlot_less [OF assms(1)] assms(1) by (simp add: wheel_ok_def)
  note r = tickLoop_result [OF _ this l]
  from assms(2) l have "fire = f1" "tw' = tw1\<lparr>tw_currentSlot := nextSlot tw\<rparr>"
    by (simp_all add: tickOnce_def Let_def)
  with r nextSlot_neq [OF assms(1)]
  show "fire = map te_id (filter (\<lambda>e. te_remaining e = 0) (tw_slots tw ! tw_currentSlot tw))"
    "tw_slots tw' = (tw_slots tw)[tw_currentSlot tw := [], nextSlot tw := tw_slots tw ! nextSlot tw @
      map (moved (nextSlot tw)) (filter (\<lambda>e. 0 < te_remaining e) (tw_slots tw ! tw_currentSlot tw))]"
    "tw_currentSlot tw' = nextSlot tw" "tw_slotCount tw' = tw_slotCount tw"
    "tw_nextID tw' = tw_nextID tw" "tw_tick tw' = tw_tick tw"
    "map_of (tw_entries tw') = map_of (tw_entries tw) |` (- (te_id ` set (tw_slots tw ! tw_currentSlot tw)))"
    by simp_all
qed

lemma inSlot_tickOnce:
  assumes "wheel_ok tw" and "tickOnce tw = (fire, tw')"
  shows "inSlot tw' a e \<longleftrightarrow> a \<noteq> tw_currentSlot tw \<and> inSlot tw a e \<or>
    a = nextSlot tw \<and> (\<exists>e0. inSlot tw (tw_currentSlot tw) e0 \<and> 0 < te_remaining e0 \<and> e = moved (nextSlot tw) e0)"
  using nextSlot_neq [OF assms(1)] nextSlot_less [OF assms(1)] assms(1)
  by (auto simp: inSlot_def tickOnce_result [OF assms] nth_list_update wheel_ok_def)

lemma moved_id [simp]: "te_id (moved t e) = te_id e"
  by (simp add: moved_def)

lemma wheel_okI:
  assumes "2 \<le> tw_slotCount tw" "length (tw_slots tw) = tw_slotCount tw"
    "tw_currentSlot tw < tw_slotCount tw" "0 < tw_tick tw"
    and "\<And>a b e e'. inSlot tw a e \<Longrightarrow> inSlot tw b e' \<Longrightarrow> te_id e = te_id e' \<Longrightarrow> a = b \<and> e = e'"
    and "\<And>a e. inSlot tw a e \<Longrightarrow> te_id e \<le> tw_nextID tw"
  shows "wheel_ok tw"
  unfolding wheel_ok_def using assms by blast

lemma wheel_okD:
  assumes "wheel_ok tw"
  shows "2 \<le> tw_slotCount tw" "length (tw_slots tw) = tw_slotCount tw"
    "tw_currentSlot tw < tw_slotCount tw" "0 < tw_tick tw"
  using assms unfolding wheel_ok_def by blast+

lemma wheel_ok_unique:
  "wheel_ok tw \<Longrightarrow> inSlot tw a e \<Longrightarrow> inSlot tw b e' \<Longrightarrow> te_id e = te_id e' \<Longrightarrow> a = b \<and> e = e'"
  unfolding wheel_ok_def by blast

lemma wheel_ok_id: "wheel_ok tw \<Longrightarrow> inSlot tw a e \<Longrightarrow> te_id e \<le> tw_nextID tw"
  unfolding wheel_ok_def by blast

lemma tickOnce_ok [keep_inv]:
  assumes "wheel_ok tw"
  shows "wheel_ok (snd (tickOnce tw))"
proof -
  obtain fire tw' where t: "tickOnce tw = (fire, tw')" by fastforce
  note slot = inSlot_tickOnce [OF assms t]
  show ?thesis
    unfolding t snd_conv
  proof (rule wheel_okI)
    fix a b e e'
    assume "inSlot tw' a e" "inSlot tw' b e'" "te_id e = te_id e'"
    then show "a = b \<and> e = e'" unfolding slot by (auto dest: wheel_ok_unique [OF assms])
  next
    fix a e
    assume "inSlot tw' a e"
    then obtain b e0 where "inSlot tw b e0" "te_id e0 = te_id e" unfolding slot by auto
    with wheel_ok_id [OF assms this(1)] show "te_id e \<le> tw_nextID tw'"
      by (simp add: tickOnce_result(5) [OF assms t])
  qed (use wheel_okD [OF assms] nextSlot_less [OF assms] in
      \<open>simp_all add: tickOnce_result(2-6) [OF assms t]\<close>)
qed

subsection \<open>When a timer fires\<close>

definition waits :: "TimerWheel \<Rightarrow> nat \<Rightarrow> nat \<Rightarrow> nat \<Rightarrow> bool" where
  "waits tw i rem dist \<longleftrightarrow>
     (\<exists>e. inSlot tw ((tw_currentSlot tw + dist) mod tw_slotCount tw) e \<and> te_id e = i \<and> te_remaining e = rem)"

definition absent :: "TimerWheel \<Rightarrow> nat \<Rightarrow> bool" where
  "absent tw i \<longleftrightarrow> (\<forall>a e. inSlot tw a e \<longrightarrow> te_id e \<noteq> i)"

lemma fires_iff:
  assumes "wheel_ok tw"
  shows "i \<in> set (fst (tickOnce tw)) \<longleftrightarrow>
    (\<exists>e. inSlot tw (tw_currentSlot tw) e \<and> te_id e = i \<and> te_remaining e = 0)"
proof -
  obtain fire tw' where t: "tickOnce tw = (fire, tw')" by fastforce
  show ?thesis
    using wheel_okD(3) [OF assms] by (auto simp: t tickOnce_result(1) [OF assms t] inSlot_def)
qed

lemma fires_waits:
  assumes "wheel_ok tw" and "waits tw i rem dist" and "dist < tw_slotCount tw"
  shows "i \<in> set (fst (tickOnce tw)) \<longleftrightarrow> dist = 0 \<and> rem = 0"
proof -
  let ?a = "(tw_currentSlot tw + dist) mod tw_slotCount tw"
  from assms(2) obtain e where e: "inSlot tw ?a e" "te_id e = i" "te_remaining e = rem"
    by (auto simp: waits_def)
  have dist: "?a = tw_currentSlot tw \<longleftrightarrow> dist = 0"
    using assms(3) wheel_okD(3) [OF assms(1)] by (auto simp: mod_if)
  show ?thesis
  proof
    assume "i \<in> set (fst (tickOnce tw))"
    then obtain e' where "inSlot tw (tw_currentSlot tw) e'" "te_id e' = i" "te_remaining e' = 0"
      by (auto simp: fires_iff [OF assms(1)])
    with wheel_ok_unique [OF assms(1) e(1) this(1)] e dist show "dist = 0 \<and> rem = 0" by auto
  next
    assume "dist = 0 \<and> rem = 0"
    with e dist show "i \<in> set (fst (tickOnce tw))" by (auto simp: fires_iff [OF assms(1)])
  qed
qed

lemma tick_waits:
  assumes "wheel_ok tw" and "waits tw i rem dist" and "dist < tw_slotCount tw"
  shows "dist = 0 \<Longrightarrow> 0 < rem \<Longrightarrow> waits (snd (tickOnce tw)) i (rem - 1) 0"
    and "0 < dist \<Longrightarrow> waits (snd (tickOnce tw)) i rem (dist - 1)"
    and "dist = 0 \<Longrightarrow> rem = 0 \<Longrightarrow> absent (snd (tickOnce tw)) i"
proof -
  let ?a = "(tw_currentSlot tw + dist) mod tw_slotCount tw"
  obtain fire tw' where t: "tickOnce tw = (fire, tw')" by fastforce
  note slot = inSlot_tickOnce [OF assms(1) t] and res = tickOnce_result(3,4) [OF assms(1) t]
  from assms(2) obtain e where e: "inSlot tw ?a e" "te_id e = i" "te_remaining e = rem"
    by (auto simp: waits_def)
  note cur = wheel_okD(3) [OF assms(1)]
  { assume "dist = 0" "0 < rem"
    with e cur have "inSlot tw' (nextSlot tw) (moved (nextSlot tw) e)" unfolding slot by auto
    with e show "waits (snd (tickOnce tw)) i (rem - 1) 0"
      by (auto simp: t waits_def res moved_def) }
  { assume "0 < dist"
    with assms(3) cur have "?a \<noteq> tw_currentSlot tw" by (auto simp: mod_if)
    with e(1) have "inSlot tw' ?a e" unfolding slot by simp
    moreover have "(nextSlot tw + (dist - 1)) mod tw_slotCount tw = ?a"
      using \<open>0 < dist\<close> mod_add_left_eq [of "tw_currentSlot tw + 1" "tw_slotCount tw" "dist - 1"] by simp
    ultimately show "waits (snd (tickOnce tw)) i rem (dist - 1)"
      using e by (auto simp: t waits_def res) }
  { assume "dist = 0" "rem = 0"
    from e(1) cur \<open>dist = 0\<close> have e0: "inSlot tw (tw_currentSlot tw) e" by simp
    show "absent (snd (tickOnce tw)) i"
      unfolding absent_def t snd_conv
    proof (intro allI impI notI)
      fix a e' assume e': "inSlot tw' a e'" "te_id e' = i"
      from e'(1) have "a \<noteq> tw_currentSlot tw \<and> inSlot tw a e' \<or>
          (\<exists>e1. inSlot tw (tw_currentSlot tw) e1 \<and> 0 < te_remaining e1 \<and> te_id e1 = i)"
        unfolding slot using e'(2) by auto
      then show False
      proof (elim disjE conjE exE)
        assume "a \<noteq> tw_currentSlot tw" "inSlot tw a e'"
        with wheel_ok_unique [OF assms(1) e0 this(2)] e(2) e'(2) show False by simp
      next
        fix e1
        assume "inSlot tw (tw_currentSlot tw) e1" "0 < te_remaining e1" "te_id e1 = i"
        with wheel_ok_unique [OF assms(1) e0 this(1)] e(2,3) \<open>rem = 0\<close> show False by simp
      qed
    qed }
qed

lemma absent_tick:
  assumes "wheel_ok tw" and "absent tw i"
  shows "absent (snd (tickOnce tw)) i \<and> i \<notin> set (fst (tickOnce tw))"
proof
  obtain fire tw' where t: "tickOnce tw = (fire, tw')" by fastforce
  have no: "te_id e \<noteq> i" if "inSlot tw a e" for a e
    using assms(2) that unfolding absent_def by blast
  show "absent (snd (tickOnce tw)) i"
    unfolding absent_def t snd_conv
  proof (intro allI impI)
    fix a e assume "inSlot tw' a e"
    then obtain b e1 where "inSlot tw b e1" "te_id e1 = te_id e"
      unfolding inSlot_tickOnce [OF assms(1) t] by auto
    with no show "te_id e \<noteq> i" by metis
  qed
  show "i \<notin> set (fst (tickOnce tw))"
    unfolding fires_iff [OF assms(1)] using no by blast
qed

lemma ticks_ok: "wheel_ok tw \<Longrightarrow> wheel_ok (ticks k tw)"
  by (induction k arbitrary: tw) (simp_all add: tickOnce_ok)

lemma absent_never: "wheel_ok tw \<Longrightarrow> absent tw i \<Longrightarrow> i \<notin> set (fst (tickOnce (ticks k tw)))"
  by (induction k arbitrary: tw) (simp_all add: absent_tick tickOnce_ok)

lemma waits_fires:
  "wheel_ok tw \<Longrightarrow> waits tw i rem dist \<Longrightarrow> dist < tw_slotCount tw \<Longrightarrow>
     i \<in> set (fst (tickOnce (ticks k tw))) \<longleftrightarrow> k = dist + rem"
proof (induction k arbitrary: tw rem dist)
  case 0
  then show ?case using fires_waits by auto
next
  case (Suc k)
  let ?tw = "snd (tickOnce tw)"
  have ok: "wheel_ok ?tw" using Suc.prems(1) by (rule tickOnce_ok)
  have n: "tw_slotCount ?tw = tw_slotCount tw"
    by (cases "tickOnce tw") (simp add: tickOnce_result(4) [OF Suc.prems(1)])
  consider "dist = 0" "rem = 0" | "dist = 0" "0 < rem" | "0 < dist" by auto
  then show ?case
  proof cases
    case 1
    with tick_waits(3) [OF Suc.prems] absent_never [OF ok] show ?thesis by simp
  next
    case 2
    with Suc.IH [OF ok tick_waits(1) [OF Suc.prems 2]] Suc.prems(3) n show ?thesis by auto
  next
    case 3
    with Suc.IH [OF ok tick_waits(2) [OF Suc.prems 3]] Suc.prems(3) n show ?thesis by auto
  qed
qed

subsection \<open>Adding and cancelling\<close>

lemma inSlot_Add:
  assumes "wheel_ok tw" and "Add d tw = Some (i, tw')"
  shows "inSlot tw' a e \<longleftrightarrow> inSlot tw a e \<or>
    a = (tw_currentSlot tw + ticksOf tw d) mod tw_slotCount tw \<and>
    e = \<lparr>te_id = i, te_remaining = ticksOf tw d div tw_slotCount tw, te_slotIdx = a\<rparr>"
  using assms(2) wheel_okD [OF assms(1)]
  by (auto simp: Add_def Let_def inSlot_def nth_list_update split: if_splits)

lemma Add_frame:
  assumes "Add d tw = Some (i, tw')"
  shows "i = tw_nextID tw + 1" "tw_nextID tw' = i" "tw_slotCount tw' = tw_slotCount tw"
    "tw_currentSlot tw' = tw_currentSlot tw" "tw_tick tw' = tw_tick tw"
    "length (tw_slots tw') = length (tw_slots tw)"
    "tw_entries tw' = AList.update i ((tw_currentSlot tw + ticksOf tw d) mod tw_slotCount tw) (tw_entries tw)"
  using assms by (auto simp: Add_def Let_def split: if_splits)

lemma Add_ok [keep_inv]:
  assumes "wheel_ok tw" and "Add d tw = Some (i, tw')"
  shows "wheel_ok tw'"
proof (rule wheel_okI)
  note slot = inSlot_Add [OF assms] and frame = Add_frame [OF assms(2)]
  have new: "te_id e \<noteq> i" if "inSlot tw a e" for a e
    using wheel_ok_id [OF assms(1) that] frame(1) by simp
  { fix a b e e'
    assume "inSlot tw' a e" "inSlot tw' b e'" "te_id e = te_id e'"
    then show "a = b \<and> e = e'" unfolding slot
      using wheel_ok_unique [OF assms(1), of a e b e'] new [of a e] new [of b e'] by auto }
  { fix a e
    assume "inSlot tw' a e"
    then show "te_id e \<le> tw_nextID tw'"
      unfolding slot frame(2) using wheel_ok_id [OF assms(1), of a e] frame(1) by auto }
qed (use wheel_okD [OF assms(1)] Add_frame [OF assms(2)] in simp_all)

lemma Add_waits:
  assumes "wheel_ok tw" and "Add d tw = Some (i, tw')"
  shows "waits tw' i (ticksOf tw d div tw_slotCount tw) (ticksOf tw d mod tw_slotCount tw)"
  unfolding waits_def Add_frame(3,4) [OF assms(2)] inSlot_Add [OF assms] mod_add_right_eq by auto

lemma inSlot_Cancel:
  assumes "wheel_ok tw" and "map_of (tw_entries tw) i = Some a" and "inSlot tw a e" and "te_id e = i"
  shows "inSlot (snd (Cancel i tw)) b e' \<longleftrightarrow> inSlot tw b e' \<and> te_id e' \<noteq> i"
proof -
  have "b = a" if "inSlot tw b e'" "te_id e' = i"
    using wheel_ok_unique [OF assms(1) that(1) assms(3)] that(2) assms(4) by simp
  then show ?thesis
    using assms(2,3) wheel_okD(2) [OF assms(1)]
    by (auto simp: Cancel_def inSlot_def nth_list_update)
qed

lemma Cancel_None: "map_of (tw_entries tw) i = None \<Longrightarrow> Cancel i tw = (False, tw)"
  by (simp add: Cancel_def)

lemma Cancel_ok [keep_inv]:
  assumes "wheel_ok tw" and "map_of (tw_entries tw) i = Some a" and "inSlot tw a e" and "te_id e = i"
  shows "wheel_ok (snd (Cancel i tw)) \<and> absent (snd (Cancel i tw)) i"
proof
  note slot = inSlot_Cancel [OF assms]
  have frame: "tw_slotCount (snd (Cancel i tw)) = tw_slotCount tw" "tw_tick (snd (Cancel i tw)) = tw_tick tw"
    "tw_currentSlot (snd (Cancel i tw)) = tw_currentSlot tw" "tw_nextID (snd (Cancel i tw)) = tw_nextID tw"
    "length (tw_slots (snd (Cancel i tw))) = length (tw_slots tw)"
    by (simp_all add: Cancel_def split: option.split)
  show "wheel_ok (snd (Cancel i tw))"
  proof (rule wheel_okI)
    fix b c f f'
    assume "inSlot (snd (Cancel i tw)) b f" "inSlot (snd (Cancel i tw)) c f'" "te_id f = te_id f'"
    then show "b = c \<and> f = f'" unfolding slot by (auto dest: wheel_ok_unique [OF assms(1)])
  next
    fix b f
    assume "inSlot (snd (Cancel i tw)) b f"
    then show "te_id f \<le> tw_nextID (snd (Cancel i tw))"
      unfolding slot frame by (auto dest: wheel_ok_id [OF assms(1)])
  qed (use wheel_okD [OF assms(1)] frame in simp_all)
  show "absent (snd (Cancel i tw)) i" unfolding absent_def slot by simp
qed

text \<open>
  A timer is tracked while its id leads to the slot it is in; the first time its slot is
  visited the map forgets it, also when the timer is put into the next slot.
\<close>

definition tracked :: "TimerWheel \<Rightarrow> nat \<Rightarrow> nat \<Rightarrow> bool" where
  "tracked tw i dist \<longleftrightarrow>
     map_of (tw_entries tw) i = Some ((tw_currentSlot tw + dist) mod tw_slotCount tw) \<and>
     (\<exists>rem. waits tw i rem dist)"

lemma tracked_tick:
  assumes "wheel_ok tw" and "tracked tw i dist" and "dist < tw_slotCount tw"
  shows "0 < dist \<Longrightarrow> tracked (snd (tickOnce tw)) i (dist - 1)"
    and "dist = 0 \<Longrightarrow> map_of (tw_entries (snd (tickOnce tw))) i = None"
proof -
  let ?a = "(tw_currentSlot tw + dist) mod tw_slotCount tw"
  obtain fire tw' where t: "tickOnce tw = (fire, tw')" by fastforce
  note res = tickOnce_result [OF assms(1) t] and cur = wheel_okD(3) [OF assms(1)]
  from assms(2) obtain rem e where m: "map_of (tw_entries tw) i = Some ?a" and w: "waits tw i rem dist"
    and e: "inSlot tw ?a e" "te_id e = i"
    by (auto simp: tracked_def waits_def)
  { assume d: "0 < dist"
    with assms(3) cur have "?a \<noteq> tw_currentSlot tw" by (auto simp: mod_if)
    then have "i \<notin> te_id ` set (tw_slots tw ! tw_currentSlot tw)"
      using wheel_ok_unique [OF assms(1) e(1)] e(2) cur by (auto simp: inSlot_def)
    moreover have "(nextSlot tw + (dist - 1)) mod tw_slotCount tw = ?a"
      using d mod_add_left_eq [of "tw_currentSlot tw + 1" "tw_slotCount tw" "dist - 1"] by simp
    ultimately show "tracked (snd (tickOnce tw)) i (dist - 1)"
      using m tick_waits(2) [OF assms(1) w assms(3) d] by (auto simp: t tracked_def res) }
  { assume "dist = 0"
    with e cur show "map_of (tw_entries (snd (tickOnce tw))) i = None"
      by (auto simp: t res inSlot_def) }
qed

lemma untracked_tick:
  assumes "wheel_ok tw" and "map_of (tw_entries tw) i = None"
  shows "map_of (tw_entries (snd (tickOnce tw))) i = None"
  by (cases "tickOnce tw") (simp add: tickOnce_result(7) [OF assms(1)] assms(2) restrict_map_def)

lemma untracked_ticks:
  "wheel_ok tw \<Longrightarrow> map_of (tw_entries tw) i = None \<Longrightarrow> map_of (tw_entries (ticks k tw)) i = None"
  by (induction k arbitrary: tw) (simp_all add: untracked_tick tickOnce_ok)

lemma tracked_ticks:
  "wheel_ok tw \<Longrightarrow> tracked tw i dist \<Longrightarrow> dist < tw_slotCount tw \<Longrightarrow>
     if k \<le> dist then tracked (ticks k tw) i (dist - k) else map_of (tw_entries (ticks k tw)) i = None"
proof (induction k arbitrary: tw dist)
  case 0
  then show ?case by simp
next
  case (Suc k)
  have ok: "wheel_ok (snd (tickOnce tw))" using Suc.prems(1) by (rule tickOnce_ok)
  have n: "tw_slotCount (snd (tickOnce tw)) = tw_slotCount tw"
    by (cases "tickOnce tw") (simp add: tickOnce_result(4) [OF Suc.prems(1)])
  show ?case
  proof (cases "dist = 0")
    case True
    with untracked_ticks [OF ok tracked_tick(2) [OF Suc.prems True]] show ?thesis by simp
  next
    case False
    then have "tracked (snd (tickOnce tw)) i (dist - 1)" using tracked_tick(1) [OF Suc.prems] by simp
    moreover have "dist - 1 - k = dist - Suc k" "k \<le> dist - 1 \<longleftrightarrow> Suc k \<le> dist" using False by auto
    ultimately show ?thesis using Suc.IH [OF ok] Suc.prems(3) n by fastforce
  qed
qed

lemma Add_tracked:
  assumes "wheel_ok tw" and "Add d tw = Some (i, tw')"
  shows "tracked tw' i (ticksOf tw d mod tw_slotCount tw)"
  using Add_waits [OF assms] by (auto simp: tracked_def Add_frame [OF assms(2)] mod_add_right_eq)

lemma tracked_Cancel:
  assumes "wheel_ok tw" and "tracked tw i dist"
  shows "fst (Cancel i tw) \<and> wheel_ok (snd (Cancel i tw)) \<and> absent (snd (Cancel i tw)) i"
proof -
  from assms(2) obtain e where "map_of (tw_entries tw) i = Some ((tw_currentSlot tw + dist) mod tw_slotCount tw)"
    "inSlot tw ((tw_currentSlot tw + dist) mod tw_slotCount tw) e" "te_id e = i"
    by (auto simp: tracked_def waits_def)
  with Cancel_ok [OF assms(1) this] show ?thesis by (simp add: Cancel_def)
qed

lemma NewTimerWheel_ok: "0 < tick \<Longrightarrow> 2 \<le> n \<Longrightarrow> wheel_ok (NewTimerWheel tick n)"
  by (rule wheel_okI) (auto simp: NewTimerWheel_def inSlot_def)

subsection \<open>Properties\<close>

text \<open>
  C20: A timer added to a wheel of at least two slots fires on exactly one of the following ticks:
  with \<open>t\<close> ticks to wait and \<open>n\<close> slots it is the tick number \<open>t mod n + t div n\<close> (counted from
  0).  For a wait of less than one round that is tick \<open>t\<close>, as intended; for a longer one it is
  up to a factor \<open>n\<close> too early.
\<close>

theorem timer_fires:
  assumes "wheel_ok tw" and "Add d tw = Some (i, tw')"
  shows "i \<in> set (fst (tickOnce (ticks k tw'))) \<longleftrightarrow>
    k = ticksOf tw d mod tw_slotCount tw + ticksOf tw d div tw_slotCount tw"
proof (rule waits_fires [OF Add_ok [OF assms] Add_waits [OF assms]])
  show "ticksOf tw d mod tw_slotCount tw < tw_slotCount tw'"
    using wheel_okD(1) [OF assms(1)] by (simp add: Add_frame(3) [OF assms(2)])
qed

theorem timer_fires_witness:
  "\<exists>tw'. Add 600 (NewTimerWheel 1 60) = Some (1, tw') \<and> 1 \<in> set (fst (tickOnce (ticks 10 tw')))"
proof -
  obtain tw' where "Add 600 (NewTimerWheel 1 60) = Some (1, tw')"
    by (auto simp: Add_def NewTimerWheel_def Let_def)
  moreover have "ticksOf (NewTimerWheel 1 60) 600 = 600" "tw_slotCount (NewTimerWheel 1 60) = 60"
    by (simp_all add: ticksOf_def NewTimerWheel_def)
  ultimately show ?thesis
    using timer_fires [OF NewTimerWheel_ok [of 1 60], of 600 1 tw' 10] by simp
qed

text \<open>
  Cancelling a timer stops it for good as long as the wheel has not yet reached its slot;
  once it has, \<^verbatim>\<open>Cancel\<close> answers false and changes nothing, although a timer with rounds left
  is still going to fire.
\<close>

lemma timer_cancel:
  assumes "wheel_ok tw" and "Add d tw = Some (i, tw')"
  shows "if k \<le> ticksOf tw d mod tw_slotCount tw
    then fst (Cancel i (ticks k tw')) \<and>
      (\<forall>m. i \<notin> set (fst (tickOnce (ticks m (snd (Cancel i (ticks k tw')))))))
    else Cancel i (ticks k tw') = (False, ticks k tw')"
proof -
  let ?dist = "ticksOf tw d mod tw_slotCount tw"
  have n: "?dist < tw_slotCount tw'"
    using wheel_okD(1) [OF assms(1)] by (simp add: Add_frame(3) [OF assms(2)])
  note ok = Add_ok [OF assms]
  from tracked_ticks [OF ok Add_tracked [OF assms] n, of k] show ?thesis
    using tracked_Cancel [OF ticks_ok [OF ok]] absent_never Cancel_None by (auto split: if_splits)
qed

end
