(* ===== verification/RT_Strings.thy ===== *)
theory RT_Strings
  imports Prelude "HOL-Library.Word" "HOL-Library.Sublist"
begin

text \<open>
  The part of Rust's \<^verbatim>\<open>str\<close> the runtime's compiler uses.  A string is the list of its UTF-8 bytes,
  so lengths and indices are the ones of Rust.  A result is a value, an error, or a panic.
\<close>

datatype ('e, 'a) rres = ROk 'a | RErr 'e | RPanic

fun rbind :: "('e, 'a) rres \<Rightarrow> ('a \<Rightarrow> ('e, 'b) rres) \<Rightarrow> ('e, 'b) rres" where
  "rbind (ROk x) f = f x"
| "rbind (RErr e) f = RErr e"
| "rbind RPanic f = RPanic"

lemma rbind_assoc: "rbind (rbind m f) g = rbind m (\<lambda>x. rbind (f x) g)"
  by (cases m) auto

lemma rbind_eq_ROk: "rbind m f = ROk y \<longleftrightarrow> (\<exists>x. m = ROk x \<and> f x = ROk y)"
  by (cases m) auto

lemma rbind_eq_RPanic: "rbind m f = RPanic \<longleftrightarrow> m = RPanic \<or> (\<exists>x. m = ROk x \<and> f x = RPanic)"
  by (cases m) auto

subsection \<open>Slicing and searching\<close>

text \<open>Slicing a string inside a character panics; a byte from 0x80 to 0xBF continues a character.\<close>

definition is_char_boundary :: "string \<Rightarrow> nat \<Rightarrow> bool" where
  "is_char_boundary s i \<longleftrightarrow>
     i = 0 \<or> i = length s \<or> i < length s \<and> \<not> (128 \<le> (of_char (s ! i) :: nat) \<and> (of_char (s ! i) :: nat) < 192)"

definition slice :: "string \<Rightarrow> nat \<Rightarrow> nat \<Rightarrow> string option" where
  "slice s i j = (if i \<le> j \<and> is_char_boundary s i \<and> is_char_boundary s j then Some (take (j - i) (drop i s)) else None)"

abbreviation starts_with :: "string \<Rightarrow> string \<Rightarrow> bool" where
  "starts_with s p \<equiv> take (length p) s = p"

definition ends_with :: "string \<Rightarrow> string \<Rightarrow> bool" where
  "ends_with s p \<longleftrightarrow> length p \<le> length s \<and> drop (length s - length p) s = p"

definition strip_prefix :: "string \<Rightarrow> string \<Rightarrow> string option" where
  "strip_prefix s p = (if starts_with s p then Some (drop (length p) s) else None)"

fun find_str :: "string \<Rightarrow> string \<Rightarrow> nat option" where
  "find_str p [] = (if p = [] then Some 0 else None)"
| "find_str p (c # s) = (if starts_with (c # s) p then Some 0 else map_option Suc (find_str p s))"

fun split_at :: "char \<Rightarrow> string \<Rightarrow> string list" where
  "split_at d [] = [[]]"
| "split_at d (c # s) =
     (if c = d then [] # split_at d s
      else case split_at d s of [] \<Rightarrow> [[c]] | w # ws \<Rightarrow> (c # w) # ws)"

definition trim_start_matches :: "char \<Rightarrow> string \<Rightarrow> string" where
  "trim_start_matches c s = dropWhile (\<lambda>x. x = c) s"

definition trim_end_matches :: "char \<Rightarrow> string \<Rightarrow> string" where
  "trim_end_matches c s = rev (dropWhile (\<lambda>x. x = c) (rev s))"

subsection \<open>White space\<close>

text \<open>The UTF-8 encodings of the characters with the property \<open>White_Space\<close>.\<close>

definition ws_chars :: "string list" where
  "ws_chars =
     [[CHR '' ''], [CHR 0x0A], [CHR 0x09], [CHR 0x0D], [CHR 0x0B], [CHR 0x0C],
      [CHR 0xC2, CHR 0x85], [CHR 0xC2, CHR 0xA0], [CHR 0xE1, CHR 0x9A, CHR 0x80],
      [CHR 0xE2, CHR 0x80, CHR 0x80], [CHR 0xE2, CHR 0x80, CHR 0x81], [CHR 0xE2, CHR 0x80, CHR 0x82],
      [CHR 0xE2, CHR 0x80, CHR 0x83], [CHR 0xE2, CHR 0x80, CHR 0x84], [CHR 0xE2, CHR 0x80, CHR 0x85],
      [CHR 0xE2, CHR 0x80, CHR 0x86], [CHR 0xE2, CHR 0x80, CHR 0x87], [CHR 0xE2, CHR 0x80, CHR 0x88],
      [CHR 0xE2, CHR 0x80, CHR 0x89], [CHR 0xE2, CHR 0x80, CHR 0x8A], [CHR 0xE2, CHR 0x80, CHR 0xA8],
      [CHR 0xE2, CHR 0x80, CHR 0xA9], [CHR 0xE2, CHR 0x80, CHR 0xAF], [CHR 0xE2, CHR 0x81, CHR 0x9F],
      [CHR 0xE3, CHR 0x80, CHR 0x80]]"

definition ws_at :: "string \<Rightarrow> string option" where
  "ws_at s = find (starts_with s) ws_chars"

lemma ws_nonempty: "w \<in> set ws_chars \<Longrightarrow> w \<noteq> []"
  by (auto simp: ws_chars_def)

lemma ws_at_length:
  assumes "ws_at s = Some w"
  shows "0 < length w \<and> length w \<le> length s \<and> length s - length w < length s"
proof -
  from assms have "w \<in> set ws_chars" "starts_with s w" by (auto simp: ws_at_def find_Some_iff)
  from ws_nonempty [OF this(1)] arg_cong [OF this(2), of length] show ?thesis
    by (cases w) auto
qed

function trim_start :: "string \<Rightarrow> string" where
  "trim_start s = (case ws_at s of None \<Rightarrow> s | Some w \<Rightarrow> trim_start (drop (length w) s))"
  by auto

termination
  by (relation "measure length") (auto dest: ws_at_length)

definition ws_end :: "string \<Rightarrow> string option" where
  "ws_end s = find (ends_with s) ws_chars"

lemma ws_end_length:
  assumes "ws_end s = Some w"
  shows "0 < length w \<and> length w \<le> length s \<and> length s - length w < length s"
proof -
  from assms have "w \<in> set ws_chars" "length w \<le> length s" by (auto simp: ws_end_def find_Some_iff ends_with_def)
  from ws_nonempty [OF this(1)] this(2) show ?thesis by (cases w) auto
qed

function trim_end :: "string \<Rightarrow> string" where
  "trim_end s = (case ws_end s of None \<Rightarrow> s | Some w \<Rightarrow> trim_end (take (length s - length w) s))"
  by auto

termination
  by (relation "measure length") (auto dest: ws_end_length)

declare trim_start.simps [simp del] trim_end.simps [simp del]

definition trim :: "string \<Rightarrow> string" where
  "trim s = trim_end (trim_start s)"

text \<open>The first argument is the word read so far.\<close>

function split_words :: "string \<Rightarrow> string \<Rightarrow> string list" where
  "split_words cur [] = (if cur = [] then [] else [cur])"
| "split_words cur (c # s) =
     (case ws_at (c # s) of
        None \<Rightarrow> split_words (cur @ [c]) s
      | Some w \<Rightarrow> (if cur = [] then [] else [cur]) @ split_words [] (drop (length w) (c # s)))"
  by pat_completeness auto

termination
  by (relation "measure (\<lambda>(_, s). length s)") (auto dest: ws_at_length)

definition split_whitespace :: "string \<Rightarrow> string list" where
  "split_whitespace s = split_words [] s"

subsection \<open>Numbers\<close>

definition is_digit :: "char \<Rightarrow> bool" where
  "is_digit c \<longleftrightarrow> 48 \<le> (of_char c :: nat) \<and> (of_char c :: nat) \<le> 57"

text \<open>\<^verbatim>\<open>str::parse\<close> for an unsigned type of \<open>n\<close> bits.\<close>

definition parse_uint :: "nat \<Rightarrow> string \<Rightarrow> nat option" where
  "parse_uint n s =
     (let ds = (if starts_with s ''+'' then tl s else s)
      in if ds \<noteq> [] \<and> list_all is_digit ds \<and> undec ds < 2 ^ n then Some (undec ds) else None)"

end
