(* ===== verification/RT_Bytecode.thy ===== *)
theory RT_Bytecode
  imports Prelude "HOL-Library.Word"
begin

text \<open>
  The bytecode of the Rust runtime, \<^verbatim>\<open>runtime/src/bytecode\<close>: operation codes and instructions
  (\<^verbatim>\<open>opcode.rs\<close>, \<^verbatim>\<open>instruction.rs\<close>), the string tables that hand out 16-bit ids (\<^verbatim>\<open>consts.rs\<close>,
  \<^verbatim>\<open>services.rs\<close> and the interner of \<^verbatim>\<open>memory/intern.rs\<close>), the tables of a DAG (\<^verbatim>\<open>dag_table.rs\<close>) and the
  execution plan (\<^verbatim>\<open>plan.rs\<close>).  Machine integers keep their width.  An access out of range, which
  panics, is \<^const>\<open>None\<close>.
\<close>

unbundle bit_operations_syntax

type_synonym u8 = "8 word"
type_synonym u16 = "16 word"
type_synonym u32 = "32 word"
type_synonym u64 = "64 word"

subsection \<open>Operation codes\<close>

datatype OpCode =
  OpNext | OpParallel | OpCollect | OpFallback | OpGate | OpMap | OpEmit | OpDrop | OpBuffer | OpKey |
  OpAsync | OpChunk | OpDag | OpJmp | OpLabel | OpSvcArg | OpJumpOffset | OpTypeGuard | OpSvcCall | OpDelay

fun opcode_u8 :: "OpCode \<Rightarrow> u8" where
  "opcode_u8 OpNext = 0"
| "opcode_u8 OpParallel = 1"
| "opcode_u8 OpCollect = 2"
| "opcode_u8 OpFallback = 3"
| "opcode_u8 OpGate = 4"
| "opcode_u8 OpMap = 6"
| "opcode_u8 OpEmit = 7"
| "opcode_u8 OpDrop = 8"
| "opcode_u8 OpBuffer = 9"
| "opcode_u8 OpKey = 10"
| "opcode_u8 OpAsync = 14"
| "opcode_u8 OpChunk = 15"
| "opcode_u8 OpDag = 16"
| "opcode_u8 OpJmp = 17"
| "opcode_u8 OpLabel = 18"
| "opcode_u8 OpSvcArg = 19"
| "opcode_u8 OpJumpOffset = 21"
| "opcode_u8 OpTypeGuard = 22"
| "opcode_u8 OpSvcCall = 23"
| "opcode_u8 OpDelay = 24"

definition from_u8 :: "u8 \<Rightarrow> OpCode option" where
  "from_u8 v = map_of
     [(0, OpNext), (1, OpParallel), (2, OpCollect), (3, OpFallback), (4, OpGate), (6, OpMap), (7, OpEmit),
      (8, OpDrop), (9, OpBuffer), (10, OpKey), (14, OpAsync), (15, OpChunk), (16, OpDag), (17, OpJmp),
      (18, OpLabel), (19, OpSvcArg), (21, OpJumpOffset), (22, OpTypeGuard), (23, OpSvcCall), (24, OpDelay)] v"

datatype GateOp = GEq | GNe | GGt | GLt | GGte | GLte | GContains

fun gate_u8 :: "GateOp \<Rightarrow> u8" where
  "gate_u8 GEq = 0"
| "gate_u8 GNe = 1"
| "gate_u8 GGt = 2"
| "gate_u8 GLt = 3"
| "gate_u8 GGte = 4"
| "gate_u8 GLte = 5"
| "gate_u8 GContains = 6"

definition gate_parse :: "string \<Rightarrow> GateOp option" where
  "gate_parse s = map_of
     [(''=='', GEq), (''!='', GNe), (''>'', GGt), (''<'', GLt), (''>='', GGte), (''<='', GLte),
      (''contains'', GContains)] s"

datatype ChunkMode = Sequential | ParallelChunks

fun chunk_u8 :: "ChunkMode \<Rightarrow> u8" where
  "chunk_u8 Sequential = 0"
| "chunk_u8 ParallelChunks = 1"

datatype RetryStrategy = Exponential | Linear | Fixed

subsection \<open>Instructions\<close>

record Instruction =
  i_op :: OpCode
  i_flags :: u8
  i_a :: u16
  i_b :: u16
  i_c :: u16

definition instr_new :: "OpCode \<Rightarrow> u8 \<Rightarrow> u16 \<Rightarrow> u16 \<Rightarrow> u16 \<Rightarrow> Instruction" where
  "instr_new op flags a b c = \<lparr>i_op = op, i_flags = flags, i_a = a, i_b = b, i_c = c\<rparr>"

definition hi16 :: "u64 \<Rightarrow> u16" where
  "hi16 ms = ucast (drop_bit 16 ms)"

definition lo16 :: "u64 \<Rightarrow> u16" where
  "lo16 ms = ucast (ms AND 0xFFFF)"

definition instr_next :: "u16 \<Rightarrow> u64 \<Rightarrow> Instruction" where
  "instr_next target_id timeout_ms = instr_new OpNext 0 target_id (hi16 timeout_ms) (lo16 timeout_ms)"

definition instr_parallel :: "u8 \<Rightarrow> u16 \<Rightarrow> Instruction" where
  "instr_parallel count first_svc = instr_new OpParallel 0 (ucast count) first_svc 0"

definition instr_collect :: Instruction where
  "instr_collect = instr_new OpCollect 0 0 0 0"

definition instr_fallback :: "u16 \<Rightarrow> Instruction" where
  "instr_fallback target_id = instr_new OpFallback 0 target_id 0 0"

definition instr_gate :: "u16 \<Rightarrow> u8 \<Rightarrow> u16 \<Rightarrow> Instruction" where
  "instr_gate field_const gate_op value_const = instr_new OpGate gate_op field_const value_const 0"

definition instr_jmp :: "u16 \<Rightarrow> Instruction" where
  "instr_jmp ip_offset = instr_new OpJmp 0 ip_offset 0 0"

definition instr_label :: Instruction where
  "instr_label = instr_new OpLabel 0 0 0 0"

definition instr_svc_arg :: "u16 \<Rightarrow> Instruction" where
  "instr_svc_arg svc_id = instr_new OpSvcArg 0 svc_id 0 0"

definition instr_jump_offset :: "u16 \<Rightarrow> Instruction" where
  "instr_jump_offset ofs = instr_new OpJumpOffset 0 ofs 0 0"

definition instr_emit :: "u8 \<Rightarrow> u16 \<Rightarrow> Instruction" where
  "instr_emit count first_svc = instr_new OpEmit 0 (ucast count) first_svc 0"

definition instr_map :: "u16 \<Rightarrow> Instruction" where
  "instr_map expr_id = instr_new OpMap 0 expr_id 0 0"

definition instr_set_key :: "u16 \<Rightarrow> Instruction" where
  "instr_set_key field_const = instr_new OpKey 0 field_const 0 0"

definition instr_chunk :: "u8 \<Rightarrow> u8 \<Rightarrow> Instruction" where
  "instr_chunk count mode = instr_new OpChunk 0 (ucast count) (ucast mode) 0"

definition instr_drop :: Instruction where
  "instr_drop = instr_new OpDrop 0 0 0 0"

definition instr_buffer :: "u8 \<Rightarrow> Instruction" where
  "instr_buffer n = instr_new OpBuffer 0 (ucast n) 0 0"

definition instr_async_svc :: "u16 \<Rightarrow> u64 \<Rightarrow> Instruction" where
  "instr_async_svc target_id timeout_ms = instr_new OpAsync 0 target_id (hi16 timeout_ms) (lo16 timeout_ms)"

definition instr_dag :: "u16 \<Rightarrow> Instruction" where
  "instr_dag dag_table_id = instr_new OpDag 0 dag_table_id 0 0"

definition instr_type_guard :: "u8 \<Rightarrow> Instruction" where
  "instr_type_guard strict = instr_new OpTypeGuard 0 (ucast strict) 0 0"

definition instr_delay :: "u64 \<Rightarrow> Instruction" where
  "instr_delay ms = instr_new OpDelay 0 0 (hi16 ms) (lo16 ms)"

definition timeout_ms :: "Instruction \<Rightarrow> u64" where
  "timeout_ms i = push_bit 16 (ucast (i_b i)) OR ucast (i_c i)"

definition delay_ms :: "Instruction \<Rightarrow> u64" where
  "delay_ms i = push_bit 16 (ucast (i_b i)) OR ucast (i_c i)"

definition has_retry :: "Instruction \<Rightarrow> bool" where
  "has_retry i \<longleftrightarrow> i_flags i AND 0x01 \<noteq> 0"

lemmas instr_defs = instr_new_def instr_next_def instr_parallel_def instr_collect_def instr_fallback_def
  instr_gate_def instr_jmp_def instr_label_def instr_svc_arg_def instr_jump_offset_def instr_emit_def
  instr_map_def instr_set_key_def instr_chunk_def instr_drop_def instr_buffer_def instr_async_svc_def
  instr_dag_def instr_type_guard_def instr_delay_def

subsection \<open>String tables\<close>

record ConstantPool =
  cp_entries :: "string list"
  cp_index :: "(string, u16) gomap"

definition pool_new :: ConstantPool where
  "pool_new = \<lparr>cp_entries = [], cp_index = []\<rparr>"

definition pool_add :: "string \<Rightarrow> ConstantPool \<Rightarrow> u16 \<times> ConstantPool" where
  "pool_add s p =
     (case map_of (cp_index p) s of
        Some i \<Rightarrow> (i, p)
      | None \<Rightarrow>
          let i = word_of_nat (length (cp_entries p))
          in (i, p\<lparr>cp_entries := cp_entries p @ [s], cp_index := AList.update s i (cp_index p)\<rparr>))"

definition pool_get :: "ConstantPool \<Rightarrow> u16 \<Rightarrow> string option" where
  "pool_get p i = (if unat i < length (cp_entries p) then Some (cp_entries p ! unat i) else None)"

record ServiceEntry =
  se_id :: u16
  se_name :: string

record ServiceTable =
  sv_entries :: "ServiceEntry list"
  sv_index :: "(string, u16) gomap"

definition services_new :: ServiceTable where
  "services_new = \<lparr>sv_entries = [], sv_index = []\<rparr>"

definition services_add :: "string \<Rightarrow> ServiceTable \<Rightarrow> u16 \<times> ServiceTable" where
  "services_add name t =
     (case map_of (sv_index t) name of
        Some i \<Rightarrow> (i, t)
      | None \<Rightarrow>
          let i = word_of_nat (length (sv_entries t))
          in (i, t\<lparr>sv_entries := sv_entries t @ [\<lparr>se_id = i, se_name = name\<rparr>],
                   sv_index := AList.update name i (sv_index t)\<rparr>))"

definition services_get :: "ServiceTable \<Rightarrow> u16 \<Rightarrow> ServiceEntry option" where
  "services_get t i = (if unat i < length (sv_entries t) then Some (sv_entries t ! unat i) else None)"

text \<open>The outer option is the answer of the lookup, the inner one the access to the entry.\<close>

definition services_get_by_name :: "ServiceTable \<Rightarrow> string \<Rightarrow> ServiceEntry option option" where
  "services_get_by_name t name = map_option (services_get t) (map_of (sv_index t) name)"

text \<open>
  The interner counts ids in a 16-bit counter of its own; \<open>intern\<close> is the part under the write lock
  (the read lock before it only answers earlier), and the lock is not poisoned.
\<close>

record InternTable =
  in_fwd :: "(string, u16) gomap"
  in_rev :: "string list"
  in_next :: u16

definition intern_new :: InternTable where
  "intern_new = \<lparr>in_fwd = [], in_rev = [], in_next = 0\<rparr>"

definition intern :: "string \<Rightarrow> InternTable \<Rightarrow> u16 \<times> InternTable" where
  "intern s t =
     (case map_of (in_fwd t) s of
        Some i \<Rightarrow> (i, t)
      | None \<Rightarrow>
          (in_next t, t\<lparr>in_next := in_next t + 1, in_fwd := AList.update s (in_next t) (in_fwd t),
                        in_rev := in_rev t @ [s]\<rparr>))"

definition intern_lookup :: "InternTable \<Rightarrow> u16 \<Rightarrow> string option" where
  "intern_lookup t i = (if unat i < length (in_rev t) then Some (in_rev t ! unat i) else None)"

text \<open>\<^verbatim>\<open>prefill\<close> does not look at the table first: a repeated string gets a second id.\<close>

fun prefill :: "string list \<Rightarrow> InternTable \<Rightarrow> InternTable" where
  "prefill [] t = t"
| "prefill (s # ss) t =
     prefill ss (t\<lparr>in_next := in_next t + 1, in_fwd := AList.update s (in_next t) (in_fwd t),
                   in_rev := in_rev t @ [s]\<rparr>)"

subsection \<open>Plans\<close>

record DAGNode =
  dn_service_id :: u16
  dn_layer :: u8
  dn_parent_ids :: "u16 list"

datatype DAGFailurePolicy = AbortAll | ContinueOthers | SkipDependents

datatype MergeStrategy = LastWins | ArrayConcat | DeepMerge | ExplicitMap

record DAGTable =
  dt_nodes :: "DAGNode list"
  dt_layers :: "u16 list list"
  dt_terminal_nodes :: "u16 list"
  dt_failure_policy :: DAGFailurePolicy
  dt_node_timeouts :: "u32 list"
  dt_merge_strategy :: MergeStrategy
  dt_distributed :: bool

definition dag_table_new :: DAGTable where
  "dag_table_new = \<lparr>dt_nodes = [], dt_layers = [], dt_terminal_nodes = [], dt_failure_policy = AbortAll,
     dt_node_timeouts = [], dt_merge_strategy = LastWins, dt_distributed = False\<rparr>"

datatype ResolvedType =
  TString | TInteger | TFloat | TBoolean | TObject | TArray | TEnum "string list" | TNull | TAny

record FieldSchema =
  fsc_name :: string
  fsc_type :: ResolvedType
  fsc_required :: bool

type_synonym Schema = "FieldSchema list"

definition field_type :: "Schema \<Rightarrow> string \<Rightarrow> ResolvedType option" where
  "field_type sc name = map_option fsc_type (find (\<lambda>f. fsc_name f = name) sc)"

definition supports_ordering :: "ResolvedType \<Rightarrow> bool" where
  "supports_ordering t \<longleftrightarrow> t \<in> {TInteger, TFloat, TString}"

definition supports_contains :: "ResolvedType \<Rightarrow> bool" where
  "supports_contains t \<longleftrightarrow> t \<in> {TString, TArray}"

record RetryConfig =
  rc_max_attempts :: u8
  rc_strategy :: RetryStrategy
  rc_fixed_ms :: u32

record ChunkConfig =
  cc_count :: u8
  cc_mode :: ChunkMode

record ExecutionPlan =
  p_rule_id :: string
  p_version :: u64
  p_instr_count :: u32
  p_complexity_score :: u32
  p_instructions :: "Instruction list"
  p_const_pool :: ConstantPool
  p_services :: ServiceTable
  p_dag_tables :: "DAGTable list"
  p_retry_configs :: "RetryConfig list"
  p_chunk_configs :: "ChunkConfig list"
  p_schema :: "Schema option"

definition plan_new :: "string \<Rightarrow> ExecutionPlan" where
  "plan_new rule_id = \<lparr>p_rule_id = rule_id, p_version = 1, p_instr_count = 0, p_complexity_score = 0,
     p_instructions = [], p_const_pool = pool_new, p_services = services_new, p_dag_tables = [],
     p_retry_configs = [], p_chunk_configs = [], p_schema = None\<rparr>"

definition add_instr :: "Instruction \<Rightarrow> ExecutionPlan \<Rightarrow> ExecutionPlan" where
  "add_instr i p = p\<lparr>p_instructions := p_instructions p @ [i],
     p_instr_count := word_of_nat (length (p_instructions p @ [i]))\<rparr>"

subsection \<open>Encoding\<close>

lemma from_u8_opcode_u8: "from_u8 (opcode_u8 op) = Some op"
  by (cases op) (simp_all add: from_u8_def)

lemma opcode_u8_from_u8: "from_u8 v = Some op \<Longrightarrow> opcode_u8 op = v"
  by (auto simp: from_u8_def split: if_splits)

lemma lo16_take_bit: "lo16 t = ucast (take_bit 16 t)"
proof -
  have "0xFFFF = (mask 16 :: u64)" by (simp add: mask_eq_exp_minus_1)
  then show ?thesis by (simp add: lo16_def take_bit_eq_mask)
qed

lemma hi_lo_16: "push_bit 16 (ucast (hi16 t)) OR ucast (lo16 t) = (take_bit 32 t :: u64)"
proof (rule bit_word_eqI)
  fix n assume "n < LENGTH(64)"
  then show "bit (push_bit 16 (ucast (hi16 t)) OR ucast (lo16 t) :: u64) n \<longleftrightarrow> bit (take_bit 32 t) n"
    by (cases "n < 16") (auto simp: hi16_def lo16_take_bit bit_simps)
qed

lemma timeout_next: "timeout_ms (instr_next i t) = take_bit 32 t"
  by (simp add: timeout_ms_def instr_defs hi_lo_16)

lemma timeout_async: "timeout_ms (instr_async_svc i t) = take_bit 32 t"
  by (simp add: timeout_ms_def instr_defs hi_lo_16)

lemma delay_delay: "delay_ms (instr_delay t) = take_bit 32 t"
  by (simp add: delay_ms_def instr_defs hi_lo_16)

subsection \<open>Tables of strings with 16-bit ids\<close>

text \<open>
  The contract the three tables share: \<open>strs\<close> is the list of strings in the order of their ids.
  Ids are lengths cut to 16 bits, so the laws for a new string hold below 65536 strings.
\<close>

locale interner =
  fixes add :: "string \<Rightarrow> 't \<Rightarrow> u16 \<times> 't"
    and look :: "'t \<Rightarrow> u16 \<Rightarrow> string option"
    and strs :: "'t \<Rightarrow> string list"
    and ok :: "'t \<Rightarrow> bool"
  assumes strs_add: "ok t \<Longrightarrow> strs (snd (add s t)) = (if s \<in> set (strs t) then strs t else strs t @ [s])"
    and ok_add: "ok t \<Longrightarrow> length (strs t) < 65536 \<Longrightarrow> ok (snd (add s t))"
    and look_strs: "look t i = (if unat i < length (strs t) then Some (strs t ! unat i) else None)"
    and look_add: "ok t \<Longrightarrow> length (strs t) < 65536 \<Longrightarrow> look (snd (add s t)) (fst (add s t)) = Some s"
    and distinct_strs: "ok t \<Longrightarrow> distinct (strs t)"
    and add_full: "ok t \<Longrightarrow> length (strs t) = 65536 \<Longrightarrow> s \<notin> set (strs t) \<Longrightarrow> fst (add s t) = 0"
begin

lemma add_old: "ok t \<Longrightarrow> length (strs t) < 65536 \<Longrightarrow> look t i = Some s' \<Longrightarrow> look (snd (add s t)) i = Some s'"
  using ok_add [of t s] by (auto simp: look_strs strs_add nth_append split: if_splits)

fun adds :: "string list \<Rightarrow> 't \<Rightarrow> u16 list \<times> 't" where
  "adds [] t = ([], t)"
| "adds (s # ss) t = (case add s t of (i, t1) \<Rightarrow> case adds ss t1 of (is, t2) \<Rightarrow> (i # is, t2))"

lemma adds_strs:
  assumes "ok t" and "length (strs t) + length ss \<le> 65536"
  shows "ok (snd (adds ss t)) \<and> set (strs (snd (adds ss t))) = set (strs t) \<union> set ss \<and>
    length (strs (snd (adds ss t))) \<le> length (strs t) + length ss \<and>
    (\<forall>i s. look t i = Some s \<longrightarrow> look (snd (adds ss t)) i = Some s) \<and>
    map (look (snd (adds ss t))) (fst (adds ss t)) = map Some ss"
  using assms
proof (induction ss arbitrary: t)
  case Nil
  then show ?case by simp
next
  case (Cons s ss)
  obtain i t1 where a: "add s t = (i, t1)" by fastforce
  have len: "length (strs t) < 65536" using Cons.prems(2) by simp
  have t1: "ok t1" "look t1 i = Some s" and s1: "strs t1 = (if s \<in> set (strs t) then strs t else strs t @ [s])"
    using ok_add [OF Cons.prems(1) len, of s] look_add [OF Cons.prems(1) len, of s]
      strs_add [OF Cons.prems(1), of s] by (simp_all add: a)
  have "length (strs t1) + length ss \<le> 65536" using Cons.prems(2) by (simp add: s1)
  from Cons.IH [OF t1(1) this] show ?case
    using add_old [OF Cons.prems(1) len, of _ _ s] t1(2)
    by (auto simp: a s1 case_prod_unfold split: if_splits)
qed

lemma look_full:
  assumes "ok t" and "length (strs t) = 65536" and "s \<notin> set (strs t)"
  shows "look (snd (add s t)) (fst (add s t)) = Some (strs t ! 0)"
  using assms by (simp add: add_full look_strs strs_add nth_append)

lemma add_inject:
  assumes "ok t" and "length (strs t) < 65535"
    and "add s t = (i, t1)" and "add s' t1 = (i', t2)"
  shows "i = i' \<longleftrightarrow> s = s'"
proof -
  have len: "length (strs t) < 65536" using assms(2) by simp
  have ok1: "ok t1" and l1: "look t1 i = Some s"
    using ok_add [OF assms(1) len, of s] look_add [OF assms(1) len, of s] assms(3) by simp_all
  have len1: "length (strs t1) < 65536"
    using strs_add [OF assms(1), of s] assms(2,3) by (simp split: if_splits)
  have l2: "look t2 i' = Some s'" "look t2 i = Some s"
    using look_add [OF ok1 len1, of s'] add_old [OF ok1 len1 l1, of s'] assms(4) by simp_all
  have ok2: "ok t2" using ok_add [OF ok1 len1, of s'] assms(4) by simp
  show ?thesis
    using l2 distinct_strs [OF ok2]
    by (auto simp: look_strs nth_eq_iff_index_eq word_unat_eq_iff split: if_splits)
qed

end

text \<open>Entries and index of a table agree, and there are at most 65536 of them.\<close>

definition indexed :: "string list \<Rightarrow> (string, u16) gomap \<Rightarrow> bool" where
  "indexed es ix \<longleftrightarrow> distinct es \<and> length es \<le> 65536 \<and>
     (\<forall>s i. map_of ix s = Some i \<longleftrightarrow> unat i < length es \<and> es ! unat i = s)"

lemma unat_len: "n < 65536 \<Longrightarrow> unat (word_of_nat n :: u16) = n"
  by (simp add: unat_of_nat take_bit_nat_eq_self)

lemma indexed_Nil [simp]: "indexed [] []"
  by (simp add: indexed_def)

lemma indexed_None:
  assumes "indexed es ix" and "map_of ix s = None"
  shows "s \<notin> set es"
proof
  assume "s \<in> set es"
  then obtain n where n: "n < length es" "es ! n = s" by (auto simp: in_set_conv_nth)
  with assms(1) have "unat (word_of_nat n :: u16) = n" by (intro unat_len) (simp add: indexed_def)
  with n assms(1) have "map_of ix s = Some (word_of_nat n)" by (simp add: indexed_def)
  with assms(2) show False by simp
qed

lemma indexed_Some: "indexed es ix \<Longrightarrow> map_of ix s = Some i \<Longrightarrow> unat i < length es \<and> es ! unat i = s \<and> s \<in> set es"
  by (auto simp: indexed_def)

lemma indexed_add:
  assumes "indexed es ix" and "map_of ix s = None" and "length es < 65536"
  shows "indexed (es @ [s]) (AList.update s (word_of_nat (length es)) ix)"
proof -
  have new: "s \<notin> set es" using assms(1,2) by (rule indexed_None)
  have i: "unat (word_of_nat (length es) :: u16) = length es" using assms(3) by (rule unat_len)
  have "map_of (AList.update s (word_of_nat (length es)) ix) s' = Some j \<longleftrightarrow>
      unat j < length (es @ [s]) \<and> (es @ [s]) ! unat j = s'" for s' and j :: u16
  proof (cases "s' = s")
    case True
    have "unat j = length es \<longleftrightarrow> j = word_of_nat (length es)" using i by (auto simp: word_unat_eq_iff)
    with True new show ?thesis by (auto simp: nth_append less_Suc_eq in_set_conv_nth)
  next
    case False
    with assms(1) show ?thesis by (auto simp: indexed_def nth_append less_Suc_eq)
  qed
  with assms(1,3) new show ?thesis by (simp add: indexed_def)
qed

definition pool_ok :: "ConstantPool \<Rightarrow> bool" where
  "pool_ok p \<longleftrightarrow> indexed (cp_entries p) (cp_index p)"

interpretation cpool: interner pool_add pool_get cp_entries pool_ok
proof unfold_locales
  fix p s
  assume ok: "pool_ok p"
  show "cp_entries (snd (pool_add s p)) = (if s \<in> set (cp_entries p) then cp_entries p else cp_entries p @ [s])"
    using ok indexed_None [of "cp_entries p" "cp_index p" s] indexed_Some [of "cp_entries p" "cp_index p" s]
    by (auto simp: pool_add_def pool_ok_def Let_def split: option.split)
  show "distinct (cp_entries p)" using ok by (simp add: pool_ok_def indexed_def)
  { assume "length (cp_entries p) < 65536"
    with ok show "pool_ok (snd (pool_add s p))"
      by (auto simp: pool_add_def pool_ok_def Let_def indexed_add split: option.split)
    from ok \<open>length (cp_entries p) < 65536\<close>
    show "pool_get (snd (pool_add s p)) (fst (pool_add s p)) = Some s"
      by (auto simp: pool_add_def pool_ok_def pool_get_def Let_def unat_len indexed_Some split: option.split) }
  { assume "length (cp_entries p) = 65536" "s \<notin> set (cp_entries p)"
    with ok show "fst (pool_add s p) = 0"
      by (auto simp: pool_add_def pool_ok_def Let_def dest: indexed_Some split: option.split) }
qed (simp add: pool_get_def)

definition services_ok :: "ServiceTable \<Rightarrow> bool" where
  "services_ok t \<longleftrightarrow> indexed (map se_name (sv_entries t)) (sv_index t) \<and>
     map se_id (sv_entries t) = map word_of_nat [0..<length (sv_entries t)]"

abbreviation service_name :: "ServiceTable \<Rightarrow> u16 \<Rightarrow> string option" where
  "service_name t i \<equiv> map_option se_name (services_get t i)"

abbreviation service_names :: "ServiceTable \<Rightarrow> string list" where
  "service_names t \<equiv> map se_name (sv_entries t)"

interpretation services: interner services_add service_name service_names services_ok
proof unfold_locales
  fix t s
  assume ok: "services_ok t"
  show "service_names (snd (services_add s t)) =
      (if s \<in> set (service_names t) then service_names t else service_names t @ [s])"
    using ok indexed_None [of "service_names t" "sv_index t" s] indexed_Some [of "service_names t" "sv_index t" s]
    by (auto simp: services_add_def services_ok_def Let_def split: option.split)
  show "distinct (service_names t)" using ok by (simp add: services_ok_def indexed_def)
  { assume len: "length (service_names t) < 65536"
    with ok show "services_ok (snd (services_add s t))"
      using indexed_add [of "service_names t" "sv_index t" s]
      by (auto simp: services_add_def services_ok_def Let_def split: option.split)
    from ok len show "service_name (snd (services_add s t)) (fst (services_add s t)) = Some s"
      using indexed_Some [of "service_names t" "sv_index t" s]
      by (auto simp: services_add_def services_ok_def services_get_def Let_def unat_len split: option.split) }
  { assume "length (service_names t) = 65536" "s \<notin> set (service_names t)"
    with ok show "fst (services_add s t) = 0"
      by (auto simp: services_add_def services_ok_def Let_def dest: indexed_Some split: option.split) }
qed (simp add: services_get_def)

definition intern_ok :: "InternTable \<Rightarrow> bool" where
  "intern_ok t \<longleftrightarrow> indexed (in_rev t) (in_fwd t) \<and> in_next t = word_of_nat (length (in_rev t))"

interpretation interned: interner intern intern_lookup in_rev intern_ok
proof unfold_locales
  fix t s
  assume ok: "intern_ok t"
  show "in_rev (snd (intern s t)) = (if s \<in> set (in_rev t) then in_rev t else in_rev t @ [s])"
    using ok indexed_None [of "in_rev t" "in_fwd t" s] indexed_Some [of "in_rev t" "in_fwd t" s]
    by (auto simp: intern_def intern_ok_def split: option.split)
  show "distinct (in_rev t)" using ok by (simp add: intern_ok_def indexed_def)
  { assume len: "length (in_rev t) < 65536"
    with ok show "intern_ok (snd (intern s t))"
      by (auto simp: intern_def intern_ok_def indexed_add split: option.split)
    from ok len show "intern_lookup (snd (intern s t)) (fst (intern s t)) = Some s"
      by (auto simp: intern_def intern_ok_def intern_lookup_def unat_len indexed_Some split: option.split) }
  { assume "length (in_rev t) = 65536" "s \<notin> set (in_rev t)"
    with ok show "fst (intern s t) = 0"
      by (auto simp: intern_def intern_ok_def dest: indexed_Some split: option.split) }
qed (simp add: intern_lookup_def)

lemma new_ok [simp]: "pool_ok pool_new" "services_ok services_new" "intern_ok intern_new"
  by (simp_all add: pool_ok_def pool_new_def services_ok_def services_new_def intern_ok_def intern_new_def)

lemma add_instrs: "p_instructions (foldl (\<lambda>p i. add_instr i p) p is) = p_instructions p @ is"
  by (induction "is" arbitrary: p) (simp_all add: add_instr_def)

subsection \<open>Properties\<close>

text \<open>
  An operation code is read back from its byte, no other byte is read as an operation code, and
  the timeout of a call and the duration of a delay are read back from the two 16-bit halves an
  instruction stores, cut to 32 bits.
\<close>

lemma instruction_encoding:
  "(from_u8 v = Some op \<longleftrightarrow> v = opcode_u8 op) \<and>
   timeout_ms (instr_next i t) = take_bit 32 t \<and> timeout_ms (instr_async_svc i t) = take_bit 32 t \<and>
   delay_ms (instr_delay t) = take_bit 32 t"
  using from_u8_opcode_u8 opcode_u8_from_u8 by (auto simp: timeout_next timeout_async delay_delay)

text \<open>
  The three tables that number strings (constants, services, the interner) work up to 65536
  strings: below that the id of an added string leads back to it, and strings added one after the
  other have the same id only when they are equal.  To the 65537th constant the pool gives id 0,
  which leads to another string.
\<close>

lemma string_tables:
  assumes "pool_ok p" and "services_ok t" and "intern_ok n"
  shows "(length (cp_entries p) < 65536 \<longrightarrow> pool_get (snd (pool_add s p)) (fst (pool_add s p)) = Some s) \<and>
    (length (sv_entries t) < 65536 \<longrightarrow> service_name (snd (services_add s t)) (fst (services_add s t)) = Some s) \<and>
    (length (in_rev n) < 65536 \<longrightarrow> intern_lookup (snd (intern s n)) (fst (intern s n)) = Some s) \<and>
    (length (cp_entries p) < 65535 \<longrightarrow>
       (fst (pool_add s p) = fst (pool_add s' (snd (pool_add s p))) \<longleftrightarrow> s = s')) \<and>
    (length (sv_entries t) < 65535 \<longrightarrow>
       (fst (services_add s t) = fst (services_add s' (snd (services_add s t))) \<longleftrightarrow> s = s')) \<and>
    (length (in_rev n) < 65535 \<longrightarrow>
       (fst (intern s n) = fst (intern s' (snd (intern s n))) \<longleftrightarrow> s = s')) \<and>
    (length (cp_entries p) = 65536 \<and> s \<notin> set (cp_entries p) \<longrightarrow>
       fst (pool_add s p) = 0 \<and> pool_get (snd (pool_add s p)) 0 \<noteq> Some s)"
proof -
  have "pool_get (snd (pool_add s p)) 0 \<noteq> Some s"
    if len: "length (cp_entries p) = 65536" and new: "s \<notin> set (cp_entries p)"
  proof -
    have "cp_entries p ! 0 \<noteq> s" using len new by (metis nth_mem zero_less_numeral)
    with cpool.look_full [OF assms(1) len new] cpool.add_full [OF assms(1) len new] show ?thesis by simp
  qed
  with assms show ?thesis
    using cpool.add_inject [OF assms(1) _ prod.collapse [symmetric] prod.collapse [symmetric], of s s']
      services.add_inject [OF assms(2) _ prod.collapse [symmetric] prod.collapse [symmetric], of s s']
      interned.add_inject [OF assms(3) _ prod.collapse [symmetric] prod.collapse [symmetric], of s s']
    by (simp add: cpool.look_add cpool.add_full interned.look_add services.look_add [simplified])
qed

end
