(* ===== verification/RT_Lexer.thy ===== *)
theory RT_Lexer
  imports RT_Strings RT_Bytecode
begin

text \<open>
  The lexer of the pipeline language, \<^verbatim>\<open>runtime/src/dsl/lexer\<close>: the words of a text are classified
  one by one.  An error is the constructor of \<^verbatim>\<open>LexError\<close> with the word.
\<close>

subsection \<open>Tokens\<close>

datatype Token =
    TkNext string | TkAsync string | TkParallel "string list" | TkCollect | TkFallback string
  | TkGate string string string | TkSplit string | TkMap string | TkEmit "string list" | TkDrop
  | TkBuffer u64 | TkKey string | TkRetry u8 "string option" "u32 option" | TkPipe | TkTimeout u64
  | TkChunk u8 string | TkDag string | TkSchema string | TkLabel string | TkJmp string | TkDelay u64

datatype LexError =
    UnknownToken string | InvalidTimeout string | InvalidBuffer string | InvalidRetry string
  | InvalidChunk string | InvalidDag string | InvalidSchema string | EmptyOperand string
  | InvalidGateOp string | InvalidJmp string | InvalidDelay string

fun join :: "string \<Rightarrow> string list \<Rightarrow> string" where
  "join sep [] = []"
| "join sep [w] = w"
| "join sep (w # ws) = w @ sep @ join sep ws"

abbreviation u_dec :: "('a::len) word \<Rightarrow> string" where
  "u_dec w \<equiv> dec (unat w)"

fun show_token :: "Token \<Rightarrow> string" where
  "show_token (TkNext t) = ''n:'' @ t"
| "show_token (TkAsync t) = ''a:'' @ t"
| "show_token (TkParallel ts) = ''p:'' @ join '','' ts"
| "show_token TkCollect = ''c''"
| "show_token (TkFallback t) = ''f:'' @ t"
| "show_token (TkGate field op value) = ''g:'' @ field @ op @ value"
| "show_token (TkSplit field) = ''s:'' @ field"
| "show_token (TkMap e) = ''m:'' @ e"
| "show_token (TkEmit ts) = ''e:'' @ join '','' ts"
| "show_token TkDrop = ''d''"
| "show_token (TkBuffer n) = ''b'' @ u_dec n"
| "show_token (TkKey k) = ''k:'' @ k"
| "show_token (TkRetry count strategy _) =
     (case strategy of Some s \<Rightarrow> ''r'' @ u_dec count @ '':'' @ s | None \<Rightarrow> ''r'' @ u_dec count)"
| "show_token TkPipe = ''|''"
| "show_token (TkTimeout ms) = ''t'' @ u_dec ms"
| "show_token (TkChunk count mode) = ''chunk:'' @ u_dec count @ '':'' @ mode"
| "show_token (TkDag body) = ''dag:'' @ body"
| "show_token (TkSchema body) = ''schema:'' @ body"
| "show_token (TkLabel l) = l @ '':''"
| "show_token (TkJmp l) = ''j:'' @ l"
| "show_token (TkDelay ms) = ''delay:'' @ u_dec ms"

subsection \<open>Classifying a word\<close>

type_synonym 'a lexed = "(LexError, 'a) rres"

definition parse_num :: "nat \<Rightarrow> string \<Rightarrow> LexError \<Rightarrow> ('a::len) word lexed" where
  "parse_num n s e = (case parse_uint n s of Some v \<Rightarrow> ROk (word_of_nat v) | None \<Rightarrow> RErr e)"

definition parse_comma_targets :: "string \<Rightarrow> string \<Rightarrow> string list lexed" where
  "parse_comma_targets s token_name =
     (if s = [] then RErr (EmptyOperand token_name)
      else ROk (filter (\<lambda>t. t \<noteq> []) (map trim (split_at (CHR '','') s))))"

definition parse_retry :: "string \<Rightarrow> Token lexed" where
  "parse_retry word =
     (let rest = tl word in
      if rest = [] then RErr (InvalidRetry word)
      else case find_str '':'' rest of
        Some colon_pos \<Rightarrow>
          let strategy_part = drop (Suc colon_pos) rest in
          rbind (parse_num 8 (take colon_pos rest) (InvalidRetry word)) (\<lambda>count.
            case find_str '':'' strategy_part of
              Some second_colon \<Rightarrow>
                rbind (parse_num 32 (drop (Suc second_colon) strategy_part) (InvalidRetry word)) (\<lambda>fixed_ms.
                  ROk (TkRetry count (Some (take second_colon strategy_part)) (Some fixed_ms)))
            | None \<Rightarrow> ROk (TkRetry count (Some strategy_part) None))
      | None \<Rightarrow> rbind (parse_num 8 rest (InvalidRetry word)) (\<lambda>count. ROk (TkRetry count None None)))"

definition parse_chunk :: "string \<Rightarrow> Token lexed" where
  "parse_chunk word =
     (case split_at (CHR '':'') (drop 6 word) of
        [count_str, mode] \<Rightarrow>
          rbind (parse_num 8 count_str (InvalidChunk word)) (\<lambda>count.
            if mode \<noteq> ''seq'' \<and> mode \<noteq> ''par'' then RErr (InvalidChunk word) else ROk (TkChunk count mode))
      | _ \<Rightarrow> RErr (InvalidChunk word))"

fun find_gate :: "string list \<Rightarrow> string \<Rightarrow> string \<Rightarrow> Token lexed" where
  "find_gate [] body word = RErr (InvalidGateOp word)"
| "find_gate (op # ops) body word =
     (case find_str op body of
        Some pos \<Rightarrow>
          let field = trim_end_matches (CHR ''.'') (take pos body); value = drop (pos + length op) body
          in if field = [] \<or> value = [] then RErr (EmptyOperand word) else ROk (TkGate field op value)
      | None \<Rightarrow> find_gate ops body word)"

definition parse_gate :: "string \<Rightarrow> Token lexed" where
  "parse_gate word =
     find_gate [''=='', ''!='', ''>='', ''<='', ''>'', ''<'', ''contains''] (drop 2 word) word"

text \<open>
  Most operations start with a letter and a colon: the word is at least \<open>n\<close> bytes long and its
  second character is a colon.  The slice of the second byte panics when that byte starts a longer
  character.
\<close>

definition with_operand :: "nat \<Rightarrow> string \<Rightarrow> (string \<Rightarrow> Token lexed) \<Rightarrow> Token lexed" where
  "with_operand n word k =
     (if length word < n then RErr (UnknownToken word)
      else case slice word 1 2 of
        None \<Rightarrow> RPanic
      | Some c \<Rightarrow> if c \<noteq> '':'' then RErr (UnknownToken word) else k (drop 2 word))"

definition operand :: "string \<Rightarrow> (string \<Rightarrow> Token) \<Rightarrow> Token lexed" where
  "operand word mk =
     with_operand 3 word (\<lambda>target. if target = [] then RErr (EmptyOperand word) else ROk (mk target))"

definition targets :: "string \<Rightarrow> string \<Rightarrow> (string list \<Rightarrow> Token) \<Rightarrow> Token lexed" where
  "targets word token_name mk =
     with_operand 3 word (\<lambda>s. rbind (parse_comma_targets s token_name) (\<lambda>ts.
       if ts = [] then RErr (EmptyOperand word) else ROk (mk ts)))"

definition classify_first :: "char \<Rightarrow> string \<Rightarrow> Token lexed" where
  "classify_first first word =
     (if first = CHR ''n'' then operand word TkNext
      else if first = CHR ''a'' then operand word TkAsync
      else if first = CHR ''p'' then targets word ''p'' TkParallel
      else if first = CHR ''c'' \<and> word = ''c'' then ROk TkCollect
      else if first = CHR ''f'' then operand word TkFallback
      else if first = CHR ''g'' then with_operand 4 word (\<lambda>_. parse_gate word)
      else if first = CHR ''s'' then operand word TkSplit
      else if first = CHR ''m'' then operand word TkMap
      else if first = CHR ''w'' then with_operand 3 word (\<lambda>_. ROk (TkMap word))
      else if first = CHR ''e'' then targets word ''e'' TkEmit
      else if first = CHR ''d'' then (if length word = 1 then ROk TkDrop else RErr (UnknownToken word))
      else if first = CHR ''b'' then
        (if length word < 2 then RErr (InvalidBuffer word)
         else rbind (parse_num 64 (tl word) (InvalidBuffer word)) (\<lambda>n. ROk (TkBuffer n)))
      else if first = CHR ''k'' then operand word TkKey
      else if first = CHR ''r'' then parse_retry word
      else if first = CHR ''t'' then
        (if word = ''t'' then RErr (InvalidTimeout word)
         else rbind (parse_num 64 (tl word) (InvalidTimeout word)) (\<lambda>ms. ROk (TkTimeout ms)))
      else if first = CHR ''|'' then (if length word = 1 then ROk TkPipe else RErr (UnknownToken word))
      else if first = CHR ''j'' \<and> 2 < length word then
        (case slice word 1 2 of
           None \<Rightarrow> RPanic
         | Some c \<Rightarrow> if c = '':'' then ROk (TkJmp (drop 2 word)) else RErr (UnknownToken word))
      else RErr (UnknownToken word))"

definition classify :: "string \<Rightarrow> Token lexed" where
  "classify word =
     (if word = [] then RErr (UnknownToken ''empty token'')
      else if starts_with word ''chunk:'' then parse_chunk word
      else case strip_prefix word ''dag:'' of
        Some body \<Rightarrow> if body = [] then RErr (InvalidDag word) else ROk (TkDag body)
      | None \<Rightarrow>
      case strip_prefix word ''delay:'' of
        Some rest \<Rightarrow> rbind (parse_num 64 rest (InvalidDelay word)) (\<lambda>ms. ROk (TkDelay ms))
      | None \<Rightarrow>
      case strip_prefix word ''schema:'' of
        Some body \<Rightarrow> if body = [] then RErr (InvalidSchema word) else ROk (TkSchema body)
      | None \<Rightarrow>
      if ends_with word '':'' \<and> 2 < length word then ROk (TkLabel (butlast word))
      else classify_first (hd word) word)"

fun lex_words :: "string list \<Rightarrow> Token list lexed" where
  "lex_words [] = ROk []"
| "lex_words (w # ws) = rbind (classify w) (\<lambda>t. rbind (lex_words ws) (\<lambda>ts. ROk (t # ts)))"

definition lex :: "string \<Rightarrow> Token list lexed" where
  "lex input = lex_words (split_whitespace input)"

subsection \<open>Words and white space\<close>

definition word_char :: "char \<Rightarrow> bool" where
  "word_char c \<longleftrightarrow> 32 < (of_char c :: nat) \<and> (of_char c :: nat) < 127"

definition plain :: "string \<Rightarrow> bool" where
  "plain s \<longleftrightarrow> s \<noteq> [] \<and> list_all word_char s"

lemma ws_ends: "w \<in> set ws_chars \<Longrightarrow> \<not> word_char (hd w) \<and> \<not> word_char (last w)"
  by (auto simp: ws_chars_def word_char_def)

lemma ws_at_plain: "word_char c \<Longrightarrow> ws_at (c # s) = None"
proof -
  assume "word_char c"
  then have "\<not> starts_with (c # s) w" if "w \<in> set ws_chars" for w
    using ws_ends [OF that] ws_nonempty [OF that] by (cases w) auto
  then show ?thesis by (auto simp: ws_at_def find_None_iff)
qed

lemma ws_end_plain: "s \<noteq> [] \<Longrightarrow> word_char (last s) \<Longrightarrow> ws_end s = None"
proof -
  assume s: "s \<noteq> []" "word_char (last s)"
  have "\<not> ends_with s w" if "w \<in> set ws_chars" for w
  proof
    assume "ends_with s w"
    then have "drop (length s - length w) s = w" "length w \<le> length s" by (auto simp: ends_with_def)
    then have "last s = last w" using ws_nonempty [OF that] by (metis append_take_drop_id last_appendR)
    with ws_ends [OF that] s(2) show False by simp
  qed
  then show ?thesis by (auto simp: ws_end_def find_None_iff)
qed

lemma trim_plain: "plain s \<Longrightarrow> trim s = s"
proof -
  assume p: "plain s"
  then obtain c s' where "s = c # s'" "word_char c" by (cases s) (auto simp: plain_def)
  then have "trim_start s = s" by (subst trim_start.simps) (simp add: ws_at_plain)
  moreover have "word_char (last s)" using p by (simp add: plain_def list_all_iff)
  then have "trim_end s = s" using p by (subst trim_end.simps) (simp add: ws_end_plain plain_def)
  ultimately show ?thesis by (simp add: trim_def)
qed

lemma split_words_plain: "list_all word_char w \<Longrightarrow> split_words cur (w @ s) = split_words (cur @ w) s"
  by (induction w arbitrary: cur) (simp_all add: ws_at_plain)

lemma split_words_space: "split_words cur (CHR '' '' # s) = (if cur = [] then [] else [cur]) @ split_words [] s"
  by (simp add: ws_at_def ws_chars_def)

lemma split_join: "list_all plain ws \<Longrightarrow> split_whitespace (join '' '' ws) = ws"
  unfolding split_whitespace_def
proof (induction "'' ''" ws rule: join.induct)
  case 1
  then show ?case by simp
next
  case (2 w)
  then show ?case using split_words_plain [of w "[]" "[]"] by (simp add: plain_def)
next
  case (3 w v ws)
  then show ?case by (simp add: split_words_plain split_words_space plain_def del: split_words.simps)
qed

subsection \<open>Printing and classifying\<close>

lemma ends_colon: "s \<noteq> [] \<Longrightarrow> ends_with s '':'' \<longleftrightarrow> last s = CHR '':''"
  by (cases s rule: rev_cases) (auto simp: ends_with_def)

lemma slice_colon: "plain s \<Longrightarrow> slice (c # CHR '':'' # s) (Suc 0) 2 = Some '':''"
  by (cases s) (auto simp: slice_def is_char_boundary_def plain_def word_char_def numeral_2_eq_2)

lemma undec_digits: "list_all is_digit (dec n)"
proof (induction n rule: dec.induct)
  case (1 n)
  have "n mod 10 < 10" by simp
  then have "is_digit (digit_char (n mod 10))" unfolding is_digit_def of_char_digit_char [OF \<open>n mod 10 < 10\<close>] by simp
  moreover have "n < 10 \<Longrightarrow> is_digit (digit_char n)" by (simp add: is_digit_def of_char_digit_char)
  ultimately show ?case using 1 by (subst dec.simps) simp
qed

lemma dec_not_Nil [simp]: "dec n \<noteq> []"
  by (subst dec.simps) simp

lemma digit_not: "is_digit c \<Longrightarrow> c \<noteq> CHR ''+'' \<and> c \<noteq> CHR '':'' \<and> word_char c"
  by (auto simp: is_digit_def word_char_def)

lemma dec_set: "c \<in> set (dec n) \<Longrightarrow> c \<noteq> CHR ''+'' \<and> c \<noteq> CHR '':'' \<and> word_char c"
  using undec_digits [of n] digit_not by (auto simp: list_all_iff)

lemma plain_dec: "plain (dec n)"
  using dec_set by (auto simp: plain_def list_all_iff)

lemma parse_uint_dec: "n < 2 ^ k \<Longrightarrow> parse_uint k (dec n) = Some n"
proof -
  assume "n < 2 ^ k"
  moreover have "\<not> starts_with (dec n) ''+''" using dec_set [of _ n] by (cases "dec n") auto
  ultimately show ?thesis by (simp add: parse_uint_def undec_digits undec_dec Let_def)
qed

lemma parse_num_dec: "LENGTH('a) = k \<Longrightarrow> parse_num k (u_dec (w :: 'a::len word)) e = ROk w"
proof -
  assume "LENGTH('a) = k"
  moreover have "unat w < 2 ^ LENGTH('a)" by (rule unsigned_less)
  ultimately show ?thesis by (simp add: parse_num_def parse_uint_dec)
qed

text \<open>Texts that can stand after a colon: no white space, and no colon at the end.\<close>

definition operand_ok :: "string \<Rightarrow> bool" where
  "operand_ok s \<longleftrightarrow> plain s \<and> last s \<noteq> CHR '':''"

definition op_free :: "string \<Rightarrow> bool" where
  "op_free s \<longleftrightarrow> set s \<inter> set ''=!<>'' = {}"

fun token_ok :: "Token \<Rightarrow> bool" where
  "token_ok (TkParallel ts) \<longleftrightarrow> ts \<noteq> [] \<and> list_all (\<lambda>t. operand_ok t \<and> CHR '','' \<notin> set t) ts"
| "token_ok (TkEmit ts) \<longleftrightarrow> ts \<noteq> [] \<and> list_all (\<lambda>t. operand_ok t \<and> CHR '','' \<notin> set t) ts"
| "token_ok (TkGate field op value) \<longleftrightarrow> plain field \<and> last field \<noteq> CHR ''.'' \<and> op_free field \<and>
     op \<in> {''=='', ''!='', ''>='', ''<='', ''>'', ''<''} \<and> operand_ok value \<and> op_free value"
| "token_ok (TkRetry _ strategy fixed_ms) \<longleftrightarrow> fixed_ms = None \<and>
     (case strategy of None \<Rightarrow> True | Some s \<Rightarrow> plain s \<and> CHR '':'' \<notin> set s)"
| "token_ok (TkChunk _ mode) \<longleftrightarrow> mode \<in> {''seq'', ''par''}"
| "token_ok (TkLabel l) \<longleftrightarrow> plain l \<and> 2 \<le> length l \<and>
     list_all (\<lambda>p. \<not> starts_with (l @ '':'') p) [''chunk:'', ''dag:'', ''delay:'', ''schema:'']"
| "token_ok (TkDag s) \<longleftrightarrow> plain s"
| "token_ok (TkSchema s) \<longleftrightarrow> plain s"
| "token_ok (TkNext s) \<longleftrightarrow> operand_ok s"
| "token_ok (TkAsync s) \<longleftrightarrow> operand_ok s"
| "token_ok (TkFallback s) \<longleftrightarrow> operand_ok s"
| "token_ok (TkSplit s) \<longleftrightarrow> operand_ok s"
| "token_ok (TkMap s) \<longleftrightarrow> operand_ok s"
| "token_ok (TkKey s) \<longleftrightarrow> operand_ok s"
| "token_ok (TkJmp s) \<longleftrightarrow> operand_ok s"
| "token_ok _ \<longleftrightarrow> True"

lemmas classify_simps = classify_def classify_first_def strip_prefix_def ends_colon

lemma operandE: "operand_ok s \<Longrightarrow> plain s \<and> s \<noteq> [] \<and> last s \<noteq> CHR '':''"
  by (auto simp: operand_ok_def plain_def)

lemma with_operand_ok:
  "plain s \<Longrightarrow> n \<le> 2 + length s \<Longrightarrow> with_operand n (c # CHR '':'' # s) k = k s"
  by (simp add: with_operand_def slice_colon)

lemma operand_show: "plain s \<Longrightarrow> operand (c # CHR '':'' # s) mk = ROk (mk s)"
  by (cases s) (simp_all add: operand_def with_operand_ok plain_def)

lemma split_at_free: "d \<notin> set w \<Longrightarrow> split_at d w = [w]"
  by (induction w) auto

lemma split_at_append: "d \<notin> set w \<Longrightarrow> split_at d (w @ d # s) = w # split_at d s"
  by (induction w) auto

lemma split_at_join:
  "ws \<noteq> [] \<Longrightarrow> list_all (\<lambda>w. d \<notin> set w) ws \<Longrightarrow> split_at d (join [d] ws) = ws"
  by (induction "[d]" ws rule: join.induct) (simp_all add: split_at_free split_at_append)

lemma join_plain: "ts \<noteq> [] \<Longrightarrow> list_all operand_ok ts \<Longrightarrow> operand_ok (join '','' ts)"
proof (induction "'',''" ts rule: join.induct)
  case (3 w v ws)
  then show ?case by (auto simp: operand_ok_def plain_def word_char_def)
qed auto

lemma filter_plain: "list_all operand_ok ts \<Longrightarrow> filter (\<lambda>t. t \<noteq> []) (map trim ts) = ts"
  by (induction ts) (auto simp: operand_ok_def trim_plain plain_def)

lemma targets_show:
  assumes "ts \<noteq> []" and "list_all (\<lambda>t. operand_ok t \<and> CHR '','' \<notin> set t) ts"
  shows "targets (c # CHR '':'' # join '','' ts) n mk = ROk (mk ts)"
proof -
  have ok: "list_all operand_ok ts" "list_all (\<lambda>w. CHR '','' \<notin> set w) ts"
    using assms(2) by (auto simp: list_all_iff)
  from join_plain [OF assms(1) ok(1)] have p: "plain (join '','' ts)" by (simp add: operand_ok_def)
  then have j: "join '','' ts \<noteq> []" by (simp add: plain_def)
  then have "3 \<le> 2 + length (join '','' ts)" by (cases "join '','' ts") auto
  with assms(1) p j show ?thesis
    by (simp add: targets_def with_operand_ok parse_comma_targets_def split_at_join [OF assms(1) ok(2)]
        filter_plain [OF ok(1)])
qed

lemma find_str_skip: "p \<noteq> [] \<Longrightarrow> hd p \<notin> set s \<Longrightarrow> find_str p (s @ r) = map_option ((+) (length s)) (find_str p r)"
proof (induction s)
  case Nil
  then show ?case by (cases "find_str p r") auto
next
  case (Cons c s)
  then have "\<not> starts_with (c # s @ r) p" by (cases p) auto
  with Cons show ?case by (cases "find_str p r") auto
qed

lemma find_str_free: "p \<noteq> [] \<Longrightarrow> hd p \<notin> set s \<Longrightarrow> find_str p s = None"
  using find_str_skip [of p s "[]"] by simp

lemma trim_end_last: "s \<noteq> [] \<Longrightarrow> last s \<noteq> c \<Longrightarrow> trim_end_matches c s = s"
  by (cases s rule: rev_cases) (auto simp: trim_end_matches_def)

lemma gate_show:
  assumes "token_ok (TkGate field op value)"
  shows "parse_gate (show_token (TkGate field op value)) = ROk (TkGate field op value)"
proof -
  have ne: "field \<noteq> []" "last field \<noteq> CHR ''.''" "value \<noteq> []"
    using assms by (auto simp: plain_def operand_ok_def)
  have free: "c \<in> set ''=!<>'' \<Longrightarrow> c \<notin> set field \<and> c \<notin> set value" for c
    using assms by (auto simp: op_free_def)
  have skip: "find_str p (field @ r) = map_option ((+) (length field)) (find_str p r)"
    "find_str p value = None" if "p \<noteq> []" "hd p \<in> set ''=!<>''" for p r
    using that free [OF that(2)] by (simp_all add: find_str_skip find_str_free)
  from assms have "op \<in> {''=='', ''!='', ''>='', ''<='', ''>'', ''<''}" by simp
  moreover have "take (Suc 0) value \<noteq> ''=''"
    using ne(3) free [of "CHR ''=''"] by (cases "value") auto
  ultimately show ?thesis
    using ne by (auto simp: parse_gate_def skip trim_end_last Let_def)
qed

lemma find_colon_dec: "find_str '':'' (dec n) = None" "find_str '':'' (dec n @ CHR '':'' # s) = Some (length (dec n))"
proof -
  have "CHR '':'' \<notin> set (dec n)" using dec_set by blast
  then show "find_str '':'' (dec n) = None" "find_str '':'' (dec n @ CHR '':'' # s) = Some (length (dec n))"
    by (simp_all add: find_str_free find_str_skip)
qed

lemma retry_show:
  assumes "token_ok (TkRetry count strategy fixed_ms)"
  shows "parse_retry (show_token (TkRetry count strategy fixed_ms)) = ROk (TkRetry count strategy fixed_ms)"
proof (cases strategy)
  case None
  with assms show ?thesis by (simp add: parse_retry_def Let_def find_colon_dec parse_num_dec)
next
  case (Some s)
  with assms have "find_str '':'' s = None" by (simp add: find_str_free)
  with Some assms show ?thesis by (simp add: parse_retry_def Let_def find_colon_dec parse_num_dec)
qed

lemma chunk_show:
  assumes "mode \<in> {''seq'', ''par''}"
  shows "parse_chunk (show_token (TkChunk count mode)) = ROk (TkChunk count mode)"
proof -
  have "CHR '':'' \<notin> set (u_dec count)" "CHR '':'' \<notin> set mode" using dec_set assms by auto
  then have "split_at (CHR '':'') (u_dec count @ CHR '':'' # mode) = [u_dec count, mode]"
    by (simp add: split_at_append split_at_free)
  with assms show ?thesis by (auto simp: parse_chunk_def parse_num_dec)
qed

lemma last_dec: "last (dec n) \<noteq> CHR '':''"
  using dec_set [of "last (dec n)" n] by simp

lemma classify_colon: "operand_ok s \<Longrightarrow> classify (c # CHR '':'' # s) = classify_first c (c # CHR '':'' # s)"
  by (drule operandE) (simp add: classify_def strip_prefix_def ends_colon)

lemma classify_num:
  "classify (CHR ''b'' # dec n) = classify_first (CHR ''b'') (CHR ''b'' # dec n)"
  "classify (CHR ''t'' # dec n) = classify_first (CHR ''t'') (CHR ''t'' # dec n)"
  by (simp_all add: classify_def strip_prefix_def ends_colon last_dec)

lemma classify_operand:
  assumes "operand_ok s"
  shows "classify (''n:'' @ s) = ROk (TkNext s)" "classify (''a:'' @ s) = ROk (TkAsync s)"
    "classify (''f:'' @ s) = ROk (TkFallback s)" "classify (''s:'' @ s) = ROk (TkSplit s)"
    "classify (''m:'' @ s) = ROk (TkMap s)" "classify (''k:'' @ s) = ROk (TkKey s)"
    "classify (''j:'' @ s) = ROk (TkJmp s)"
  using operandE [OF assms]
  by (simp_all add: classify_colon [OF assms] classify_first_def operand_show slice_colon)

lemma classify_show: "token_ok t \<Longrightarrow> classify (show_token t) = ROk t"
proof (induction t)
  case (TkGate field op v)
  then have "operand_ok (field @ op @ v)" "4 \<le> 2 + length (field @ op @ v)"
    by (cases field; cases v; auto simp: plain_def operand_ok_def word_char_def)+
  with with_operand_ok [of "field @ op @ v" 4 "CHR ''g''"] gate_show [OF TkGate] show ?case
    by (simp add: classify_colon classify_first_def operand_ok_def)
next
  case (TkLabel l)
  then show ?case by (auto simp: classify_def strip_prefix_def ends_colon)
next
  case (TkParallel ts)
  then have "operand_ok (join '','' ts)" by (intro join_plain) (auto simp: list_all_iff)
  with TkParallel show ?case by (simp add: classify_colon classify_first_def targets_show)
next
  case (TkEmit ts)
  then have "operand_ok (join '','' ts)" by (intro join_plain) (auto simp: list_all_iff)
  with TkEmit show ?case by (simp add: classify_colon classify_first_def targets_show)
next
  case (TkRetry count strategy fixed_ms)
  let ?t = "show_token (TkRetry count strategy fixed_ms)"
  have "last ?t \<noteq> CHR '':'' \<and> hd ?t = CHR ''r'' \<and> ?t \<noteq> [] \<and> \<not> starts_with ?t ''chunk:'' \<and>
      \<not> starts_with ?t ''dag:'' \<and> \<not> starts_with ?t ''delay:'' \<and> \<not> starts_with ?t ''schema:''"
    using TkRetry last_in_set by (fastforce simp: last_dec plain_def split: option.splits)
  with retry_show [OF TkRetry] show ?case
    by (simp add: classify_def classify_first_def strip_prefix_def ends_colon del: show_token.simps)
next
  case (TkChunk count mode)
  with chunk_show [of mode count] show ?case by (simp add: classify_def)
next
  case (TkBuffer n)
  then show ?case by (simp add: classify_num classify_first_def parse_num_dec numeral_2_eq_2)
next
  case (TkTimeout n)
  then show ?case by (simp add: classify_num classify_first_def parse_num_dec)
next
  case (TkDelay n)
  then show ?case by (simp add: classify_def strip_prefix_def parse_num_dec)
next
  case (TkDag s)
  then show ?case by (simp add: classify_def strip_prefix_def plain_def)
next
  case (TkSchema s)
  then show ?case by (simp add: classify_def strip_prefix_def plain_def)
next
  case TkCollect
  show ?case by (simp add: classify_def strip_prefix_def ends_colon classify_first_def)
next
  case TkDrop
  show ?case by (simp add: classify_def strip_prefix_def ends_colon classify_first_def)
next
  case TkPipe
  show ?case by (simp add: classify_def strip_prefix_def ends_colon classify_first_def)
qed (use classify_operand in simp_all)

lemma show_plain: "token_ok t \<Longrightarrow> plain (show_token t)"
proof (induction t)
  case (TkParallel ts)
  then have "operand_ok (join '','' ts)" by (intro join_plain) (auto simp: list_all_iff)
  then show ?case by (simp add: operand_ok_def plain_def word_char_def)
next
  case (TkEmit ts)
  then have "operand_ok (join '','' ts)" by (intro join_plain) (auto simp: list_all_iff)
  then show ?case by (simp add: operand_ok_def plain_def word_char_def)
qed (use plain_dec in \<open>auto simp: operand_ok_def plain_def word_char_def split: option.splits\<close>)

lemma lex_words_show: "list_all token_ok ts \<Longrightarrow> lex_words (map show_token ts) = ROk ts"
  by (induction ts) (simp_all add: classify_show)

subsection \<open>Panics\<close>

definition ascii :: "string \<Rightarrow> bool" where
  "ascii s \<longleftrightarrow> list_all (\<lambda>c. (of_char c :: nat) < 128) s"

lemma ascii_boundary: "ascii s \<Longrightarrow> i \<le> length s \<Longrightarrow> is_char_boundary s i"
proof (cases "i = length s")
  case False
  assume "ascii s" "i \<le> length s"
  with False have "i < length s" "(of_char (s ! i) :: nat) < 128" by (auto simp: ascii_def list_all_length)
  then show ?thesis by (simp add: is_char_boundary_def)
qed (simp add: is_char_boundary_def)

lemma ascii_slice: "ascii s \<Longrightarrow> 2 \<le> length s \<Longrightarrow> slice s (Suc 0) 2 \<noteq> None"
  by (simp add: slice_def ascii_boundary)

lemma with_operand_total:
  "ascii s \<Longrightarrow> 2 \<le> n \<Longrightarrow> (\<And>t. k t \<noteq> RPanic) \<Longrightarrow> with_operand n s k \<noteq> RPanic"
  using ascii_slice [of s]
  by (cases "length s < n") (auto simp: with_operand_def split: option.splits dest: order_trans)

lemma parse_num_total: "parse_num n s e \<noteq> RPanic"
  by (simp add: parse_num_def split: option.split)

lemma find_gate_total: "find_gate ops body word \<noteq> RPanic"
  by (induction ops) (auto simp: Let_def split: option.split)

lemma parse_total:
  "parse_retry w \<noteq> RPanic" "parse_chunk w \<noteq> RPanic" "parse_gate w \<noteq> RPanic" "parse_comma_targets w n \<noteq> RPanic"
  by (auto simp: parse_retry_def parse_chunk_def parse_gate_def parse_comma_targets_def find_gate_total Let_def
      rbind_eq_RPanic parse_num_total split: option.split list.split)

lemma total_if: "a \<noteq> RPanic \<Longrightarrow> b \<noteq> RPanic \<Longrightarrow> (if P then a else b) \<noteq> RPanic"
  by simp

lemma total_if_guard: "(P \<Longrightarrow> a \<noteq> RPanic) \<Longrightarrow> b \<noteq> RPanic \<Longrightarrow> (if Q \<and> P then a else b) \<noteq> RPanic"
  by simp

lemma total_bind: "m \<noteq> RPanic \<Longrightarrow> (\<And>x. f x \<noteq> RPanic) \<Longrightarrow> rbind m f \<noteq> RPanic"
  by (auto simp: rbind_eq_RPanic)

lemma operand_total: "ascii w \<Longrightarrow> operand w mk \<noteq> RPanic"
  unfolding operand_def by (rule with_operand_total) simp_all

lemma targets_total: "ascii w \<Longrightarrow> targets w n mk \<noteq> RPanic"
  unfolding targets_def by (rule with_operand_total) (simp_all add: rbind_eq_RPanic parse_total)

lemma jmp_total: "ascii w \<Longrightarrow> 2 < length w \<Longrightarrow>
  (case slice w 1 2 of None \<Rightarrow> RPanic | Some c \<Rightarrow> if c = '':'' then ROk (TkJmp (drop 2 w)) else RErr (UnknownToken w)) \<noteq> RPanic"
  using ascii_slice [of w] by (auto split: option.split)

lemma classify_first_total: "ascii w \<Longrightarrow> classify_first c w \<noteq> RPanic"
  unfolding classify_first_def
  by (intro total_if_guard total_if operand_total targets_total with_operand_total parse_total total_bind parse_num_total jmp_total)
    simp_all

lemma classify_total: "ascii w \<Longrightarrow> classify w \<noteq> RPanic"
  using classify_first_total [of w "hd w"] parse_total(2) [of w]
  by (auto simp: classify_def rbind_eq_RPanic parse_num_total split: option.split)

lemma ascii_append: "ascii (s @ t) \<longleftrightarrow> ascii s \<and> ascii t"
  by (simp add: ascii_def)

lemma ascii_drop: "ascii s \<Longrightarrow> ascii (drop n s)"
  by (auto simp: ascii_def list_all_iff dest: in_set_dropD)

lemma ascii_split_words: "ascii cur \<Longrightarrow> ascii s \<Longrightarrow> list_all ascii (split_words cur s)"
proof (induction cur s rule: split_words.induct)
  case (2 cur c s)
  then show ?case
    using ascii_drop [OF 2(4)] by (cases "ws_at (c # s)") (auto simp: ascii_append ascii_def)
qed simp

lemma lex_words_total: "list_all ascii ws \<Longrightarrow> lex_words ws \<noteq> RPanic"
  by (induction ws) (auto simp: rbind_eq_RPanic classify_total)

subsection \<open>Properties\<close>



text \<open>
  The lexer returns tokens or an error on every ASCII text; a call whose name starts with
  a non-ASCII character written without the colon makes it panic.
\<close>

lemma lex_total:
  assumes "ascii input"
  shows "lex input \<noteq> RPanic \<and> lex [CHR ''n'', CHR 0xC3, CHR 0xA9] = RPanic"
proof
  show "lex input \<noteq> RPanic"
    using assms by (simp add: lex_def split_whitespace_def lex_words_total ascii_split_words ascii_def)
  show "lex [CHR ''n'', CHR 0xC3, CHR 0xA9] = RPanic"
    by code_simp
qed

end
