(* ===== verification/RT_Parser.thy ===== *)
theory RT_Parser
  imports RT_Lexer
begin

text \<open>
  The parser of the pipeline language, \<^verbatim>\<open>runtime/src/dsl/parser\<close>: tokens become nodes one by one, and
  four flags reject misplaced modifiers.  An error carries the rejected node, of which the code keeps
  the text.
\<close>

subsection \<open>Nodes\<close>

datatype ASTNode =
    Next string | Async string | Parallel "string list" | Collect | Fallback string
  | Gate string string string | Split string | MapExpr string | Emit "string list" | Drop
  | Buffer u64 | Key string | Retry u8 "string option" "u32 option" | Pipe | Timeout u64
  | Chunk u8 string | Dag string | Schema string | Label string | Jmp string | Delay u64

datatype ParseError =
    RetryWithoutPrecedingService ASTNode | RetryAfterParallel ASTNode | RetryAfterCollect ASTNode
  | RetryAfterFallback ASTNode | RetryAfterEmit ASTNode | RetryAfterDrop ASTNode | RetryAfterGate ASTNode
  | RetryAfterPipe ASTNode | RetryAfterLabel ASTNode | RetryAfterJmp ASTNode | RetryAfterRetry ASTNode
  | CollectWithoutParallel ASTNode | MultipleTimeoutsBetweenServices ASTNode | EmptyPipeline

fun token_to_ast :: "Token \<Rightarrow> ASTNode" where
  "token_to_ast (TkNext t) = Next t"
| "token_to_ast (TkAsync t) = Async t"
| "token_to_ast (TkParallel ts) = Parallel ts"
| "token_to_ast TkCollect = Collect"
| "token_to_ast (TkFallback t) = Fallback t"
| "token_to_ast (TkGate field op value) = Gate field op value"
| "token_to_ast (TkSplit f) = Split f"
| "token_to_ast (TkMap e) = MapExpr e"
| "token_to_ast (TkEmit ts) = Emit ts"
| "token_to_ast TkDrop = Drop"
| "token_to_ast (TkBuffer n) = Buffer n"
| "token_to_ast (TkKey k) = Key k"
| "token_to_ast (TkRetry count strategy fixed_ms) = Retry count strategy fixed_ms"
| "token_to_ast TkPipe = Pipe"
| "token_to_ast (TkTimeout ms) = Timeout ms"
| "token_to_ast (TkChunk count mode) = Chunk count mode"
| "token_to_ast (TkDag body) = Dag body"
| "token_to_ast (TkSchema body) = Schema body"
| "token_to_ast (TkLabel l) = Label l"
| "token_to_ast (TkJmp l) = Jmp l"
| "token_to_ast (TkDelay ms) = Delay ms"

subsection \<open>Parsing\<close>

record parse_state =
  ps_nodes :: "ASTNode list"
  ps_last_was_service :: bool
  ps_last_was_retry :: bool
  ps_pending_collect :: bool
  ps_has_timeout :: bool

definition retry_error :: "ASTNode \<Rightarrow> ASTNode list \<Rightarrow> ParseError option" where
  "retry_error node nodes =
     (if nodes = [] then None
      else case last nodes of
        Parallel _ \<Rightarrow> Some (RetryAfterParallel node)
      | Collect \<Rightarrow> Some (RetryAfterCollect node)
      | Fallback _ \<Rightarrow> Some (RetryAfterFallback node)
      | Emit _ \<Rightarrow> Some (RetryAfterEmit node)
      | Drop \<Rightarrow> Some (RetryAfterDrop node)
      | Gate _ _ _ \<Rightarrow> Some (RetryAfterGate node)
      | Pipe \<Rightarrow> Some (RetryAfterPipe node)
      | Label _ \<Rightarrow> Some (RetryAfterLabel node)
      | Jmp _ \<Rightarrow> Some (RetryAfterJmp node)
      | Retry _ _ _ \<Rightarrow> Some (RetryAfterRetry node)
      | _ \<Rightarrow> None)"

definition called :: "parse_state \<Rightarrow> parse_state" where
  "called st = st\<lparr>ps_last_was_service := True, ps_last_was_retry := False, ps_has_timeout := False\<rparr>"

definition parse_node :: "ASTNode \<Rightarrow> parse_state \<Rightarrow> ParseError + parse_state" where
  "parse_node node st =
     (case node of
        Retry _ _ _ \<Rightarrow>
          if \<not> ps_last_was_service st then Inl (RetryWithoutPrecedingService node)
          else if ps_last_was_retry st then Inl (RetryAfterRetry node)
          else (case retry_error node (ps_nodes st) of
                  Some e \<Rightarrow> Inl e
                | None \<Rightarrow> Inr (st\<lparr>ps_last_was_retry := True, ps_has_timeout := False\<rparr>))
      | Timeout _ \<Rightarrow>
          if ps_has_timeout st \<and> \<not> ps_last_was_service st then Inl (MultipleTimeoutsBetweenServices node)
          else Inr (st\<lparr>ps_has_timeout := True, ps_last_was_service := False\<rparr>)
      | Chunk _ _ \<Rightarrow>
          Inr (st\<lparr>ps_last_was_service := False, ps_last_was_retry := False, ps_has_timeout := False\<rparr>)
      | Next _ \<Rightarrow> Inr (called st)
      | Async _ \<Rightarrow> Inr (called st)
      | Parallel _ \<Rightarrow> Inr ((called st)\<lparr>ps_pending_collect := True\<rparr>)
      | Collect \<Rightarrow>
          if \<not> ps_pending_collect st then Inl (CollectWithoutParallel node)
          else Inr ((called st)\<lparr>ps_pending_collect := False\<rparr>)
      | Emit _ \<Rightarrow> Inr (called st)
      | Drop \<Rightarrow> Inr (called st)
      | Fallback _ \<Rightarrow> Inr (called st)
      | _ \<Rightarrow> Inr (st\<lparr>ps_last_was_service := False, ps_last_was_retry := False\<rparr>))"

fun parse_loop :: "Token list \<Rightarrow> parse_state \<Rightarrow> ParseError + ASTNode list" where
  "parse_loop [] st = Inr (ps_nodes st)"
| "parse_loop (token # tokens) st =
     (case parse_node (token_to_ast token) st of
        Inl e \<Rightarrow> Inl e
      | Inr st1 \<Rightarrow> parse_loop tokens (st1\<lparr>ps_nodes := ps_nodes st1 @ [token_to_ast token]\<rparr>))"

definition parse :: "Token list \<Rightarrow> ParseError + ASTNode list" where
  "parse tokens =
     (if tokens = [] then Inl EmptyPipeline
      else parse_loop tokens \<lparr>ps_nodes = [], ps_last_was_service = False, ps_last_was_retry = False,
             ps_pending_collect = False, ps_has_timeout = False\<rparr>)"

subsection \<open>The accepted pipelines\<close>

definition is_call :: "ASTNode \<Rightarrow> bool" where
  "is_call n \<longleftrightarrow> (case n of Next _ \<Rightarrow> True | Async _ \<Rightarrow> True | _ \<Rightarrow> False)"

definition is_service :: "ASTNode \<Rightarrow> bool" where
  "is_service n \<longleftrightarrow> (case n of Next _ \<Rightarrow> True | Async _ \<Rightarrow> True | Parallel _ \<Rightarrow> True | Collect \<Rightarrow> True | Emit _ \<Rightarrow> True |
     Drop \<Rightarrow> True | Fallback _ \<Rightarrow> True | _ \<Rightarrow> False)"

definition is_retry :: "ASTNode \<Rightarrow> bool" where
  "is_retry n \<longleftrightarrow> (case n of Retry _ _ _ \<Rightarrow> True | _ \<Rightarrow> False)"

definition is_chunk :: "ASTNode \<Rightarrow> bool" where
  "is_chunk n \<longleftrightarrow> (case n of Chunk _ _ \<Rightarrow> True | _ \<Rightarrow> False)"

text \<open>A retry stands directly behind a call; the first argument is the node before.\<close>

fun retries_ok :: "ASTNode option \<Rightarrow> ASTNode list \<Rightarrow> bool" where
  "retries_ok prev [] \<longleftrightarrow> True"
| "retries_ok prev (n # ns) \<longleftrightarrow>
     (is_retry n \<longrightarrow> (case prev of None \<Rightarrow> False | Some p \<Rightarrow> is_call p)) \<and> retries_ok (Some n) ns"

text \<open>A collect has a parallel before it that no other collect has used.\<close>

fun collects_ok :: "bool \<Rightarrow> ASTNode list \<Rightarrow> bool" where
  "collects_ok p [] \<longleftrightarrow> True"
| "collects_ok p (Parallel _ # ns) \<longleftrightarrow> collects_ok True ns"
| "collects_ok p (Collect # ns) \<longleftrightarrow> p \<and> collects_ok False ns"
| "collects_ok p (_ # ns) \<longleftrightarrow> collects_ok p ns"

text \<open>Between two timeouts there is a service operation, a chunk or a retry.\<close>

fun timeouts_ok :: "bool \<Rightarrow> ASTNode list \<Rightarrow> bool" where
  "timeouts_ok h [] \<longleftrightarrow> True"
| "timeouts_ok h (Timeout _ # ns) \<longleftrightarrow> \<not> h \<and> timeouts_ok True ns"
| "timeouts_ok h (n # ns) \<longleftrightarrow> timeouts_ok (h \<and> \<not> is_service n \<and> \<not> is_retry n \<and> \<not> is_chunk n) ns"

definition parse_inv :: "parse_state \<Rightarrow> bool" where
  "parse_inv st \<longleftrightarrow>
     ps_last_was_service st = (ps_nodes st \<noteq> [] \<and> (is_service (last (ps_nodes st)) \<or> is_retry (last (ps_nodes st)))) \<and>
     (ps_last_was_service st \<longrightarrow> ps_last_was_retry st = is_retry (last (ps_nodes st))) \<and>
     (ps_has_timeout st \<longrightarrow> \<not> ps_last_was_service st)"

lemmas node_kinds = is_call_def is_service_def is_retry_def is_chunk_def

definition prev_of :: "parse_state \<Rightarrow> ASTNode option" where
  "prev_of st = (if ps_nodes st = [] then None else Some (last (ps_nodes st)))"

lemma retry_error_None:
  "ps_last_was_service st \<Longrightarrow> parse_inv st \<Longrightarrow>
     retry_error n (ps_nodes st) = None \<longleftrightarrow> is_call (last (ps_nodes st))"
  by (auto simp: parse_inv_def retry_error_def node_kinds split: ASTNode.splits)

lemma parse_node_step:
  assumes "parse_inv st"
  shows "case parse_node n st of
      Inl e \<Rightarrow> \<not> (retries_ok (prev_of st) (n # ns) \<and> collects_ok (ps_pending_collect st) (n # ns) \<and>
                timeouts_ok (ps_has_timeout st) (n # ns))
    | Inr st1 \<Rightarrow> ps_nodes st1 = ps_nodes st \<and> parse_inv (st1\<lparr>ps_nodes := ps_nodes st @ [n]\<rparr>) \<and>
        (retries_ok (prev_of st) (n # ns) \<longleftrightarrow> retries_ok (Some n) ns) \<and>
        (collects_ok (ps_pending_collect st) (n # ns) \<longleftrightarrow> collects_ok (ps_pending_collect st1) ns) \<and>
        (timeouts_ok (ps_has_timeout st) (n # ns) \<longleftrightarrow> timeouts_ok (ps_has_timeout st1) ns)"
proof (cases "is_retry n")
  case True
  then obtain c s f where n: "n = Retry c s f" by (auto simp: is_retry_def split: ASTNode.splits)
  from assms show ?thesis
    using retry_error_None [OF _ assms, of n]
    by (auto simp: n parse_node_def parse_inv_def prev_of_def node_kinds split: option.split ASTNode.splits)
next
  case False
  with assms show ?thesis
    by (cases n) (auto simp: parse_node_def parse_inv_def prev_of_def called_def node_kinds)
qed

lemma parse_loop_iff:
  "parse_inv st \<Longrightarrow> parse_loop ts st = Inr ns \<longleftrightarrow>
     ns = ps_nodes st @ map token_to_ast ts \<and> retries_ok (prev_of st) (map token_to_ast ts) \<and>
     collects_ok (ps_pending_collect st) (map token_to_ast ts) \<and>
     timeouts_ok (ps_has_timeout st) (map token_to_ast ts)"
proof (induction ts arbitrary: st)
  case Nil
  then show ?case by auto
next
  case (Cons t ts)
  note step = parse_node_step [OF Cons.prems, of "token_to_ast t" "map token_to_ast ts"]
  show ?case
  proof (cases "parse_node (token_to_ast t) st")
    case (Inl e)
    with step show ?thesis by auto
  next
    case (Inr st1)
    with step Cons.IH [of "st1\<lparr>ps_nodes := ps_nodes st @ [token_to_ast t]\<rparr>"] show ?thesis
      by (simp add: prev_of_def)
  qed
qed

subsection \<open>Properties\<close>

text \<open>
  C11: The parser accepts exactly the non-empty pipelines in which every retry stands directly
  behind a call, every collect has its own parallel before it, and two timeouts are separated by a
  service operation, a chunk or a retry; it returns one node per token, in order.
\<close>

theorem parse_iff:
  "parse ts = Inr ns \<longleftrightarrow> ts \<noteq> [] \<and> ns = map token_to_ast ts \<and>
     retries_ok None ns \<and> collects_ok False ns \<and> timeouts_ok False ns"
proof -
  let ?st = "\<lparr>ps_nodes = [], ps_last_was_service = False, ps_last_was_retry = False,
             ps_pending_collect = False, ps_has_timeout = False\<rparr>"
  have "parse_inv ?st" by (simp add: parse_inv_def)
  from parse_loop_iff [OF this, of ts ns] show ?thesis by (auto simp: parse_def prev_of_def)
qed

end
