(* ===== verification/RT_Optimizer.thy ===== *)
theory RT_Optimizer
  imports RT_Parser "HOL-Library.Sublist"
begin

text \<open>
  The optimiser of the pipeline language, \<^verbatim>\<open>runtime/src/dsl/optimizer\<close>: eight passes over the list of
  nodes.  The first one decides gates between two numbers in double-precision floating point, which
  is not modelled: reading and comparing numbers is the argument \<open>F\<close>.
\<close>

subsection \<open>Passes\<close>

record 'f f64_ops =
  fl_parse :: "string \<Rightarrow> 'f option"
  fl_close :: "'f \<Rightarrow> 'f \<Rightarrow> bool"
  fl_apart :: "'f \<Rightarrow> 'f \<Rightarrow> bool"
  fl_less :: "'f \<Rightarrow> 'f \<Rightarrow> bool"
  fl_le :: "'f \<Rightarrow> 'f \<Rightarrow> bool"

text \<open>The value of a comparison: \<^verbatim>\<open>(fv - vv).abs() < EPSILON\<close> is \<open>fl_close\<close>, its opposite \<open>fl_apart\<close>.\<close>

definition const_gate :: "'f f64_ops \<Rightarrow> string \<Rightarrow> 'f \<Rightarrow> 'f \<Rightarrow> bool option" where
  "const_gate F op fv vv =
     (if op = ''=='' then Some (fl_close F fv vv)
      else if op = ''!='' then Some (fl_apart F fv vv)
      else if op = ''>'' then Some (fl_less F vv fv)
      else if op = ''<'' then Some (fl_less F fv vv)
      else if op = ''>='' then Some (fl_le F vv fv)
      else if op = ''<='' then Some (fl_le F fv vv)
      else None)"

fun simplify_gates :: "'f f64_ops \<Rightarrow> ASTNode list \<Rightarrow> ASTNode list" where
  "simplify_gates F [] = []"
| "simplify_gates F (Gate field op value # ns) =
     (case (fl_parse F field, fl_parse F value) of
        (Some fv, Some vv) \<Rightarrow>
          if Pipe \<in> set ns then Gate field op value # simplify_gates F ns
          else (case const_gate F op fv vv of
                  None \<Rightarrow> Gate field op value # simplify_gates F ns
                | Some True \<Rightarrow> simplify_gates F ns
                | Some False \<Rightarrow> Drop # simplify_gates F ns)
      | _ \<Rightarrow> Gate field op value # simplify_gates F ns)"
| "simplify_gates F (n # ns) = n # simplify_gates F ns"

definition opt_node :: "'a option \<Rightarrow> ('a \<Rightarrow> ASTNode) \<Rightarrow> ASTNode list" where
  "opt_node x mk = (case x of None \<Rightarrow> [] | Some v \<Rightarrow> [mk v])"

fun hoist_loop :: "ASTNode list \<Rightarrow> u64 option \<Rightarrow> ASTNode option \<Rightarrow> ASTNode list" where
  "hoist_loop [] pending_timeout pending_retry = opt_node pending_timeout Timeout @ opt_node pending_retry id"
| "hoist_loop (Timeout ms # ns) pending_timeout pending_retry = hoist_loop ns (Some ms) pending_retry"
| "hoist_loop (Retry c s f # ns) pending_timeout pending_retry = hoist_loop ns pending_timeout (Some (Retry c s f))"
| "hoist_loop (Next t # ns) pending_timeout pending_retry =
     opt_node pending_timeout Timeout @ Next t # opt_node pending_retry id @ hoist_loop ns None None"
| "hoist_loop (Async t # ns) pending_timeout pending_retry =
     opt_node pending_timeout Timeout @ Async t # opt_node pending_retry id @ hoist_loop ns None None"
| "hoist_loop (n # ns) pending_timeout pending_retry = n # hoist_loop ns None None"

definition hoist_timeouts :: "ASTNode list \<Rightarrow> ASTNode list" where
  "hoist_timeouts ns = hoist_loop ns None None"

definition is_emit :: "ASTNode \<Rightarrow> bool" where
  "is_emit n \<longleftrightarrow> (case n of Emit _ \<Rightarrow> True | _ \<Rightarrow> False)"

fun emit_targets :: "ASTNode \<Rightarrow> string list" where
  "emit_targets (Emit ts) = ts"
| "emit_targets _ = []"

function merge_emits :: "ASTNode list \<Rightarrow> ASTNode list" where
  "merge_emits [] = []"
| "merge_emits (n # ns) =
     (if is_emit n
      then Emit (emit_targets n @ concat (map emit_targets (takeWhile is_emit ns))) # merge_emits (dropWhile is_emit ns)
      else n # merge_emits ns)"
  by pat_completeness auto

termination
  by (relation "measure length") (simp_all add: less_Suc_eq_le length_dropWhile_le)

text \<open>The arguments: whether the code is dead, and the labels that wait for the next live node.\<close>

fun dead_loop :: "bool \<Rightarrow> ASTNode list \<Rightarrow> ASTNode list \<Rightarrow> ASTNode list" where
  "dead_loop dead labels [] = []"
| "dead_loop dead labels (n # ns) =
     (if dead then
        (case n of
           Label _ \<Rightarrow> labels @ n # dead_loop False [] ns
         | Jmp _ \<Rightarrow> labels @ n # dead_loop False [] ns
         | _ \<Rightarrow> dead_loop True labels ns)
      else
        (case n of
           Drop \<Rightarrow> n # dead_loop True labels ns
         | Jmp _ \<Rightarrow> n # dead_loop True labels ns
         | Label _ \<Rightarrow> dead_loop False (labels @ [n]) ns
         | _ \<Rightarrow> labels @ n # dead_loop False [] ns))"

definition remove_dead_code :: "ASTNode list \<Rightarrow> ASTNode list" where
  "remove_dead_code ns = dead_loop False [] ns"

definition jmp_targets :: "ASTNode list \<Rightarrow> string list" where
  "jmp_targets ns = concat (map (\<lambda>n. case n of Jmp t \<Rightarrow> [t] | _ \<Rightarrow> []) ns)"

definition remove_unused_labels :: "ASTNode list \<Rightarrow> ASTNode list" where
  "remove_unused_labels ns =
     filter (\<lambda>n. case n of Label name \<Rightarrow> name \<in> set (jmp_targets ns) | _ \<Rightarrow> True) ns"

fun eliminate_redundant_jmps :: "ASTNode list \<Rightarrow> ASTNode list" where
  "eliminate_redundant_jmps (Jmp t # Label l # ns) =
     (if l = t then eliminate_redundant_jmps (Label l # ns)
      else Jmp t # eliminate_redundant_jmps (Label l # ns))"
| "eliminate_redundant_jmps (n # ns) = n # eliminate_redundant_jmps ns"
| "eliminate_redundant_jmps [] = []"

text \<open>The first argument is the result so far.\<close>

fun merge_retries_loop :: "ASTNode list \<Rightarrow> ASTNode list \<Rightarrow> ASTNode list" where
  "merge_retries_loop result [] = result"
| "merge_retries_loop result (n # ns) =
     (if is_retry n \<and> result \<noteq> [] \<and> is_retry (last result) then merge_retries_loop result ns
      else merge_retries_loop (result @ [n]) ns)"

definition merge_retries :: "ASTNode list \<Rightarrow> ASTNode list" where
  "merge_retries ns = merge_retries_loop [] ns"

definition remove_nops :: "ASTNode list \<Rightarrow> ASTNode list" where
  "remove_nops ns = filter (\<lambda>n. n \<noteq> Pipe) ns"

definition optimize :: "'f f64_ops \<Rightarrow> ASTNode list \<Rightarrow> ASTNode list" where
  "optimize F ns =
     remove_nops (eliminate_redundant_jmps (remove_unused_labels (merge_retries (remove_dead_code
       (merge_emits (hoist_timeouts (simplify_gates F ns)))))))"

subsection \<open>The calls of a pipeline\<close>

fun node_calls :: "ASTNode \<Rightarrow> string list" where
  "node_calls (Next t) = [t]"
| "node_calls (Async t) = [t]"
| "node_calls (Parallel ts) = ts"
| "node_calls (Fallback t) = [t]"
| "node_calls (Emit ts) = ts"
| "node_calls _ = []"

definition pipeline_calls :: "ASTNode list \<Rightarrow> string list" where
  "pipeline_calls ns = concat (map node_calls ns)"

lemma pipeline_calls_simps [simp]:
  "pipeline_calls [] = []"
  "pipeline_calls (n # ns) = node_calls n @ pipeline_calls ns"
  "pipeline_calls (ns @ ms) = pipeline_calls ns @ pipeline_calls ms"
  by (simp_all add: pipeline_calls_def)

lemma calls_simplify: "pipeline_calls (simplify_gates F ns) = pipeline_calls ns"
  by (induction F ns rule: simplify_gates.induct) (auto split: option.split bool.split)

lemma calls_opt_node: "(\<And>v. x = Some v \<Longrightarrow> node_calls (mk v) = []) \<Longrightarrow> pipeline_calls (opt_node x mk) = []"
  by (cases x) (auto simp: opt_node_def)

lemma calls_hoist_loop:
  "(\<And>r. retry = Some r \<Longrightarrow> node_calls r = []) \<Longrightarrow> pipeline_calls (hoist_loop ns timeout retry) = pipeline_calls ns"
  by (induction ns timeout retry rule: hoist_loop.induct) (auto simp: calls_opt_node)

lemma calls_hoist: "pipeline_calls (hoist_timeouts ns) = pipeline_calls ns"
  unfolding hoist_timeouts_def by (rule calls_hoist_loop) simp

lemma calls_emits: "\<forall>n \<in> set ns. is_emit n \<Longrightarrow> concat (map emit_targets ns) = pipeline_calls ns"
  by (induction ns) (auto simp: is_emit_def split: ASTNode.splits)

lemma calls_merge_emits: "pipeline_calls (merge_emits ns) = pipeline_calls ns"
proof (induction ns rule: merge_emits.induct)
  case (2 n ns)
  have "pipeline_calls ns = pipeline_calls (takeWhile is_emit ns @ dropWhile is_emit ns)" by simp
  moreover have "concat (map emit_targets (takeWhile is_emit ns)) = pipeline_calls (takeWhile is_emit ns)"
    by (rule calls_emits) (auto dest: set_takeWhileD)
  moreover have "emit_targets n = node_calls n" if "is_emit n" using that by (cases n) (auto simp: is_emit_def)
  ultimately show ?case using 2 by (auto simp del: takeWhile_dropWhile_id)
qed simp

lemma calls_dead_subseq:
  "pipeline_calls labels = [] \<Longrightarrow> subseq (pipeline_calls (dead_loop dead labels ns)) (pipeline_calls ns)"
  by (induction dead labels ns rule: dead_loop.induct)
    (auto split: ASTNode.split intro: list_emb_append_mono subseq_append' list_emb_append2)

lemma calls_labels: "pipeline_calls (remove_unused_labels ns) = pipeline_calls ns"
proof -
  have "pipeline_calls (filter (\<lambda>n. case n of Label name \<Rightarrow> P name | _ \<Rightarrow> True) ns) = pipeline_calls ns" for P
    by (induction ns) (auto split: ASTNode.split)
  then show ?thesis by (simp add: remove_unused_labels_def)
qed

lemma calls_jmps: "pipeline_calls (eliminate_redundant_jmps ns) = pipeline_calls ns"
  by (induction ns rule: eliminate_redundant_jmps.induct) auto

lemma calls_retry: "is_retry n \<Longrightarrow> node_calls n = []"
  by (cases n) (auto simp: is_retry_def)

lemma calls_retries: "pipeline_calls (merge_retries_loop result ns) = pipeline_calls result @ pipeline_calls ns"
  by (induction result ns rule: merge_retries_loop.induct) (auto simp: calls_retry)

lemma calls_nops: "pipeline_calls (remove_nops ns) = pipeline_calls ns"
  unfolding remove_nops_def by (induction ns) auto

lemmas calls_passes = calls_nops calls_jmps calls_labels calls_retries calls_merge_emits calls_hoist calls_simplify

text \<open>Nodes after which the code is dead, and gates whose value the optimiser may decide.\<close>

definition stops :: "ASTNode \<Rightarrow> bool" where
  "stops n \<longleftrightarrow> (case n of Drop \<Rightarrow> True | Jmp _ \<Rightarrow> True | _ \<Rightarrow> False)"

definition numeric_gate :: "'f f64_ops \<Rightarrow> ASTNode \<Rightarrow> bool" where
  "numeric_gate F n \<longleftrightarrow> (case n of Gate field _ _ \<Rightarrow> fl_parse F field \<noteq> None | _ \<Rightarrow> False)"

lemma numeric_gate_simps [simp]: "\<not> numeric_gate F (Retry c s f)" "\<not> numeric_gate F (Timeout ms)"
  by (simp_all add: numeric_gate_def)

lemma simplify_id: "list_all (\<lambda>n. \<not> numeric_gate F n) ns \<Longrightarrow> simplify_gates F ns = ns"
  by (induction F ns rule: simplify_gates.induct) (auto simp: numeric_gate_def)

lemma stops_simps [simp]:
  "stops Drop" "stops (Jmp t)" "\<not> stops (Next a)" "\<not> stops (Async a)" "\<not> stops (Retry c s f)" "\<not> stops (Timeout ms)"
  "\<not> stops (Emit ts)"
  by (simp_all add: stops_def)

lemma stops_hoist_loop:
  "(\<And>r. retry = Some r \<Longrightarrow> \<not> stops r) \<Longrightarrow> filter stops (hoist_loop ns timeout retry) = filter stops ns"
proof (induction ns timeout retry rule: hoist_loop.induct)
  case (1 t r)
  then show ?case by (cases t; cases r) (auto simp: opt_node_def)
qed (auto simp: opt_node_def split: option.splits)

lemma stops_merge_emits: "list_all (\<lambda>n. \<not> stops n) ns \<Longrightarrow> list_all (\<lambda>n. \<not> stops n) (merge_emits ns)"
proof (induction ns rule: merge_emits.induct)
  case (2 n ns)
  moreover have "list_all (\<lambda>n. \<not> stops n) (dropWhile is_emit ns)"
    using 2(3) by (auto simp: list_all_iff dest: set_dropWhileD)
  ultimately show ?case by auto
qed simp

lemma calls_dead_eq:
  "list_all (\<lambda>n. \<not> stops n) ns \<Longrightarrow> pipeline_calls labels = [] \<Longrightarrow>
     pipeline_calls (dead_loop False labels ns) = pipeline_calls ns"
proof (induction ns arbitrary: labels)
  case (Cons n ns)
  then show ?case by (cases n) auto
qed simp

subsection \<open>Pipelines the optimiser leaves alone\<close>

definition inert :: "'f f64_ops \<Rightarrow> ASTNode \<Rightarrow> bool" where
  "inert F n \<longleftrightarrow> \<not> numeric_gate F n \<and> (case n of Drop \<Rightarrow> False | Jmp _ \<Rightarrow> False | Label _ \<Rightarrow> False | Pipe \<Rightarrow> False |
     Retry _ _ _ \<Rightarrow> False | Timeout _ \<Rightarrow> False | _ \<Rightarrow> True)"

text \<open>
  No jumps, drops, pipes and numeric gates, no two emits in a row, timeouts only directly before a
  call, and a retry only at the end.
\<close>

fun tidy :: "'f f64_ops \<Rightarrow> ASTNode list \<Rightarrow> bool" where
  "tidy F [] \<longleftrightarrow> True"
| "tidy F (n # ns) \<longleftrightarrow>
     (case n of
        Timeout _ \<Rightarrow> ns \<noteq> [] \<and> is_call (hd ns) \<and> tidy F ns
      | Retry _ _ _ \<Rightarrow> ns = []
      | _ \<Rightarrow> inert F n \<and> \<not> (is_emit n \<and> ns \<noteq> [] \<and> is_emit (hd ns)) \<and> tidy F ns)"

lemma tidy_induct [consumes 1, case_names Nil Retry Timeout Inert]:
  assumes "tidy F ns" and "P []" and "\<And>c s f. P [Retry c s f]"
    and "\<And>ms n ns. is_call n \<Longrightarrow> tidy F (n # ns) \<Longrightarrow> P (n # ns) \<Longrightarrow> P (Timeout ms # n # ns)"
    and "\<And>n ns. inert F n \<Longrightarrow> \<not> (is_emit n \<and> ns \<noteq> [] \<and> is_emit (hd ns)) \<Longrightarrow> tidy F ns \<Longrightarrow> P ns \<Longrightarrow> P (n # ns)"
  shows "P ns"
  using assms(1)
proof (induction ns)
  case Nil
  show ?case by (rule assms(2))
next
  case (Cons n ns)
  consider c s f where "n = Retry c s f" | ms where "n = Timeout ms" |
      "inert F n" "\<not> (is_emit n \<and> ns \<noteq> [] \<and> is_emit (hd ns))" "tidy F ns"
    using Cons.prems by (cases n) auto
  then show ?case
  proof cases
    case 1
    with Cons.prems assms(3) show ?thesis by simp
  next
    case 2
    with Cons assms(4) show ?thesis by (cases ns) auto
  next
    case 3
    with Cons.IH assms(5) show ?thesis by blast
  qed
qed

lemma inert_cases:
  assumes "inert F n"
  shows "\<not> numeric_gate F n" "n \<noteq> Pipe" "\<not> is_retry n" "\<And>l. n \<noteq> Label l" "\<And>l. n \<noteq> Jmp l"
    "dead_loop False [] (n # ns) = n # dead_loop False [] ns"
    "hoist_loop (n # ns) None None = n # hoist_loop ns None None"
  using assms by (cases n; auto simp: inert_def is_retry_def opt_node_def)+

lemma tidy_simplify: "tidy F ns \<Longrightarrow> simplify_gates F ns = ns"
proof -
  assume "tidy F ns"
  then have "list_all (\<lambda>n. \<not> numeric_gate F n) ns"
    by (induction rule: tidy_induct) (auto simp: inert_cases(1))
  then show ?thesis by (rule simplify_id)
qed

lemma tidy_hoist: "tidy F ns \<Longrightarrow> hoist_loop ns None None = ns"
proof (induction rule: tidy_induct)
  case (Timeout ms n ns)
  then show ?case by (cases n) (auto simp: is_call_def opt_node_def)
qed (simp_all add: inert_cases opt_node_def)

lemma merge_emits_single: "\<not> (is_emit n \<and> ns \<noteq> [] \<and> is_emit (hd ns)) \<Longrightarrow> merge_emits (n # ns) = n # merge_emits ns"
  by (cases ns; cases n) (auto simp: is_emit_def)

lemma tidy_merge_emits: "tidy F ns \<Longrightarrow> merge_emits ns = ns"
proof (induction rule: tidy_induct)
  case (Timeout ms n ns)
  then show ?case by (simp add: is_emit_def)
next
  case (Inert n ns)
  then show ?case by (simp add: merge_emits_single del: merge_emits.simps)
qed (simp_all add: is_emit_def)

lemma tidy_dead: "tidy F ns \<Longrightarrow> dead_loop False [] ns = ns"
proof (induction rule: tidy_induct)
  case (Inert n ns)
  then show ?case by (simp add: inert_cases(6) del: dead_loop.simps)
qed simp_all

lemma merge_retries_id: "list_all (\<lambda>n. \<not> is_retry n) ns \<Longrightarrow> merge_retries_loop r (ns @ ms) = merge_retries_loop (r @ ns) ms"
  by (induction ns arbitrary: r) auto

lemma tidy_retries: "tidy F ns \<Longrightarrow> \<exists>ms rs. ns = ms @ rs \<and> list_all (\<lambda>n. \<not> is_retry n) ms \<and> (rs = [] \<or> (\<exists>c s f. rs = [Retry c s f]))"
proof (induction rule: tidy_induct)
  case (Timeout ms n ns)
  then obtain as rs where "n # ns = as @ rs" "list_all (\<lambda>n. \<not> is_retry n) as" "rs = [] \<or> (\<exists>c s f. rs = [Retry c s f])" by blast
  then show ?case by (intro exI [of _ "Timeout ms # as"] exI [of _ rs]) (simp add: is_retry_def)
next
  case (Inert n ns)
  then obtain as rs where "ns = as @ rs" "list_all (\<lambda>n. \<not> is_retry n) as" "rs = [] \<or> (\<exists>c s f. rs = [Retry c s f])" by blast
  with Inert show ?case by (intro exI [of _ "n # as"] exI [of _ rs]) (simp add: inert_cases)
next
  case (Retry c s f)
  then show ?case by (intro exI [of _ "[]"] exI [of _ "[Retry c s f]"]) simp
qed simp

lemma tidy_merge_retries: "tidy F ns \<Longrightarrow> merge_retries ns = ns"
proof -
  assume "tidy F ns"
  from tidy_retries [OF this] obtain ms rs where ns: "ns = ms @ rs" "list_all (\<lambda>n. \<not> is_retry n) ms"
    "rs = [] \<or> (\<exists>c s f. rs = [Retry c s f])" by blast
  moreover have "ms \<noteq> [] \<Longrightarrow> \<not> is_retry (last ms)" using ns(2) by (auto simp: list_all_iff)
  ultimately show ?thesis by (auto simp: merge_retries_def merge_retries_id)
qed

lemma tidy_last: "tidy F ns \<Longrightarrow> remove_unused_labels ns = ns \<and> eliminate_redundant_jmps ns = ns \<and> remove_nops ns = ns"
proof (intro conjI)
  assume t: "tidy F ns"
  then have free: "list_all (\<lambda>n. n \<noteq> Pipe \<and> (\<forall>l. n \<noteq> Label l \<and> n \<noteq> Jmp l)) ns"
    by (induction rule: tidy_induct) (auto simp: inert_cases)
  then show "remove_nops ns = ns" by (auto simp: remove_nops_def list_all_iff)
  show "remove_unused_labels ns = ns"
    unfolding remove_unused_labels_def using free by (auto simp: list_all_iff split: ASTNode.splits)
  show "eliminate_redundant_jmps ns = ns"
    using free by (induction ns rule: eliminate_redundant_jmps.induct) auto
qed

lemma optimize_tidy: "tidy F ns \<Longrightarrow> optimize F ns = ns"
  by (simp add: optimize_def tidy_simplify hoist_timeouts_def tidy_hoist tidy_merge_emits remove_dead_code_def
      tidy_dead tidy_merge_retries tidy_last)

subsection \<open>Properties\<close>

text \<open>
  C39: The optimiser never adds, repeats or reorders calls: the services named by the optimised
  pipeline are a subsequence of those of the original, and the same ones when the pipeline has no
  drop, no jump and no gate on a number.
\<close>

theorem optimize_calls:
  "subseq (pipeline_calls (optimize F ns)) (pipeline_calls ns) \<and>
   (list_all (\<lambda>n. \<not> stops n \<and> \<not> numeric_gate F n) ns \<longrightarrow> pipeline_calls (optimize F ns) = pipeline_calls ns)"
proof (intro conjI impI)
  let ?m = "merge_emits (hoist_timeouts (simplify_gates F ns))"
  have o: "pipeline_calls (optimize F ns) = pipeline_calls (dead_loop False [] ?m)"
    by (simp add: optimize_def calls_passes merge_retries_def remove_dead_code_def)
  have m: "pipeline_calls ?m = pipeline_calls ns" by (simp add: calls_passes)
  show "subseq (pipeline_calls (optimize F ns)) (pipeline_calls ns)"
    using calls_dead_subseq [of "[]" False ?m] by (simp add: o m)
  assume "list_all (\<lambda>n. \<not> stops n \<and> \<not> numeric_gate F n) ns"
  then have "simplify_gates F ns = ns" "filter stops ns = []"
    by (auto simp: simplify_id list_all_iff filter_empty_conv)
  then have "filter stops (hoist_timeouts (simplify_gates F ns)) = []"
    using stops_hoist_loop [of None ns None] by (simp add: hoist_timeouts_def)
  then have "list_all (\<lambda>n. \<not> stops n) ?m"
    by (intro stops_merge_emits) (auto simp: list_all_iff filter_empty_conv)
  from calls_dead_eq [OF this, of "[]"] show "pipeline_calls (optimize F ns) = pipeline_calls ns" by (simp add: o m)
qed

theorem optimize_calls_witness:
  "\<exists>F :: nat f64_ops. subseq (pipeline_calls (optimize F [Next ''a'', Emit [''b''], Emit [''c'']])) [''a'', ''b'', ''c''] \<and>
     pipeline_calls (optimize F [Next ''a'', Emit [''b''], Emit [''c'']]) = [''a'', ''b'', ''c'']"
proof (rule exI)
  let ?F = "\<lparr>fl_parse = \<lambda>_. None, fl_close = (=), fl_apart = (\<noteq>), fl_less = (<), fl_le = (\<le>)\<rparr> :: nat f64_ops"
  show "subseq (pipeline_calls (optimize ?F [Next ''a'', Emit [''b''], Emit [''c'']])) [''a'', ''b'', ''c''] \<and>
      pipeline_calls (optimize ?F [Next ''a'', Emit [''b''], Emit [''c'']]) = [''a'', ''b'', ''c'']"
    using optimize_calls [of ?F "[Next ''a'', Emit [''b''], Emit [''c'']]"] by (simp add: numeric_gate_def)
qed

text \<open>
  The documented way to write an alternative, a gate, the first branch with a jump behind the
  second branch, the second branch and the label, loses the second branch: everything between
  the jump and the label is removed as dead code.
\<close>

lemma optimize_if_else:
  assumes "fl_parse F field = None"
  shows "optimize F [Gate field op val, Next a, Jmp l, Next b, Label l] = [Gate field op val, Next a, Label l]"
  using assms
  by (simp add: optimize_def hoist_timeouts_def opt_node_def is_emit_def remove_dead_code_def merge_retries_def
      is_retry_def remove_unused_labels_def jmp_targets_def remove_nops_def)

end
