(* ===== verification/RT_Json.thy ===== *)
theory RT_Json
  imports RT_Optimizer "HOL-Library.List_Lexorder" "HOL-Library.Char_ord"
begin

text \<open>
  JSON values as the executor of the runtime uses them.  Reading and printing JSON is the crate \<^verbatim>\<open>serde_json\<close>, here
  the argument \<open>J\<close>; its values are modelled as the data type the crate documents, with objects as lists sorted
  by key.  Double-precision numbers are the argument \<open>F\<close>.  On top of them: \<^verbatim>\<open>deep_merge\<close> of \<^verbatim>\<open>executor/dag.rs\<close>, the
  schema check of \<^verbatim>\<open>bytecode/resolved_type.rs\<close>, and the field access and the comparisons of \<^verbatim>\<open>executor/helpers.rs\<close>.
  Messages of errors keep their fixed part and the values it is about.
\<close>

subsection \<open>Values\<close>

datatype 'f Number = PosInt u64 | NegInt int | FloatNum 'f

datatype 'f Value =
    JNull
  | JBool bool
  | JNumber "'f Number"
  | JString string
  | JArray "'f Value list"
  | JObject "(string \<times> 'f Value) list"

record 'f json =
  js_parse :: "string \<Rightarrow> string + 'f Value"
  js_print :: "'f Value \<Rightarrow> string"

record 'f f64_all = "'f f64_ops" +
  fl_zero :: 'f
  fl_of_nat :: "nat \<Rightarrow> 'f"
  fl_to_nat :: "'f \<Rightarrow> nat"
  fl_of_int :: "int \<Rightarrow> 'f"
  fl_of_duration :: "nat \<Rightarrow> nat \<Rightarrow> 'f"
  fl_abs :: "'f \<Rightarrow> 'f"
  fl_round :: "'f \<Rightarrow> 'f"
  fl_ceil :: "'f \<Rightarrow> 'f"
  fl_floor :: "'f \<Rightarrow> 'f"
  fl_min :: "'f \<Rightarrow> 'f \<Rightarrow> 'f"
  fl_max :: "'f \<Rightarrow> 'f \<Rightarrow> 'f"
  fl_has_fract :: "'f \<Rightarrow> bool"
  fl_finite :: "'f \<Rightarrow> bool"

text \<open>The maps of the crate are B-tree maps: lists sorted by key.\<close>

fun map_insert :: "string \<Rightarrow> 'v \<Rightarrow> (string \<times> 'v) list \<Rightarrow> (string \<times> 'v) list" where
  "map_insert k v [] = [(k, v)]"
| "map_insert k v ((k', v') # m) =
     (if k = k' then (k, v) # m else if k < k' then (k, v) # (k', v') # m else (k', v') # map_insert k v m)"

definition map_remove :: "string \<Rightarrow> (string \<times> 'v) list \<Rightarrow> (string \<times> 'v) list" where
  "map_remove k m = filter (\<lambda>(k', _). k' \<noteq> k) m"

text \<open>The objects of a value have sorted keys without repetition, at every depth.\<close>

fun value_ok :: "'f Value \<Rightarrow> bool" where
  "value_ok (JArray vs) = list_all value_ok vs"
| "value_ok (JObject m) = (sorted_wrt (<) (map fst m) \<and> list_all (\<lambda>(_, v). value_ok v) m)"
| "value_ok _ = True"

definition is_object :: "'f Value \<Rightarrow> bool" where
  "is_object v = (case v of JObject _ \<Rightarrow> True | _ \<Rightarrow> False)"

definition parse_or :: "'f json \<Rightarrow> 'f Value \<Rightarrow> string \<Rightarrow> 'f Value" where
  "parse_or J d s = (case js_parse J s of Inr v \<Rightarrow> v | Inl _ \<Rightarrow> d)"

subsection \<open>Text\<close>

text \<open>
  The first character of a byte string: \<open>Inr n\<close> is a character of \<open>n\<close> bytes, \<open>Inl n\<close> are \<open>n\<close> bytes that do not
  start a character.
\<close>

definition byte_in :: "string \<Rightarrow> nat \<Rightarrow> nat \<Rightarrow> nat \<Rightarrow> bool" where
  "byte_in s i lo hi \<longleftrightarrow> i < length s \<and> lo \<le> (of_char (s ! i) :: nat) \<and> (of_char (s ! i) :: nat) \<le> hi"

definition utf8_next :: "string \<Rightarrow> nat + nat" where
  "utf8_next s =
     (if byte_in s 0 0 0x7F then Inr 1
      else if byte_in s 0 0xC2 0xDF then (if byte_in s 1 0x80 0xBF then Inr 2 else Inl 1)
      else if byte_in s 0 0xE0 0xEF then
        (if byte_in s 1 (if byte_in s 0 0xE0 0xE0 then 0xA0 else 0x80) (if byte_in s 0 0xED 0xED then 0x9F else 0xBF)
         then (if byte_in s 2 0x80 0xBF then Inr 3 else Inl 2) else Inl 1)
      else if byte_in s 0 0xF0 0xF4 then
        (if byte_in s 1 (if byte_in s 0 0xF0 0xF0 then 0x90 else 0x80) (if byte_in s 0 0xF4 0xF4 then 0x8F else 0xBF)
         then (if byte_in s 2 0x80 0xBF then (if byte_in s 3 0x80 0xBF then Inr 4 else Inl 3) else Inl 2) else Inl 1)
      else Inl 1)"

lemma utf8_next_pos [simp]: "utf8_next s = Inr n \<Longrightarrow> 0 < n" "utf8_next s = Inl n \<Longrightarrow> 0 < n"
  by (auto simp: utf8_next_def split: if_splits)

function from_utf8_lossy :: "string \<Rightarrow> string" where
  "from_utf8_lossy s =
     (if s = [] then []
      else case utf8_next s of
        Inr n \<Rightarrow> take n s @ from_utf8_lossy (drop n s)
      | Inl n \<Rightarrow> [CHR 0xEF, CHR 0xBF, CHR 0xBD] @ from_utf8_lossy (drop n s))"
  by auto

termination
  by (relation "measure length") auto

function is_utf8 :: "string \<Rightarrow> bool" where
  "is_utf8 s = (if s = [] then True else case utf8_next s of Inr n \<Rightarrow> is_utf8 (drop n s) | Inl _ \<Rightarrow> False)"
  by auto

termination
  by (relation "measure length") auto

declare from_utf8_lossy.simps [simp del] is_utf8.simps [simp del]

lemma lossy_utf8: "is_utf8 s \<Longrightarrow> from_utf8_lossy s = s"
proof (induction s rule: is_utf8.induct)
  case (1 s)
  show ?case
  proof (cases "s = []")
    case True
    then show ?thesis by (simp add: from_utf8_lossy.simps)
  next
    case False
    with 1 show ?thesis
      by (subst from_utf8_lossy.simps) (auto simp: is_utf8.simps [of s] split: sum.splits)
  qed
qed

subsection \<open>Merging\<close>

text \<open>
  The loop over the second object; a member that is an object is merged into the member of that name, or into a new
  object.
\<close>

fun deep_merge :: "'f Value \<Rightarrow> 'f Value \<Rightarrow> 'f Value"
  and merge_members :: "(string \<times> 'f Value) list \<Rightarrow> (string \<times> 'f Value) list \<Rightarrow> (string \<times> 'f Value) list" where
  "deep_merge (JObject a_map) (JObject b_map) = JObject (merge_members a_map b_map)"
| "deep_merge a b = b"
| "merge_members a_map [] = a_map"
| "merge_members a_map ((k, v) # b_map) =
     merge_members
       (map_insert k
         (if is_object v
          then deep_merge (case map_of a_map k of Some a \<Rightarrow> a | None \<Rightarrow> JObject []) v
          else v) a_map) b_map"

subsection \<open>Schemas\<close>

definition type_matches :: "ResolvedType \<Rightarrow> 'f Value \<Rightarrow> bool" where
  "type_matches t v =
     (case t of
        TString \<Rightarrow> (case v of JString _ \<Rightarrow> True | _ \<Rightarrow> False)
      | TInteger \<Rightarrow> (case v of JNumber (PosInt _) \<Rightarrow> True | JNumber (NegInt _) \<Rightarrow> True | _ \<Rightarrow> False)
      | TFloat \<Rightarrow> (case v of JNumber (FloatNum _) \<Rightarrow> True | _ \<Rightarrow> False)
      | TBoolean \<Rightarrow> (case v of JBool _ \<Rightarrow> True | _ \<Rightarrow> False)
      | TObject \<Rightarrow> is_object v
      | TArray \<Rightarrow> (case v of JArray _ \<Rightarrow> True | _ \<Rightarrow> False)
      | TEnum variants \<Rightarrow> (case v of JString s \<Rightarrow> s \<in> set variants | _ \<Rightarrow> False)
      | TNull \<Rightarrow> v = JNull
      | TAny \<Rightarrow> True)"

fun check_fields :: "FieldSchema list \<Rightarrow> (string \<times> 'f Value) list \<Rightarrow> string + unit" where
  "check_fields [] m = Inr ()"
| "check_fields (fd # fds) m =
     (case map_of m (fsc_name fd) of
        None \<Rightarrow> if fsc_required fd then Inl (''missing required field '' @ fsc_name fd) else check_fields fds m
      | Some v \<Rightarrow> if type_matches (fsc_type fd) v then check_fields fds m
                  else Inl (''unexpected type of field '' @ fsc_name fd))"

definition is_valid :: "Schema \<Rightarrow> 'f Value \<Rightarrow> string + unit" where
  "is_valid schema body = (case body of JObject m \<Rightarrow> check_fields schema m | _ \<Rightarrow> Inl ''body is not an object'')"

subsection \<open>Fields and comparisons\<close>

fun follow :: "string list \<Rightarrow> 'f Value \<Rightarrow> 'f Value option" where
  "follow [] current = Some current"
| "follow (part # parts) current =
     (case current of
        JObject m \<Rightarrow> (case map_of m part of None \<Rightarrow> None | Some v \<Rightarrow> follow parts v)
      | _ \<Rightarrow> None)"

definition extract_json_field :: "'f json \<Rightarrow> string \<Rightarrow> string \<Rightarrow> string option" where
  "extract_json_field J body field_path =
     (if \<not> is_utf8 body then None
      else case js_parse J body of
        Inl _ \<Rightarrow> None
      | Inr v \<Rightarrow> map_option (js_print J) (follow (split_at (CHR ''.'') field_path) v))"

definition compare_values :: "('f, 'm) f64_all_scheme \<Rightarrow> string \<Rightarrow> u8 \<Rightarrow> string \<Rightarrow> bool" where
  "compare_values F field_val op compare_val =
     (let field_str = (if is_utf8 field_val then field_val else []);
          num = (\<lambda>s. case fl_parse F s of Some x \<Rightarrow> x | None \<Rightarrow> fl_zero F)
      in if op = 0 then field_str = compare_val
         else if op = 1 then field_str \<noteq> compare_val
         else if op = 2 then fl_less F (num compare_val) (num field_str)
         else if op = 3 then fl_less F (num field_str) (num compare_val)
         else if op = 4 then fl_le F (num compare_val) (num field_str)
         else if op = 5 then fl_le F (num field_str) (num compare_val)
         else if op = 6 then find_str compare_val field_str \<noteq> None
         else False)"

subsection \<open>Sorted maps\<close>

lemma map_insert_lookup [simp]: "map_of (map_insert k v m) = (map_of m)(k \<mapsto> v)"
  by (induction m rule: map_insert.induct) (auto simp: fun_eq_iff)

lemma map_insert_keys: "fst ` set (map_insert k v m) = insert k (fst ` set m)"
  by (induction m rule: map_insert.induct) auto

lemma map_insert_sorted:
  "sorted_wrt (<) (map fst m) \<Longrightarrow> sorted_wrt (<) (map fst (map_insert k v m))"
proof (induction m)
  case (Cons kv m)
  obtain k' v' where kv: "kv = (k', v')" by fastforce
  have keys: "set (map fst (map_insert k v m)) = insert k (set (map fst m))"
    using map_insert_keys [of k v m] by simp
  from Cons show ?case
    unfolding kv by (auto simp: keys simp del: set_map)
qed simp

lemma map_insert_all: "list_all P m \<Longrightarrow> P (k, v) \<Longrightarrow> list_all P (map_insert k v m)"
  by (induction m rule: map_insert.induct) auto

lemma value_ok_lookup: "map_of m k = Some v \<Longrightarrow> value_ok (JObject m) \<Longrightarrow> value_ok v"
  by (auto simp: list_all_iff dest!: map_of_SomeD)

lemma value_ok_insert: "value_ok (JObject m) \<Longrightarrow> value_ok v \<Longrightarrow> value_ok (JObject (map_insert k v m))"
  by (simp add: map_insert_sorted map_insert_all)

lemma deep_merge_ok:
  fixes a b :: "'f Value" and m n :: "(string \<times> 'f Value) list"
  shows "value_ok a \<Longrightarrow> value_ok b \<Longrightarrow> value_ok (deep_merge a b)"
  and "value_ok (JObject m) \<Longrightarrow> list_all (\<lambda>(_, v). value_ok v) n \<Longrightarrow> value_ok (JObject (merge_members m n))"
proof (induction a b and m n rule: deep_merge_merge_members.induct)
  case (4 m k v n)
  have "value_ok (deep_merge (case map_of m k of Some a \<Rightarrow> a | None \<Rightarrow> JObject []) v)" if "is_object v"
  proof (rule "4.IH"(1) [OF that])
    show "value_ok (case map_of m k of Some a \<Rightarrow> a | None \<Rightarrow> JObject [])"
      using "4.prems"(1) by (cases "map_of m k") (auto dest: value_ok_lookup)
  qed (use "4.prems"(2) in simp)
  then have "value_ok (if is_object v then deep_merge (case map_of m k of Some a \<Rightarrow> a | None \<Rightarrow> JObject []) v else v)"
    using "4.prems"(2) by simp
  then show ?case
    using "4.IH"(2) value_ok_insert [OF "4.prems"(1), of _ k] "4.prems"(2) by simp
qed simp_all

text \<open>A member of the merged object, as the second object, the first, or both have it.\<close>

lemma merge_members_lookup:
  "distinct (map fst n) \<Longrightarrow>
     map_of (merge_members m n) k =
       (case map_of n k of
          None \<Rightarrow> map_of m k
        | Some v \<Rightarrow> Some (if is_object v then deep_merge (case map_of m k of Some a \<Rightarrow> a | None \<Rightarrow> JObject []) v else v))"
proof (induction n arbitrary: m)
  case (Cons kv n)
  obtain k' v' where kv: "kv = (k', v')" by fastforce
  have "map_of n k' = None" using Cons.prems by (simp add: kv map_of_eq_None_iff)
  moreover have "distinct (map fst n)" using Cons.prems by simp
  note IH = Cons.IH [OF this]
  ultimately show ?case unfolding kv merge_members.simps IH by (cases "k = k'") (simp_all split: option.split)
qed simp

end
