(* ===== verification/RT_Expr.thy ===== *)
theory RT_Expr
  imports RT_Json
begin

text \<open>
  The expressions of a map step, \<^verbatim>\<open>runtime/src/executor/expr\<close> and \<^verbatim>\<open>executor/map.rs\<close>: parser, evaluator, the built-in
  functions and the assignment to a field.  What the functions take from outside the program is the record \<open>E\<close>:
  identifiers, the clock, plugins, the hash of the standard library and its tables of Unicode letters.  The outside has
  a state that is passed along.
\<close>

record 'w env =
  env_uuid :: "'w \<Rightarrow> string \<times> 'w"
  env_clock :: "'w \<Rightarrow> (nat \<times> nat) \<times> 'w"
  env_plugin :: "string \<Rightarrow> string \<Rightarrow> string \<Rightarrow> 'w \<Rightarrow> (string + string) \<times> 'w"
  env_hash :: "string \<Rightarrow> u64"
  env_lower :: "string \<Rightarrow> string"
  env_upper :: "string \<Rightarrow> string"
  env_alnum :: "string \<Rightarrow> bool"

type_synonym 'a evaluated = "(string, 'a) rres"

subsection \<open>Strings\<close>

fun rmap :: "('a \<Rightarrow> ('e, 'b) rres) \<Rightarrow> 'a list \<Rightarrow> ('e, 'b list) rres" where
  "rmap f [] = ROk []"
| "rmap f (x # xs) = rbind (f x) (\<lambda>y. rbind (rmap f xs) (\<lambda>ys. ROk (y # ys)))"

lemma rmap_cong [fundef_cong]: "xs = ys \<Longrightarrow> (\<And>x. x \<in> set ys \<Longrightarrow> f x = g x) \<Longrightarrow> rmap f xs = rmap g ys"
  by (induction ys arbitrary: xs) auto

text \<open>The characters of a string, each as its bytes.\<close>

function str_chars :: "string \<Rightarrow> string list" where
  "str_chars s =
     (if s = [] then [] else case utf8_next s of Inr n \<Rightarrow> take n s # str_chars (drop n s) | Inl n \<Rightarrow> take n s # str_chars (drop n s))"
  by auto

termination
  by (relation "measure length") auto

definition cut_at :: "string \<Rightarrow> string \<Rightarrow> (string \<times> string) option" where
  "cut_at p s = (case find_str p s of None \<Rightarrow> None | Some i \<Rightarrow> Some (take i s, drop (i + length p) s))"

lemma find_str_length: "find_str p s = Some i \<Longrightarrow> i + length p \<le> length s"
proof (induction p s arbitrary: i rule: find_str.induct)
  case (2 p c s)
  then show ?case
    by (cases "starts_with (c # s) p") (auto dest: arg_cong [of _ _ length] simp del: take_Cons')
qed (auto split: if_splits)

lemma cut_at_length: "cut_at p s = Some (a, b) \<Longrightarrow> p \<noteq> [] \<Longrightarrow> length b < length s"
  by (cases p) (auto simp: cut_at_def split: option.splits dest!: find_str_length)

function split_str :: "string \<Rightarrow> string \<Rightarrow> string list" where
  "split_str p s =
     (if p = [] then [s] else case cut_at p s of None \<Rightarrow> [s] | Some (a, b) \<Rightarrow> a # split_str p b)"
  by auto

termination
  by (relation "measure (\<lambda>(_, s). length s)") (auto dest: cut_at_length)

declare str_chars.simps [simp del] split_str.simps [simp del]

definition replace_str :: "string \<Rightarrow> string \<Rightarrow> string \<Rightarrow> string" where
  "replace_str s from to =
     (if from = [] then to @ concat (map (\<lambda>c. c @ to) (str_chars s)) else join to (split_str from s))"

definition parse_i64 :: "string \<Rightarrow> int option" where
  "parse_i64 s =
     (let neg = starts_with s ''-''; ds = (if neg \<or> starts_with s ''+'' then tl s else s);
          n = (if neg then - int (undec ds) else int (undec ds))
      in if ds \<noteq> [] \<and> list_all is_digit ds \<and> - (2 ^ 63) \<le> n \<and> n < 2 ^ 63 then Some n else None)"

subsection \<open>Parser\<close>

datatype 'f Expr =
    Field string
  | FnCall string "'f Expr list"
  | Concat "'f Expr list"
  | Literal string
  | NumberLit 'f
  | Raw string

text \<open>
  The loop of \<open>parse_args\<close>: the input, what is left of it, the index, the start of the current argument, the depth of
  parentheses and the open quote.  It gives the arguments that are parsed.
\<close>

definition arg_part :: "string \<Rightarrow> nat \<Rightarrow> nat \<Rightarrow> string list" where
  "arg_part input start stop = (let part = trim (take (stop - start) (drop start input)) in if part = [] then [] else [part])"

fun args_loop :: "string \<Rightarrow> string \<Rightarrow> nat \<Rightarrow> nat \<Rightarrow> int \<Rightarrow> char option \<Rightarrow> string list" where
  "args_loop input [] i start depth quote = []"
| "args_loop input (c # rest) i start depth (Some q) =
     (if rest = [] then arg_part input start (length input) else [])
       @ args_loop input rest (Suc i) start depth (if c = q then None else Some q)"
| "args_loop input (c # rest) i start depth None =
     (if c = CHR 0x27 \<or> c = CHR 0x22 then args_loop input rest (Suc i) start depth (Some c)
      else
        let depth1 = (if c = CHR ''('' then depth + 1 else depth); depth2 = (if c = CHR '')'' then depth1 - 1 else depth1)
        in if (c = CHR '','' \<and> depth2 = 0) \<or> rest = []
           then arg_part input start (if rest = [] then Suc i else i) @ args_loop input rest (Suc i) (Suc i) depth2 None
           else args_loop input rest (Suc i) start depth2 None)"

definition split_args :: "string \<Rightarrow> string list" where
  "split_args input = args_loop input input 0 0 0 None"

definition is_valid_field :: "'w env \<Rightarrow> string \<Rightarrow> bool" where
  "is_valid_field E s \<longleftrightarrow> s \<noteq> [] \<and> list_all (\<lambda>c. env_alnum E c \<or> c = ''_'' \<or> c = ''.'') (str_chars s)"

definition quoted :: "char \<Rightarrow> string \<Rightarrow> bool" where
  "quoted q s \<longleftrightarrow> starts_with s [q] \<and> ends_with s [q]"

lemma trim_length: "length (trim s) \<le> length s"
proof -
  have "length (trim_start s) \<le> length s" for s
    by (induction s rule: trim_start.induct) (subst trim_start.simps, auto split: option.split dest: ws_at_length)
  moreover have "length (trim_end s) \<le> length s" for s
    by (induction s rule: trim_end.induct) (subst trim_end.simps, auto split: option.split dest: ws_end_length)
  ultimately show ?thesis unfolding trim_def by (meson le_trans)
qed

lemma split_at_length: "w \<in> set (split_at c s) \<Longrightarrow> length w \<le> length s \<and> (c \<in> set s \<longrightarrow> length w < length s)"
  by (induction c s arbitrary: w rule: split_at.induct) (force split: if_splits list.splits)+

lemma arg_part_length: "w \<in> set (arg_part input start stop) \<Longrightarrow> length w \<le> length input"
  using trim_length [of "take (stop - start) (drop start input)"] by (auto simp: arg_part_def Let_def split: if_splits)

lemma args_loop_length: "w \<in> set (args_loop input rest i start depth quote) \<Longrightarrow> length w \<le> length input"
  by (induction input rest i start depth quote rule: args_loop.induct)
    (auto simp: Let_def split: if_splits dest: arg_part_length)

lemma parse_expr_args:
  assumes "x \<in> set (split_args (butlast (drop (Suc n) (trim s))))" and "CHR ''('' \<in> set (trim s)"
  shows "length x < length s"
proof -
  have "length x \<le> length (butlast (drop (Suc n) (trim s)))" using assms(1) unfolding split_args_def by (rule args_loop_length)
  moreover have "trim s \<noteq> []" using assms(2) by auto
  ultimately show ?thesis using trim_length [of s] by (cases "trim s") auto
qed

lemma parse_expr_parts:
  assumes "p \<in> set (split_at (CHR ''+'') (trim s))" and "CHR ''+'' \<in> set (trim s)"
  shows "length (trim p) < length s"
  using split_at_length [OF assms(1)] assms(2) trim_length [of p] trim_length [of s] by simp

function parse_expr :: "('f, 'm) f64_all_scheme \<Rightarrow> 'w env \<Rightarrow> string \<Rightarrow> 'f Expr evaluated" where
  "parse_expr F E input0 =
     (let input = trim input0 in
      if quoted (CHR 0x22) input \<or> quoted (CHR 0x27) input then
        (case slice input 1 (length input - 1) of None \<Rightarrow> RPanic | Some s \<Rightarrow> ROk (Literal s))
      else case fl_parse F input of
        Some n \<Rightarrow> ROk (NumberLit n)
      | None \<Rightarrow>
      if CHR ''('' \<in> set input \<and> ends_with input '')'' then
        (let opn = length (takeWhile (\<lambda>c. c \<noteq> CHR ''('') input);
             args_str = butlast (drop (Suc opn) input)
         in rbind (if trim args_str = [] then ROk [] else rmap (parse_expr F E) (split_args args_str)) (\<lambda>args.
            ROk (FnCall (trim (take opn input)) args)))
      else
        let parts = split_at (CHR ''+'') input in
        if CHR ''+'' \<in> set input \<and> \<not> starts_with input ''+'' \<and>
           list_all (\<lambda>p. CHR ''('' \<notin> set p \<and> CHR '')'' \<notin> set p) parts
        then rbind (rmap (\<lambda>p. parse_expr F E (trim p)) parts) (\<lambda>es. ROk (Concat es))
        else if is_valid_field E input then ROk (Field input) else ROk (Raw input))"
  by auto

termination
  by (relation "measure (\<lambda>(_, _, s). length s)") (auto dest: parse_expr_args parse_expr_parts)

declare parse_expr.simps [simp del]

subsection \<open>Base 64\<close>

definition b64_chars :: string where
  "b64_chars = ''ABCDEFGHIJKLMNOPQRSTUVWXYZabcdefghijklmnopqrstuvwxyz0123456789+/''"

definition b64_char :: "u32 \<Rightarrow> char" where
  "b64_char v = b64_chars ! unat (v AND 0x3F)"

definition b64_value :: "char \<Rightarrow> u32 option" where
  "b64_value c = map_option word_of_nat (List.find (\<lambda>i. b64_chars ! i = c) [0..<64])"

definition byte_u32 :: "char \<Rightarrow> u32" where
  "byte_u32 c = word_of_nat (of_char c)"

definition u32_byte :: "u32 \<Rightarrow> char" where
  "u32_byte v = char_of (unat (ucast v :: u8))"

definition encode_chunk :: "string \<Rightarrow> string" where
  "encode_chunk chunk =
     (let get = (\<lambda>i. if i < length chunk then byte_u32 (chunk ! i) else 0);
          triple = push_bit 16 (get 0) OR push_bit 8 (get 1) OR get 2
      in [b64_char (drop_bit 18 triple), b64_char (drop_bit 12 triple),
          if 1 < length chunk then b64_char (drop_bit 6 triple) else CHR ''='',
          if 2 < length chunk then b64_char triple else CHR ''=''])"

function chunks_of :: "nat \<Rightarrow> 'a list \<Rightarrow> 'a list list" where
  "chunks_of n xs = (if xs = [] \<or> n = 0 then [] else take n xs # chunks_of n (drop n xs))"
  by auto

termination
  by (relation "measure (\<lambda>(_, xs). length xs)") auto

declare chunks_of.simps [simp del]

definition base64_encode :: "string \<Rightarrow> string" where
  "base64_encode s = concat (map encode_chunk (chunks_of 3 s))"

text \<open>The values of a chunk are shifted together, and as many whole bytes as they hold are shifted out.\<close>

fun decode_bits :: "string \<Rightarrow> u32 \<Rightarrow> nat \<Rightarrow> (u32 \<times> nat) evaluated" where
  "decode_bits [] buf bits = ROk (buf, bits)"
| "decode_bits (b # bs) buf bits =
     (case b64_value b of
        None \<Rightarrow> RErr (''base64_decode: invalid character '' @ [b])
      | Some v \<Rightarrow> decode_bits bs (push_bit 6 buf OR v) (bits + 6))"

fun out_bytes :: "u32 \<Rightarrow> nat \<Rightarrow> string" where
  "out_bytes buf bits = (if 8 \<le> bits then u32_byte (drop_bit (bits - 8) buf) # out_bytes buf (bits - 8) else [])"

definition decode_chunk :: "string \<Rightarrow> string evaluated" where
  "decode_chunk chunk = rbind (decode_bits chunk 0 0) (\<lambda>(buf, bits). ROk (out_bytes buf bits))"

definition decode_base64 :: "string \<Rightarrow> string evaluated" where
  "decode_base64 s = rbind (rmap decode_chunk (chunks_of 4 (trim_end_matches (CHR ''='') s))) (\<lambda>outs. ROk (concat outs))"

subsection \<open>The date\<close>

definition pad :: "nat \<Rightarrow> string \<Rightarrow> string" where
  "pad n s = replicate (n - length s) (CHR ''0'') @ s"

definition civil :: "nat \<Rightarrow> int \<times> int \<times> int" where
  "civil days =
     (let z = int days + 719468;
          era = (if z \<ge> 0 then z else z - 146096) div 146097;
          doe = z - era * 146097;
          yoe = (doe - doe div 1460 + doe div 36524 - doe div 146096) div 365;
          y = yoe + era * 400;
          doy = doe - (365 * yoe + yoe div 4 - yoe div 100);
          mp = (5 * doy + 2) div 153;
          d = doy - (153 * mp + 2) div 5 + 1;
          m = (if mp < 10 then mp + 3 else mp - 9)
      in (if m \<le> 2 then y + 1 else y, m, d))"

definition now_iso :: "nat \<times> nat \<Rightarrow> string" where
  "now_iso = (\<lambda>(total_secs, nanos).
     case civil (total_secs div 86400) of (y, m, d) \<Rightarrow>
       let time = total_secs mod 86400 in
       pad 4 (dec (nat y)) @ ''-'' @ pad 2 (dec (nat m)) @ ''-'' @ pad 2 (dec (nat d)) @ ''T'' @
       pad 2 (dec (time div 3600)) @ '':'' @ pad 2 (dec ((time mod 3600) div 60)) @ '':'' @ pad 2 (dec (time mod 60)) @
       ''.'' @ pad 9 (dec nanos) @ ''Z'')"

subsection \<open>Functions\<close>

definition value_to_string :: "'f json \<Rightarrow> 'f Value \<Rightarrow> string" where
  "value_to_string J v = (case v of JString s \<Rightarrow> s | JNull \<Rightarrow> ''null'' | _ \<Rightarrow> js_print J v)"

definition arg :: "'a list \<Rightarrow> nat \<Rightarrow> 'a option" where
  "arg args i = (if i < length args then Some (args ! i) else None)"

definition arg_as_str :: "'f json \<Rightarrow> 'f Value list \<Rightarrow> nat \<Rightarrow> string" where
  "arg_as_str J args i = (case arg args i of None \<Rightarrow> [] | Some v \<Rightarrow> value_to_string J v)"

definition as_f64 :: "('f, 'm) f64_all_scheme \<Rightarrow> 'f Number \<Rightarrow> 'f" where
  "as_f64 F n = (case n of PosInt u \<Rightarrow> fl_of_nat F (unat u) | NegInt i \<Rightarrow> fl_of_int F i | FloatNum x \<Rightarrow> x)"

definition arg_as_f64 :: "('f, 'm) f64_all_scheme \<Rightarrow> 'f Value list \<Rightarrow> nat \<Rightarrow> 'f option" where
  "arg_as_f64 F args i =
     (case arg args i of
        Some (JNumber n) \<Rightarrow> Some (as_f64 F n)
      | Some (JString s) \<Rightarrow> fl_parse F s
      | _ \<Rightarrow> None)"

definition from_f64 :: "('f, 'm) f64_all_scheme \<Rightarrow> 'f Value \<Rightarrow> 'f \<Rightarrow> 'f Value" where
  "from_f64 F d x = (if fl_finite F x then JNumber (FloatNum x) else d)"

abbreviation number_zero :: "'f Value" where
  "number_zero \<equiv> JNumber (PosInt 0)"

definition require :: "string \<Rightarrow> 'a option \<Rightarrow> ('a \<Rightarrow> 'b evaluated) \<Rightarrow> 'b evaluated" where
  "require msg x f = (case x of None \<Rightarrow> RErr msg | Some v \<Rightarrow> f v)"

definition call_arithmetic :: "('f, 'm) f64_all_scheme \<Rightarrow> string \<Rightarrow> 'f Value list \<Rightarrow> 'f Value evaluated" where
  "call_arithmetic F name args =
     (let num = (\<lambda>i. require (name @ '': expected number'') (arg_as_f64 F args i))
      in if name = ''abs'' then num 0 (\<lambda>n. ROk (from_f64 F JNull (fl_abs F n)))
         else if name = ''round'' then num 0 (\<lambda>n. ROk (from_f64 F number_zero (fl_round F n)))
         else if name = ''ceil'' then num 0 (\<lambda>n. ROk (from_f64 F number_zero (fl_ceil F n)))
         else if name = ''floor'' then num 0 (\<lambda>n. ROk (from_f64 F number_zero (fl_floor F n)))
         else if name = ''min'' then num 0 (\<lambda>a. num 1 (\<lambda>b. ROk (from_f64 F JNull (fl_min F a b))))
         else if name = ''max'' then num 0 (\<lambda>a. num 1 (\<lambda>b. ROk (from_f64 F JNull (fl_max F a b))))
         else RErr (''unknown arithmetic function: '' @ name))"

definition call_string :: "('f, 'm) f64_all_scheme \<Rightarrow> 'f json \<Rightarrow> 'w env \<Rightarrow> string \<Rightarrow> 'f Value list \<Rightarrow> 'f Value evaluated" where
  "call_string F J E name args =
     (let s = arg_as_str J args 0
      in if name = ''lower'' then ROk (JString (env_lower E s))
         else if name = ''upper'' then ROk (JString (env_upper E s))
         else if name = ''trim'' then ROk (JString (trim s))
         else if name = ''length'' then ROk (JNumber (PosInt (word_of_nat (length s))))
         else if name = ''concat'' then ROk (JString (concat (map (value_to_string J) args)))
         else if name = ''substring'' then
           (let start = fl_to_nat F (case arg_as_f64 F args 1 of None \<Rightarrow> fl_zero F | Some x \<Rightarrow> x);
                stop = fl_to_nat F (case arg_as_f64 F args 2 of None \<Rightarrow> fl_of_nat F (length s) | Some x \<Rightarrow> x)
            in case slice s start (min stop (length s)) of None \<Rightarrow> RPanic | Some t \<Rightarrow> ROk (JString t))
         else if name = ''replace'' then ROk (JString (replace_str s (arg_as_str J args 1) (arg_as_str J args 2)))
         else if name = ''split'' then
           (let delim = arg_as_str J args 1
            in ROk (JArray (map JString (if delim = [] then str_chars s else split_str delim s))))
         else if name = ''base64'' then ROk (JString (base64_encode s))
         else if name = ''base64_decode'' then
           rbind (decode_base64 s) (\<lambda>bytes. ROk (if is_utf8 bytes then JString bytes else JNull))
         else RErr (''unknown string function: '' @ name))"

definition of_i64 :: "int \<Rightarrow> 'f Number" where
  "of_i64 n = (if n < 0 then NegInt n else PosInt (word_of_int n))"

definition call_conversion :: "('f, 'm) f64_all_scheme \<Rightarrow> 'f json \<Rightarrow> 'w env \<Rightarrow> string \<Rightarrow> 'f Value list \<Rightarrow> 'f Value evaluated" where
  "call_conversion F J E name args =
     (let s = arg_as_str J args 0
      in if name = ''to_string'' then ROk (JString (value_to_string J (case arg args 0 of None \<Rightarrow> JNull | Some v \<Rightarrow> v)))
         else if name = ''parse_int'' then
           require ''parse_int error'' (parse_i64 s) (\<lambda>n. ROk (JNumber (of_i64 n)))
         else if name = ''parse_float'' then require ''parse_float error'' (fl_parse F s) (\<lambda>n. ROk (from_f64 F JNull n))
         else if name = ''parse_bool'' then
           (let b = env_lower E s
            in if b \<in> {''true'', ''1'', ''yes''} then ROk (JBool True)
               else if b \<in> {''false'', ''0'', ''no''} then ROk (JBool False)
               else RErr (''parse_bool: cannot parse '' @ b))
         else if name = ''json'' then (case js_parse J s of Inl e \<Rightarrow> RErr (''json parse error: '' @ e) | Inr v \<Rightarrow> ROk v)
         else RErr (''unknown conversion function: '' @ name))"

definition call_collection :: "string \<Rightarrow> 'f Value list \<Rightarrow> 'f Value evaluated" where
  "call_collection name args =
     (if name = ''contains'' then
        require ''contains: missing list arg'' (arg args 0) (\<lambda>list.
        require ''contains: missing value arg'' (arg args 1) (\<lambda>val.
          case list of JArray arr \<Rightarrow> ROk (JBool (val \<in> set arr)) | _ \<Rightarrow> RErr ''contains: first arg must be an array''))
      else if name = ''keys'' then
        require ''keys: missing object arg'' (arg args 0) (\<lambda>obj.
          case obj of JObject m \<Rightarrow> ROk (JArray (map (JString \<circ> fst) m)) | _ \<Rightarrow> RErr ''keys: arg must be an object'')
      else if name = ''merge'' then
        require ''merge: missing first arg'' (arg args 0) (\<lambda>a.
        require ''merge: missing second arg'' (arg args 1) (\<lambda>b. ROk (deep_merge a b)))
      else RErr (''unknown collection function: '' @ name))"

definition type_name :: "('f, 'm) f64_all_scheme \<Rightarrow> 'f Value \<Rightarrow> string" where
  "type_name F v =
     (case v of
        JNull \<Rightarrow> ''null''
      | JBool _ \<Rightarrow> ''bool''
      | JNumber (FloatNum x) \<Rightarrow> if fl_has_fract F x then ''float'' else ''int''
      | JNumber _ \<Rightarrow> ''int''
      | JString _ \<Rightarrow> ''string''
      | JArray _ \<Rightarrow> ''array''
      | JObject _ \<Rightarrow> ''object'')"

definition call_utility ::
  "('f, 'm) f64_all_scheme \<Rightarrow> 'f json \<Rightarrow> 'w env \<Rightarrow> string \<Rightarrow> 'f Value list \<Rightarrow> 'w \<Rightarrow> 'f Value evaluated \<times> 'w" where
  "call_utility F J E name args w =
     (if name = ''uuid'' then (case env_uuid E w of (u, w1) \<Rightarrow> (ROk (JString u), w1))
      else if name = ''now'' then (case env_clock E w of (t, w1) \<Rightarrow> (ROk (JString (now_iso t)), w1))
      else if name = ''epoch'' then
        (case env_clock E w of (t, w1) \<Rightarrow> (ROk (from_f64 F number_zero (fl_of_duration F (fst t) (snd t))), w1))
      else if name = ''coalesce'' then (ROk (case List.find (\<lambda>a. a \<noteq> JNull) args of None \<Rightarrow> JNull | Some a \<Rightarrow> a), w)
      else if name = ''default'' then
        (ROk (case arg args 0 of
                Some val \<Rightarrow> if val \<noteq> JNull then val else (case arg args 1 of None \<Rightarrow> JNull | Some v \<Rightarrow> v)
              | None \<Rightarrow> (case arg args 1 of None \<Rightarrow> JNull | Some v \<Rightarrow> v)), w)
      else if name = ''hash'' then (ROk (JNumber (PosInt (env_hash E (arg_as_str J args 0)))), w)
      else if name = ''typeof'' then (require ''typeof: missing arg'' (arg args 0) (\<lambda>v. ROk (JString (type_name F v))), w)
      else (RErr (''unknown utility function: '' @ name), w))"

definition call_builtin ::
  "('f, 'm) f64_all_scheme \<Rightarrow> 'f json \<Rightarrow> 'w env \<Rightarrow> string \<Rightarrow> 'f Value list \<Rightarrow> 'w \<Rightarrow> 'f Value evaluated \<times> 'w" where
  "call_builtin F J E name args w =
     (if name \<in> set [''abs'', ''round'', ''ceil'', ''floor'', ''min'', ''max''] then (call_arithmetic F name args, w)
      else if name \<in> set [''lower'', ''upper'', ''trim'', ''length'', ''concat'', ''substring'', ''replace'', ''split'',
          ''base64'', ''base64_decode''] then (call_string F J E name args, w)
      else if name \<in> set [''to_string'', ''parse_int'', ''parse_float'', ''parse_bool'', ''json'']
      then (call_conversion F J E name args, w)
      else if name \<in> set [''contains'', ''keys'', ''merge''] then (call_collection name args, w)
      else if name \<in> set [''uuid'', ''now'', ''epoch'', ''coalesce'', ''default'', ''hash'', ''typeof'']
      then call_utility F J E name args w
      else (RErr (''unknown function: '' @ name), w))"

subsection \<open>Evaluation\<close>

fun resolve_parts :: "string \<Rightarrow> string list \<Rightarrow> 'f Value \<Rightarrow> 'f Value evaluated" where
  "resolve_parts path [] current = ROk current"
| "resolve_parts path (part # parts) current =
     (case current of
        JObject m \<Rightarrow>
          (case map_of m part of
             Some v \<Rightarrow> resolve_parts path parts v
           | None \<Rightarrow> RErr (''FieldNotFound: path segment '' @ part @ '' not found in '' @ path))
      | _ \<Rightarrow> RErr (''FieldNotFound: cannot navigate into non-object at path '' @ path @ '' segment '' @ part))"

definition resolve_field :: "'f Value \<Rightarrow> string \<Rightarrow> 'f Value evaluated" where
  "resolve_field body path = resolve_parts path (split_at (CHR ''.'') path) body"

fun eval_expr ::
  "('f, 'm) f64_all_scheme \<Rightarrow> 'f json \<Rightarrow> 'w env \<Rightarrow> 'f Expr \<Rightarrow> 'f Value \<Rightarrow> 'w \<Rightarrow> 'f Value evaluated \<times> 'w"
  and eval_args ::
  "('f, 'm) f64_all_scheme \<Rightarrow> 'f json \<Rightarrow> 'w env \<Rightarrow> 'f Expr list \<Rightarrow> 'f Value \<Rightarrow> 'w \<Rightarrow> 'f Value list evaluated \<times> 'w" where
  "eval_expr F J E (Field path) body w = (resolve_field body path, w)"
| "eval_expr F J E (FnCall name args) body w =
     (case eval_args F J E args body w of
        (ROk vs, w1) \<Rightarrow> call_builtin F J E name vs w1
      | (RErr e, w1) \<Rightarrow> (RErr e, w1)
      | (RPanic, w1) \<Rightarrow> (RPanic, w1))"
| "eval_expr F J E (Concat parts) body w =
     (case eval_args F J E parts body w of
        (r, w1) \<Rightarrow> (rbind r (\<lambda>vs. ROk (JString (concat (map (value_to_string J) vs)))), w1))"
| "eval_expr F J E (Literal s) body w = (ROk (JString s), w)"
| "eval_expr F J E (NumberLit n) body w = (ROk (from_f64 F number_zero n), w)"
| "eval_expr F J E (Raw s) body w = (ROk (JString s), w)"
| "eval_args F J E [] body w = (ROk [], w)"
| "eval_args F J E (e # es) body w =
     (case eval_expr F J E e body w of
        (ROk v, w1) \<Rightarrow> (case eval_args F J E es body w1 of (r, w2) \<Rightarrow> (rbind r (\<lambda>vs. ROk (v # vs)), w2))
      | (RErr e, w1) \<Rightarrow> (RErr e, w1)
      | (RPanic, w1) \<Rightarrow> (RPanic, w1))"

text \<open>
  Assignment to a field: the objects on the way are made when they are missing.  The last component of the path is the
  field.
\<close>

fun set_parts :: "string list \<Rightarrow> 'f Value \<Rightarrow> 'f Value \<Rightarrow> 'f Value evaluated" where
  "set_parts [] value current = RErr ''empty path''"
| "set_parts [part] value current =
     (case current of JObject m \<Rightarrow> ROk (JObject (map_insert part value m)) | _ \<Rightarrow> RErr ''target is not an object'')"
| "set_parts (part # parts) value current =
     (case current of
        JObject m \<Rightarrow>
          rbind (set_parts parts value (case map_of m part of Some v \<Rightarrow> v | None \<Rightarrow> JObject [])) (\<lambda>v.
            ROk (JObject (map_insert part v m)))
      | _ \<Rightarrow> RErr (''cannot set field in non-object at '' @ part))"

definition set_field :: "'f Value \<Rightarrow> string \<Rightarrow> 'f Value \<Rightarrow> 'f Value evaluated" where
  "set_field body path value =
     (let parts = split_at (CHR ''.'') path
      in if length parts = 1 \<and> \<not> is_object body then RErr ''root is not an object'' else set_parts parts value body)"

definition eval_map_expression ::
  "('f, 'm) f64_all_scheme \<Rightarrow> 'f json \<Rightarrow> 'w env \<Rightarrow> string \<Rightarrow> string \<Rightarrow> 'w \<Rightarrow> string evaluated \<times> 'w" where
  "eval_map_expression F J E expr_str body w =
     (case find_str ''='' expr_str of
        None \<Rightarrow> (RErr ''not an assignment expression (missing =)'', w)
      | Some eq_pos \<Rightarrow>
          let dest = trim (take eq_pos expr_str); source_expr = trim (drop (Suc eq_pos) expr_str) in
          if dest = [] \<or> source_expr = [] then (RErr ''empty target or source in map expression'', w)
          else if \<not> is_utf8 body then (RErr ''invalid utf8'', w)
          else case js_parse J body of
            Inl e \<Rightarrow> (RErr (''invalid json: '' @ e), w)
          | Inr body_json \<Rightarrow>
              (case parse_expr F E source_expr of
                 RErr e \<Rightarrow> (RErr e, w)
               | RPanic \<Rightarrow> (RPanic, w)
               | ROk e \<Rightarrow>
                   (case eval_expr F J E e body_json w of
                      (r, w1) \<Rightarrow>
                        (rbind r (\<lambda>value. rbind (set_field body_json dest value) (\<lambda>body1. ROk (js_print J body1))), w1))))"

subsection \<open>Map steps\<close>

fun dot_path :: "'f json \<Rightarrow> string list \<Rightarrow> 'f Value \<Rightarrow> string" where
  "dot_path J [] current = js_print J current"
| "dot_path J (part # parts) current =
     (if part = ''[]'' then
        (case current of JArray (first # _) \<Rightarrow> js_print J first | _ \<Rightarrow> ''null'')
      else if part = ''*'' then
        (case current of
           JObject m \<Rightarrow> ''['' @ join '','' (map (js_print J \<circ> snd) m) @ '']''
         | JArray arr \<Rightarrow> ''['' @ join '','' (map (js_print J) arr) @ '']''
         | _ \<Rightarrow> ''null'')
      else
        (case current of
           JObject m \<Rightarrow> dot_path J parts (case map_of m part of Some v \<Rightarrow> v | None \<Rightarrow> JNull)
         | _ \<Rightarrow> ''null''))"

definition extract_dot_path :: "'f json \<Rightarrow> string \<Rightarrow> string \<Rightarrow> string evaluated" where
  "extract_dot_path J stripped body =
     (if \<not> is_utf8 body then RErr ''invalid utf8''
      else case js_parse J body of
        Inl e \<Rightarrow> RErr (''invalid json: '' @ e)
      | Inr v \<Rightarrow> ROk (dot_path J (split_at (CHR ''.'') stripped) v))"

definition call_plugin :: "'w env \<Rightarrow> string \<Rightarrow> string \<Rightarrow> 'w \<Rightarrow> string evaluated \<times> 'w" where
  "call_plugin E expr body w =
     (case strip_prefix expr ''w:'' of
        None \<Rightarrow> (RErr (''not a wasm expression: '' @ expr), w)
      | Some stripped \<Rightarrow>
          (case (case find_str ''.'' stripped of
                   Some dot \<Rightarrow> (take dot stripped, drop (Suc dot) stripped)
                 | None \<Rightarrow> (''_default'', stripped)) of
             (plugin_name, raw_func) \<Rightarrow>
               (case env_plugin E plugin_name (trim_end_matches (CHR ''('') (trim_end_matches (CHR '')'') raw_func)) body w of
                  (Inl e, w1) \<Rightarrow> (RErr e, w1)
                | (Inr out, w1) \<Rightarrow> (ROk out, w1))))"

definition exec_map ::
  "('f, 'm) f64_all_scheme \<Rightarrow> 'f json \<Rightarrow> 'w env \<Rightarrow> string \<Rightarrow> string \<Rightarrow> 'w \<Rightarrow> string evaluated \<times> 'w" where
  "exec_map F J E expr_str body w =
     (if starts_with expr_str ''w:'' then call_plugin E expr_str body w
      else if expr_str = [] then (ROk body, w)
      else if CHR ''='' \<in> set expr_str then eval_map_expression F J E expr_str body w
      else case strip_prefix expr_str ''.'' of
        Some stripped \<Rightarrow> (extract_dot_path J stripped body, w)
      | None \<Rightarrow> (ROk body, w))"

subsection \<open>Assigned fields are read back\<close>

lemma split_at_ne [simp]: "split_at c s \<noteq> []"
  by (induction s) (auto split: list.split)

lemma resolve_set_parts:
  "set_parts parts x current = ROk v \<Longrightarrow> resolve_parts path parts v = ROk x"
  by (induction parts x current arbitrary: v rule: set_parts.induct)
    (auto simp: rbind_eq_ROk split: Value.splits)

lemma set_parts_ok: "set_parts parts x current = ROk v \<Longrightarrow> value_ok current \<Longrightarrow> value_ok x \<Longrightarrow> value_ok v"
proof (induction parts x current arbitrary: v rule: set_parts.induct)
  case (2 part x current)
  then show ?case by (auto split: Value.splits simp: map_insert_sorted map_insert_all)
next
  case (3 part p parts x current)
  then obtain m u where m: "current = JObject m"
    and u: "set_parts (p # parts) x (case map_of m part of Some v \<Rightarrow> v | None \<Rightarrow> JObject []) = ROk u"
    and v: "v = JObject (map_insert part u m)"
    by (auto simp: rbind_eq_ROk split: Value.splits)
  have "value_ok (case map_of m part of Some v \<Rightarrow> v | None \<Rightarrow> JObject [])"
    using "3.prems"(2) by (auto simp: m split: option.split dest: value_ok_lookup)
  with "3.IH" [OF m u] "3.prems" show ?case by (simp add: v m map_insert_sorted map_insert_all)
qed simp

lemma set_parts_frame:
  "set_parts (p # ps) x current = ROk v \<Longrightarrow> q \<noteq> p \<Longrightarrow> resolve_parts path (q # qs) v = resolve_parts path (q # qs) current"
  by (cases ps) (auto simp: rbind_eq_ROk split: Value.splits)

subsection \<open>Base 64 is read back\<close>

lemma b64_length: "length b64_chars = 64"
  by (simp add: b64_chars_def)

lemma b64_distinct: "distinct b64_chars"
  by (simp add: b64_chars_def)

lemma and_63: "unat (v AND 0x3F :: u32) < 64"
proof -
  have "0x3F = (mask 6 :: u32)" by (simp add: mask_eq_exp_minus_1)
  then have "v AND 0x3F = take_bit 6 v" by (simp add: take_bit_eq_mask)
  then show ?thesis using take_bit_nat_less_exp [of 6 "unat v"] by (simp add: unsigned_take_bit_eq)
qed

lemma b64_value_char: "b64_value (b64_char v) = Some (v AND 0x3F)"
proof -
  let ?n = "unat (v AND 0x3F)"
  have "List.find (\<lambda>i. b64_chars ! i = b64_chars ! ?n) [0..<64] = Some ?n"
    using and_63 [of v] b64_distinct
    by (auto simp: find_Some_iff nth_eq_iff_index_eq b64_length intro!: exI [of _ ?n])
  then show ?thesis by (simp add: b64_value_def b64_char_def)
qed

lemma b64_char_not_pad: "b64_char v \<noteq> CHR ''=''"
proof -
  have "b64_char v \<in> set b64_chars" using and_63 [of v] by (simp add: b64_char_def b64_length)
  then show ?thesis by (auto simp: b64_chars_def)
qed

definition byte8 :: "char \<Rightarrow> u8" where
  "byte8 c = word_of_nat (of_char c)"

lemma char_byte8: "char_of (unat (byte8 c)) = c"
proof -
  have "(of_char c :: nat) < 256" by simp
  then show ?thesis by (simp add: byte8_def unat_of_nat take_bit_nat_eq_self)
qed

lemma byte_u32_byte8: "byte_u32 c = ucast (byte8 c)"
proof -
  have "(of_char c :: nat) < 2 ^ 8" by simp
  then have t: "take_bit 8 (of_char c :: nat) = of_char c" "take_bit 32 (of_char c :: nat) = of_char c"
    by (simp_all only: take_bit_nat_eq_self) (rule take_bit_nat_eq_self, simp add: less_trans [OF nat_of_char_less_256])
  have m: "of_char c mod (4294967296 :: nat) = of_char c"
    by (rule mod_less) (rule less_trans [OF nat_of_char_less_256], simp)
  show ?thesis
    by (simp add: m word_unat_eq_iff byte_u32_def byte8_def unat_of_nat unsigned_ucast_eq take_bit_word_beyond_length_eq t)
qed

text \<open>The three bytes of a chunk, and the bytes shifted out of what its four, three or two characters carry.\<close>

definition triple_of :: "u8 \<Rightarrow> u8 \<Rightarrow> u8 \<Rightarrow> u32" where
  "triple_of a b c = push_bit 16 (ucast a) OR push_bit 8 (ucast b) OR ucast c"

lemma mask_63: "0x3F = (mask 6 :: u32)"
  by (simp add: mask_eq_exp_minus_1)

lemma shift_join: "push_bit 6 (drop_bit (k + 6) t) OR (drop_bit k t AND 0x3F) = (drop_bit k t :: u32)"
proof (rule bit_word_eqI)
  fix n assume "n < LENGTH(32)"
  then show "bit (push_bit 6 (drop_bit (k + 6) t) OR (drop_bit k t AND 0x3F)) n \<longleftrightarrow> bit (drop_bit k t) n"
    unfolding mask_63 by (cases "n < 6") (auto simp: bit_simps)
qed

lemma triple_small: "drop_bit 24 (triple_of a b c) = 0"
  by (rule bit_word_eqI) (auto simp: triple_of_def bit_simps dest: bit_imp_le_length)

lemma triple_bytes:
  "ucast (drop_bit 16 (triple_of a b c)) = a" "ucast (drop_bit 8 (triple_of a b c)) = b" "ucast (triple_of a b c) = c"
  by (rule bit_word_eqI; auto simp: triple_of_def bit_simps dest: bit_imp_le_length)+

lemma decode_step:
  "decode_bits (b64_char (drop_bit k t) # bs) (drop_bit (k + 6) t) bits = decode_bits bs (drop_bit k t) (bits + 6)"
  by (simp add: b64_value_char shift_join)

lemma decode_chunk_2: "decode_chunk [b64_char (drop_bit 18 t), b64_char (drop_bit 12 t)] = ROk [u32_byte (drop_bit 16 t)]"
  if "drop_bit 24 t = 0"
  using that decode_step [of 18 t "[b64_char (drop_bit 12 t)]" 0] decode_step [of 12 t "[]" 6]
  by (simp add: decode_chunk_def del: decode_bits.simps(2))

lemma decode_chunk_3:
  "decode_chunk [b64_char (drop_bit 18 t), b64_char (drop_bit 12 t), b64_char (drop_bit 6 t)] =
     ROk [u32_byte (drop_bit 16 t), u32_byte (drop_bit 8 t)]"
  if "drop_bit 24 t = 0"
  using that decode_step [of 18 t "[b64_char (drop_bit 12 t), b64_char (drop_bit 6 t)]" 0]
    decode_step [of 12 t "[b64_char (drop_bit 6 t)]" 6] decode_step [of 6 t "[]" 12]
  by (simp add: decode_chunk_def del: decode_bits.simps(2))

lemma decode_chunk_4:
  "decode_chunk [b64_char (drop_bit 18 t), b64_char (drop_bit 12 t), b64_char (drop_bit 6 t), b64_char t] =
     ROk [u32_byte (drop_bit 16 t), u32_byte (drop_bit 8 t), u32_byte t]"
  if "drop_bit 24 t = 0"
  using that decode_step [of 18 t "[b64_char (drop_bit 12 t), b64_char (drop_bit 6 t), b64_char t]" 0]
    decode_step [of 12 t "[b64_char (drop_bit 6 t), b64_char t]" 6] decode_step [of 6 t "[b64_char t]" 12]
    decode_step [of 0 t "[]" 18]
  by (simp add: decode_chunk_def del: decode_bits.simps(2))

lemma encode_chunk_triple:
  "encode_chunk (a # b # c # []) = (let t = triple_of (byte8 a) (byte8 b) (byte8 c) in
     [b64_char (drop_bit 18 t), b64_char (drop_bit 12 t), b64_char (drop_bit 6 t), b64_char t])"
  "encode_chunk (a # b # []) = (let t = triple_of (byte8 a) (byte8 b) 0 in
     [b64_char (drop_bit 18 t), b64_char (drop_bit 12 t), b64_char (drop_bit 6 t), CHR ''=''])"
  "encode_chunk (a # []) = (let t = triple_of (byte8 a) 0 0 in
     [b64_char (drop_bit 18 t), b64_char (drop_bit 12 t), CHR ''='', CHR ''=''])"
  by (simp_all add: encode_chunk_def triple_of_def byte_u32_byte8 Let_def)

lemma u32_byte_triple:
  "u32_byte (drop_bit 16 (triple_of (byte8 a) b c)) = a"
  "u32_byte (drop_bit 8 (triple_of a' (byte8 b') c)) = b'"
  "u32_byte (triple_of a' b (byte8 c')) = c'"
  by (simp_all add: u32_byte_def triple_bytes char_byte8)

lemma strip_pad: "x \<noteq> c \<Longrightarrow> trim_end_matches c (xs @ x # ys) = xs @ x # trim_end_matches c ys"
  by (simp add: trim_end_matches_def dropWhile_append) 

lemma base64_decode_encode: "decode_base64 (base64_encode s) = ROk s"
proof (induction s rule: length_induct)
  case (1 s)
  note unfold = decode_base64_def base64_encode_def
  consider "s = []" | a where "s = [a]" | a b where "s = [a, b]" | a b c r where "s = a # b # c # r"
    by (cases s rule: remdups_adj.cases) (auto, metis neq_Nil_conv)
  then show ?case
  proof cases
    case 1
    then show ?thesis by (simp add: unfold chunks_of.simps trim_end_matches_def)
  next
    case (2 a)
    let ?t = "triple_of (byte8 a) 0 0"
    have "trim_end_matches (CHR ''='') (base64_encode s) = [b64_char (drop_bit 18 ?t), b64_char (drop_bit 12 ?t)]"
      using strip_pad [OF b64_char_not_pad, of "[b64_char (drop_bit 18 ?t)]" "drop_bit 12 ?t" "''==''"]
      by (simp add: 2 base64_encode_def chunks_of.simps encode_chunk_triple Let_def trim_end_matches_def)
    then show ?thesis
      by (simp add: decode_base64_def chunks_of.simps decode_chunk_2 triple_small u32_byte_triple 2)
  next
    case (3 a b)
    let ?t = "triple_of (byte8 a) (byte8 b) 0"
    have "trim_end_matches (CHR ''='') (base64_encode s) =
        [b64_char (drop_bit 18 ?t), b64_char (drop_bit 12 ?t), b64_char (drop_bit 6 ?t)]"
      using strip_pad [OF b64_char_not_pad, of "[b64_char (drop_bit 18 ?t), b64_char (drop_bit 12 ?t)]" "drop_bit 6 ?t" "''=''"]
      by (simp add: 3 base64_encode_def chunks_of.simps encode_chunk_triple Let_def trim_end_matches_def)
    then show ?thesis
      by (simp add: decode_base64_def chunks_of.simps decode_chunk_3 triple_small u32_byte_triple 3)
  next
    case (4 a b c r)
    let ?t = "triple_of (byte8 a) (byte8 b) (byte8 c)"
    let ?x = "[b64_char (drop_bit 18 ?t), b64_char (drop_bit 12 ?t), b64_char (drop_bit 6 ?t)]"
    have "chunks_of 3 s = [a, b, c] # chunks_of 3 r" by (simp add: 4 chunks_of.simps [of 3 "_ # _"])
    then have "base64_encode s = ?x @ b64_char ?t # base64_encode r"
      by (simp add: base64_encode_def encode_chunk_triple Let_def)
    then have "trim_end_matches (CHR ''='') (base64_encode s) =
        (?x @ [b64_char ?t]) @ trim_end_matches (CHR ''='') (base64_encode r)"
      using strip_pad [OF b64_char_not_pad, of ?x ?t "base64_encode r"] by simp
    moreover have "decode_base64 (base64_encode r) = ROk r" using 1 4 by simp
    ultimately show ?thesis
      by (auto simp: decode_base64_def chunks_of.simps [of 4 "_ # _"] rbind_eq_ROk decode_chunk_4 triple_small
          u32_byte_triple 4)
  qed
qed

text \<open>A single quotation mark is taken for a literal, and the parser slices it from 1 to 0.\<close>

lemma parse_expr_quote_panics: "parse_expr F E [CHR 0x22] = RPanic"
proof -
  have "trim [CHR 0x22] = [CHR 0x22]" by code_simp
  moreover have "quoted (CHR 0x22) [CHR 0x22]" "slice [CHR 0x22] 1 0 = None" by code_simp+
  ultimately show ?thesis by (subst parse_expr.simps) simp
qed

subsection \<open>Properties\<close>

text \<open>
  C38: Decoding the base-64 text of any string of bytes gives the string back, through the shifts of the code on 32-bit
  words and with the padding of a last group of one or two bytes.
\<close>

theorem base64_roundtrip: "decode_base64 (base64_encode s) = ROk s"
  by (rule base64_decode_encode)

text \<open>
  A field that a map step has assigned is read back with the value assigned to it; the result has sorted
  objects when the body and the value have; and every path that starts with another member reads what it did before.
\<close>

lemma set_field_resolve:
  assumes "set_field body path x = ROk body1"
  shows "resolve_field body1 path = ROk x \<and> (value_ok body \<and> value_ok x \<longrightarrow> value_ok body1) \<and>
    (hd (split_at (CHR ''.'') q) \<noteq> hd (split_at (CHR ''.'') path) \<longrightarrow> resolve_field body1 q = resolve_field body q)"
proof -
  obtain p ps where p: "split_at (CHR ''.'') path = p # ps" by (cases "split_at (CHR ''.'') path") auto
  obtain r rs where r: "split_at (CHR ''.'') q = r # rs" by (cases "split_at (CHR ''.'') q") auto
  have set: "set_parts (p # ps) x body = ROk body1"
    using assms by (auto simp: set_field_def p Let_def split: if_splits)
  have "r \<noteq> p \<longrightarrow> resolve_parts q (r # rs) body1 = resolve_parts q (r # rs) body"
    using set_parts_frame [OF set] by blast
  with resolve_set_parts [OF set] set_parts_ok [OF set] show ?thesis
    by (simp add: resolve_field_def p r del: resolve_parts.simps)
qed

end
