(* ===== verification/RT_Exec.thy ===== *)
theory RT_Exec
  imports RT_Expr
begin

text \<open>
  The operations of the executor that call services, \<^verbatim>\<open>runtime/src/executor\<close>: a call with its retries
  (\<^verbatim>\<open>next.rs\<close>), calls in threads (\<^verbatim>\<open>parallel.rs\<close>), one call after the other (\<^verbatim>\<open>emit.rs\<close>) and a DAG (\<^verbatim>\<open>dag.rs\<close>), and the
  gate (\<^verbatim>\<open>gate.rs\<close>).  The services are outside: \<open>vm_call\<close> answers a call and moves the state of the outside on.  So
  does \<open>vm_sleep\<close>; \<open>vm_jitter\<close> is a random number below 50, and \<open>vm_sched\<close> the order in which the threads run.
  Integers wrap around as in a release build.
\<close>

record 'w vm_env =
  vm_env :: "'w env"
  vm_call :: "u16 \<Rightarrow> string \<Rightarrow> u64 \<Rightarrow> 'w \<Rightarrow> (string + string) \<times> 'w"
  vm_sleep :: "nat \<Rightarrow> 'w \<Rightarrow> 'w"
  vm_jitter :: "'w \<Rightarrow> nat \<times> 'w"
  vm_sched :: "'w \<Rightarrow> nat list \<times> 'w"

subsection \<open>Calls with retries\<close>

definition find_retry_config :: "Instruction \<Rightarrow> ExecutionPlan \<Rightarrow> RetryConfig" where
  "find_retry_config instr plan =
     (let cfg_idx = unat (i_c instr)
      in if cfg_idx < length (p_retry_configs plan) then p_retry_configs plan ! cfg_idx
         else \<lparr>rc_max_attempts = 3, rc_strategy = Exponential, rc_fixed_ms = 0\<rparr>)"

text \<open>The pause before an attempt in milliseconds; a shift takes its width modulo 64.\<close>

definition backoff :: "nat \<Rightarrow> nat" where
  "backoff attempt = min (unat (100 * push_bit ((attempt - 1) mod 64) 1 :: u64)) 10000"

definition retry_delay :: "'w vm_env \<Rightarrow> RetryConfig \<Rightarrow> nat \<Rightarrow> 'w \<Rightarrow> nat \<times> 'w" where
  "retry_delay E cfg attempt w =
     (case rc_strategy cfg of
        Exponential \<Rightarrow> (case vm_jitter E w of (j, w1) \<Rightarrow> (backoff attempt + j, w1))
      | Linear \<Rightarrow> (100 * attempt, w)
      | Fixed \<Rightarrow> (unat (rc_fixed_ms cfg), w))"

fun retry_loop ::
  "'w vm_env \<Rightarrow> RetryConfig \<Rightarrow> (string \<Rightarrow> string) \<Rightarrow> u16 \<Rightarrow> string \<Rightarrow> u64 \<Rightarrow> nat \<Rightarrow> nat \<Rightarrow> string option \<Rightarrow> 'w \<Rightarrow>
     (string + string) \<times> 'w" where
  "retry_loop E cfg ack svc_id body timeout 0 attempt last_err w =
     (Inl (case last_err of None \<Rightarrow> ''all retries exhausted'' | Some e \<Rightarrow> e), w)"
| "retry_loop E cfg ack svc_id body timeout (Suc left) attempt last_err w =
     (let w1 = (if attempt > 0 then (case retry_delay E cfg attempt w of (ms, w0) \<Rightarrow> vm_sleep E ms w0) else w)
      in case vm_call E svc_id body timeout w1 of
           (Inr resp, w2) \<Rightarrow> (Inr (ack resp), w2)
         | (Inl e, w2) \<Rightarrow> retry_loop E cfg ack svc_id body timeout left (Suc attempt) (Some e) w2)"

definition exec_with_retry ::
  "'w vm_env \<Rightarrow> u16 \<Rightarrow> string \<Rightarrow> u64 \<Rightarrow> RetryConfig \<Rightarrow> bool \<Rightarrow> 'w \<Rightarrow> (string + string) \<times> 'w" where
  "exec_with_retry E svc_id body timeout cfg async_ack w =
     retry_loop E cfg (if async_ack then (\<lambda>_. []) else id) svc_id body timeout (unat (rc_max_attempts cfg) + 1) 0 None w"

definition exec_next :: "'w vm_env \<Rightarrow> ExecutionPlan \<Rightarrow> Instruction \<Rightarrow> string \<Rightarrow> bool \<Rightarrow> 'w \<Rightarrow> (string + string) \<times> 'w" where
  "exec_next E plan instr body async_ack w =
     (if has_retry instr
      then exec_with_retry E (i_a instr) body (timeout_ms instr) (find_retry_config instr plan) async_ack w
      else vm_call E (i_a instr) body (timeout_ms instr) w)"

subsection \<open>Calls in threads\<close>

text \<open>
  A thread looks at the error, calls its service, and stores the answer or the error; each is one step, and the
  schedule interleaves the steps of the threads.
\<close>

datatype par_thread = TStart | TCall | TStore "string + string" | TDone

record 'w par_state =
  ps_err :: "string option"
  ps_parts :: "string option list"
  ps_threads :: "par_thread list"
  ps_world :: 'w

definition par_step :: "'w vm_env \<Rightarrow> u16 list \<Rightarrow> string \<Rightarrow> nat \<Rightarrow> 'w par_state \<Rightarrow> 'w par_state" where
  "par_step E svcs body i st =
     (if i < length svcs then
        (case ps_threads st ! i of
           TStart \<Rightarrow> st\<lparr>ps_threads := (ps_threads st)[i := if ps_err st \<noteq> None then TDone else TCall]\<rparr>
         | TCall \<Rightarrow>
             (case vm_call E (svcs ! i) body 0 (ps_world st) of
                (r, w1) \<Rightarrow> st\<lparr>ps_threads := (ps_threads st)[i := TStore r], ps_world := w1\<rparr>)
         | TStore (Inr resp) \<Rightarrow>
             st\<lparr>ps_threads := (ps_threads st)[i := TDone], ps_parts := (ps_parts st)[i := Some resp]\<rparr>
         | TStore (Inl e) \<Rightarrow> st\<lparr>ps_threads := (ps_threads st)[i := TDone], ps_err := Some e\<rparr>
         | TDone \<Rightarrow> st)
      else st)"

text \<open>The scope joins all threads: behind the schedule every thread runs to its end.\<close>

definition par_run :: "'w vm_env \<Rightarrow> u16 list \<Rightarrow> string \<Rightarrow> nat list \<Rightarrow> 'w \<Rightarrow> 'w par_state" where
  "par_run E svcs body sched w =
     (let n = length svcs
      in fold (par_step E svcs body) (sched @ concat (replicate 3 [0..<n]))
           \<lparr>ps_err = None, ps_parts = replicate n None, ps_threads = replicate n TStart, ps_world = w\<rparr>)"

definition part_value :: "'f json \<Rightarrow> string option \<Rightarrow> 'f Value" where
  "part_value J opt =
     (let p = (case opt of None \<Rightarrow> [] | Some p \<Rightarrow> p) in parse_or J (JString (from_utf8_lossy p)) p)"

definition with_parallel :: "'f Value \<Rightarrow> 'f Value \<Rightarrow> 'f Value" where
  "with_parallel parallel_val merged =
     (case merged of
        JObject m \<Rightarrow> JObject (map_insert ''_parallel'' parallel_val m)
      | _ \<Rightarrow> JObject [(''_parallel'', parallel_val)])"

definition group_ids :: "ExecutionPlan \<Rightarrow> nat \<Rightarrow> nat \<Rightarrow> u16 option list" where
  "group_ids plan first count =
     map (\<lambda>i. if i < length (sv_entries (p_services plan)) then Some (se_id (sv_entries (p_services plan) ! i)) else None)
       [first..<first + count]"

definition exec_parallel ::
  "'f json \<Rightarrow> 'w vm_env \<Rightarrow> ExecutionPlan \<Rightarrow> Instruction \<Rightarrow> string \<Rightarrow> 'w \<Rightarrow> string evaluated \<times> 'w" where
  "exec_parallel J E plan instr body w =
     (case those (group_ids plan (unat (i_b instr)) (unat (i_a instr))) of
        None \<Rightarrow> (RPanic, w)
      | Some svcs \<Rightarrow>
          (case vm_sched E w of (sched, w1) \<Rightarrow>
           let st = par_run E svcs body sched w1
           in (case ps_err st of
                 Some err \<Rightarrow> (RErr err, ps_world st)
               | None \<Rightarrow> (ROk (js_print J (with_parallel (JArray (map (part_value J) (ps_parts st)))
                              (parse_or J (JObject []) body))), ps_world st))))"

definition exec_collect :: "'f json \<Rightarrow> string \<Rightarrow> string evaluated" where
  "exec_collect J body =
     (case js_parse J body of
        Inl e \<Rightarrow> RErr (''Collect: failed to parse body: '' @ e)
      | Inr v \<Rightarrow>
          (case v of
             JObject m \<Rightarrow>
               (case map_of m ''_parallel'' of
                  Some p \<Rightarrow> ROk (js_print J p)
                | None \<Rightarrow> RErr ''Collect: no _parallel key in body'')
           | _ \<Rightarrow> RErr ''Collect: no _parallel key in body''))"

subsection \<open>Calls one after the other\<close>

fun emit_loop :: "'w vm_env \<Rightarrow> u16 option list \<Rightarrow> string \<Rightarrow> 'w \<Rightarrow> unit evaluated \<times> 'w" where
  "emit_loop E [] body w = (ROk (), w)"
| "emit_loop E (None # ids) body w = (RPanic, w)"
| "emit_loop E (Some i # ids) body w =
     (case vm_call E i body 0 w of
        (Inl e, w1) \<Rightarrow> (RErr e, w1)
      | (Inr _, w1) \<Rightarrow> emit_loop E ids body w1)"

definition exec_emit :: "'w vm_env \<Rightarrow> ExecutionPlan \<Rightarrow> Instruction \<Rightarrow> string \<Rightarrow> 'w \<Rightarrow> unit evaluated \<times> 'w" where
  "exec_emit E plan instr body w =
     emit_loop E (group_ids plan (unat (i_b instr)) (unat (ucast (i_a instr) :: u8))) body w"

subsection \<open>Gates\<close>

definition evaluate :: "('f, 'm) f64_all_scheme \<Rightarrow> 'f json \<Rightarrow> ExecutionPlan \<Rightarrow> Instruction \<Rightarrow> string \<Rightarrow> bool option" where
  "evaluate F J plan instr body =
     (case (pool_get (p_const_pool plan) (i_a instr), pool_get (p_const_pool plan) (i_b instr)) of
        (Some field_path, Some compare_val) \<Rightarrow>
          Some (case extract_json_field J body field_path of
                  Some val \<Rightarrow> compare_values F val (i_flags instr) compare_val
                | None \<Rightarrow> False)
      | _ \<Rightarrow> None)"

definition skip_count :: "ExecutionPlan \<Rightarrow> nat \<Rightarrow> nat" where
  "skip_count plan ip =
     1 + length (takeWhile (\<lambda>i. i_op i \<noteq> OpGate \<and> i_op i \<noteq> OpLabel) (drop (Suc ip) (p_instructions plan)))"

subsection \<open>DAGs\<close>

record 'w dag_run =
  dr_results :: "(u16, string) gomap"
  dr_failed :: "u16 list"
  dr_world :: 'w

definition find_node :: "DAGTable \<Rightarrow> u16 \<Rightarrow> (nat \<times> DAGNode) option" where
  "find_node dag svc_id =
     (case List.find (\<lambda>i. dn_service_id (dt_nodes dag ! i) = svc_id) [0..<length (dt_nodes dag)] of
        None \<Rightarrow> None
      | Some i \<Rightarrow> Some (i, dt_nodes dag ! i))"

definition merge_parents :: "'f json \<Rightarrow> (u16, string) gomap \<Rightarrow> u16 list \<Rightarrow> 'f Value \<Rightarrow> 'f Value" where
  "merge_parents J results parents body =
     fold (\<lambda>parent_id merged.
       case map_of results parent_id of
         None \<Rightarrow> merged
       | Some r \<Rightarrow> (case js_parse J r of Inr v \<Rightarrow> deep_merge merged v | Inl _ \<Rightarrow> merged)) parents body"

definition call_body :: "'f json \<Rightarrow> u16 \<Rightarrow> DAGNode \<Rightarrow> (u16, string) gomap \<Rightarrow> string \<Rightarrow> string evaluated" where
  "call_body J svc_id node results body =
     (if dn_parent_ids node = [] then ROk body
      else case js_parse J body of
        Inl _ \<Rightarrow> RErr (''dag node '' @ dec (unat svc_id) @ '': failed to parse body'')
      | Inr v \<Rightarrow> ROk (js_print J (merge_parents J results (dn_parent_ids node) v)))"

definition dag_node :: "'f json \<Rightarrow> 'w vm_env \<Rightarrow> DAGTable \<Rightarrow> string \<Rightarrow> u16 \<Rightarrow> 'w dag_run \<Rightarrow> unit evaluated \<times> 'w dag_run" where
  "dag_node J E dag body svc_id st =
     (case find_node dag svc_id of
        None \<Rightarrow> (ROk (), st)
      | Some (i, node) \<Rightarrow>
          if dt_failure_policy dag = SkipDependents \<and> list_ex (\<lambda>p. p \<in> set (dr_failed st)) (dn_parent_ids node)
          then (ROk (), st\<lparr>dr_failed := List.insert svc_id (dr_failed st)\<rparr>)
          else case call_body J svc_id node (dr_results st) body of
            RErr e \<Rightarrow> (RErr e, st)
          | RPanic \<Rightarrow> (RPanic, st)
          | ROk b \<Rightarrow>
              let timeout = (if i < length (dt_node_timeouts dag) then ucast (dt_node_timeouts dag ! i) else 0)
              in (case vm_call E svc_id b timeout (dr_world st) of
                    (Inr data, w1) \<Rightarrow>
                      (ROk (), st\<lparr>dr_results := AList.update svc_id data (dr_results st), dr_world := w1\<rparr>)
                  | (Inl e, w1) \<Rightarrow>
                      if dt_failure_policy dag = AbortAll
                      then (RErr (''dag node '' @ dec (unat svc_id) @ '': '' @ e), st\<lparr>dr_world := w1\<rparr>)
                      else (ROk (), st\<lparr>dr_failed := List.insert svc_id (dr_failed st), dr_world := w1\<rparr>)))"

fun dag_nodes :: "'f json \<Rightarrow> 'w vm_env \<Rightarrow> DAGTable \<Rightarrow> string \<Rightarrow> u16 list \<Rightarrow> 'w dag_run \<Rightarrow> unit evaluated \<times> 'w dag_run" where
  "dag_nodes J E dag body [] st = (ROk (), st)"
| "dag_nodes J E dag body (i # is) st =
     (case dag_node J E dag body i st of
        (ROk _, st1) \<Rightarrow> dag_nodes J E dag body is st1
      | (r, st1) \<Rightarrow> (r, st1))"

text \<open>The results of the terminal nodes, put together as the table says.\<close>

definition concat_results :: "'f json \<Rightarrow> u16 list \<Rightarrow> (u16, string) gomap \<Rightarrow> u16 list \<Rightarrow> 'f Value list" where
  "concat_results J terminals results failed =
     concat (map (\<lambda>i. if i \<in> set failed then [JNull]
                      else case map_of results i of
                        None \<Rightarrow> []
                      | Some r \<Rightarrow> [parse_or J (JString (from_utf8_lossy r)) r]) terminals)"

definition deep_results :: "'f json \<Rightarrow> u16 list \<Rightarrow> (u16, string) gomap \<Rightarrow> u16 list \<Rightarrow> 'f Value" where
  "deep_results J terminals results failed =
     merge_parents J results (filter (\<lambda>i. i \<notin> set failed) terminals) (JObject [])"

fun explicit_results ::
  "'f json \<Rightarrow> ExecutionPlan \<Rightarrow> u16 list \<Rightarrow> (u16, string) gomap \<Rightarrow> u16 list \<Rightarrow> (string \<times> 'f Value) list \<Rightarrow>
     (string \<times> 'f Value) list evaluated" where
  "explicit_results J plan [] results failed merged = ROk merged"
| "explicit_results J plan (i # terminals) results failed merged =
     (if i \<in> set failed
      then explicit_results J plan terminals results failed (map_insert (''svc_'' @ dec (unat i)) JNull merged)
      else case map_of results i of
        None \<Rightarrow> explicit_results J plan terminals results failed merged
      | Some r \<Rightarrow>
          (case services_get (p_services plan) i of
             None \<Rightarrow> RPanic
           | Some entry \<Rightarrow>
               explicit_results J plan terminals results failed
                 (case js_parse J r of Inr v \<Rightarrow> map_insert (se_name entry) v merged | Inl _ \<Rightarrow> merged)))"

fun last_wins :: "ExecutionPlan \<Rightarrow> u16 list \<Rightarrow> (u16, string) gomap \<Rightarrow> u16 list \<Rightarrow> string list evaluated" where
  "last_wins plan [] results failed = ROk []"
| "last_wins plan (i # terminals) results failed =
     (let entry = (\<lambda>val. case services_get (p_services plan) i of
                     None \<Rightarrow> RPanic
                   | Some e \<Rightarrow> rbind (last_wins plan terminals results failed) (\<lambda>es.
                       ROk (([CHR 0x22] @ se_name e @ [CHR 0x22] @ '':'' @ val) # es)))
      in if i \<in> set failed then entry ''null''
         else case map_of results i of
           None \<Rightarrow> last_wins plan terminals results failed
         | Some r \<Rightarrow> entry (from_utf8_lossy r))"

definition merge_dag_results ::
  "'f json \<Rightarrow> ExecutionPlan \<Rightarrow> DAGTable \<Rightarrow> (u16, string) gomap \<Rightarrow> u16 list \<Rightarrow> string evaluated" where
  "merge_dag_results J plan dag results failed =
     (let terminals = dt_terminal_nodes dag
      in case dt_merge_strategy dag of
           ArrayConcat \<Rightarrow> ROk (js_print J (JArray (concat_results J terminals results failed)))
         | DeepMerge \<Rightarrow> ROk (js_print J (deep_results J terminals results failed))
         | ExplicitMap \<Rightarrow> rbind (explicit_results J plan terminals results failed []) (\<lambda>m. ROk (js_print J (JObject m)))
         | LastWins \<Rightarrow> rbind (last_wins plan terminals results failed) (\<lambda>es. ROk (''{'' @ join '','' es @ ''}'')))"

definition exec_dag ::
  "'f json \<Rightarrow> 'w vm_env \<Rightarrow> ExecutionPlan \<Rightarrow> Instruction \<Rightarrow> string \<Rightarrow> 'w \<Rightarrow> string evaluated \<times> 'w" where
  "exec_dag J E plan instr body w =
     (if unat (i_a instr) < length (p_dag_tables plan) then
        let dag = p_dag_tables plan ! unat (i_a instr) in
        case dag_nodes J E dag body (concat (dt_layers dag)) \<lparr>dr_results = [], dr_failed = [], dr_world = w\<rparr> of
          (ROk _, st) \<Rightarrow> (merge_dag_results J plan dag (dr_results st) (dr_failed st), dr_world st)
        | (RErr e, st) \<Rightarrow> (RErr e, dr_world st)
        | (RPanic, st) \<Rightarrow> (RPanic, dr_world st)
      else (RPanic, w))"

subsection \<open>Chunks\<close>

definition split_chunks :: "string \<Rightarrow> u8 \<Rightarrow> nat \<Rightarrow> string list option evaluated" where
  "split_chunks body count threshold =
     (if length body \<le> threshold then ROk None
      else if count = 0 then RPanic
      else let n = unat count in ROk (Some (chunks_of ((length body + n - 1) div n) body)))"

subsection \<open>Scripted services\<close>

text \<open>
  Services that answer from a list, in the order of the calls, and keep a record of the calls and the pauses.  Every run
  of the operations with any services is such a run for the list of the answers they gave.
\<close>

record script =
  sc_answers :: "(string + string) list"
  sc_calls :: "(u16 \<times> string \<times> u64) list"
  sc_pauses :: "nat list"

definition script_call :: "u16 \<Rightarrow> string \<Rightarrow> u64 \<Rightarrow> script \<Rightarrow> (string + string) \<times> script" where
  "script_call i b t w =
     (case sc_answers w of
        [] \<Rightarrow> (Inl ''no answer'', w\<lparr>sc_calls := sc_calls w @ [(i, b, t)]\<rparr>)
      | r # rs \<Rightarrow> (r, w\<lparr>sc_answers := rs, sc_calls := sc_calls w @ [(i, b, t)]\<rparr>))"

definition scripted :: "script env \<Rightarrow> nat \<Rightarrow> script vm_env" where
  "scripted E jitter =
     \<lparr>vm_env = E, vm_call = script_call, vm_sleep = (\<lambda>ms w. w\<lparr>sc_pauses := sc_pauses w @ [ms]\<rparr>),
      vm_jitter = (\<lambda>w. (jitter, w)), vm_sched = (\<lambda>w. ([], w))\<rparr>"

text \<open>The pause before an attempt, with a fixed jitter.\<close>

definition pause_of :: "RetryConfig \<Rightarrow> nat \<Rightarrow> nat \<Rightarrow> nat" where
  "pause_of cfg jitter attempt =
     (case rc_strategy cfg of
        Exponential \<Rightarrow> backoff attempt + jitter
      | Linear \<Rightarrow> 100 * attempt
      | Fixed \<Rightarrow> unat (rc_fixed_ms cfg))"

lemma retry_delay_scripted: "retry_delay (scripted E jitter) cfg a w = (pause_of cfg jitter a, w)"
  by (simp add: retry_delay_def pause_of_def scripted_def split: RetryStrategy.split)

text \<open>The loop on a list of answers: it makes one call more than there are leading failures, within the limit.\<close>

lemma retry_loop_scripted:
  assumes "left \<le> length (sc_answers w)"
  shows "let k = length (takeWhile isl (take left (sc_answers w))); n = min (Suc k) left in
    retry_loop (scripted E jitter) cfg ack svc body t left a err w =
      (if k < left then Inr (ack (projr (sc_answers w ! k)))
       else Inl (if left = 0 then (case err of None \<Rightarrow> ''all retries exhausted'' | Some e \<Rightarrow> e) else projl (sc_answers w ! (left - 1))),
       w\<lparr>sc_answers := drop n (sc_answers w), sc_calls := sc_calls w @ replicate n (svc, body, t),
         sc_pauses := sc_pauses w @ map (pause_of cfg jitter) (filter (\<lambda>i. 0 < i) [a..<a + n])\<rparr>)"
  using assms
proof (induction left arbitrary: a err w)
  case 0
  then show ?case by simp
next
  case (Suc left)
  then obtain r rs where rs: "sc_answers w = r # rs" by (cases "sc_answers w") auto
  let ?w1 = "if 0 < a then w\<lparr>sc_pauses := sc_pauses w @ [pause_of cfg jitter a]\<rparr> else w"
  let ?w2 = "?w1\<lparr>sc_answers := rs, sc_calls := sc_calls w @ [(svc, body, t)]\<rparr>"
  have call: "vm_call (scripted E jitter) svc body t ?w1 = (r, ?w2)"
    by (simp add: scripted_def script_call_def rs)
  have pause: "(if 0 < a then (case retry_delay (scripted E jitter) cfg a w of (ms, w0) \<Rightarrow> vm_sleep (scripted E jitter) ms w0) else w) = ?w1"
    unfolding retry_delay_scripted by (simp add: scripted_def)
  show ?case
  proof (cases r)
    case (Inr resp)
    then show ?thesis unfolding retry_loop.simps pause Let_def call by (simp add: rs)
  next
    case (Inl e)
    have "left \<le> length (sc_answers ?w2)" using Suc.prems rs by simp
    from Suc.IH [OF this, of "Suc a" "Some e"] show ?thesis
      unfolding retry_loop.simps pause Let_def call prod.case Inl sum.case
      by (auto simp: rs Inl upt_conv_Cons nth_Cons' simp del: upt_Suc)
  qed
qed

subsection \<open>The threads of a parallel step\<close>

definition rank :: "par_thread \<Rightarrow> nat" where
  "rank t = (case t of TStart \<Rightarrow> 3 | TCall \<Rightarrow> 2 | TStore _ \<Rightarrow> 1 | TDone \<Rightarrow> 0)"

text \<open>
  The invariant of the threads when the answer of service \<open>i\<close> is \<open>g i\<close>, whatever was called before: a thread carries
  its own answer, a thread that is done has stored it, and an error comes from a thread.
\<close>

definition thread_ok :: "string + string \<Rightarrow> string option \<Rightarrow> string option \<Rightarrow> par_thread \<Rightarrow> bool" where
  "thread_ok answer err part t =
     (case t of
        TStore r \<Rightarrow> r = answer
      | TDone \<Rightarrow> err \<noteq> None \<or> (\<exists>resp. answer = Inr resp \<and> part = Some resp)
      | _ \<Rightarrow> True)"

definition par_inv :: "(u16 \<Rightarrow> string + string) \<Rightarrow> u16 list \<Rightarrow> 'w par_state \<Rightarrow> bool" where
  "par_inv g svcs st \<longleftrightarrow>
     length (ps_threads st) = length svcs \<and> length (ps_parts st) = length svcs \<and>
     (\<forall>i < length svcs. thread_ok (g (svcs ! i)) (ps_err st) (ps_parts st ! i) (ps_threads st ! i)) \<and>
     (\<forall>e. ps_err st = Some e \<longrightarrow> Inl e \<in> g ` set svcs)"

lemma thread_ok_simps [simp]:
  "thread_ok answer err part TStart" "thread_ok answer err part TCall"
  "thread_ok answer err part (TStore r) \<longleftrightarrow> r = answer"
  "thread_ok answer (Some e) part TDone" "thread_ok (Inr resp) err (Some resp) TDone"
  by (simp_all add: thread_ok_def)

lemma thread_ok_err: "thread_ok answer err part t \<Longrightarrow> thread_ok answer (Some e) part t"
  by (auto simp: thread_ok_def split: par_thread.splits)

lemma par_inv_upd:
  assumes "par_inv g svcs st" and "i < length svcs"
    and "thread_ok (g (svcs ! i)) err part t"
    and "err = ps_err st \<or> (\<exists>e. err = Some e \<and> Inl e \<in> g ` set svcs)"
  shows "par_inv g svcs (st\<lparr>ps_threads := (ps_threads st)[i := t], ps_parts := (ps_parts st)[i := part], ps_err := err, ps_world := w\<rparr>)"
proof -
  have "thread_ok (g (svcs ! j)) err ((ps_parts st)[i := part] ! j) ((ps_threads st)[i := t] ! j)" if "j < length svcs" for j
  proof (cases "j = i")
    case True
    with assms show ?thesis by (simp add: par_inv_def)
  next
    case False
    have "thread_ok (g (svcs ! j)) (ps_err st) (ps_parts st ! j) (ps_threads st ! j)"
      using assms(1) that by (simp add: par_inv_def)
    with False assms(4) thread_ok_err show ?thesis by fastforce
  qed
  with assms(1,4) show ?thesis by (auto simp: par_inv_def)
qed

lemma par_step_inv:
  assumes "par_inv g svcs st" and "\<And>i w. fst (vm_call E i body 0 w) = g i"
  shows "par_inv g svcs (par_step E svcs body i st)"
proof (cases "i < length svcs")
  case True
  have ok: "thread_ok (g (svcs ! i)) (ps_err st) (ps_parts st ! i) (ps_threads st ! i)"
    using assms(1) True by (simp add: par_inv_def)
  note upd = par_inv_upd [OF assms(1) True]
  show ?thesis
  proof (cases "ps_threads st ! i")
    case TStart
    have "par_inv g svcs (st\<lparr>ps_threads := (ps_threads st)[i := t]\<rparr>)" if "thread_ok (g (svcs ! i)) (ps_err st) (ps_parts st ! i) t" for t
      using upd [of "ps_err st" "ps_parts st ! i" t "ps_world st"] that by simp
    then show ?thesis using True TStart by (cases "ps_err st") (simp_all add: par_step_def)
  next
    case TCall
    obtain r w1 where c: "vm_call E (svcs ! i) body 0 (ps_world st) = (r, w1)" by fastforce
    then have "r = g (svcs ! i)" using assms(2) by (metis fst_conv)
    then show ?thesis
      using upd [of "ps_err st" "ps_parts st ! i" "TStore r" w1] True TCall c by (simp add: par_step_def)
  next
    case (TStore r)
    with ok have r: "r = g (svcs ! i)" by simp
    show ?thesis
    proof (cases r)
      case (Inl e)
      then have "Inl e \<in> g ` set svcs" using r True by (metis image_eqI nth_mem)
      then show ?thesis
        using upd [of "Some e" "ps_parts st ! i" TDone "ps_world st"] True TStore Inl by (simp add: par_step_def)
    next
      case (Inr resp)
      then show ?thesis
        using upd [of "ps_err st" "Some resp" TDone "ps_world st"] True TStore r by (simp add: par_step_def)
    qed
  next
    case TDone
    with assms(1) show ?thesis by (simp add: par_step_def)
  qed
qed (use assms(1) in \<open>simp add: par_step_def\<close>)

lemma par_step_rank:
  assumes "length (ps_threads st) = length svcs" and "j < length svcs"
  shows "length (ps_threads (par_step E svcs body i st)) = length svcs \<and>
    rank (ps_threads (par_step E svcs body i st) ! j) \<le> rank (ps_threads st ! j) - (if i = j then 1 else 0)"
proof (cases "i < length svcs")
  case True
  then show ?thesis
    using assms by (cases "ps_threads st ! i")
      (auto simp: par_step_def rank_def nth_list_update split: par_thread.splits sum.splits prod.splits)
qed (use assms in \<open>auto simp: par_step_def\<close>)

lemma par_steps_rank:
  "length (ps_threads st) = length svcs \<Longrightarrow> j < length svcs \<Longrightarrow>
     rank (ps_threads (fold (par_step E svcs body) is st) ! j) \<le> rank (ps_threads st ! j) - count_list is j"
proof (induction "is" arbitrary: st)
  case (Cons i "is")
  note s = par_step_rank [OF Cons.prems, of E body i]
  with Cons.IH [of "par_step E svcs body i st"] Cons.prems(2) show ?case by (auto split: if_splits)
qed simp

lemma count_list_upt: "count_list [0..<n] j = (if j < n then 1 else 0)"
  by (induction n) auto

lemma par_run_result:
  assumes "\<And>i w. fst (vm_call E i body 0 w) = g i"
  shows "par_inv g svcs (par_run E svcs body sched w) \<and> set (ps_threads (par_run E svcs body sched w)) \<subseteq> {TDone}"
proof -
  let ?n = "length svcs"
  let ?st = "\<lparr>ps_err = None, ps_parts = replicate ?n None, ps_threads = replicate ?n TStart, ps_world = w\<rparr>"
  let ?is = "sched @ concat (replicate 3 [0..<?n])"
  have inv: "par_inv g svcs st \<Longrightarrow> par_inv g svcs (fold (par_step E svcs body) is st)" for "is" st
    by (induction "is" arbitrary: st) (simp_all add: par_step_inv [OF _ assms])
  have run: "par_run E svcs body sched w = fold (par_step E svcs body) ?is ?st"
    unfolding par_run_def Let_def ..
  have ok: "par_inv g svcs (par_run E svcs body sched w)"
    unfolding run by (rule inv) (simp add: par_inv_def)
  have three: "3 \<le> count_list ?is j" if "j < ?n" for j
  proof -
    have "count_list [0..<?n] j = 1" using that by (simp add: count_list_upt)
    then show ?thesis by (simp add: numeral_3_eq_3)
  qed
  have "ps_threads (par_run E svcs body sched w) ! j = TDone" if j: "j < ?n" for j
  proof -
    have "rank (ps_threads (par_run E svcs body sched w) ! j) \<le> 3 - count_list ?is j"
      unfolding run using par_steps_rank [of ?st svcs j E body ?is] j by (simp add: rank_def)
    with three [OF j] show ?thesis by (simp add: rank_def split: par_thread.splits)
  qed
  then have "set (ps_threads (par_run E svcs body sched w)) \<subseteq> {TDone}"
    using ok by (auto simp: par_inv_def in_set_conv_nth)
  with ok show ?thesis by blast
qed

lemma backoff_eq: "backoff a = min (100 * 2 ^ ((a - 1) mod 64) mod 2 ^ 64) 10000"
proof -
  have "100 * push_bit k 1 = (word_of_nat (100 * 2 ^ k) :: u64)" for k by (simp add: push_bit_eq_mult)
  then show ?thesis by (simp only: backoff_def unat_of_nat take_bit_eq_mod len_bit0 len_num1) simp
qed

subsection \<open>Properties\<close>







end
