(* ===== verification/RT_Dag.thy ===== *)
theory RT_Dag
  imports RT_Parser "HOL-Library.List_Lexorder" "HOL-Library.Char_ord"
begin

text \<open>
  The compilation of a DAG, \<^verbatim>\<open>runtime/src/dsl/compiler/dag.rs\<close>: reading the dependencies, the search for a
  cycle, the layers and the table of the plan.  A \<^verbatim>\<open>HashMap\<close> is an association list, in the order of
  its iteration.  The search recurses at most once per node, so its fuel is the number of nodes;
  \<^term>\<open>None\<close> would be running out of it.
\<close>

type_synonym deps = "(string, string list) gomap"

datatype CompileError =
    DagCycle string | DagEmpty string | DagUnknownService string | DuplicateLabel string
  | SchemaParseError string | TypeMismatch string

subsection \<open>Reading the dependencies\<close>

definition or_default :: "string \<Rightarrow> deps \<Rightarrow> deps" where
  "or_default k m = (if map_of m k = None then AList.update k [] m else m)"

definition parse_deps :: "string \<Rightarrow> string list" where
  "parse_deps dep_list =
     (let inner = trim (trim_end_matches (CHR '']'') (trim_start_matches (CHR ''['') dep_list))
      in if inner = [] then [] else filter (\<lambda>s. s \<noteq> []) (map trim (split_at (CHR '','') inner)))"

definition parse_segment :: "string \<Rightarrow> deps \<Rightarrow> deps" where
  "parse_segment segment m =
     (let seg = trim segment in
      if seg = [] then m
      else case find_str '':'' seg of
        Some colon_pos \<Rightarrow>
          let node = trim (take colon_pos seg); node_deps = parse_deps (trim (drop (Suc colon_pos) seg))
          in AList.update node node_deps (fold or_default node_deps m)
      | None \<Rightarrow> or_default seg m)"

definition parse_dag :: "string \<Rightarrow> deps" where
  "parse_dag content = fold parse_segment (split_at (CHR '','') content) []"

subsection \<open>Cycles\<close>

text \<open>The nodes visited so far and those on the stack of the search.\<close>

type_synonym dfs_state = "string list \<times> string list"

fun dfs_cycle :: "nat \<Rightarrow> deps \<Rightarrow> string \<Rightarrow> dfs_state \<Rightarrow> (bool \<times> dfs_state) option"
  and dfs_children :: "nat \<Rightarrow> deps \<Rightarrow> string list \<Rightarrow> dfs_state \<Rightarrow> (bool \<times> dfs_state) option" where
  "dfs_cycle 0 m node st = None"
| "dfs_cycle (Suc k) m node (visited, in_stack) =
     (case dfs_children k m (case map_of m node of None \<Rightarrow> [] | Some cs \<Rightarrow> cs) (node # visited, node # in_stack) of
        None \<Rightarrow> None
      | Some (True, st) \<Rightarrow> Some (True, st)
      | Some (False, (v, s)) \<Rightarrow> Some (False, (v, removeAll node s)))"
| "dfs_children k m [] st = Some (False, st)"
| "dfs_children k m (child # children) (visited, in_stack) =
     (if map_of m child = None then dfs_children k m children (visited, in_stack)
      else if child \<notin> set visited then
        (case dfs_cycle k m child (visited, in_stack) of
           None \<Rightarrow> None
         | Some (True, st) \<Rightarrow> Some (True, st)
         | Some (False, st) \<Rightarrow> dfs_children k m children st)
      else if child \<in> set in_stack then Some (True, (visited, in_stack))
      else dfs_children k m children (visited, in_stack))"

fun detect_loop :: "nat \<Rightarrow> deps \<Rightarrow> string list \<Rightarrow> dfs_state \<Rightarrow> bool option" where
  "detect_loop k m [] st = Some False"
| "detect_loop k m (node # nodes) (visited, in_stack) =
     (if node \<in> set visited then detect_loop k m nodes (visited, in_stack)
      else case dfs_cycle k m node (visited, in_stack) of
        None \<Rightarrow> None
      | Some (True, _) \<Rightarrow> Some True
      | Some (False, st) \<Rightarrow> detect_loop k m nodes st)"

definition detect_cycle :: "deps \<Rightarrow> bool option" where
  "detect_cycle m = detect_loop (length m) m (map fst m) ([], [])"

subsection \<open>Layers\<close>

type_synonym degrees = "(string, nat) gomap"

definition or_zero :: "string \<Rightarrow> degrees \<Rightarrow> degrees" where
  "or_zero k d = (if map_of d k = None then AList.update k 0 d else d)"

definition push_child :: "string \<Rightarrow> string \<Rightarrow> deps \<Rightarrow> deps" where
  "push_child node dep adj = AList.update dep ((case map_of adj dep of None \<Rightarrow> [] | Some cs \<Rightarrow> cs) @ [node]) adj"

definition in_degrees :: "deps \<Rightarrow> degrees" where
  "in_degrees m = fold (\<lambda>(node, node_deps) d. fold or_zero node_deps (or_zero node d)) m []"

definition adjacency :: "deps \<Rightarrow> deps" where
  "adjacency m = fold (\<lambda>(node, node_deps) adj. fold (push_child node) node_deps (or_default node adj)) m []"

definition visit_child :: "string \<Rightarrow> string list \<times> degrees \<Rightarrow> string list \<times> degrees" where
  "visit_child child = (\<lambda>(next_layer, d).
     case map_of d child of
       None \<Rightarrow> (next_layer, d)
     | Some 0 \<Rightarrow> (next_layer, d)
     | Some (Suc deg) \<Rightarrow>
         (if deg = 0 then next_layer @ [child] else next_layer, AList.update child deg d))"

definition next_layer :: "deps \<Rightarrow> string list \<Rightarrow> degrees \<Rightarrow> string list \<times> degrees" where
  "next_layer adj current d =
     fold (\<lambda>node. fold visit_child (case map_of adj node of None \<Rightarrow> [] | Some cs \<Rightarrow> cs)) current ([], d)"

definition degree_sum :: "degrees \<Rightarrow> nat" where
  "degree_sum d = sum_list (map snd d)"

lemma degree_sum_update: "map_of d k = Some (Suc n) \<Longrightarrow> Suc (degree_sum (AList.update k n d)) = degree_sum d"
  by (induction d) (auto simp: degree_sum_def split: if_splits)

lemma visit_child_sum:
  "degree_sum (snd (visit_child c (l, d))) + length (fst (visit_child c (l, d))) \<le> degree_sum d + length l"
proof (cases "map_of d c")
  case (Some n)
  then show ?thesis using degree_sum_update [of d c] by (cases n) (auto simp: visit_child_def dest: sym)
qed (simp add: visit_child_def)

lemma visit_children_sum:
  "degree_sum (snd (fold visit_child cs ld)) + length (fst (fold visit_child cs ld)) \<le> degree_sum (snd ld) + length (fst ld)"
proof (induction cs arbitrary: ld)
  case (Cons c cs)
  from Cons.IH [of "visit_child c ld"] visit_child_sum [of c "fst ld" "snd ld"] show ?case by simp
qed simp

lemma next_layer_sum:
  "degree_sum (snd (fold (\<lambda>node. fold visit_child (f node)) current ld)) +
     length (fst (fold (\<lambda>node. fold visit_child (f node)) current ld)) \<le> degree_sum (snd ld) + length (fst ld)"
proof (induction current arbitrary: ld)
  case (Cons n ns)
  from Cons.IH [of "fold visit_child (f n) ld"] visit_children_sum [of "f n" ld] show ?case by simp
qed simp

function layer_loop :: "deps \<Rightarrow> string list \<Rightarrow> degrees \<Rightarrow> string list list" where
  "layer_loop adj current d =
     (if current = [] then []
      else current # layer_loop adj (sort (fst (next_layer adj current d))) (snd (next_layer adj current d)))"
  by auto

termination
proof (relation "measure (\<lambda>(adj, current, d). degree_sum d + (if current = [] then 0 else 1))")
  fix adj current and d :: degrees
  assume "current \<noteq> ([] :: string list)"
  then show "((adj, sort (fst (next_layer adj current d)), snd (next_layer adj current d)), adj, current, d)
    \<in> measure (\<lambda>(adj, current, d). degree_sum d + (if current = [] then 0 else 1))"
    using next_layer_sum [of "\<lambda>node. case map_of adj node of None \<Rightarrow> [] | Some cs \<Rightarrow> cs" current "([], d)"]
    by (cases "fst (next_layer adj current d)") (auto simp: next_layer_def)
qed simp

declare layer_loop.simps [simp del]

definition topological_sort :: "deps \<Rightarrow> string list list" where
  "topological_sort m =
     (let d = in_degrees m
      in layer_loop (adjacency m) (sort (map fst (filter (\<lambda>(_, deg). deg = 0) d))) d)"

subsection \<open>The table\<close>

type_synonym dag_state = "ServiceTable \<times> (string, u16) gomap \<times> DAGTable"

definition add_dag_node :: "deps \<Rightarrow> nat \<Rightarrow> string \<Rightarrow> dag_state \<Rightarrow> dag_state" where
  "add_dag_node m layer_idx node_name = (\<lambda>(t, node_svc_ids, table).
     case services_add node_name t of (svc_id, t1) \<Rightarrow>
       let ids = AList.update node_name svc_id node_svc_ids;
           parent_ids = (case map_of m node_name of None \<Rightarrow> [] | Some parents \<Rightarrow> List.map_filter (map_of ids) parents)
       in (t1, ids, table\<lparr>dt_nodes := dt_nodes table @
             [\<lparr>dn_service_id = svc_id, dn_layer = word_of_nat layer_idx, dn_parent_ids = parent_ids\<rparr>]\<rparr>))"

definition service_id :: "ServiceTable \<Rightarrow> string \<Rightarrow> u16 option" where
  "service_id t n =
     (case services_get_by_name t n of
        None \<Rightarrow> Some 0
      | Some None \<Rightarrow> None
      | Some (Some e) \<Rightarrow> Some (se_id e))"

fun add_layers :: "deps \<Rightarrow> nat \<Rightarrow> string list list \<Rightarrow> dag_state \<Rightarrow> dag_state option" where
  "add_layers m layer_idx [] st = Some st"
| "add_layers m layer_idx (layer # layers) st =
     (case fold (add_dag_node m layer_idx) layer st of (t, ids, table) \<Rightarrow>
      case those (map (service_id t) layer) of
        None \<Rightarrow> None
      | Some svc_layer \<Rightarrow>
          add_layers m (Suc layer_idx) layers (t, ids, table\<lparr>dt_layers := dt_layers table @ [svc_layer]\<rparr>))"

definition terminal_nodes :: "deps \<Rightarrow> string list" where
  "terminal_nodes m = filter (\<lambda>node. node \<notin> set (concat (map snd m))) (map fst m)"

definition unknown_dep :: "deps \<Rightarrow> string option" where
  "unknown_dep m = find (\<lambda>dep. map_of m dep = None) (concat (map snd m))"

definition compile_dag :: "ExecutionPlan \<Rightarrow> string \<Rightarrow> (CompileError, u16 \<times> ExecutionPlan) rres" where
  "compile_dag plan body =
     (if body = [] \<or> body = ''{}'' then RErr (DagEmpty body)
      else let content = trim (trim_end_matches (CHR ''}'') (trim_start_matches (CHR ''{'') body)) in
      if content = [] then RErr (DagEmpty body)
      else let m = parse_dag content in
      if m = [] then RErr (DagEmpty body)
      else case unknown_dep m of
        Some dep \<Rightarrow> RErr (DagUnknownService dep)
      | None \<Rightarrow>
      if detect_cycle m \<noteq> Some False then RErr (DagCycle body)
      else case add_layers m 0 (topological_sort m) (p_services plan, [], dag_table_new) of
        None \<Rightarrow> RPanic
      | Some (t, _, table) \<Rightarrow>
      case those (map (service_id t) (terminal_nodes m)) of
        None \<Rightarrow> RPanic
      | Some terminals \<Rightarrow>
          ROk (word_of_nat (length (p_dag_tables plan)),
               plan\<lparr>p_services := t,
                    p_dag_tables := p_dag_tables plan @ [table\<lparr>dt_terminal_nodes := terminals\<rparr>]\<rparr>))"

subsection \<open>The layers ignore the dependencies\<close>

definition all_zero :: "degrees \<Rightarrow> bool" where
  "all_zero d \<longleftrightarrow> snd ` set d \<subseteq> {0} \<and> distinct (map fst d)"

lemma all_zero_or_zero: "all_zero d \<Longrightarrow> all_zero (or_zero k d) \<and> fst ` set (or_zero k d) = insert k (fst ` set d)"
  using set_update_snd [of k 0 d]
  by (auto simp: all_zero_def or_zero_def distinct_update dom_update map_of_eq_None_iff)

lemma all_zero_or_zeros:
  "all_zero d \<Longrightarrow> all_zero (fold or_zero ks d) \<and> fst ` set (fold or_zero ks d) = set ks \<union> fst ` set d"
  by (induction ks arbitrary: d) (use all_zero_or_zero in auto)

lemma in_degrees_fold:
  "all_zero d \<Longrightarrow> all_zero (fold (\<lambda>(node, node_deps) d. fold or_zero node_deps (or_zero node d)) m d) \<and>
     fst ` set (fold (\<lambda>(node, node_deps) d. fold or_zero node_deps (or_zero node d)) m d) =
       fst ` set m \<union> (\<Union>ds \<in> snd ` set m. set ds) \<union> fst ` set d"
proof (induction m arbitrary: d)
  case (Cons nd m)
  obtain n ds where nd: "nd = (n, ds)" by fastforce
  have z: "all_zero (fold or_zero ds (or_zero n d))"
    "fst ` set (fold or_zero ds (or_zero n d)) = set ds \<union> insert n (fst ` set d)"
    using all_zero_or_zero [OF Cons.prems, of n] all_zero_or_zeros by auto
  from Cons.IH [OF z(1)] show ?case by (auto simp: nd z(2))
qed simp

lemma in_degrees_zero:
  "all_zero (in_degrees m) \<and> fst ` set (in_degrees m) = fst ` set m \<union> (\<Union>ds \<in> snd ` set m. set ds)"
  using in_degrees_fold [of "[]" m] by (simp add: in_degrees_def all_zero_def)

lemma visit_child_zero: "all_zero d \<Longrightarrow> visit_child c (l, d) = (l, d)"
  by (force simp: visit_child_def all_zero_def split: option.split nat.split dest: map_of_SomeD)

lemma visit_children_zero: "all_zero d \<Longrightarrow> fold visit_child cs (l, d) = (l, d)"
  by (induction cs) (simp_all add: visit_child_zero)

lemma next_layer_zero: "all_zero d \<Longrightarrow> next_layer adj current d = ([], d)"
  unfolding next_layer_def by (induction current) (simp_all add: visit_children_zero)

lemma topological_sort_flat:
  assumes "m \<noteq> []"
  shows "topological_sort m = [sorted_list_of_set (fst ` set m \<union> (\<Union>ds \<in> snd ` set m. set ds))]"
proof -
  let ?d = "in_degrees m"
  have z: "all_zero ?d" and k: "fst ` set ?d = fst ` set m \<union> (\<Union>ds \<in> snd ` set m. set ds)"
    using in_degrees_zero by simp_all
  then have "filter (\<lambda>(_, deg). deg = 0) ?d = ?d"
    by (auto simp: filter_id_conv all_zero_def)
  moreover have "sort (map fst ?d) = sorted_list_of_set (fst ` set ?d)"
    using z by (simp add: all_zero_def sorted_list_of_set_sort_remdups distinct_remdups_id flip: set_map)
  moreover have "?d \<noteq> []" using k assms by (cases m) auto
  then have "sort (map fst ?d) \<noteq> []" by (metis length_0_conv length_map length_sort)
  then have "layer_loop adj (sort (map fst ?d)) ?d = [sort (map fst ?d)]" for adj
    by (subst layer_loop.simps, subst layer_loop.simps) (simp add: next_layer_zero [OF z])
  ultimately show ?thesis by (simp add: topological_sort_def k)
qed

subsection \<open>The search finds exactly the cycles\<close>

definition edges :: "deps \<Rightarrow> (string \<times> string) set" where
  "edges m = {(n, c). map_of m c \<noteq> None \<and> (\<exists>cs. map_of m n = Some cs \<and> c \<in> set cs)}"

text \<open>
  The invariant of the search: the stack has been visited, and the nodes visited and off the stack
  are finished, that is, closed under edges and not on a cycle.
\<close>

definition dfs_inv :: "deps \<Rightarrow> dfs_state \<Rightarrow> bool" where
  "dfs_inv m = (\<lambda>(v, s). set s \<subseteq> set v \<and> set v \<subseteq> fst ` set m \<and>
     (\<forall>x \<in> set v - set s. (x, x) \<notin> (edges m)\<^sup>+ \<and> (\<forall>y. (x, y) \<in> edges m \<longrightarrow> y \<in> set v - set s)))"

lemma dfs_invD:
  assumes "dfs_inv m (v, s)"
  shows "set s \<subseteq> set v" "set v \<subseteq> fst ` set m"
    and "x \<in> set v - set s \<Longrightarrow> (x, x) \<notin> (edges m)\<^sup>+"
    and "x \<in> set v - set s \<Longrightarrow> (x, y) \<in> edges m \<Longrightarrow> y \<in> set v - set s"
  using assms unfolding dfs_inv_def by blast+

lemma dfs_invI:
  assumes "set s \<subseteq> set v" "set v \<subseteq> fst ` set m"
    and "\<And>x. x \<in> set v - set s \<Longrightarrow> (x, x) \<notin> (edges m)\<^sup>+"
    and "\<And>x y. x \<in> set v - set s \<Longrightarrow> (x, y) \<in> edges m \<Longrightarrow> y \<in> set v - set s"
  shows "dfs_inv m (v, s)"
  using assms unfolding dfs_inv_def by blast

lemma finished_reach:
  assumes "dfs_inv m (v, s)" and "x \<in> set v - set s" and "(x, y) \<in> (edges m)\<^sup>*"
  shows "y \<in> set v - set s"
  using assms(3) by (induction rule: rtrancl_induct) (use assms(2) dfs_invD(4) [OF assms(1)] in blast)+

definition unvisited :: "deps \<Rightarrow> dfs_state \<Rightarrow> nat" where
  "unvisited m = (\<lambda>(v, s). card (fst ` set m - set v))"

text \<open>The result of a search from the children of a node, or from a node, with enough fuel.\<close>

definition dfs_post :: "deps \<Rightarrow> dfs_state \<Rightarrow> string set \<Rightarrow> (bool \<times> dfs_state) option \<Rightarrow> bool" where
  "dfs_post m st done_nodes r \<longleftrightarrow>
     (case r of
        None \<Rightarrow> False
      | Some (True, _) \<Rightarrow> \<exists>x. (x, x) \<in> (edges m)\<^sup>+
      | Some (False, st1) \<Rightarrow> dfs_inv m st1 \<and> set (snd st1) = set (snd st) \<and> set (fst st) \<subseteq> set (fst st1) \<and>
          done_nodes \<subseteq> set (fst st1) - set (snd st1))"

lemma unvisited_mono: "set v \<subseteq> set v' \<Longrightarrow> unvisited m (v', s') \<le> unvisited m (v, s)"
  by (auto simp: unvisited_def intro!: card_mono)

lemma unvisited_visit: "n \<in> fst ` set m \<Longrightarrow> n \<notin> set v \<Longrightarrow> Suc (unvisited m (n # v, s')) = unvisited m (v, s)"
proof -
  assume "n \<in> fst ` set m" "n \<notin> set v"
  then have "n \<in> fst ` set m - set v" by blast
  then have "Suc (card (fst ` set m - set v - {n})) = card (fst ` set m - set v)" by (intro card.remove [symmetric]) auto
  moreover have "fst ` set m - set (n # v) = fst ` set m - set v - {n}" by auto
  ultimately show ?thesis by (simp add: unvisited_def)
qed

lemma dfs_enter:
  assumes "dfs_inv m (v, s)" and "n \<in> fst ` set m" and "n \<notin> set v"
  shows "dfs_inv m (n # v, n # s)"
proof (rule dfs_invI)
  have fin: "set (n # v) - set (n # s) = set v - set s" using assms(3) by auto
  show "set (n # s) \<subseteq> set (n # v)" "set (n # v) \<subseteq> fst ` set m"
    using dfs_invD(1,2) [OF assms(1)] assms(2) by auto
  show "x \<in> set (n # v) - set (n # s) \<Longrightarrow> (x, x) \<notin> (edges m)\<^sup>+" for x
    unfolding fin by (rule dfs_invD(3) [OF assms(1)])
  show "x \<in> set (n # v) - set (n # s) \<Longrightarrow> (x, y) \<in> edges m \<Longrightarrow> y \<in> set (n # v) - set (n # s)" for x y
    unfolding fin by (rule dfs_invD(4) [OF assms(1)])
qed

lemma dfs_leave:
  assumes "dfs_inv m (v, s)" and "n \<in> set s"
    and closed: "\<And>y. (n, y) \<in> edges m \<Longrightarrow> y \<in> set v - set s"
  shows "dfs_inv m (v, removeAll n s)"
proof (rule dfs_invI)
  have n: "n \<in> set v" using dfs_invD(1) [OF assms(1)] assms(2) by blast
  have fin: "set v - set (removeAll n s) = insert n (set v - set s)" using n by auto
  show "set (removeAll n s) \<subseteq> set v" "set v \<subseteq> fst ` set m"
    using dfs_invD(1,2) [OF assms(1)] by auto
  have "(n, n) \<notin> (edges m)\<^sup>+"
  proof
    assume "(n, n) \<in> (edges m)\<^sup>+"
    then obtain y where "(n, y) \<in> edges m" "(y, n) \<in> (edges m)\<^sup>*" by (metis tranclD)
    with finished_reach [OF assms(1) closed] assms(2) show False by blast
  qed
  then show "x \<in> set v - set (removeAll n s) \<Longrightarrow> (x, x) \<notin> (edges m)\<^sup>+" for x
    unfolding fin using dfs_invD(3) [OF assms(1)] by blast
  show "x \<in> set v - set (removeAll n s) \<Longrightarrow> (x, y) \<in> edges m \<Longrightarrow> y \<in> set v - set (removeAll n s)" for x y
    unfolding fin using dfs_invD(4) [OF assms(1)] closed by blast
qed

lemma dfs_post_simps:
  "dfs_post m st D (Some (False, st1)) \<longleftrightarrow> dfs_inv m st1 \<and> set (snd st1) = set (snd st) \<and>
     set (fst st) \<subseteq> set (fst st1) \<and> D \<subseteq> set (fst st1) - set (snd st1)"
  "dfs_post m st D (Some (True, st1)) \<longleftrightarrow> (\<exists>x. (x, x) \<in> (edges m)\<^sup>+)"
  "\<not> dfs_post m st D None"
  by (simp_all add: dfs_post_def)

lemma dfs_post_weaken:
  assumes "dfs_post m st1 D r" and "set (snd st1) = set (snd st)" and "set (fst st) \<subseteq> set (fst st1)"
    and "D' - D \<subseteq> set (fst st1) - set (snd st1)"
  shows "dfs_post m st D' r"
proof -
  consider "r = None" | st2 where "r = Some (True, st2)" | st2 where "r = Some (False, st2)"
    by (metis (full_types) not_None_eq surj_pair)
  then show ?thesis
  proof cases
    case 3
    from assms(1) have "dfs_inv m st2 \<and> set (snd st2) = set (snd st1) \<and> set (fst st1) \<subseteq> set (fst st2) \<and>
        D \<subseteq> set (fst st2) - set (snd st2)"
      unfolding 3 dfs_post_simps .
    with assms(2,3,4) show ?thesis unfolding 3 dfs_post_simps by blast
  qed (use assms(1) in \<open>simp_all add: dfs_post_simps\<close>)
qed

lemma key_iff: "map_of m k \<noteq> None \<longleftrightarrow> k \<in> fst ` set m"
  by (simp add: map_of_eq_None_iff)

lemma dfs_correct:
  "\<lbrakk>dfs_inv m st; node \<in> fst ` set m; node \<notin> set (fst st); unvisited m st \<le> k;
    \<forall>x \<in> set (snd st). (x, node) \<in> (edges m)\<^sup>*\<rbrakk> \<Longrightarrow> dfs_post m st {node} (dfs_cycle k m node st)"
  "\<lbrakk>dfs_inv m st; unvisited m st \<le> k;
    \<forall>c \<in> set cs. map_of m c \<noteq> None \<longrightarrow> (\<forall>x \<in> set (snd st). (x, c) \<in> (edges m)\<^sup>+)\<rbrakk> \<Longrightarrow>
    dfs_post m st {c \<in> set cs. map_of m c \<noteq> None} (dfs_children k m cs st)"
proof (induction k m node st and k m cs st rule: dfs_cycle_dfs_children.induct)
  case (1 m node st)
  then have "0 < unvisited m st"
    using unvisited_visit [of node m "fst st" "[]" "snd st"] by simp
  with 1 show ?case by simp
next
  case (2 k m node v s)
  let ?cs = "case map_of m node of None \<Rightarrow> [] | Some cs \<Rightarrow> cs"
  have edge: "(node, c) \<in> edges m \<longleftrightarrow> c \<in> set ?cs \<and> map_of m c \<noteq> None" for c
    by (cases "map_of m node") (auto simp: edges_def)
  have s: "node \<notin> set s" using dfs_invD(1) [OF 2(2)] 2(4) by auto
  have "dfs_post m (node # v, node # s) {c \<in> set ?cs. map_of m c \<noteq> None}
      (dfs_children k m ?cs (node # v, node # s))"
  proof (rule 2(1))
    show "dfs_inv m (node # v, node # s)" using dfs_enter [OF 2(2)] 2(3,4) by simp
    show "unvisited m (node # v, node # s) \<le> k"
      using unvisited_visit [of node m v "node # s" s] 2(3,4,5) by simp
    show "\<forall>c \<in> set ?cs. map_of m c \<noteq> None \<longrightarrow> (\<forall>x \<in> set (snd (node # v, node # s)). (x, c) \<in> (edges m)\<^sup>+)"
      using 2(6) edge by (auto intro: rtrancl_into_trancl1)
  qed
  then show ?case
  proof (cases "dfs_children k m ?cs (node # v, node # s)")
    case (Some r)
    obtain b v1 s1 where r: "r = (b, v1, s1)" by (cases r) auto
    show ?thesis
    proof (cases b)
      case False
      then have b: "b = False" by simp
      from \<open>dfs_post m _ _ _\<close> have post: "dfs_inv m (v1, s1)" "set s1 = insert node (set s)"
        "insert node (set v) \<subseteq> set v1" "{c \<in> set ?cs. map_of m c \<noteq> None} \<subseteq> set v1 - set s1"
        unfolding Some r b dfs_post_simps fst_conv snd_conv list.set by blast+
      have "dfs_inv m (v1, removeAll node s1)"
        by (rule dfs_leave [OF post(1)]) (use post(2,4) edge in auto)
      with post s False show ?thesis by (auto simp: Some r dfs_post_simps)
    qed (use \<open>dfs_post m _ _ _\<close> Some r in \<open>simp add: dfs_post_simps\<close>)
  qed (simp add: dfs_post_simps)
next
  case (3 k m st)
  then show ?case by (simp add: dfs_post_def)
next
  case (4 k m c cs v s)
  note finished = "4.IH"(4) and prems = "4.prems"
  let ?D = "{c \<in> set cs. map_of m c \<noteq> None}"
  have pre: "\<forall>c \<in> set cs. map_of m c \<noteq> None \<longrightarrow> (\<forall>x \<in> set s. (x, c) \<in> (edges m)\<^sup>+)" using 4(7) by simp
  consider "map_of m c = None" | "map_of m c \<noteq> None" "c \<notin> set v" |
    "map_of m c \<noteq> None" "c \<in> set v" "c \<in> set s" | "map_of m c \<noteq> None" "c \<in> set v" "c \<notin> set s" by blast
  then show ?case
  proof cases
    case 1
    have "dfs_post m (v, s) ?D (dfs_children k m cs (v, s))"
      by (rule 4(1)) (use 1 4(5,6) pre in simp_all)
    then have "dfs_post m (v, s) {x \<in> set (c # cs). map_of m x \<noteq> None} (dfs_children k m cs (v, s))"
      by (rule dfs_post_weaken) (use 1 in auto)
    moreover have "dfs_children k m (c # cs) (v, s) = dfs_children k m cs (v, s)" using 1 by simp
    ultimately show ?thesis by argo
  next
    case 2
    have post: "dfs_post m (v, s) {c} (dfs_cycle k m c (v, s))"
      by (rule 4(2)) (use 2 4(5,6,7) key_iff [of m c] in \<open>auto intro: trancl_into_rtrancl\<close>)
    consider "dfs_cycle k m c (v, s) = None" | st2 where "dfs_cycle k m c (v, s) = Some (True, st2)" |
        v2 s2 where "dfs_cycle k m c (v, s) = Some (False, (v2, s2))"
      by (metis (full_types) not_None_eq surj_pair)
    then show ?thesis
    proof cases
      case 3
      from post have st2: "dfs_inv m (v2, s2)" "set s2 = set s" "set v \<subseteq> set v2" "{c} \<subseteq> set v2 - set s2"
        unfolding 3 dfs_post_simps fst_conv snd_conv by blast+
      have "dfs_post m (v2, s2) ?D (dfs_children k m cs (v2, s2))"
        by (rule 4(3) [OF 2 3]) (use st2 pre unvisited_mono [OF st2(3), of m s2 s] 4(6) in auto)
      then have "dfs_post m (v, s) {x \<in> set (c # cs). map_of m x \<noteq> None} (dfs_children k m cs (v2, s2))"
        by (rule dfs_post_weaken) (use st2 in auto)
      moreover have "dfs_children k m (c # cs) (v, s) = dfs_children k m cs (v2, s2)" using 2 3 by auto
      ultimately show ?thesis by argo
    qed (use post 2 in \<open>auto simp: dfs_post_simps\<close>)
  next
    case 3
    with 4(7) show ?thesis by (auto simp: dfs_post_simps)
  next
    case 4
    have "dfs_post m (v, s) ?D (dfs_children k m cs (v, s))"
      by (rule finished) (use 4 prems pre in simp_all)
    then have "dfs_post m (v, s) {x \<in> set (c # cs). map_of m x \<noteq> None} (dfs_children k m cs (v, s))"
      by (rule dfs_post_weaken) (use 4 in auto)
    moreover have "dfs_children k m (c # cs) (v, s) = dfs_children k m cs (v, s)" using 4 by auto
    ultimately show ?thesis by argo
  qed
qed

lemma detect_loop_correct:
  "\<lbrakk>dfs_inv m (v, s); set s = {}; set nodes \<subseteq> fst ` set m; card (fst ` set m) \<le> k\<rbrakk> \<Longrightarrow>
     case detect_loop k m nodes (v, s) of
       None \<Rightarrow> False
     | Some True \<Rightarrow> \<exists>x. (x, x) \<in> (edges m)\<^sup>+
     | Some False \<Rightarrow> \<forall>x \<in> set nodes \<union> set v. (x, x) \<notin> (edges m)\<^sup>+"
proof (induction k m nodes "(v, s)" arbitrary: v s rule: detect_loop.induct)
  case (1 k m v s)
  then show ?case using dfs_invD(3) [OF 1(1)] by simp
next
  case (2 k m node nodes v s)
  show ?case
  proof (cases "node \<in> set v")
    case True
    with 2(1) [OF True] 2(3-6) show ?thesis by (auto split: option.splits bool.splits)
  next
    case False
    have "unvisited m (v, s) \<le> card (fst ` set m)" by (auto simp: unvisited_def intro!: card_mono)
    with 2(3-6) False have post: "dfs_post m (v, s) {node} (dfs_cycle k m node (v, s))"
      by (intro dfs_correct(1)) auto
    consider "dfs_cycle k m node (v, s) = None" | st2 where "dfs_cycle k m node (v, s) = Some (True, st2)" |
        v2 s2 where "dfs_cycle k m node (v, s) = Some (False, (v2, s2))"
      by (metis (full_types) not_None_eq surj_pair)
    then show ?thesis
    proof cases
      case 3
      from post have st2: "dfs_inv m (v2, s2)" "set s2 = set s" "set v \<subseteq> set v2" "{node} \<subseteq> set v2 - set s2"
        unfolding 3 dfs_post_simps fst_conv snd_conv by blast+
      have "case detect_loop k m nodes (v2, s2) of None \<Rightarrow> False | Some True \<Rightarrow> \<exists>x. (x, x) \<in> (edges m)\<^sup>+
          | Some False \<Rightarrow> \<forall>x \<in> set nodes \<union> set v2. (x, x) \<notin> (edges m)\<^sup>+"
        by (rule 2(2) [OF False 3]) (use st2 2(4-6) in auto)
      with st2(3,4) False 3 show ?thesis by (auto split: option.splits bool.splits)
    qed (use post False in \<open>auto simp: dfs_post_simps\<close>)
  qed
qed

lemma detect_cycle_correct: "detect_cycle m = Some (\<exists>x. (x, x) \<in> (edges m)\<^sup>+)"
proof -
  have "dfs_inv m ([], [])" by (rule dfs_invI) auto
  moreover have "card (fst ` set m) \<le> length m" by (metis card_length length_map set_map)
  ultimately have c: "case detect_cycle m of None \<Rightarrow> False | Some True \<Rightarrow> \<exists>x. (x, x) \<in> (edges m)\<^sup>+
      | Some False \<Rightarrow> \<forall>x \<in> set (map fst m) \<union> set []. (x, x) \<notin> (edges m)\<^sup>+"
    unfolding detect_cycle_def by (intro detect_loop_correct) auto
  have key: "x \<in> fst ` set m" if "(x, x) \<in> (edges m)\<^sup>+" for x
    using tranclD [OF that] key_iff [of m x] by (auto simp: edges_def)
  from c show ?thesis
    by (cases "detect_cycle m") (auto split: bool.splits dest: key)
qed

subsection \<open>The compiled table\<close>

lemma service_id_known:
  assumes "services_ok t" and "n \<in> set (service_names t)"
  shows "\<exists>i. service_id t n = Some i \<and> service_name t i = Some n"
proof -
  have ix: "indexed (service_names t) (sv_index t)" and ids: "map se_id (sv_entries t) = map word_of_nat [0..<length (sv_entries t)]"
    using assms(1) by (simp_all add: services_ok_def)
  from indexed_None [OF ix] assms(2) obtain i where i: "map_of (sv_index t) n = Some i" by auto
  from indexed_Some [OF ix i] have n: "unat i < length (sv_entries t)" by simp
  with indexed_Some [OF ix i] have "se_name (sv_entries t ! unat i) = n" by simp
  moreover have "se_id (sv_entries t ! unat i) = i"
    using arg_cong [OF ids, of "\<lambda>l. l ! unat i"] n by simp
  ultimately show ?thesis using i n by (simp add: service_id_def services_get_by_name_def services_get_def)
qed

lemma service_ids_known:
  "services_ok t \<Longrightarrow> set ns \<subseteq> set (service_names t) \<Longrightarrow>
     \<exists>is. those (map (service_id t) ns) = Some is \<and> map (service_name t) is = map Some ns"
proof (induction ns)
  case (Cons n ns)
  from Cons obtain "is" where "those (map (service_id t) ns) = Some is" "map (service_name t) is = map Some ns" by auto
  moreover from service_id_known [OF Cons.prems(1), of n] Cons.prems(2) obtain i
    where "service_id t n = Some i" "service_name t i = Some n" by auto
  ultimately show ?case by (intro exI [of _ "i # is"]) simp
qed simp

lemma add_dag_nodes:
  "\<lbrakk>services_ok t; length (sv_entries t) + length layer \<le> 65536; fold (add_dag_node m l) layer (t, ids, table) = (t', ids', table')\<rbrakk> \<Longrightarrow>
     services_ok t' \<and> set layer \<union> set (service_names t) \<subseteq> set (service_names t') \<and> dt_layers table' = dt_layers table \<and>
     (\<exists>ns. dt_nodes table' = dt_nodes table @ ns \<and> length ns = length layer \<and> (\<forall>n \<in> set ns. dn_layer n = word_of_nat l))"
proof (induction layer arbitrary: t ids table)
  case (Cons n layer)
  obtain i t1 where a: "services_add n t = (i, t1)" by fastforce
  have len: "length (service_names t) < 65536" using Cons.prems(2) by simp
  have t1: "services_ok t1" and names: "service_names t1 = (if n \<in> set (service_names t) then service_names t else service_names t @ [n])"
    using services.ok_add [OF Cons.prems(1) len, of n] services.strs_add [OF Cons.prems(1), of n] by (simp_all add: a)
  have "length (sv_entries t1) + length layer \<le> 65536"
    using arg_cong [OF names, of length] Cons.prems(2) by (simp split: if_splits)
  obtain ids1 nd where step: "add_dag_node m l n (t, ids, table) = (t1, ids1, table\<lparr>dt_nodes := dt_nodes table @ [nd]\<rparr>)"
    "dn_layer nd = word_of_nat l"
    by (simp add: add_dag_node_def a Let_def)
  from Cons.prems(3) step(1) have "fold (add_dag_node m l) layer (t1, ids1, table\<lparr>dt_nodes := dt_nodes table @ [nd]\<rparr>) = (t', ids', table')"
    by simp
  from Cons.IH [OF t1 \<open>length (sv_entries t1) + _ \<le> _\<close> this] obtain ns where
    "services_ok t'" and sub: "set layer \<union> set (service_names t1) \<subseteq> set (service_names t')"
    and "dt_layers table' = dt_layers table"
    "dt_nodes table' = dt_nodes table @ nd # ns" "length ns = length layer" "\<forall>n \<in> set ns. dn_layer n = word_of_nat l"
    by auto
  moreover have "insert n (set (service_names t)) = set (service_names t1)" using names by auto
  then have "set (n # layer) \<union> set (service_names t) \<subseteq> set (service_names t')" unfolding list.set using sub by blast
  ultimately show ?case using step(2) by (intro conjI exI [of _ "nd # ns"]) simp_all
qed simp

lemma compile_dag_shape:
  assumes "compile_dag plan body = ROk (i, plan')"
    and "services_ok (p_services plan)"
    and "length (sv_entries (p_services plan)) + card (fst ` set m) \<le> 65536"
    and m: "m = parse_dag (trim (trim_end_matches (CHR ''}'') (trim_start_matches (CHR ''{'') body)))"
  shows "\<exists>table is. p_dag_tables plan' = p_dag_tables plan @ [table] \<and> dt_layers table = [is] \<and>
    map (service_name (p_services plan')) is = map Some (sorted_list_of_set (fst ` set m)) \<and>
    length (dt_nodes table) = length is \<and> (\<forall>n \<in> set (dt_nodes table). dn_layer n = 0)"
proof -
  let ?names = "sorted_list_of_set (fst ` set m)"
  from assms(1) have ne: "m \<noteq> []" and unk: "unknown_dep m = None"
    by (auto simp: compile_dag_def m Let_def split: if_splits option.splits)
  have "fst ` set m \<union> (\<Union>ds \<in> snd ` set m. set ds) = fst ` set m"
    using unk by (force simp: unknown_dep_def find_None_iff map_of_eq_None_iff)
  with topological_sort_flat [OF ne] have layers: "topological_sort m = [?names]" by simp
  obtain t ids table where f: "fold (add_dag_node m 0) ?names (p_services plan, [], dag_table_new) = (t, ids, table)"
    by (metis prod_cases3)
  have bound: "length (sv_entries (p_services plan)) + length ?names \<le> 65536" using assms(3) by simp
  note nodes = add_dag_nodes [OF assms(2) bound f]
  then obtain "is" where ids: "those (map (service_id t) ?names) = Some is" "map (service_name t) is = map Some ?names"
    using service_ids_known [of t ?names] by auto
  from assms(1) ne unk obtain terminals where
    plan: "plan' = plan\<lparr>p_services := t, p_dag_tables := p_dag_tables plan @
      [table\<lparr>dt_layers := dt_layers table @ [is], dt_terminal_nodes := terminals\<rparr>]\<rparr>"
    by (auto simp: compile_dag_def m [symmetric] Let_def layers f ids(1) split: if_splits option.splits)
  have "length is = length ?names" using ids(2) by (metis length_map)
  with nodes plan ids show ?thesis by (auto simp: dag_table_new_def)
qed

subsection \<open>Properties\<close>

text \<open>
  C10: The compiler's search reports a cycle exactly when the dependencies have one; the fuel
  of the recursion is never used up.
\<close>

theorem detect_cycle_iff: "detect_cycle m = Some (\<exists>x. (x, x) \<in> (edges m)\<^sup>+)"
  by (rule detect_cycle_correct)

text \<open>
  Whatever its dependencies, a DAG is compiled to a single layer with all its nodes in
  alphabetical order: the counts of open dependencies are never increased, so every node counts as
  free.  Executing the layers in order therefore does not run a node after the nodes it depends on.
\<close>

lemma compile_dag_one_layer:
  assumes "compile_dag plan body = ROk (i, plan')"
    and "services_ok (p_services plan)"
    and "m = parse_dag (trim (trim_end_matches (CHR ''}'') (trim_start_matches (CHR ''{'') body)))"
    and "length (sv_entries (p_services plan)) + card (fst ` set m) \<le> 65536"
  shows "\<exists>table is names. p_dag_tables plan' = p_dag_tables plan @ [table] \<and> dt_layers table = [is] \<and>
    sorted names \<and> set names = fst ` set m \<and> map (service_name (p_services plan')) is = map Some names \<and>
    (\<forall>n \<in> set (dt_nodes table). dn_layer n = 0)"
proof -
  have "set (sorted_list_of_set (fst ` set m)) = fst ` set m" by simp
  with compile_dag_shape [OF assms(1,2,4,3)] show ?thesis by (meson sorted_sorted_list_of_set)
qed

end
