(* ===== verification/RT_Compiler.thy ===== *)
theory RT_Compiler
  imports RT_Dag RT_Optimizer
begin

text \<open>
  The compiler from nodes to a plan, \<^verbatim>\<open>runtime/src/dsl/compiler\<close>: the schema and the type checks
  (\<^verbatim>\<open>schema.rs\<close>, \<^verbatim>\<open>type_check.rs\<close>), the pass over the nodes (\<^verbatim>\<open>mod.rs\<close>) and the complexity score.
  \<open>to_lowercase\<close> is modelled on ASCII letters; other letters are left as they are.  A message of a type error
  is the field it is about.
\<close>

subsection \<open>Schemas\<close>

definition lower_char :: "char \<Rightarrow> char" where
  "lower_char c = (let n = (of_char c :: nat) in if 65 \<le> n \<and> n \<le> 90 then char_of (n + 32) else c)"

definition to_lowercase :: "string \<Rightarrow> string" where
  "to_lowercase s = map lower_char s"

type_synonym 'a compiled = "(CompileError, 'a) rres"

definition type_names :: "(string \<times> ResolvedType) list" where
  "type_names = [(''string'', TString), (''int'', TInteger), (''float'', TFloat), (''bool'', TBoolean),
     (''object'', TObject), (''array'', TArray), (''null'', TNull), (''any'', TAny)]"

definition parse_type :: "string \<Rightarrow> string \<Rightarrow> ResolvedType compiled" where
  "parse_type name type_str =
     (if starts_with type_str ''enum['' \<and> ends_with type_str '']'' then
        let variants = filter (\<lambda>v. v \<noteq> []) (map trim (split_at (CHR ''|'') (butlast (drop 5 type_str))))
        in if variants = [] then RErr (SchemaParseError name) else ROk (TEnum variants)
      else case map_of type_names type_str of
        Some t \<Rightarrow> ROk t
      | None \<Rightarrow> RErr (SchemaParseError name))"

definition parse_field :: "string \<Rightarrow> FieldSchema compiled" where
  "parse_field seg =
     (let required = starts_with seg ''!''; name_part = (if required then tl seg else seg)
      in case split_at (CHR '':'') name_part of
        p0 # p1 # _ \<Rightarrow>
          if p0 = [] \<or> p1 = [] then RErr (SchemaParseError seg)
          else rbind (parse_type (trim p0) (to_lowercase (trim p1))) (\<lambda>t.
            ROk \<lparr>fsc_name = trim p0, fsc_type = t, fsc_required = required\<rparr>)
      | _ \<Rightarrow> RErr (SchemaParseError seg))"

fun parse_fields :: "string list \<Rightarrow> Schema compiled" where
  "parse_fields [] = ROk []"
| "parse_fields (segment # segments) =
     (if trim segment = [] then parse_fields segments
      else rbind (parse_field (trim segment)) (\<lambda>f. rbind (parse_fields segments) (\<lambda>fs. ROk (f # fs))))"

definition compile_schema :: "string \<Rightarrow> Schema compiled" where
  "compile_schema body =
     (let content = trim (trim_end_matches (CHR ''}'') (trim_start_matches (CHR ''{'') body))
      in if content = [] then RErr (SchemaParseError ''empty schema body'')
         else parse_fields (split_at (CHR '','') content))"

definition type_check_gate :: "Schema \<Rightarrow> string \<Rightarrow> string \<Rightarrow> unit compiled" where
  "type_check_gate schema field op =
     (case field_type schema field of
        None \<Rightarrow> ROk ()
      | Some t \<Rightarrow>
          if op \<in> {''=='', ''!=''} then ROk ()
          else if op \<in> {''>'', ''<'', ''>='', ''<=''} then
            (if supports_ordering t then ROk () else RErr (TypeMismatch field))
          else if op = ''contains'' then
            (if supports_contains t then ROk () else RErr (TypeMismatch field))
          else ROk ())"

text \<open>The first operand that is a field of the schema and not a string.\<close>

fun check_strings :: "Schema \<Rightarrow> string list \<Rightarrow> unit compiled" where
  "check_strings schema [] = ROk ()"
| "check_strings schema (arg # args) =
     (case strip_prefix (trim arg) ''.'' of
        None \<Rightarrow> check_strings schema args
      | Some field_name \<Rightarrow>
          (case field_type schema field_name of
             None \<Rightarrow> check_strings schema args
           | Some t \<Rightarrow> if t \<noteq> TString then RErr (TypeMismatch field_name) else check_strings schema args))"

definition type_check_map :: "Schema \<Rightarrow> string \<Rightarrow> unit compiled" where
  "type_check_map schema expr =
     (let rhs = (case find_str ''='' expr of Some eq_pos \<Rightarrow> trim (drop (Suc eq_pos) expr) | None \<Rightarrow> trim expr)
      in if rhs = [] then ROk ()
         else rbind (if starts_with rhs ''concat('' \<and> ends_with rhs '')''
                     then check_strings schema (split_at (CHR '','') (butlast (drop 7 rhs))) else ROk ()) (\<lambda>_.
              if CHR ''+'' \<in> set rhs then check_strings schema (split_at (CHR ''+'') rhs) else ROk ()))"

fun first_schema :: "ASTNode list \<Rightarrow> Schema option compiled" where
  "first_schema [] = ROk None"
| "first_schema (Schema body # ns) = rbind (compile_schema body) (\<lambda>s. ROk (Some s))"
| "first_schema (n # ns) = first_schema ns"

fun type_check :: "Schema \<Rightarrow> ASTNode list \<Rightarrow> unit compiled" where
  "type_check schema [] = ROk ()"
| "type_check schema (Gate field op value # ns) =
     rbind (type_check_gate schema field op) (\<lambda>_. type_check schema ns)"
| "type_check schema (MapExpr expr # ns) = rbind (type_check_map schema expr) (\<lambda>_. type_check schema ns)"
| "type_check schema (n # ns) = type_check schema ns"

subsection \<open>Instructions\<close>

record compile_state =
  cs_plan :: ExecutionPlan
  cs_labels :: "(string, nat) gomap"
  cs_instructions :: "Instruction list"
  cs_pending_retry :: "RetryConfig option"
  cs_pending_timeout :: "u64 option"

definition emit_instr :: "Instruction \<Rightarrow> compile_state \<Rightarrow> compile_state" where
  "emit_instr i st = st\<lparr>cs_instructions := cs_instructions st @ [i]\<rparr>"

definition resolve_service :: "string \<Rightarrow> compile_state \<Rightarrow> u16 \<times> compile_state" where
  "resolve_service name st =
     (case services_add name (p_services (cs_plan st)) of (i, t) \<Rightarrow> (i, st\<lparr>cs_plan := (cs_plan st)\<lparr>p_services := t\<rparr>\<rparr>))"

fun resolve_services :: "string list \<Rightarrow> compile_state \<Rightarrow> u16 list \<times> compile_state" where
  "resolve_services [] st = ([], st)"
| "resolve_services (n # ns) st =
     (case resolve_service n st of (i, st1) \<Rightarrow> case resolve_services ns st1 of (is, st2) \<Rightarrow> (i # is, st2))"

definition add_const :: "string \<Rightarrow> compile_state \<Rightarrow> u16 \<times> compile_state" where
  "add_const s st =
     (case pool_add s (p_const_pool (cs_plan st)) of (i, p) \<Rightarrow> (i, st\<lparr>cs_plan := (cs_plan st)\<lparr>p_const_pool := p\<rparr>\<rparr>))"

text \<open>A call takes the pending timeout.\<close>

definition emit_call :: "(u16 \<Rightarrow> u64 \<Rightarrow> Instruction) \<Rightarrow> string \<Rightarrow> compile_state \<Rightarrow> compile_state" where
  "emit_call mk target st =
     (case resolve_service target st of (svc_id, st1) \<Rightarrow>
        emit_instr (mk svc_id (case cs_pending_timeout st1 of None \<Rightarrow> 0 | Some ms \<Rightarrow> ms)) (st1\<lparr>cs_pending_timeout := None\<rparr>))"

text \<open>A group of targets; the access to its first id panics when there is none.\<close>

definition emit_group :: "(u8 \<Rightarrow> u16 \<Rightarrow> Instruction) \<Rightarrow> string list \<Rightarrow> compile_state \<Rightarrow> compile_state compiled" where
  "emit_group mk tgts st =
     (case resolve_services tgts st of
        ([], _) \<Rightarrow> RPanic
      | (i # is, st1) \<Rightarrow>
          ROk (fold (\<lambda>j. emit_instr (instr_svc_arg j)) (i # is) (emit_instr (mk (word_of_nat (length (i # is))) i) st1)))"

definition retry_config :: "u8 \<Rightarrow> string option \<Rightarrow> u32 option \<Rightarrow> RetryConfig" where
  "retry_config count strategy fixed_ms =
     \<lparr>rc_max_attempts = count,
      rc_strategy = (if strategy = Some ''linear'' then Linear else if strategy = Some ''fixed'' then Fixed else Exponential),
      rc_fixed_ms = (case fixed_ms of None \<Rightarrow> 0 | Some ms \<Rightarrow> ms)\<rparr>"

fun compile_node :: "ASTNode \<Rightarrow> compile_state \<Rightarrow> compile_state compiled" where
  "compile_node (Label name) st =
     (if map_of (cs_labels st) name \<noteq> None then RErr (DuplicateLabel name)
      else ROk (emit_instr instr_label
             (st\<lparr>cs_labels := AList.update name (length (cs_instructions st)) (cs_labels st)\<rparr>)))"
| "compile_node (Jmp target) st =
     (let ip = word_of_nat (case map_of (cs_labels st) target of None \<Rightarrow> 0 | Some i \<Rightarrow> i)
      in ROk (emit_instr (instr_jump_offset ip) (emit_instr (instr_jmp ip) st)))"
| "compile_node (Next target) st = ROk (emit_call instr_next target st)"
| "compile_node (Async target) st = ROk (emit_call instr_async_svc target st)"
| "compile_node (Parallel tgts) st = emit_group instr_parallel tgts st"
| "compile_node Collect st = ROk (emit_instr instr_collect st)"
| "compile_node (Fallback target) st =
     (case resolve_service target st of (svc_id, st1) \<Rightarrow> ROk (emit_instr (instr_fallback svc_id) st1))"
| "compile_node (Gate field op value) st =
     (case add_const field st of (field_id, st1) \<Rightarrow>
      case add_const value st1 of (value_id, st2) \<Rightarrow>
        let gate_op = (case gate_parse op of None \<Rightarrow> GEq | Some g \<Rightarrow> g)
        in ROk (emit_instr (instr_jump_offset 0) (emit_instr (instr_gate field_id (gate_u8 gate_op) value_id) st2)))"
| "compile_node (Emit tgts) st = emit_group instr_emit tgts st"
| "compile_node Drop st = ROk (emit_instr instr_drop st)"
| "compile_node (Buffer n) st = ROk (emit_instr (instr_buffer (ucast n)) st)"
| "compile_node (Key field) st =
     (case add_const field st of (field_id, st1) \<Rightarrow> ROk (emit_instr (instr_set_key field_id) st1))"
| "compile_node (Split field) st =
     (case add_const field st of (field_id, st1) \<Rightarrow> ROk (emit_instr (instr_set_key field_id) st1))"
| "compile_node (MapExpr expr) st =
     (case add_const expr st of (expr_id, st1) \<Rightarrow> ROk (emit_instr (instr_map expr_id) st1))"
| "compile_node (Timeout ms) st = ROk (st\<lparr>cs_pending_timeout := Some ms\<rparr>)"
| "compile_node (Retry count strategy fixed_ms) st =
     ROk (st\<lparr>cs_pending_retry := Some (retry_config count strategy fixed_ms)\<rparr>)"
| "compile_node (Chunk count mode) st =
     (let cm = (if mode = ''par'' then ParallelChunks else Sequential)
      in ROk (emit_instr (instr_chunk count (chunk_u8 cm))
           (st\<lparr>cs_plan := (cs_plan st)\<lparr>p_chunk_configs := p_chunk_configs (cs_plan st) @
                 [\<lparr>cc_count = count, cc_mode = cm\<rparr>]\<rparr>\<rparr>)))"
| "compile_node (Dag body) st =
     rbind (compile_dag (cs_plan st) body) (\<lambda>(dag_id, plan). ROk (emit_instr (instr_dag dag_id) (st\<lparr>cs_plan := plan\<rparr>)))"
| "compile_node (Schema _) st = ROk (emit_instr (instr_type_guard 1) st)"
| "compile_node (Delay ms) st = ROk (emit_instr (instr_delay ms) st)"
| "compile_node Pipe st = ROk st"

fun compile_nodes :: "ASTNode list \<Rightarrow> compile_state \<Rightarrow> compile_state compiled" where
  "compile_nodes [] st = ROk st"
| "compile_nodes (n # ns) st = rbind (compile_node n st) (compile_nodes ns)"

text \<open>The retry that is left over goes to the last instruction, when that is a call.\<close>

definition attach_retry :: "compile_state \<Rightarrow> compile_state" where
  "attach_retry st =
     (case cs_pending_retry st of
        None \<Rightarrow> st
      | Some cfg \<Rightarrow>
          if cs_instructions st = [] then st
          else
            let i = last (cs_instructions st); plan = cs_plan st
            in if i_op i = OpNext \<or> i_op i = OpAsync
               then st\<lparr>cs_instructions := butlast (cs_instructions st) @
                         [i\<lparr>i_flags := i_flags i OR 0x01, i_c := word_of_nat (length (p_retry_configs plan))\<rparr>],
                       cs_plan := plan\<lparr>p_retry_configs := p_retry_configs plan @ [cfg]\<rparr>\<rparr>
               else st)"

definition instr_score :: "OpCode \<Rightarrow> u32" where
  "instr_score op =
     (if op \<in> {OpNext, OpAsync} then 10 else if op \<in> {OpParallel, OpDag} then 20 else if op = OpChunk then 25
      else if op = OpGate then 5 else if op = OpMap then 3 else if op = OpEmit then 8 else if op = OpBuffer then 15 else 1)"

definition calc_complexity :: "ExecutionPlan \<Rightarrow> u32" where
  "calc_complexity plan = foldl (\<lambda>score i. score + instr_score (i_op i)) 0 (p_instructions plan)"

definition finish_plan :: "Schema option \<Rightarrow> compile_state \<Rightarrow> ExecutionPlan" where
  "finish_plan schema st =
     (let st1 = attach_retry (st\<lparr>cs_plan := (if schema = None then cs_plan st else (cs_plan st)\<lparr>p_schema := schema\<rparr>)\<rparr>);
          plan = foldl (\<lambda>p i. add_instr i p) (cs_plan st1) (cs_instructions st1)
      in plan\<lparr>p_complexity_score := calc_complexity plan\<rparr>)"

definition compile_start :: "string \<Rightarrow> compile_state" where
  "compile_start rule_id = \<lparr>cs_plan = plan_new rule_id, cs_labels = [], cs_instructions = [],
     cs_pending_retry = None, cs_pending_timeout = None\<rparr>"

definition compile :: "ASTNode list \<Rightarrow> string \<Rightarrow> ExecutionPlan compiled" where
  "compile nodes rule_id =
     rbind (first_schema nodes) (\<lambda>schema.
     rbind (case schema of None \<Rightarrow> ROk () | Some s \<Rightarrow> type_check s nodes) (\<lambda>_.
     rbind (compile_nodes nodes (compile_start rule_id)) (\<lambda>st. ROk (finish_plan schema st))))"

subsection \<open>Operands in range\<close>

text \<open>
  The sizes of the tables of a plan under construction bound the operands of its instructions.  A group only has
  its first service in range: the executor counts on from there.
\<close>

definition operand_range :: "nat \<Rightarrow> nat \<Rightarrow> nat \<Rightarrow> nat \<Rightarrow> nat \<Rightarrow> Instruction \<Rightarrow> bool" where
  "operand_range nc ns nd nr ni i =
     (case i_op i of
        OpNext \<Rightarrow> unat (i_a i) < ns \<and> (has_retry i \<longrightarrow> unat (i_c i) < nr)
      | OpAsync \<Rightarrow> unat (i_a i) < ns \<and> (has_retry i \<longrightarrow> unat (i_c i) < nr)
      | OpFallback \<Rightarrow> unat (i_a i) < ns \<and> \<not> has_retry i
      | OpParallel \<Rightarrow> unat (i_b i) < ns
      | OpEmit \<Rightarrow> unat (i_b i) < ns
      | OpSvcArg \<Rightarrow> unat (i_a i) < ns
      | OpGate \<Rightarrow> unat (i_a i) < nc \<and> unat (i_b i) < nc
      | OpMap \<Rightarrow> unat (i_a i) < nc
      | OpKey \<Rightarrow> unat (i_a i) < nc
      | OpDag \<Rightarrow> unat (i_a i) < nd
      | OpJmp \<Rightarrow> unat (i_a i) < ni
      | OpSvcCall \<Rightarrow> False
      | _ \<Rightarrow> True)"

definition table_ok :: "ServiceTable \<Rightarrow> bool" where
  "table_ok t \<longleftrightarrow> (\<forall>i \<in> snd ` set (sv_index t). unat i < length (sv_entries t)) \<and>
     (\<forall>e \<in> set (sv_entries t). unat (se_id e) < length (sv_entries t))"

definition consts_ok :: "ConstantPool \<Rightarrow> bool" where
  "consts_ok p \<longleftrightarrow> (\<forall>i \<in> snd ` set (cp_index p). unat i < length (cp_entries p))"

definition dag_ok :: "nat \<Rightarrow> DAGTable \<Rightarrow> bool" where
  "dag_ok ns d \<longleftrightarrow> (\<forall>l \<in> set (dt_layers d). \<forall>i \<in> set l. unat i < ns) \<and> (\<forall>i \<in> set (dt_terminal_nodes d). unat i < ns)"

definition tables_ok :: "ExecutionPlan \<Rightarrow> bool" where
  "tables_ok p \<longleftrightarrow> consts_ok (p_const_pool p) \<and> table_ok (p_services p) \<and>
     (\<forall>d \<in> set (p_dag_tables p). dag_ok (length (sv_entries (p_services p))) d)"

definition in_range :: "ExecutionPlan \<Rightarrow> nat \<Rightarrow> Instruction \<Rightarrow> bool" where
  "in_range p ni = operand_range (length (cp_entries (p_const_pool p))) (length (sv_entries (p_services p)))
     (length (p_dag_tables p)) (length (p_retry_configs p)) ni"

definition plan_ok :: "ExecutionPlan \<Rightarrow> bool" where
  "plan_ok p \<longleftrightarrow> tables_ok p \<and> (\<forall>i \<in> set (p_instructions p). in_range p (length (p_instructions p)) i)"

definition state_ok :: "compile_state \<Rightarrow> bool" where
  "state_ok st \<longleftrightarrow> tables_ok (cs_plan st) \<and>
     (\<forall>i \<in> set (cs_instructions st). in_range (cs_plan st) (length (cs_instructions st)) i) \<and>
     (\<forall>n \<in> snd ` set (cs_labels st). n < length (cs_instructions st))"

definition nonempty_groups :: "ASTNode \<Rightarrow> bool" where
  "nonempty_groups n \<longleftrightarrow> n \<noteq> Parallel [] \<and> n \<noteq> Emit []"

text \<open>A plan that has grown.\<close>

definition grown :: "ExecutionPlan \<Rightarrow> ExecutionPlan \<Rightarrow> bool" where
  "grown p q \<longleftrightarrow> length (cp_entries (p_const_pool p)) \<le> length (cp_entries (p_const_pool q)) \<and>
     length (sv_entries (p_services p)) \<le> length (sv_entries (p_services q)) \<and>
     length (p_dag_tables p) \<le> length (p_dag_tables q) \<and> length (p_retry_configs p) \<le> length (p_retry_configs q)"

lemma in_range_mono: "in_range p n i \<Longrightarrow> grown p q \<Longrightarrow> n \<le> m \<Longrightarrow> in_range q m i"
  by (auto simp: in_range_def grown_def operand_range_def split: OpCode.splits)

lemma grown_refl [simp]: "grown p p"
  by (simp add: grown_def)

lemma grown_trans: "grown p q \<Longrightarrow> grown q r \<Longrightarrow> grown p r"
  by (auto simp: grown_def)

lemma unat_word_of_nat_le: "unat (word_of_nat n :: ('a::len) word) \<le> n"
  by (simp add: unat_of_nat take_bit_nat_less_eq_self)

lemma map_of_below: "map_of ix s = Some i \<Longrightarrow> \<forall>i \<in> snd ` set ix. P i \<Longrightarrow> P i"
  by (force dest: map_of_SomeD)

lemma snd_update: "snd ` set (AList.update k v xs) \<subseteq> insert v (snd ` set xs)"
  by (induction xs) auto

lemma update_below:
  assumes "\<forall>i \<in> snd ` set ix. unat i < n"
  shows "\<forall>i \<in> snd ` set (AList.update s (word_of_nat n) ix). unat (i :: ('a::len) word) < Suc n"
proof
  fix i :: "'a word"
  assume "i \<in> snd ` set (AList.update s (word_of_nat n) ix)"
  then have "i \<in> insert (word_of_nat n) (snd ` set ix)" by (rule subsetD [OF snd_update])
  then show "unat i < Suc n"
  proof (rule insertE)
    assume "i = word_of_nat n"
    then show ?thesis using unat_word_of_nat_le [where ?'a = 'a, of n] by (metis le_imp_less_Suc)
  next
    assume "i \<in> snd ` set ix"
    with assms have "unat i < n" by blast
    then show ?thesis by (rule less_SucI)
  qed
qed

lemma services_add_range:
  assumes "table_ok t" and "services_add n t = (i, t')"
  shows "table_ok t' \<and> unat i < length (sv_entries t') \<and> length (sv_entries t) \<le> length (sv_entries t')"
proof (cases "map_of (sv_index t) n")
  case None
  with assms(2) have i: "i = word_of_nat (length (sv_entries t))"
    and t': "t' = t\<lparr>sv_entries := sv_entries t @ [\<lparr>se_id = i, se_name = n\<rparr>], sv_index := AList.update n i (sv_index t)\<rparr>"
    by (auto simp: services_add_def Let_def)
  have "unat i < Suc (length (sv_entries t))" using unat_word_of_nat_le by (simp add: i less_Suc_eq_le)
  moreover have "\<forall>j \<in> snd ` set (AList.update n i (sv_index t)). unat j < Suc (length (sv_entries t))"
    unfolding i by (rule update_below) (use assms(1) in \<open>simp add: table_ok_def\<close>)
  ultimately show ?thesis
    using assms(1) unfolding table_ok_def t' by (auto simp del: ball_simps dest: less_SucI)
next
  case (Some j)
  then have "unat j < length (sv_entries t)"
    by (rule map_of_below) (use assms(1) in \<open>simp add: table_ok_def\<close>)
  with Some assms show ?thesis by (auto simp: services_add_def)
qed

lemma pool_add_range:
  assumes "consts_ok p" and "pool_add s p = (i, p')"
  shows "consts_ok p' \<and> unat i < length (cp_entries p') \<and> length (cp_entries p) \<le> length (cp_entries p')"
proof (cases "map_of (cp_index p) s")
  case None
  with assms(2) have i: "i = word_of_nat (length (cp_entries p))"
    and p': "p' = p\<lparr>cp_entries := cp_entries p @ [s], cp_index := AList.update s i (cp_index p)\<rparr>"
    by (auto simp: pool_add_def Let_def)
  have "unat i < Suc (length (cp_entries p))" using unat_word_of_nat_le by (simp add: i less_Suc_eq_le)
  moreover have "\<forall>j \<in> snd ` set (AList.update s i (cp_index p)). unat j < Suc (length (cp_entries p))"
    unfolding i by (rule update_below) (use assms(1) in \<open>simp add: consts_ok_def\<close>)
  ultimately show ?thesis unfolding consts_ok_def p' by simp
next
  case (Some j)
  then have "unat j < length (cp_entries p)"
    by (rule map_of_below) (use assms(1) in \<open>simp add: consts_ok_def\<close>)
  with Some assms show ?thesis by (auto simp: pool_add_def)
qed

lemma service_id_range:
  assumes "table_ok t" and "sv_entries t \<noteq> []"
  shows "\<exists>i. service_id t n = Some i \<and> unat i < length (sv_entries t)"
proof (cases "map_of (sv_index t) n")
  case None
  with assms(2) show ?thesis by (simp add: service_id_def services_get_by_name_def)
next
  case (Some j)
  then have j: "unat j < length (sv_entries t)"
    by (rule map_of_below) (use assms(1) in \<open>simp add: table_ok_def\<close>)
  then have "unat (se_id (sv_entries t ! unat j)) < length (sv_entries t)" using assms(1) by (simp add: table_ok_def)
  with Some j show ?thesis by (simp add: service_id_def services_get_by_name_def services_get_def)
qed

lemma service_ids_range:
  assumes "table_ok t" and "sv_entries t \<noteq> []"
  shows "\<exists>is. those (map (service_id t) ns) = Some is \<and> (\<forall>i \<in> set is. unat i < length (sv_entries t))"
proof (induction ns)
  case (Cons n ns)
  then show ?case using service_id_range [OF assms, of n] by auto
qed simp

lemma add_dag_nodes_range:
  "table_ok t \<Longrightarrow> fold (add_dag_node m l) layer (t, ids, table) = (t', ids', table') \<Longrightarrow>
     table_ok t' \<and> length (sv_entries t) \<le> length (sv_entries t') \<and> (layer \<noteq> [] \<longrightarrow> sv_entries t' \<noteq> []) \<and>
     dt_layers table' = dt_layers table"
proof (induction layer arbitrary: t ids table)
  case (Cons n layer)
  obtain i t1 where a: "services_add n t = (i, t1)" by fastforce
  note t1 = services_add_range [OF Cons.prems(1) a]
  obtain ids1 table1 where s: "add_dag_node m l n (t, ids, table) = (t1, ids1, table1)" "dt_layers table1 = dt_layers table"
    by (simp add: add_dag_node_def a Let_def)
  with Cons.prems(2) have "fold (add_dag_node m l) layer (t1, ids1, table1) = (t', ids', table')" by simp
  from Cons.IH [OF _ this] t1 s(2) show ?case by fastforce
qed simp

lemma dag_ok_mono: "dag_ok n d \<Longrightarrow> n \<le> m \<Longrightarrow> dag_ok m d"
  unfolding dag_ok_def by (blast intro: less_le_trans)

lemma topological_sort_single:
  assumes "m \<noteq> []"
  obtains names where "topological_sort m = [names]" "names \<noteq> []"
proof
  show "topological_sort m = [sorted_list_of_set (fst ` set m \<union> (\<Union>ds \<in> snd ` set m. set ds))]"
    using assms by (rule topological_sort_flat)
  show "sorted_list_of_set (fst ` set m \<union> (\<Union>ds \<in> snd ` set m. set ds)) \<noteq> []"
    using assms by (cases m) auto
qed

lemma compile_dag_range:
  assumes "tables_ok p"
  shows "compile_dag p body \<noteq> RPanic \<and>
    (\<forall>i q. compile_dag p body = ROk (i, q) \<longrightarrow>
       tables_ok q \<and> grown p q \<and> unat i < length (p_dag_tables q) \<and> p_retry_configs q = p_retry_configs p)"
proof -
  define m where "m = parse_dag (trim (trim_end_matches (CHR ''}'') (trim_start_matches (CHR ''{'') body)))"
  show ?thesis
  proof (cases "m = []")
    case True
    then show ?thesis by (simp add: compile_dag_def Let_def m_def)
  next
    case False
    then obtain names where names: "topological_sort m = [names]" "names \<noteq> []" by (rule topological_sort_single)
    obtain t ids table where f: "fold (add_dag_node m 0) names (p_services p, [], dag_table_new) = (t, ids, table)"
      by (metis prod_cases3)
    have t: "table_ok t" "length (sv_entries (p_services p)) \<le> length (sv_entries t)" "sv_entries t \<noteq> []" "dt_layers table = []"
      using add_dag_nodes_range [OF _ f] names(2) assms by (auto simp: tables_ok_def dag_table_new_def)
    obtain is1 where is1: "those (map (service_id t) names) = Some is1" "\<forall>i \<in> set is1. unat i < length (sv_entries t)"
      using service_ids_range [OF t(1,3)] by blast
    obtain is2 where is2: "those (map (service_id t) (terminal_nodes m)) = Some is2" "\<forall>i \<in> set is2. unat i < length (sv_entries t)"
      using service_ids_range [OF t(1,3)] by blast
    let ?q = "p\<lparr>p_services := t, p_dag_tables := p_dag_tables p @ [table\<lparr>dt_layers := [is1], dt_terminal_nodes := is2\<rparr>]\<rparr>"
    have "compile_dag p body = ROk (word_of_nat (length (p_dag_tables p)), ?q) \<or> (\<exists>e. compile_dag p body = RErr e)"
      by (auto simp: compile_dag_def Let_def m_def [symmetric] False names(1) f t(4) is1(1) is2(1) split: option.splits)
    moreover have "dag_ok (length (sv_entries t)) d" if "d \<in> set (p_dag_tables p)" for d
      using assms t(2) that by (auto simp: tables_ok_def intro: dag_ok_mono)
    then have "tables_ok ?q" using assms t(1) is1(2) is2(2) by (auto simp: tables_ok_def dag_ok_def)
    moreover have "grown p ?q" using t(2) by (simp add: grown_def)
    moreover have "unat (word_of_nat (length (p_dag_tables p)) :: u16) < length (p_dag_tables ?q)"
      using unat_word_of_nat_le [where ?'a = 16, of "length (p_dag_tables p)"] by (simp add: less_Suc_eq_le)
    ultimately show ?thesis by auto
  qed
qed

lemma state_ok_emit:
  assumes "state_ok st" and "in_range (cs_plan st) (Suc (length (cs_instructions st))) i"
  shows "state_ok (emit_instr i st)"
proof -
  have "in_range (cs_plan st) (Suc (length (cs_instructions st))) j" if "j \<in> set (cs_instructions st)" for j
    using assms(1) that by (auto simp: state_ok_def intro: in_range_mono)
  with assms show ?thesis by (auto simp: state_ok_def emit_instr_def less_SucI)
qed

lemma state_ok_plan:
  assumes "state_ok st" and "grown (cs_plan st) q" and "tables_ok q"
  shows "state_ok (st\<lparr>cs_plan := q\<rparr>)"
  using assms by (auto simp: state_ok_def intro: in_range_mono)

lemma resolve_service_ok:
  assumes "state_ok st" and "resolve_service n st = (i, st1)"
  shows "state_ok st1 \<and> unat i < length (sv_entries (p_services (cs_plan st1))) \<and> grown (cs_plan st) (cs_plan st1)"
proof -
  obtain t where a: "services_add n (p_services (cs_plan st)) = (i, t)"
    and st1: "st1 = st\<lparr>cs_plan := (cs_plan st)\<lparr>p_services := t\<rparr>\<rparr>"
    using assms(2) by (auto simp: resolve_service_def split: prod.splits)
  have ok: "tables_ok (cs_plan st)" using assms(1) by (simp add: state_ok_def)
  then have t: "table_ok t" "unat i < length (sv_entries t)"
    and le: "length (sv_entries (p_services (cs_plan st))) \<le> length (sv_entries t)"
    using services_add_range [OF _ a] by (simp_all add: tables_ok_def)
  have g: "grown (cs_plan st) ((cs_plan st)\<lparr>p_services := t\<rparr>)" using le by (simp add: grown_def)
  have "tables_ok ((cs_plan st)\<lparr>p_services := t\<rparr>)" using ok t(1) le by (auto simp: tables_ok_def intro: dag_ok_mono)
  with state_ok_plan [OF assms(1) g] t(2) g show ?thesis by (simp add: st1)
qed

lemma resolve_services_ok:
  "state_ok st \<Longrightarrow> resolve_services ns st = (is, st1) \<Longrightarrow>
     state_ok st1 \<and> (\<forall>i \<in> set is. unat i < length (sv_entries (p_services (cs_plan st1)))) \<and>
     length is = length ns \<and> grown (cs_plan st) (cs_plan st1)"
proof (induction ns arbitrary: st "is")
  case (Cons n ns)
  obtain i st0 where r: "resolve_service n st = (i, st0)" by fastforce
  obtain js where js: "resolve_services ns st0 = (js, st1)" "is = i # js"
    using Cons.prems(2) by (auto simp: r split: prod.splits)
  from resolve_service_ok [OF Cons.prems(1) r] Cons.IH [OF _ js(1)] show ?case
    by (auto simp: js(2) grown_def)
qed simp

lemma add_const_ok:
  assumes "state_ok st" and "add_const s st = (i, st1)"
  shows "state_ok st1 \<and> unat i < length (cp_entries (p_const_pool (cs_plan st1))) \<and> grown (cs_plan st) (cs_plan st1)"
proof -
  obtain p where a: "pool_add s (p_const_pool (cs_plan st)) = (i, p)"
    and st1: "st1 = st\<lparr>cs_plan := (cs_plan st)\<lparr>p_const_pool := p\<rparr>\<rparr>"
    using assms(2) by (auto simp: add_const_def split: prod.splits)
  have ok: "tables_ok (cs_plan st)" using assms(1) by (simp add: state_ok_def)
  with pool_add_range [OF _ a] have p: "consts_ok p" "unat i < length (cp_entries p)"
    and g: "grown (cs_plan st) ((cs_plan st)\<lparr>p_const_pool := p\<rparr>)" by (simp_all add: tables_ok_def grown_def)
  have "tables_ok ((cs_plan st)\<lparr>p_const_pool := p\<rparr>)" using ok p(1) by (simp add: tables_ok_def)
  with state_ok_plan [OF assms(1) g] p(2) g show ?thesis by (simp add: st1)
qed

lemma svc_args_ok:
  "state_ok st \<Longrightarrow> \<forall>i \<in> set is. unat i < length (sv_entries (p_services (cs_plan st))) \<Longrightarrow>
     state_ok (fold (\<lambda>j. emit_instr (instr_svc_arg j)) is st)"
proof (induction "is" arbitrary: st)
  case (Cons i "is")
  have "state_ok (emit_instr (instr_svc_arg i) st)"
    using Cons.prems by (intro state_ok_emit) (simp_all add: in_range_def operand_range_def instr_defs)
  with Cons show ?case by (simp add: emit_instr_def)
qed simp

definition good :: "compile_state compiled \<Rightarrow> bool" where
  "good r = (case r of ROk st \<Rightarrow> state_ok st | RErr _ \<Rightarrow> True | RPanic \<Rightarrow> False)"

lemma good_simps [simp]: "good (ROk st) = state_ok st" "good (RErr e)" "\<not> good RPanic"
  by (simp_all add: good_def)

lemmas range_defs = in_range_def operand_range_def instr_defs has_retry_def

lemma emit_group_ok:
  assumes "state_ok st" and "ns \<noteq> []" and "\<And>c i. i_op (mk c i) \<in> {OpParallel, OpEmit} \<and> i_b (mk c i) = i"
  shows "good (emit_group mk ns st)"
proof -
  obtain "is" st1 where r: "resolve_services ns st = (is, st1)" by fastforce
  note ok = resolve_services_ok [OF assms(1) r]
  then obtain i js where "is": "is = i # js" using assms(2) by (cases "is") auto
  let ?st2 = "emit_instr (mk (word_of_nat (length is)) i) st1"
  have "in_range (cs_plan st1) (Suc (length (cs_instructions st1))) (mk c i)" for c
    using assms(3) [of c i] ok by (auto simp: in_range_def operand_range_def "is")
  then have "state_ok ?st2" using ok by (intro state_ok_emit) simp_all
  then have "state_ok (fold (\<lambda>j. emit_instr (instr_svc_arg j)) is ?st2)"
    by (rule svc_args_ok) (use ok in \<open>simp add: emit_instr_def\<close>)
  then show ?thesis by (simp add: emit_group_def r "is")
qed

lemma emit_call_ok:
  assumes "state_ok st" and "mk = instr_next \<or> mk = instr_async_svc"
  shows "state_ok (emit_call mk n st)"
proof -
  obtain i st1 where r: "resolve_service n st = (i, st1)" by fastforce
  note ok = resolve_service_ok [OF assms(1) r]
  then have "state_ok (st1\<lparr>cs_pending_timeout := None\<rparr>)" by (simp add: state_ok_def)
  then show ?thesis
    unfolding emit_call_def r prod.case by (rule state_ok_emit) (use ok assms(2) in \<open>auto simp: range_defs\<close>)
qed

lemma compile_node_ok:
  assumes "state_ok st" and "nonempty_groups n"
  shows "good (compile_node n st)"
proof (cases n)
  case (Label l)
  let ?st = "st\<lparr>cs_labels := AList.update l (length (cs_instructions st)) (cs_labels st)\<rparr>"
  have "tables_ok (cs_plan st)" "\<forall>i \<in> set (cs_instructions st). in_range (cs_plan st) (Suc (length (cs_instructions st))) i"
    using assms(1) by (auto simp: state_ok_def intro: in_range_mono)
  moreover have "m < Suc (length (cs_instructions st))"
    if "m \<in> snd ` set (AList.update l (length (cs_instructions st)) (cs_labels st))" for m
    using subsetD [OF snd_update that] assms(1) by (auto simp: state_ok_def)
  ultimately show ?thesis by (auto simp: Label state_ok_def emit_instr_def range_defs)
next
  case (Jmp l)
  let ?k = "case map_of (cs_labels st) l of None \<Rightarrow> 0 | Some i \<Rightarrow> i"
  let ?st = "emit_instr (instr_jmp (word_of_nat ?k)) st"
  have "?k < Suc (length (cs_instructions st))"
    using assms(1) map_of_below [of "cs_labels st" l _ "\<lambda>k. k < length (cs_instructions st)"]
    by (auto simp: state_ok_def less_SucI split: option.split)
  then have "unat (word_of_nat ?k :: u16) < Suc (length (cs_instructions st))"
    using unat_word_of_nat_le [where ?'a = 16, of ?k] by linarith
  then have "in_range (cs_plan st) (Suc (length (cs_instructions st))) (instr_jmp (word_of_nat ?k))"
    unfolding range_defs by simp
  then have "state_ok ?st" by (rule state_ok_emit [OF assms(1)])
  then have "state_ok (emit_instr (instr_jump_offset (word_of_nat ?k)) ?st)"
    by (rule state_ok_emit) (simp add: range_defs)
  then show ?thesis by (simp add: Jmp Let_def)
next
  case (Fallback t)
  obtain i st1 where r: "resolve_service t st = (i, st1)" by fastforce
  with resolve_service_ok [OF assms(1) r] show ?thesis
    by (auto simp: Fallback range_defs intro!: state_ok_emit)
next
  case (Gate f op v)
  obtain i st1 j st2 where r: "add_const f st = (i, st1)" "add_const v st1 = (j, st2)" by fastforce
  note ok1 = add_const_ok [OF assms(1) r(1)]
  then have "state_ok st1" by simp
  note ok2 = add_const_ok [OF this r(2)]
  have "unat i < length (cp_entries (p_const_pool (cs_plan st2)))"
    using ok1 ok2 unfolding grown_def by linarith
  then have "state_ok (emit_instr (instr_gate i g j) st2)" for g
    using ok2 by (intro state_ok_emit) (auto simp: range_defs)
  then show ?thesis by (simp add: Gate r Let_def) (rule state_ok_emit, simp_all add: range_defs)
next
  case (Key f)
  obtain i st1 where r: "add_const f st = (i, st1)" by fastforce
  with add_const_ok [OF assms(1) r] show ?thesis by (auto simp: Key range_defs intro!: state_ok_emit)
next
  case (Split f)
  obtain i st1 where r: "add_const f st = (i, st1)" by fastforce
  with add_const_ok [OF assms(1) r] show ?thesis by (auto simp: Split range_defs intro!: state_ok_emit)
next
  case (MapExpr f)
  obtain i st1 where r: "add_const f st = (i, st1)" by fastforce
  with add_const_ok [OF assms(1) r] show ?thesis by (auto simp: MapExpr range_defs intro!: state_ok_emit)
next
  case (Chunk c m)
  let ?p = "\<lambda>cfg. (cs_plan st)\<lparr>p_chunk_configs := p_chunk_configs (cs_plan st) @ [cfg]\<rparr>"
  have "state_ok (st\<lparr>cs_plan := ?p cfg\<rparr>)" for cfg
    by (rule state_ok_plan [OF assms(1)]) (use assms(1) in \<open>simp_all add: grown_def state_ok_def tables_ok_def\<close>)
  then show ?thesis by (simp add: Chunk Let_def) (intro state_ok_emit conjI impI, simp_all add: range_defs)
next
  case (Dag b)
  show ?thesis
  proof (cases "compile_dag (cs_plan st) b")
    case (ROk r)
    obtain i q where r: "r = (i, q)" by fastforce
    have "tables_ok (cs_plan st)" using assms(1) by (simp add: state_ok_def)
    with compile_dag_range [of "cs_plan st" b] have q: "tables_ok q" "grown (cs_plan st) q" "unat i < length (p_dag_tables q)"
      by (auto simp: ROk r)
    from q(3) state_ok_plan [OF assms(1) q(2,1)] show ?thesis
      by (auto simp: Dag ROk r range_defs intro!: state_ok_emit)
  qed (use assms(1) compile_dag_range [of "cs_plan st" b] in \<open>auto simp: Dag state_ok_def\<close>)
qed (use assms in \<open>auto simp: nonempty_groups_def range_defs intro!: state_ok_emit emit_call_ok emit_group_ok\<close>,
     auto simp: state_ok_def)

lemma compile_nodes_ok: "state_ok st \<Longrightarrow> list_all nonempty_groups ns \<Longrightarrow> good (compile_nodes ns st)"
proof (induction ns arbitrary: st)
  case (Cons n ns)
  then have "good (compile_node n st)" by (intro compile_node_ok) simp_all
  with Cons show ?case by (cases "compile_node n st") simp_all
qed simp

lemma finish_plan_fields:
  "tables_ok (finish_plan schema st) = tables_ok (cs_plan (attach_retry st)) \<and>
   p_instructions (finish_plan schema st) = p_instructions (cs_plan st) @ cs_instructions (attach_retry st) \<and>
   in_range (finish_plan schema st) = in_range (cs_plan (attach_retry st)) \<and>
   p_retry_configs (finish_plan schema st) = p_retry_configs (cs_plan (attach_retry st))"
proof -
  have fold: "p_const_pool (foldl (\<lambda>p i. add_instr i p) p is) = p_const_pool p \<and>
    p_services (foldl (\<lambda>p i. add_instr i p) p is) = p_services p \<and>
    p_dag_tables (foldl (\<lambda>p i. add_instr i p) p is) = p_dag_tables p \<and>
    p_retry_configs (foldl (\<lambda>p i. add_instr i p) p is) = p_retry_configs p" for p "is"
    by (induction "is" arbitrary: p) (simp_all add: add_instr_def)
  show ?thesis
    by (auto simp: finish_plan_def Let_def fold add_instrs tables_ok_def in_range_def attach_retry_def fun_eq_iff
        split: option.splits)
qed

lemma attach_retry_ok:
  assumes "state_ok st"
  shows "state_ok (attach_retry st)"
proof (cases "cs_pending_retry st = None \<or> cs_instructions st = [] \<or> i_op (last (cs_instructions st)) \<notin> {OpNext, OpAsync}")
  case True
  with assms show ?thesis by (auto simp: attach_retry_def Let_def split: option.split)
next
  case False
  then obtain cfg where cfg: "cs_pending_retry st = Some cfg" by auto
  let ?i = "last (cs_instructions st)" and ?p = "cs_plan st"
  let ?j = "?i\<lparr>i_flags := i_flags ?i OR 1, i_c := word_of_nat (length (p_retry_configs ?p))\<rparr>"
  let ?q = "?p\<lparr>p_retry_configs := p_retry_configs ?p @ [cfg]\<rparr>"
  let ?n = "length (cs_instructions st)"
  have g: "grown ?p ?q" "tables_ok ?q" using assms by (simp_all add: grown_def state_ok_def tables_ok_def)
  have ne: "cs_instructions st \<noteq> []" using False by simp
  have "unat (word_of_nat (length (p_retry_configs ?p)) :: u16) < Suc (length (p_retry_configs ?p))"
    using unat_word_of_nat_le by (simp add: less_Suc_eq_le)
  moreover have "in_range ?p ?n ?i" using assms ne by (simp add: state_ok_def)
  ultimately have j: "in_range ?q ?n ?j" using False by (auto simp: in_range_def operand_range_def)
  have rest: "in_range ?q ?n k" if "k \<in> set (butlast (cs_instructions st))" for k
    using assms in_set_butlastD [OF that] g(1) by (auto simp: state_ok_def intro: in_range_mono)
  have "attach_retry st = st\<lparr>cs_instructions := butlast (cs_instructions st) @ [?j], cs_plan := ?q\<rparr>"
    using False cfg by (auto simp: attach_retry_def Let_def)
  then show ?thesis using assms g(2) j rest ne by (auto simp: state_ok_def)
qed

lemma start_ok: "state_ok (compile_start rule_id)"
  by (simp add: state_ok_def compile_start_def tables_ok_def consts_ok_def table_ok_def plan_new_def pool_new_def services_new_def)

lemma finish_plan_ok:
  assumes "state_ok st" and "p_instructions (cs_plan st) = []"
  shows "plan_ok (finish_plan schema st)"
  using attach_retry_ok [OF assms(1)] assms(2) unfolding plan_ok_def
  by (auto simp: finish_plan_fields state_ok_def)

lemma compile_node_instructions:
  "compile_node n st = ROk st' \<Longrightarrow> p_instructions (cs_plan st') = p_instructions (cs_plan st) \<and> p_retry_configs (cs_plan st') = p_retry_configs (cs_plan st)"
proof (cases n)
  case (Dag b)
  assume "compile_node n st = ROk st'"
  then show ?thesis
    by (auto simp: Dag rbind_eq_ROk emit_instr_def compile_dag_def Let_def split: if_splits option.splits)
next
  have resolve: "p_instructions (cs_plan (snd (resolve_services ts st))) = p_instructions (cs_plan st) \<and>
    p_retry_configs (cs_plan (snd (resolve_services ts st))) = p_retry_configs (cs_plan st)" for ts st
    by (induction ts arbitrary: st) (auto simp: resolve_service_def case_prod_unfold)
  have args: "cs_plan (fold (\<lambda>j. emit_instr (instr_svc_arg j)) is st) = cs_plan st" for "is" st
    by (induction "is" arbitrary: st) (simp_all add: emit_instr_def)
  have group: "emit_group mk ts st = ROk st' \<Longrightarrow> p_instructions (cs_plan st') = p_instructions (cs_plan st) \<and> p_retry_configs (cs_plan st') = p_retry_configs (cs_plan st)" for mk ts
    using resolve [of ts st] by (auto simp: emit_group_def args emit_instr_def split: prod.splits list.splits)
  { case (Parallel ts)
    assume "compile_node n st = ROk st'"
    then show ?thesis by (simp add: Parallel group)
  next
    case (Emit ts)
    assume "compile_node n st = ROk st'"
    then show ?thesis by (simp add: Emit group) }
qed (auto simp: emit_instr_def emit_call_def resolve_service_def add_const_def Let_def case_prod_unfold split: if_splits)

lemma compile_nodes_instructions:
  "compile_nodes ns st = ROk st' \<Longrightarrow> p_instructions (cs_plan st') = p_instructions (cs_plan st) \<and> p_retry_configs (cs_plan st') = p_retry_configs (cs_plan st)"
  by (induction ns arbitrary: st) (auto simp: rbind_eq_ROk dest: compile_node_instructions)

lemma compile_nodes_append: "compile_nodes (ms @ ns) st = rbind (compile_nodes ms st) (compile_nodes ns)"
proof (induction ms arbitrary: st)
  case (Cons m ms)
  then show ?case by (cases "compile_node m st") simp_all
qed simp

lemma schema_no_panic:
  "compile_schema body \<noteq> RPanic" "first_schema ns \<noteq> RPanic" "type_check s ns \<noteq> RPanic"
proof -
  have "parse_type n t \<noteq> RPanic" for n t
    by (simp add: parse_type_def Let_def split: option.split)
  then have field: "parse_field seg \<noteq> RPanic" for seg
    by (simp add: parse_field_def Let_def rbind_eq_RPanic split: list.split)
  have "parse_fields segs \<noteq> RPanic" for segs
    by (induction segs) (auto simp: rbind_eq_RPanic field)
  then show "compile_schema body \<noteq> RPanic" for body by (auto simp: compile_schema_def Let_def)
  then show "first_schema ns \<noteq> RPanic" by (induction ns rule: first_schema.induct) (auto simp: rbind_eq_RPanic)
  have gate: "type_check_gate s f op \<noteq> RPanic" for f op
    by (auto simp: type_check_gate_def split: option.splits)
  have "check_strings s args \<noteq> RPanic" for args by (induction args) (auto split: option.splits)
  then have "type_check_map s e \<noteq> RPanic" for e
    unfolding type_check_map_def Let_def by (simp add: rbind_eq_RPanic)
  with gate show "type_check s ns \<noteq> RPanic" by (induction s ns rule: type_check.induct) (auto simp: rbind_eq_RPanic)
qed

lemma compile_ROk:
  assumes "compile nodes rule_id = ROk plan"
  obtains schema st where "first_schema nodes = ROk schema" "compile_nodes nodes (compile_start rule_id) = ROk st"
    "plan = finish_plan schema st" "p_instructions (cs_plan st) = []" "p_retry_configs (cs_plan st) = []"
proof -
  from assms obtain schema st where c: "first_schema nodes = ROk schema"
    "compile_nodes nodes (compile_start rule_id) = ROk st" "plan = finish_plan schema st"
    unfolding compile_def rbind_eq_ROk by (metis rres.inject(1))
  with compile_nodes_instructions [OF c(2)] that show ?thesis by (simp add: compile_start_def plan_new_def)
qed

lemma compile_result_ok:
  assumes "list_all nonempty_groups nodes"
  shows "compile nodes rule_id \<noteq> RPanic \<and> (\<forall>plan. compile nodes rule_id = ROk plan \<longrightarrow> plan_ok plan)"
proof -
  have ok: "good (compile_nodes nodes (compile_start rule_id))" using start_ok assms by (rule compile_nodes_ok)
  have "compile nodes rule_id \<noteq> RPanic"
    using ok schema_no_panic by (auto simp: compile_def rbind_eq_RPanic split: option.splits)
  moreover have "plan_ok plan" if c: "compile nodes rule_id = ROk plan" for plan
  proof -
    obtain schema st where "compile_nodes nodes (compile_start rule_id) = ROk st" "plan = finish_plan schema st"
      "p_instructions (cs_plan st) = []"
      using compile_ROk [OF c] by metis
    with ok show ?thesis by (simp add: finish_plan_ok)
  qed
  ultimately show ?thesis by blast
qed

lemma compile_range_plan: "compile nodes rule_id = ROk plan \<Longrightarrow> list_all nonempty_groups nodes \<Longrightarrow> plan_ok plan"
  using compile_result_ok by blast

subsection \<open>Properties\<close>



text \<open>
  A retry behind the last call overwrites the lower half of its timeout with the number of the retry
  configuration, which is 0: the call keeps only the upper 16 bits of its timeout, so that a timeout below 65.536
  seconds becomes 0.
\<close>

lemma retry_cuts_timeout:
  assumes "compile (ns @ [Timeout ms, Next t, Retry count strategy fixed_ms]) rule_id = ROk plan"
  shows "\<exists>is i. p_instructions plan = is @ [i] \<and> i_op i = OpNext \<and> has_retry i \<and> i_c i = 0 \<and>
    p_retry_configs plan = [retry_config count strategy fixed_ms] \<and>
    timeout_ms i = push_bit 16 (drop_bit 16 (take_bit 32 ms)) \<and> (ms < 65536 \<longrightarrow> timeout_ms i = 0)"
proof -
  let ?cfg = "retry_config count strategy fixed_ms"
  obtain schema st where c: "compile_nodes (ns @ [Timeout ms, Next t, Retry count strategy fixed_ms]) (compile_start rule_id) = ROk st"
    and plan: "plan = finish_plan schema st"
    using compile_ROk [OF assms] by metis
  then obtain st0 where st0: "compile_nodes ns (compile_start rule_id) = ROk st0"
    and st: "compile_nodes [Timeout ms, Next t, Retry count strategy fixed_ms] st0 = ROk st"
    unfolding compile_nodes_append rbind_eq_ROk by blast
  have empty: "p_instructions (cs_plan st0) = []" "p_retry_configs (cs_plan st0) = []"
    using compile_nodes_instructions [OF st0] by (simp_all add: compile_start_def plan_new_def)
  obtain svc_id t' where a: "services_add t (p_services (cs_plan st0)) = (svc_id, t')" by fastforce
  let ?i = "(instr_next svc_id ms)\<lparr>i_flags := 1, i_c := 0\<rparr>"
  have st1: "cs_instructions st = cs_instructions st0 @ [instr_next svc_id ms]" "cs_pending_retry st = Some ?cfg"
    "p_retry_configs (cs_plan st) = []" "p_instructions (cs_plan st) = []"
    using st empty by (auto simp: emit_call_def resolve_service_def a emit_instr_def)
  have "cs_instructions (attach_retry st) = cs_instructions st0 @ [?i]" "p_retry_configs (cs_plan (attach_retry st)) = [?cfg]"
    by (simp_all add: attach_retry_def st1 Let_def) (simp_all add: instr_next_def instr_new_def)
  then have "p_instructions plan = cs_instructions st0 @ [?i]" "p_retry_configs plan = [?cfg]"
    by (simp_all add: plan finish_plan_fields st1(4))
  moreover have "timeout_ms ?i = push_bit 16 (ucast (hi16 ms))" by (simp add: timeout_ms_def instr_defs)
  then have t: "timeout_ms ?i = push_bit 16 (drop_bit 16 (take_bit 32 ms))"
    by (simp add: hi16_def) (rule bit_word_eqI, auto simp: bit_simps)
  moreover have "timeout_ms ?i = 0" if "ms < 65536"
  proof -
    have "take_bit 16 ms = ms" using that
      by (simp add: word_unat_eq_iff unsigned_take_bit_eq take_bit_nat_eq_self word_less_nat_alt)
    then have "drop_bit 16 (take_bit 32 ms) = drop_bit 16 (take_bit 32 (take_bit 16 ms))" by simp
    also have "\<dots> = 0" by (rule bit_word_eqI) (auto simp: bit_simps)
    finally show ?thesis by (simp add: t)
  qed
  moreover have "i_op ?i = OpNext" "has_retry ?i" "i_c ?i = 0" by (simp_all add: instr_defs has_retry_def)
  ultimately show ?thesis by blast
qed

end
