(* ===== verification/RT_VM.thy ===== *)
theory RT_VM
  imports RT_Exec RT_Compiler
begin

text \<open>
  The virtual machine, \<^verbatim>\<open>runtime/src/executor/vm.rs\<close>, its context (\<^verbatim>\<open>bytecode/execution.rs\<close>, \<^verbatim>\<open>bytecode/event.rs\<close>) and
  the runtime around it (\<^verbatim>\<open>executor/runtime.rs\<close>).  The loop of \<open>run\<close> is a partial function: a plan that jumps back
  may never return.  The spans that \<open>dispatch\<close> reports to the tracer are left out.
\<close>

subsection \<open>Context\<close>

datatype EventMode = ModePublish | ModeRequest | ModeReply | ModeStream | ModeWorkflow | ModeInternal

definition mode_from_u8 :: "u8 \<Rightarrow> EventMode option" where
  "mode_from_u8 v =
     (if unat v < 6 then Some ([ModePublish, ModeRequest, ModeReply, ModeStream, ModeWorkflow, ModeInternal] ! unat v)
      else None)"

record EventMetadata =
  em_mode :: EventMode
  em_reply_to :: string
  em_correlation_id :: string
  em_trace_id :: string
  em_content_type :: string
  em_schema_name :: string
  em_schema_version :: u32
  em_partition :: u32
  em_offset :: int

record Event =
  ev_id :: string
  ev_topic :: string
  ev_payload :: string
  ev_headers :: "(string, string) gomap"
  ev_metadata :: EventMetadata

definition metadata_default :: EventMetadata where
  "metadata_default = \<lparr>em_mode = ModePublish, em_reply_to = [], em_correlation_id = [], em_trace_id = [],
     em_content_type = [], em_schema_name = [], em_schema_version = 0, em_partition = 0, em_offset = 0\<rparr>"

text \<open>The first argument is the fresh identifier.\<close>

definition event_new :: "string \<Rightarrow> string \<Rightarrow> string \<Rightarrow> Event" where
  "event_new uuid topic payload = \<lparr>ev_id = uuid, ev_topic = topic, ev_payload = payload, ev_headers = [],
     ev_metadata = metadata_default\<rparr>"

record ExecutionContext =
  x_event :: Event
  x_body :: string
  x_variables :: "(string, string) gomap"
  x_outputs :: "(string, string) gomap"
  x_headers :: "(string, string) gomap"
  x_failed :: bool
  x_errors :: "string list"
  x_hop_count :: u16
  x_retry_count :: u32
  x_deadline_ms :: u64
  x_ip :: nat

definition context_new :: "Event \<Rightarrow> ExecutionContext" where
  "context_new ev = \<lparr>x_event = ev, x_body = ev_payload ev, x_variables = [], x_outputs = [], x_headers = [],
     x_failed = False, x_errors = [], x_hop_count = 0, x_retry_count = 0, x_deadline_ms = 0, x_ip = 0\<rparr>"

definition from_body :: "string \<Rightarrow> string \<Rightarrow> ExecutionContext" where
  "from_body uuid body = context_new (event_new uuid ''default'' body)"

definition set_service_output :: "string \<Rightarrow> string \<Rightarrow> ExecutionContext \<Rightarrow> ExecutionContext" where
  "set_service_output name result ctx =
     ctx\<lparr>x_outputs := AList.update name result (x_outputs ctx), x_body := result\<rparr>"

definition get_service_output :: "string \<Rightarrow> ExecutionContext \<Rightarrow> string option" where
  "get_service_output name ctx = map_of (x_outputs ctx) name"

definition set_variable :: "string \<Rightarrow> string \<Rightarrow> ExecutionContext \<Rightarrow> ExecutionContext" where
  "set_variable name val ctx = ctx\<lparr>x_variables := AList.update name val (x_variables ctx)\<rparr>"

definition get_variable :: "string \<Rightarrow> ExecutionContext \<Rightarrow> string option" where
  "get_variable name ctx = map_of (x_variables ctx) name"

subsection \<open>Operations\<close>

type_synonym 'w outcome = "unit evaluated \<times> ExecutionContext \<times> 'w"

definition answered :: "(string + string) \<times> 'w \<Rightarrow> ExecutionContext \<Rightarrow> 'w outcome" where
  "answered r ctx =
     (case r of
        (Inr resp, w1) \<Rightarrow> (ROk (), ctx\<lparr>x_body := resp, x_hop_count := x_hop_count ctx + 1\<rparr>, w1)
      | (Inl e, w1) \<Rightarrow> (ROk (), ctx\<lparr>x_failed := True, x_errors := x_errors ctx @ [e]\<rparr>, w1))"

text \<open>A result that becomes the body, counted as a hop or not.\<close>

definition replaced :: "string evaluated \<times> 'w \<Rightarrow> u16 \<Rightarrow> ExecutionContext \<Rightarrow> 'w outcome" where
  "replaced r hops ctx =
     (case r of
        (ROk out, w1) \<Rightarrow> (ROk (), ctx\<lparr>x_body := out, x_hop_count := x_hop_count ctx + hops\<rparr>, w1)
      | (RErr e, w1) \<Rightarrow> (RErr e, ctx, w1)
      | (RPanic, w1) \<Rightarrow> (RPanic, ctx, w1))"

definition op_next :: "'w vm_env \<Rightarrow> ExecutionPlan \<Rightarrow> Instruction \<Rightarrow> bool \<Rightarrow> ExecutionContext \<Rightarrow> 'w \<Rightarrow> 'w outcome" where
  "op_next E plan instr is_async ctx w = answered (exec_next E plan instr (x_body ctx) is_async w) ctx"

definition op_fallback :: "'w vm_env \<Rightarrow> ExecutionPlan \<Rightarrow> Instruction \<Rightarrow> ExecutionContext \<Rightarrow> 'w \<Rightarrow> 'w outcome" where
  "op_fallback E plan instr ctx w =
     (if x_failed ctx then answered (exec_next E plan instr (x_body ctx) False w) (ctx\<lparr>x_failed := False\<rparr>)
      else (ROk (), ctx, w))"

definition op_gate ::
  "('f, 'm) f64_all_scheme \<Rightarrow> 'f json \<Rightarrow> ExecutionPlan \<Rightarrow> Instruction \<Rightarrow> ExecutionContext \<Rightarrow> 'w \<Rightarrow> 'w outcome" where
  "op_gate F J plan instr ctx w =
     (case evaluate F J plan instr (x_body ctx) of
        None \<Rightarrow> (RPanic, ctx, w)
      | Some True \<Rightarrow> (ROk (), ctx, w)
      | Some False \<Rightarrow> (ROk (), ctx\<lparr>x_ip := x_ip ctx + skip_count plan (x_ip ctx)\<rparr>, w))"

definition op_jmp :: "ExecutionPlan \<Rightarrow> Instruction \<Rightarrow> ExecutionContext \<Rightarrow> 'w \<Rightarrow> 'w outcome" where
  "op_jmp plan instr ctx w =
     (if length (p_instructions plan) \<le> unat (i_a instr)
      then (RErr (''Jmp target '' @ dec (unat (i_a instr)) @ '' out of bounds''), ctx, w)
      else (ROk (), ctx\<lparr>x_ip := unat (i_a instr)\<rparr>, w))"

definition op_map ::
  "('f, 'm) f64_all_scheme \<Rightarrow> 'f json \<Rightarrow> 'w vm_env \<Rightarrow> ExecutionPlan \<Rightarrow> Instruction \<Rightarrow> ExecutionContext \<Rightarrow> 'w \<Rightarrow> 'w outcome" where
  "op_map F J E plan instr ctx w =
     (case pool_get (p_const_pool plan) (i_a instr) of
        None \<Rightarrow> (RPanic, ctx, w)
      | Some expr_str \<Rightarrow> replaced (exec_map F J (vm_env E) expr_str (x_body ctx) w) 0 ctx)"

definition op_type_guard :: "'f json \<Rightarrow> ExecutionPlan \<Rightarrow> Instruction \<Rightarrow> ExecutionContext \<Rightarrow> 'w \<Rightarrow> 'w outcome" where
  "op_type_guard J plan instr ctx w =
     (case p_schema plan of
        None \<Rightarrow> (if i_a instr = 0 then ROk () else RErr ''schema required but not provided'', ctx, w)
      | Some schema \<Rightarrow>
          (case js_parse J (x_body ctx) of
             Inl e \<Rightarrow> (RErr (''TypeGuard: failed to parse body: '' @ e), ctx, w)
           | Inr body \<Rightarrow>
               (case is_valid schema body of Inl e \<Rightarrow> RErr (''TypeGuard: '' @ e) | Inr _ \<Rightarrow> ROk (), ctx, w)))"

definition op_emit :: "'w vm_env \<Rightarrow> ExecutionPlan \<Rightarrow> Instruction \<Rightarrow> ExecutionContext \<Rightarrow> 'w \<Rightarrow> 'w outcome" where
  "op_emit E plan instr ctx w = (case exec_emit E plan instr (x_body ctx) w of (r, w1) \<Rightarrow> (r, ctx, w1))"

definition op_drop :: "ExecutionPlan \<Rightarrow> ExecutionContext \<Rightarrow> 'w \<Rightarrow> 'w outcome" where
  "op_drop plan ctx w = (ROk (), ctx\<lparr>x_ip := length (p_instructions plan)\<rparr>, w)"

definition op_svc_call :: "'w vm_env \<Rightarrow> Instruction \<Rightarrow> ExecutionContext \<Rightarrow> 'w \<Rightarrow> 'w outcome" where
  "op_svc_call E instr ctx w = answered (vm_call E (i_a instr) (x_body ctx) (timeout_ms instr) w) ctx"

definition dispatch ::
  "('f, 'm) f64_all_scheme \<Rightarrow> 'f json \<Rightarrow> 'w vm_env \<Rightarrow> ExecutionPlan \<Rightarrow> Instruction \<Rightarrow> ExecutionContext \<Rightarrow> 'w \<Rightarrow> 'w outcome" where
  "dispatch F J E plan instr ctx w =
     (case i_op instr of
        OpNext \<Rightarrow> op_next E plan instr False ctx w
      | OpAsync \<Rightarrow> op_next E plan instr True ctx w
      | OpParallel \<Rightarrow> replaced (exec_parallel J E plan instr (x_body ctx) w) 0 ctx
      | OpCollect \<Rightarrow> replaced (exec_collect J (x_body ctx), w) 1 ctx
      | OpFallback \<Rightarrow> op_fallback E plan instr ctx w
      | OpGate \<Rightarrow> op_gate F J plan instr ctx w
      | OpEmit \<Rightarrow> op_emit E plan instr ctx w
      | OpDrop \<Rightarrow> op_drop plan ctx w
      | OpMap \<Rightarrow> op_map F J E plan instr ctx w
      | OpDag \<Rightarrow> replaced (exec_dag J E plan instr (x_body ctx) w) 1 ctx
      | OpJmp \<Rightarrow> op_jmp plan instr ctx w
      | OpBuffer \<Rightarrow> (RErr ''Buffer must be handled at engine level'', ctx, w)
      | OpTypeGuard \<Rightarrow> op_type_guard J plan instr ctx w
      | OpSvcCall \<Rightarrow> op_svc_call E instr ctx w
      | _ \<Rightarrow> (ROk (), ctx, w))"

subsection \<open>Running and stepping\<close>

definition advance_ip :: "ExecutionContext \<Rightarrow> ExecutionContext" where
  "advance_ip ctx = ctx\<lparr>x_ip := Suc (x_ip ctx)\<rparr>"

partial_function (option) run_loop ::
  "('f, 'm) f64_all_scheme \<Rightarrow> 'f json \<Rightarrow> 'w vm_env \<Rightarrow> ExecutionPlan \<Rightarrow> ExecutionContext \<Rightarrow> 'w \<Rightarrow> 'w outcome option" where
  "run_loop F J E plan ctx w =
     (if x_ip ctx < length (p_instructions plan) then
        (case dispatch F J E plan (p_instructions plan ! x_ip ctx) (advance_ip ctx) w of
           (ROk _, ctx1, w1) \<Rightarrow> run_loop F J E plan ctx1 w1
         | (r, ctx1, w1) \<Rightarrow> Some (r, ctx1, w1))
      else Some (ROk (), ctx, w))"

definition run ::
  "('f, 'm) f64_all_scheme \<Rightarrow> 'f json \<Rightarrow> 'w vm_env \<Rightarrow> ExecutionPlan \<Rightarrow> ExecutionContext \<Rightarrow> 'w \<Rightarrow> 'w outcome option" where
  "run F J E plan ctx w = run_loop F J E plan (ctx\<lparr>x_ip := 0\<rparr>) w"

datatype StepResult = StepDone | StepContinue | StepPending u16 string u64 | StepDelay u64

definition step_result :: "ExecutionPlan \<Rightarrow> 'w outcome \<Rightarrow> StepResult evaluated \<times> ExecutionContext \<times> 'w" where
  "step_result plan out =
     (case out of (r, ctx1, w1) \<Rightarrow>
        (rbind r (\<lambda>_. ROk (if length (p_instructions plan) \<le> x_ip ctx1 then StepDone else StepContinue)), ctx1, w1))"

definition step ::
  "('f, 'm) f64_all_scheme \<Rightarrow> 'f json \<Rightarrow> 'w vm_env \<Rightarrow> ExecutionPlan \<Rightarrow> string option \<Rightarrow> ExecutionContext \<Rightarrow> 'w \<Rightarrow>
     StepResult evaluated \<times> ExecutionContext \<times> 'w" where
  "step F J E plan response ctx0 w =
     (let ctx = (case response of
                   None \<Rightarrow> ctx0
                 | Some resp \<Rightarrow> (advance_ip ctx0)\<lparr>x_body := resp, x_hop_count := x_hop_count ctx0 + 1\<rparr>)
      in if length (p_instructions plan) \<le> x_ip ctx then (ROk StepDone, ctx, w)
         else let instr = p_instructions plan ! x_ip ctx in
           if i_op instr \<in> {OpNext, OpAsync, OpEmit, OpSvcCall}
           then (ROk (StepPending (i_a instr) (x_body ctx) (timeout_ms instr)), ctx, w)
           else if i_op instr = OpDelay then (ROk (StepDelay (delay_ms instr)), advance_ip ctx, w)
           else step_result plan (dispatch F J E plan instr (advance_ip ctx) w))"

subsection \<open>Runtime\<close>

record ExecutionRuntime =
  rt_plan :: ExecutionPlan
  rt_buffer_body :: string
  rt_buffer_count :: u8
  rt_buffer_target :: u8

definition runtime_new :: "ExecutionPlan \<Rightarrow> ExecutionRuntime" where
  "runtime_new plan = \<lparr>rt_plan = plan, rt_buffer_body = [], rt_buffer_count = 0, rt_buffer_target = 0\<rparr>"

definition run_vm ::
  "('f, 'm) f64_all_scheme \<Rightarrow> 'f json \<Rightarrow> 'w vm_env \<Rightarrow> ExecutionPlan \<Rightarrow> string \<Rightarrow> 'w \<Rightarrow> (string evaluated \<times> 'w) option" where
  "run_vm F J E plan body w =
     (case env_uuid (vm_env E) w of (uuid, w0) \<Rightarrow>
      map_option (\<lambda>(r, ctx, w1). (rbind r (\<lambda>_. ROk (x_body ctx)), w1)) (run F J E plan (from_body uuid body) w0))"

fun run_chunks ::
  "('f, 'm) f64_all_scheme \<Rightarrow> 'f json \<Rightarrow> 'w vm_env \<Rightarrow> ExecutionPlan \<Rightarrow> string list \<Rightarrow> 'w \<Rightarrow> (string list evaluated \<times> 'w) option" where
  "run_chunks F J E plan [] w = Some (ROk [], w)"
| "run_chunks F J E plan (chunk # chunks) w =
     (case run_vm F J E plan chunk w of
        None \<Rightarrow> None
      | Some (ROk out, w1) \<Rightarrow>
          map_option (\<lambda>(r, w2). (rbind r (\<lambda>outs. ROk (out # outs)), w2)) (run_chunks F J E plan chunks w1)
      | Some (RErr e, w1) \<Rightarrow> Some (RErr e, w1)
      | Some (RPanic, w1) \<Rightarrow> Some (RPanic, w1))"

definition exec_chunked ::
  "('f, 'm) f64_all_scheme \<Rightarrow> 'f json \<Rightarrow> 'w vm_env \<Rightarrow> ExecutionPlan \<Rightarrow> string \<Rightarrow> u8 \<Rightarrow> 'w \<Rightarrow> (string evaluated \<times> 'w) option" where
  "exec_chunked F J E plan body count w =
     (let threshold = length body div unat (max count 1)
      in case split_chunks body count threshold of
           RPanic \<Rightarrow> Some (RPanic, w)
         | RErr e \<Rightarrow> Some (RErr e, w)
         | ROk None \<Rightarrow> run_vm F J E plan body w
         | ROk (Some chunks) \<Rightarrow>
             map_option (\<lambda>(r, w1). (rbind r (\<lambda>outs. ROk (js_print J (JArray (map (parse_or J JNull) outs)))), w1))
               (run_chunks F J E plan chunks w))"

definition execute ::
  "('f, 'm) f64_all_scheme \<Rightarrow> 'f json \<Rightarrow> 'w vm_env \<Rightarrow> string \<Rightarrow> ExecutionRuntime \<Rightarrow> 'w \<Rightarrow>
     (string evaluated \<times> ExecutionRuntime \<times> 'w) option" where
  "execute F J E body rt w =
     (let go = map_option (\<lambda>(r, w1). (r, rt, w1)) in
      case p_instructions (rt_plan rt) of
        [] \<Rightarrow> go (run_vm F J E (rt_plan rt) body w)
      | first # _ \<Rightarrow>
          if i_op first = OpBuffer then
            Some (ROk body, rt\<lparr>rt_buffer_target := ucast (i_a first), rt_buffer_body := body, rt_buffer_count := 1\<rparr>, w)
          else if i_op first = OpChunk then go (exec_chunked F J E (rt_plan rt) body (ucast (i_a first)) w)
          else go (run_vm F J E (rt_plan rt) body w))"

definition merge_buffer_json :: "'f json \<Rightarrow> string \<Rightarrow> string \<Rightarrow> string" where
  "merge_buffer_json J a b =
     js_print J (JArray (case parse_or J JNull a of
                           JArray arr \<Rightarrow> arr @ [parse_or J JNull b]
                         | v \<Rightarrow> [v, parse_or J JNull b]))"

definition buffer_push :: "'f json \<Rightarrow> string \<Rightarrow> ExecutionRuntime \<Rightarrow> bool \<times> ExecutionRuntime" where
  "buffer_push J body rt =
     (if rt_buffer_target rt = 0 then (False, rt)
      else let count = rt_buffer_count rt + 1
           in (rt_buffer_target rt \<le> count,
               rt\<lparr>rt_buffer_body := merge_buffer_json J (rt_buffer_body rt) body, rt_buffer_count := count\<rparr>))"

definition buffer_flush :: "ExecutionRuntime \<Rightarrow> string \<times> ExecutionRuntime" where
  "buffer_flush rt = (rt_buffer_body rt, rt\<lparr>rt_buffer_body := [], rt_buffer_count := 0, rt_buffer_target := 0\<rparr>)"

definition buffer_remaining :: "ExecutionRuntime \<Rightarrow> u8" where
  "buffer_remaining rt =
     (if rt_buffer_count rt \<le> rt_buffer_target rt then rt_buffer_target rt - rt_buffer_count rt else 0)"

subsection \<open>Runs without jumps end\<close>

lemma answered_ip [simp]: "x_ip (fst (snd (answered r ctx))) = x_ip ctx"
  by (auto simp: answered_def split: prod.split sum.split)

lemma replaced_ip [simp]: "x_ip (fst (snd (replaced r h ctx))) = x_ip ctx"
  by (auto simp: replaced_def split: prod.split rres.split)

lemma dispatch_ip:
  assumes "dispatch F J E plan instr ctx w = (r, ctx1, w1)" and "i_op instr \<noteq> OpJmp"
    and "x_ip ctx \<le> length (p_instructions plan)"
  shows "x_ip ctx \<le> x_ip ctx1"
proof -
  have "x_ip ctx \<le> x_ip (fst (snd (dispatch F J E plan instr ctx w)))"
    using assms(2,3)
    by (cases "i_op instr")
      (auto simp: dispatch_def op_next_def op_fallback_def op_gate_def op_emit_def op_drop_def op_map_def op_type_guard_def
        op_svc_call_def split: option.split bool.split prod.split sum.split)
  with assms(1) show ?thesis by simp
qed

definition jump_free :: "ExecutionPlan \<Rightarrow> bool" where
  "jump_free plan \<longleftrightarrow> list_all (\<lambda>i. i_op i \<noteq> OpJmp) (p_instructions plan)"

lemma run_loop_end: "length (p_instructions plan) \<le> x_ip ctx \<Longrightarrow> run_loop F J E plan ctx w = Some (ROk (), ctx, w)"
  by (subst run_loop.simps) simp

lemma run_loop_step:
  assumes "x_ip ctx < length (p_instructions plan)"
    and "dispatch F J E plan (p_instructions plan ! x_ip ctx) (advance_ip ctx) w = (r, ctx1, w1)"
  shows "run_loop F J E plan ctx w = (if r = ROk () then run_loop F J E plan ctx1 w1 else Some (r, ctx1, w1))"
  using assms by (subst run_loop.simps) (cases r; simp)

lemma run_loop_returns:
  "jump_free plan \<Longrightarrow> \<exists>out. run_loop F J E plan ctx w = Some out"
proof (induction "length (p_instructions plan) - x_ip ctx" arbitrary: ctx w rule: less_induct)
  case less
  show ?case
  proof (cases "x_ip ctx < length (p_instructions plan)")
    case False
    then show ?thesis by (simp add: run_loop_end)
  next
    case True
    let ?i = "p_instructions plan ! x_ip ctx"
    obtain r ctx1 w1 where d: "dispatch F J E plan ?i (advance_ip ctx) w = (r, ctx1, w1)" by (metis prod_cases3)
    have "i_op ?i \<noteq> OpJmp" using less.prems True by (simp add: jump_free_def list_all_length)
    from dispatch_ip [OF d this] True have "x_ip ctx < x_ip ctx1" by (simp add: advance_ip_def)
    then have "\<exists>out. run_loop F J E plan ctx1 w1 = Some out" using True less.prems by (intro less.hyps) auto
    then show ?thesis by (simp add: run_loop_step [OF True d])
  qed
qed

subsection \<open>Plans in range do not panic\<close>

text \<open>The services of a group are counted on from the first one; they exist when the last of them does.\<close>

definition group_fits :: "ExecutionPlan \<Rightarrow> Instruction \<Rightarrow> bool" where
  "group_fits plan i \<longleftrightarrow>
     (i_op i = OpParallel \<longrightarrow> unat (i_b i) + unat (i_a i) \<le> length (sv_entries (p_services plan))) \<and>
     (i_op i = OpEmit \<longrightarrow> unat (i_b i) + unat (ucast (i_a i) :: u8) \<le> length (sv_entries (p_services plan)))"

lemma group_ids_some: "first + count \<le> length (sv_entries (p_services plan)) \<Longrightarrow> None \<notin> set (group_ids plan first count)"
  by (auto simp: group_ids_def)

lemma those_some: "None \<notin> set xs \<Longrightarrow> \<exists>ys. those xs = Some ys"
proof (induction xs)
  case (Cons x xs)
  then show ?case by (cases x) auto
qed simp

lemma emit_loop_no_panic: "None \<notin> set ids \<Longrightarrow> fst (emit_loop E ids body w) \<noteq> RPanic"
  by (induction E ids body w rule: emit_loop.induct) (auto split: prod.split sum.split)

lemma dag_nodes_no_panic: "fst (dag_nodes J E dag body is st) \<noteq> RPanic"
proof (induction "is" arbitrary: st)
  case (Cons i "is")
  obtain r st1 where d: "dag_node J E dag body i st = (r, st1)" by fastforce
  have "fst (dag_node J E dag body i st) \<noteq> RPanic"
    by (auto simp: dag_node_def call_body_def Let_def split: option.split prod.split sum.split rres.split)
  with Cons.IH d show ?case by (cases r) simp_all
qed simp

lemma services_get_some: "unat i < length (sv_entries t) \<Longrightarrow> \<exists>e. services_get t i = Some e"
  by (simp add: services_get_def)

lemma merge_no_panic:
  assumes "\<forall>i \<in> set (dt_terminal_nodes dag). unat i < length (sv_entries (p_services plan))"
  shows "merge_dag_results J plan dag results failed \<noteq> RPanic"
proof -
  have "\<forall>i \<in> set is. unat i < length (sv_entries (p_services plan)) \<Longrightarrow> explicit_results J plan is results failed m \<noteq> RPanic" for "is" m
    by (induction "is" arbitrary: m) (auto dest!: services_get_some split: option.split)
  moreover have "\<forall>i \<in> set is. unat i < length (sv_entries (p_services plan)) \<Longrightarrow> last_wins plan is results failed \<noteq> RPanic" for "is"
    by (induction "is") (auto simp: Let_def rbind_eq_RPanic dest!: services_get_some split: option.split)
  ultimately show ?thesis
    using assms by (simp add: merge_dag_results_def Let_def rbind_eq_RPanic split: MergeStrategy.split)
qed

lemma exec_dag_no_panic:
  assumes "tables_ok plan" and "unat (i_a instr) < length (p_dag_tables plan)"
  shows "fst (exec_dag J E plan instr body w) \<noteq> RPanic"
proof -
  let ?dag = "p_dag_tables plan ! unat (i_a instr)"
  have "dag_ok (length (sv_entries (p_services plan))) ?dag" using assms by (simp add: tables_ok_def)
  then have m: "merge_dag_results J plan ?dag results failed \<noteq> RPanic" for results failed
    by (intro merge_no_panic) (simp add: dag_ok_def)
  obtain r st where d: "dag_nodes J E ?dag body (concat (dt_layers ?dag)) \<lparr>dr_results = [], dr_failed = [], dr_world = w\<rparr> = (r, st)"
    by fastforce
  then have "r \<noteq> RPanic" by (metis dag_nodes_no_panic fst_conv)
  with m show ?thesis by (cases r) (simp_all add: exec_dag_def assms(2) Let_def d)
qed

lemma replaced_panic: "fst (replaced r h ctx) = RPanic \<longleftrightarrow> fst r = RPanic"
  by (auto simp: replaced_def split: prod.split rres.split)

lemma answered_no_panic [simp]: "fst (answered r ctx) \<noteq> RPanic"
  by (auto simp: answered_def split: prod.split sum.split)

lemma dispatch_no_panic:
  assumes "plan_ok plan" and "i \<in> set (p_instructions plan)" and "group_fits plan i" and "i_op i \<noteq> OpMap"
  shows "fst (dispatch F J E plan i ctx w) \<noteq> RPanic"
proof -
  have range: "in_range plan (length (p_instructions plan)) i" and tab: "tables_ok plan"
    using assms(1,2) by (simp_all add: plan_ok_def)
  show ?thesis
  proof (cases "i_op i")
    case OpParallel
    with assms(3) obtain svcs where "those (group_ids plan (unat (i_b i)) (unat (i_a i))) = Some svcs"
      using group_ids_some those_some by (metis group_fits_def)
    then show ?thesis
      by (auto simp: dispatch_def OpParallel replaced_panic exec_parallel_def Let_def split: prod.split option.split)
  next
    case OpEmit
    with assms(3) have "None \<notin> set (group_ids plan (unat (i_b i)) (unat (ucast (i_a i) :: u8)))"
      using group_ids_some by (simp add: group_fits_def)
    from emit_loop_no_panic [OF this, of E "x_body ctx" w] show ?thesis
      by (auto simp: dispatch_def OpEmit op_emit_def exec_emit_def split: prod.split)
  next
    case OpGate
    with range show ?thesis
      by (auto simp: in_range_def operand_range_def dispatch_def op_gate_def evaluate_def pool_get_def split: bool.split)
  next
    case OpDag
    with range have "unat (i_a i) < length (p_dag_tables plan)" by (simp add: in_range_def operand_range_def)
    from exec_dag_no_panic [OF tab this] show ?thesis by (simp add: dispatch_def OpDag replaced_panic)
  next
    case OpCollect
    then show ?thesis
      by (auto simp: dispatch_def replaced_panic exec_collect_def split: sum.split Value.split option.split)
  qed (use assms(4) in \<open>auto simp: dispatch_def op_next_def op_fallback_def op_drop_def op_jmp_def op_type_guard_def op_svc_call_def
      split: option.split sum.split\<close>)
qed

lemma run_loop_no_panic:
  assumes "plan_ok plan" and "\<And>i. i \<in> set (p_instructions plan) \<Longrightarrow> group_fits plan i \<and> i_op i \<noteq> OpMap"
  shows "run_loop F J E plan ctx w = Some (r, ctx1, w1) \<Longrightarrow> jump_free plan \<Longrightarrow> r \<noteq> RPanic"
proof (induction "length (p_instructions plan) - x_ip ctx" arbitrary: ctx w rule: less_induct)
  case less
  show ?case
  proof (cases "x_ip ctx < length (p_instructions plan)")
    case False
    then have "run_loop F J E plan ctx w = Some (ROk (), ctx, w)" by (simp add: run_loop_end)
    with less.prems(1) show ?thesis by auto
  next
    case True
    let ?i = "p_instructions plan ! x_ip ctx"
    obtain r2 ctx2 w2 where d: "dispatch F J E plan ?i (advance_ip ctx) w = (r2, ctx2, w2)" by (metis prod_cases3)
    have i: "?i \<in> set (p_instructions plan)" using True by simp
    then have "r2 \<noteq> RPanic"
      using dispatch_no_panic [OF assms(1) i, of F J E "advance_ip ctx" w] assms(2) [OF i] d by simp
    moreover have "i_op ?i \<noteq> OpJmp" using less.prems True by (simp add: jump_free_def list_all_length)
    from dispatch_ip [OF d this] True have "x_ip ctx < x_ip ctx2" by (simp add: advance_ip_def)
    then have "run_loop F J E plan ctx2 w2 = Some (r, ctx1, w1) \<Longrightarrow> r \<noteq> RPanic"
      using True less.prems(2) by (intro less.hyps [of ctx2 w2]) auto
    ultimately show ?thesis using less.prems(1) by (auto simp: run_loop_step [OF True d] split: if_splits)
  qed
qed

subsection \<open>The operations a pipeline compiles to\<close>

fun node_ops :: "ASTNode \<Rightarrow> OpCode list" where
  "node_ops (Next _) = [OpNext]"
| "node_ops (Async _) = [OpAsync]"
| "node_ops (Parallel _) = [OpParallel, OpSvcArg]"
| "node_ops Collect = [OpCollect]"
| "node_ops (Fallback _) = [OpFallback]"
| "node_ops (Gate _ _ _) = [OpGate, OpJumpOffset]"
| "node_ops (Emit _) = [OpEmit, OpSvcArg]"
| "node_ops Drop = [OpDrop]"
| "node_ops (Buffer _) = [OpBuffer]"
| "node_ops (Key _) = [OpKey]"
| "node_ops (Split _) = [OpKey]"
| "node_ops (MapExpr _) = [OpMap]"
| "node_ops (Chunk _ _) = [OpChunk]"
| "node_ops (Dag _) = [OpDag]"
| "node_ops (Schema _) = [OpTypeGuard]"
| "node_ops (Label _) = [OpLabel]"
| "node_ops (Jmp _) = [OpJmp, OpJumpOffset]"
| "node_ops (Delay _) = [OpDelay]"
| "node_ops _ = []"

lemma resolve_services_instrs: "cs_instructions (snd (resolve_services ts st)) = cs_instructions st"
  by (induction ts arbitrary: st) (auto simp: resolve_service_def case_prod_unfold)

lemma svc_args_instrs:
  "cs_instructions (fold (\<lambda>j. emit_instr (instr_svc_arg j)) is st) = cs_instructions st @ map instr_svc_arg is"
  by (induction "is" arbitrary: st) (simp_all add: emit_instr_def)

lemma emit_group_instrs:
  assumes "emit_group mk ts st = ROk st'"
  obtains "is" c i where "cs_instructions st' = cs_instructions st @ mk c i # map instr_svc_arg is"
proof -
  obtain js st1 where r: "resolve_services ts st = (js, st1)" by fastforce
  then have "cs_instructions st1 = cs_instructions st" using resolve_services_instrs [of ts st] by simp
  moreover obtain i ks where js: "js = i # ks" using assms r by (cases js) (auto simp: emit_group_def)
  moreover have "st' = fold (\<lambda>j. emit_instr (instr_svc_arg j)) js (emit_instr (mk (word_of_nat (length js)) i) st1)"
    using assms by (simp add: emit_group_def r js)
  ultimately have "cs_instructions st' = cs_instructions st @ mk (word_of_nat (length js)) i # map instr_svc_arg js"
    by (simp only: svc_args_instrs) (simp add: emit_instr_def)
  then show thesis by (rule that)
qed

lemma compile_node_ops:
  assumes "compile_node n st = ROk st'" and "i \<in> set (cs_instructions st')"
  shows "i \<in> set (cs_instructions st) \<or> i_op i \<in> set (node_ops n)"
proof (cases n)
  case (Parallel ts)
  with assms(1) have "emit_group instr_parallel ts st = ROk st'" by simp
  then show ?thesis by (rule emit_group_instrs) (use assms(2) in \<open>auto simp: Parallel instr_defs\<close>)
next
  case (Emit ts)
  with assms(1) have "emit_group instr_emit ts st = ROk st'" by simp
  then show ?thesis by (rule emit_group_instrs) (use assms(2) in \<open>auto simp: Emit instr_defs\<close>)
qed (use assms in \<open>auto simp: emit_instr_def emit_call_def resolve_service_def add_const_def Let_def case_prod_unfold
    rbind_eq_ROk instr_defs split: if_splits\<close>)

lemma compile_nodes_ops:
  "compile_nodes ns st = ROk st' \<Longrightarrow> i \<in> set (cs_instructions st') \<Longrightarrow>
     i \<in> set (cs_instructions st) \<or> (\<exists>n \<in> set ns. i_op i \<in> set (node_ops n))"
proof (induction ns arbitrary: st)
  case (Cons n ns)
  then obtain st1 where st1: "compile_node n st = ROk st1" "compile_nodes ns st1 = ROk st'"
    by (auto simp: rbind_eq_ROk)
  from Cons.IH [OF st1(2) Cons.prems(2)] compile_node_ops [OF st1(1)] show ?case by auto
qed simp

lemma attach_retry_ops:
  assumes "i \<in> set (cs_instructions (attach_retry st))"
  shows "\<exists>j \<in> set (cs_instructions st). i_op i = i_op j"
proof (cases "cs_instructions (attach_retry st) = cs_instructions st")
  case False
  then have ne: "cs_instructions st \<noteq> []"
    by (auto simp: attach_retry_def split: option.splits if_splits)
  have "\<exists>c. cs_instructions (attach_retry st) = butlast (cs_instructions st) @
      [(last (cs_instructions st))\<lparr>i_flags := i_flags (last (cs_instructions st)) OR 1, i_c := c\<rparr>]"
    using False by (auto simp: attach_retry_def Let_def split: option.splits if_splits)
  with assms consider "i \<in> set (butlast (cs_instructions st))" | "i_op i = i_op (last (cs_instructions st))" by auto
  then show ?thesis
  proof cases
    case 1
    then show ?thesis by (intro bexI [of _ i]) (simp_all add: in_set_butlastD)
  next
    case 2
    then show ?thesis using last_in_set [OF ne] by blast
  qed
qed (use assms in auto)

lemma compile_ops:
  assumes "compile nodes rule_id = ROk plan" and "i \<in> set (p_instructions plan)"
  shows "\<exists>n \<in> set nodes. i_op i \<in> set (node_ops n)"
proof -
  obtain schema st where st: "compile_nodes nodes (compile_start rule_id) = ROk st" and plan: "plan = finish_plan schema st"
    and empty: "p_instructions (cs_plan st) = []"
    using compile_ROk [OF assms(1)] by metis
  have "i \<in> set (cs_instructions (attach_retry st))" using assms(2) by (simp add: plan finish_plan_fields empty)
  then obtain j where "j \<in> set (cs_instructions st)" "i_op i = i_op j" using attach_retry_ops by blast
  with compile_nodes_ops [OF st] show ?thesis by (auto simp: compile_start_def)
qed

lemma compile_jump_free:
  assumes "compile nodes rule_id = ROk plan" and "list_all (\<lambda>n. OpJmp \<notin> set (node_ops n)) nodes"
  shows "jump_free plan"
  using compile_ops [OF assms(1)] assms(2) by (fastforce simp: jump_free_def list_all_iff)

text \<open>Nodes with non-empty groups that compile neither to jumps nor to map steps.\<close>

definition plain_node :: "ASTNode \<Rightarrow> bool" where
  "plain_node n \<longleftrightarrow> nonempty_groups n \<and> OpJmp \<notin> set (node_ops n) \<and> OpMap \<notin> set (node_ops n)"

subsection \<open>Properties\<close>

text \<open>
  C5: A compiled pipeline without jumps and map steps, whose groups fit into the table of services, runs to an end for
  every body and every behaviour of the services, and it never panics: the machine returns with or without an error.
\<close>

theorem compiled_run_safe:
  assumes "compile nodes rule_id = ROk plan" and "list_all plain_node nodes" and "list_all (group_fits plan) (p_instructions plan)"
  shows "\<exists>r ctx1 w1. run F J E plan ctx w = Some (r, ctx1, w1) \<and> r \<noteq> RPanic"
proof -
  have "list_all nonempty_groups nodes" "list_all (\<lambda>n. OpJmp \<notin> set (node_ops n)) nodes"
    using assms(2) by (simp_all add: list_all_iff plain_node_def)
  then have ok: "plan_ok plan" and free: "jump_free plan"
    using compile_range_plan [OF assms(1)] compile_jump_free [OF assms(1)] by blast+
  have fits: "group_fits plan i \<and> i_op i \<noteq> OpMap" if "i \<in> set (p_instructions plan)" for i
    using compile_ops [OF assms(1) that] assms(2,3) that by (auto simp: list_all_iff plain_node_def)
  obtain r ctx1 w1 where out: "run_loop F J E plan (ctx\<lparr>x_ip := 0\<rparr>) w = Some (r, ctx1, w1)"
    using run_loop_returns [OF free] by (metis prod_cases3)
  have "r \<noteq> RPanic" by (rule run_loop_no_panic [OF ok _ out free]) (rule fits)
  with out show ?thesis by (simp add: run_def)
qed

theorem compiled_run_safe_witness:
  "\<exists>plan. compile [Next ''a'', Fallback ''b''] ''r'' = ROk plan \<and>
     (\<forall>(F :: nat f64_all) J (E :: unit vm_env) ctx w. \<exists>r ctx1 w1. run F J E plan ctx w = Some (r, ctx1, w1) \<and> r \<noteq> RPanic)"
proof -
  let ?ns = "[Next ''a'', Fallback ''b'']"
  obtain plan where c: "compile ?ns ''r'' = ROk plan" by (simp add: compile_def case_prod_unfold)
  have plain: "list_all plain_node ?ns" by (simp add: plain_node_def nonempty_groups_def)
  have fits: "list_all (group_fits plan) (p_instructions plan)"
    using compile_ops [OF c] by (force simp: list_all_iff group_fits_def)
  show ?thesis by (intro exI [of _ plan] conjI allI c compiled_run_safe [OF c plain fits])
qed

text \<open>Repeating a pending step without a response changes nothing: this is what recovery of an execution relies on.\<close>

lemma step_pending_again:
  assumes "step F J E plan resp ctx w = (ROk (StepPending svc body t), ctx1, w1)"
  shows "step F J E plan None ctx1 w1 = (ROk (StepPending svc body t), ctx1, w1)"
proof -
  define c where "c = (case resp of None \<Rightarrow> ctx | Some r \<Rightarrow> (advance_ip ctx)\<lparr>x_body := r, x_hop_count := x_hop_count ctx + 1\<rparr>)"
  have no: "step_result plan out \<noteq> (ROk (StepPending svc body t), ctx1, w1)" for out
    by (cases out; cases "fst out") (auto simp: step_result_def)
  have "ctx1 = c" using assms no by (auto simp: step_def Let_def c_def [symmetric] split: if_splits)
  moreover have "step F J E plan None c w = step F J E plan resp ctx w" by (simp add: step_def Let_def c_def)
  moreover have "w1 = w" using assms no by (auto simp: step_def Let_def c_def [symmetric] split: if_splits)
  ultimately show ?thesis using assms by simp
qed

end
