(* ===== verification/RT_Correct.thy ===== *)
theory RT_Correct
  imports RT_VM
begin

text \<open>
  A meaning of pipelines without the machine, and that compiling and running agrees with it.  The meaning calls
  services by name and follows the nodes from left to right; a gate that fails goes on at the next gate or
  label.  Timeouts are settled when the pipeline is compiled, so a timeout in a skipped part still belongs to
  the next call behind it in the text.
\<close>

subsection \<open>The meaning of nodes\<close>

type_synonym 'w named = "string \<Rightarrow> string \<Rightarrow> u64 \<Rightarrow> 'w \<Rightarrow> (string + string) \<times> 'w"

definition wait :: "u64 option \<Rightarrow> u64" where
  "wait pend = (case pend of None \<Rightarrow> 0 | Some ms \<Rightarrow> take_bit 32 ms)"

definition pend_after :: "ASTNode \<Rightarrow> u64 option \<Rightarrow> u64 option" where
  "pend_after n pend = (case n of Timeout ms \<Rightarrow> Some ms | Next _ \<Rightarrow> None | Async _ \<Rightarrow> None | _ \<Rightarrow> pend)"

definition stops_skip :: "ASTNode \<Rightarrow> bool" where
  "stops_skip n = (case n of Gate _ _ _ \<Rightarrow> True | Label _ \<Rightarrow> True | _ \<Rightarrow> False)"

fun skip_nodes :: "u64 option \<Rightarrow> ASTNode list \<Rightarrow> u64 option \<times> ASTNode list" where
  "skip_nodes pend [] = (pend, [])"
| "skip_nodes pend (n # ns) = (if stops_skip n then (pend, n # ns) else skip_nodes (pend_after n pend) ns)"

lemma skip_nodes_length: "length (snd (skip_nodes pend ns)) \<le> length ns"
  by (induction pend ns rule: skip_nodes.induct) (auto simp: le_SucI)

lemma skip_nodes_shorter: "(pend1, ns1) = skip_nodes pend ns \<Longrightarrow> length ns1 < Suc (length ns)"
  using skip_nodes_length [of pend ns] by (metis le_imp_less_Suc snd_conv)

definition gate_holds :: "('f, 'm) f64_all_scheme \<Rightarrow> 'f json \<Rightarrow> string \<Rightarrow> string \<Rightarrow> string \<Rightarrow> string \<Rightarrow> bool" where
  "gate_holds F J field op val body =
     (case extract_json_field J body field of
        Some v \<Rightarrow> compare_values F v (gate_u8 (case gate_parse op of None \<Rightarrow> GEq | Some g \<Rightarrow> g)) val
      | None \<Rightarrow> False)"

text \<open>The nodes with a meaning here: all but jumps, groups, DAGs, retries and schemas.\<close>

definition straight :: "ASTNode \<Rightarrow> bool" where
  "straight n = (case n of Jmp _ \<Rightarrow> False | Parallel _ \<Rightarrow> False | Emit _ \<Rightarrow> False | Dag _ \<Rightarrow> False | Retry _ _ _ \<Rightarrow> False
     | Schema _ \<Rightarrow> False | _ \<Rightarrow> True)"

definition proceed :: "'w outcome \<Rightarrow> (ExecutionContext \<Rightarrow> 'w \<Rightarrow> 'w outcome) \<Rightarrow> 'w outcome" where
  "proceed out k = (case out of (ROk _, ctx1, w1) \<Rightarrow> k ctx1 w1 | (r, ctx1, w1) \<Rightarrow> (r, ctx1, w1))"

lemma proceed_cong [fundef_cong]: "out = out' \<Longrightarrow> (\<And>c w. k c w = k' c w) \<Longrightarrow> proceed out k = proceed out' k'"
  by (simp add: proceed_def cong: rres.case_cong)

function meaning ::
  "('f, 'm) f64_all_scheme \<Rightarrow> 'f json \<Rightarrow> 'w env \<Rightarrow> 'w named \<Rightarrow> u64 option \<Rightarrow> ASTNode list \<Rightarrow> ExecutionContext \<Rightarrow> 'w \<Rightarrow> 'w outcome" where
  "meaning F J X call pend [] ctx w = (ROk (), ctx, w)"
| "meaning F J X call pend (n # ns) ctx w =
     (let rest = meaning F J X call (pend_after n pend) ns in
      case n of
        Next t \<Rightarrow> proceed (answered (call t (x_body ctx) (wait pend) w) ctx) rest
      | Async t \<Rightarrow> proceed (answered (call t (x_body ctx) (wait pend) w) ctx) rest
      | Fallback t \<Rightarrow>
          if x_failed ctx then proceed (answered (call t (x_body ctx) 0 w) (ctx\<lparr>x_failed := False\<rparr>)) rest else rest ctx w
      | Gate field op val \<Rightarrow>
          if gate_holds F J field op val (x_body ctx) then rest ctx w
          else (case skip_nodes pend ns of (pend1, ns1) \<Rightarrow> meaning F J X call pend1 ns1 ctx w)
      | MapExpr e \<Rightarrow> proceed (replaced (exec_map F J X e (x_body ctx) w) 0 ctx) rest
      | Collect \<Rightarrow> proceed (replaced (exec_collect J (x_body ctx), w) 1 ctx) rest
      | Drop \<Rightarrow> (ROk (), ctx, w)
      | Buffer _ \<Rightarrow> (RErr ''Buffer must be handled at engine level'', ctx, w)
      | _ \<Rightarrow> rest ctx w)"
  by pat_completeness auto

termination
  by (relation "measure (\<lambda>(_, _, _, _, _, ns, _, _). length ns)") (auto dest: skip_nodes_shorter)

subsection \<open>The code of nodes\<close>

text \<open>The instructions of a node, with operands that lead to its names in the tables of the plan.\<close>

definition node_code :: "ExecutionPlan \<Rightarrow> u64 option \<Rightarrow> ASTNode \<Rightarrow> Instruction list \<Rightarrow> bool" where
  "node_code plan pend n c =
     (let ms = (case pend of None \<Rightarrow> 0 | Some ms \<Rightarrow> ms);
          svc = (\<lambda>i t. service_name (p_services plan) i = Some t);
          str = (\<lambda>i s. pool_get (p_const_pool plan) i = Some s)
      in case n of
           Next t \<Rightarrow> \<exists>i. svc i t \<and> c = [instr_next i ms]
         | Async t \<Rightarrow> \<exists>i. svc i t \<and> c = [instr_async_svc i ms]
         | Fallback t \<Rightarrow> \<exists>i. svc i t \<and> c = [instr_fallback i]
         | Gate f op v \<Rightarrow>
             \<exists>i j. str i f \<and> str j v \<and>
               c = [instr_gate i (gate_u8 (case gate_parse op of None \<Rightarrow> GEq | Some g \<Rightarrow> g)) j, instr_jump_offset 0]
         | MapExpr e \<Rightarrow> \<exists>i. str i e \<and> c = [instr_map i]
         | Collect \<Rightarrow> c = [instr_collect]
         | Drop \<Rightarrow> c = [instr_drop]
         | Buffer k \<Rightarrow> c = [instr_buffer (ucast k)]
         | Key _ \<Rightarrow> \<exists>i. c = [instr_set_key i]
         | Split _ \<Rightarrow> \<exists>i. c = [instr_set_key i]
         | Chunk _ _ \<Rightarrow> \<exists>i j. c = [instr_chunk i j]
         | Label _ \<Rightarrow> c = [instr_label]
         | Delay d \<Rightarrow> c = [instr_delay d]
         | Timeout _ \<Rightarrow> c = []
         | Pipe \<Rightarrow> c = []
         | _ \<Rightarrow> False)"

fun codes :: "ExecutionPlan \<Rightarrow> u64 option \<Rightarrow> ASTNode list \<Rightarrow> Instruction list \<Rightarrow> bool" where
  "codes plan pend [] c \<longleftrightarrow> c = []"
| "codes plan pend (n # ns) c \<longleftrightarrow>
     (\<exists>c1 c2. c = c1 @ c2 \<and> node_code plan pend n c1 \<and> codes plan (pend_after n pend) ns c2)"

definition extends :: "ExecutionPlan \<Rightarrow> ExecutionPlan \<Rightarrow> bool" where
  "extends p q \<longleftrightarrow>
     (\<forall>i s. service_name (p_services p) i = Some s \<longrightarrow> service_name (p_services q) i = Some s) \<and>
     (\<forall>i s. pool_get (p_const_pool p) i = Some s \<longrightarrow> pool_get (p_const_pool q) i = Some s)"

definition room :: "ExecutionPlan \<Rightarrow> bool" where
  "room p \<longleftrightarrow> length (cp_entries (p_const_pool p)) < 65536 \<and> length (sv_entries (p_services p)) < 65536"

definition named_ok :: "ExecutionPlan \<Rightarrow> bool" where
  "named_ok p \<longleftrightarrow> pool_ok (p_const_pool p) \<and> services_ok (p_services p)"

lemma code_extends_refl [simp]: "extends p p"
  by (simp add: extends_def)

lemma code_extends_trans: "extends p q \<Longrightarrow> extends q r \<Longrightarrow> extends p r"
  by (simp add: extends_def)

lemma node_code_extends: "node_code p pend n c \<Longrightarrow> extends p q \<Longrightarrow> node_code q pend n c"
  unfolding extends_def by (cases n) (simp_all add: node_code_def Let_def, blast+)

lemma resolve_named:
  assumes "resolve_service t st = (i, st1)" and "named_ok (cs_plan st)" and "room (cs_plan st1)"
  shows "named_ok (cs_plan st1) \<and> service_name (p_services (cs_plan st1)) i = Some t \<and> extends (cs_plan st) (cs_plan st1) \<and>
    room (cs_plan st)"
proof -
  let ?t = "p_services (cs_plan st)"
  obtain t' where a: "services_add t ?t = (i, t')" and st1: "st1 = st\<lparr>cs_plan := (cs_plan st)\<lparr>p_services := t'\<rparr>\<rparr>"
    using assms(1) by (auto simp: resolve_service_def split: prod.splits)
  have ok: "services_ok ?t" using assms(2) by (simp add: named_ok_def)
  have names: "service_names t' = (if t \<in> set (service_names ?t) then service_names ?t else service_names ?t @ [t])"
    using services.strs_add [OF ok, of t] a by simp
  have "length (service_names ?t) \<le> length (service_names t')" by (simp only: names) simp
  then have len: "length (service_names ?t) < 65536" using assms(3) by (simp add: room_def st1)
  have "services_ok t'" "service_name t' i = Some t"
    using services.ok_add [OF ok len, of t] services.look_add [OF ok len, of t] by (simp_all add: a)
  moreover have "service_name ?t j = Some s \<Longrightarrow> service_name t' j = Some s" for j s
    using services.add_old [OF ok len, of j s t] by (simp add: a)
  ultimately show ?thesis using assms(2,3) len by (auto simp: named_ok_def extends_def room_def st1)
qed

lemma add_const_named:
  assumes "add_const s st = (i, st1)" and "named_ok (cs_plan st)" and "room (cs_plan st1)"
  shows "named_ok (cs_plan st1) \<and> pool_get (p_const_pool (cs_plan st1)) i = Some s \<and> extends (cs_plan st) (cs_plan st1) \<and>
    room (cs_plan st)"
proof -
  let ?p = "p_const_pool (cs_plan st)"
  obtain p' where a: "pool_add s ?p = (i, p')" and st1: "st1 = st\<lparr>cs_plan := (cs_plan st)\<lparr>p_const_pool := p'\<rparr>\<rparr>"
    using assms(1) by (auto simp: add_const_def split: prod.splits)
  have ok: "pool_ok ?p" using assms(2) by (simp add: named_ok_def)
  have entries: "cp_entries p' = (if s \<in> set (cp_entries ?p) then cp_entries ?p else cp_entries ?p @ [s])"
    using cpool.strs_add [OF ok, of s] a by simp
  have "length (cp_entries ?p) \<le> length (cp_entries p')" by (simp only: entries) simp
  then have len: "length (cp_entries ?p) < 65536" using assms(3) by (simp add: room_def st1)
  have "pool_ok p'" "pool_get p' i = Some s"
    using cpool.ok_add [OF ok len, of s] cpool.look_add [OF ok len, of s] by (simp_all add: a)
  moreover have "pool_get ?p j = Some u \<Longrightarrow> pool_get p' j = Some u" for j u
    using cpool.add_old [OF ok len, of j u s] by (simp add: a)
  ultimately show ?thesis using assms(2,3) len by (auto simp: named_ok_def extends_def room_def st1)
qed

definition lays :: "ASTNode list \<Rightarrow> compile_state \<Rightarrow> compile_state \<Rightarrow> bool" where
  "lays ns st st' \<longleftrightarrow>
     named_ok (cs_plan st') \<and> extends (cs_plan st) (cs_plan st') \<and> room (cs_plan st) \<and>
     cs_pending_retry st' = cs_pending_retry st \<and>
     (\<exists>c. cs_instructions st' = cs_instructions st @ c \<and> codes (cs_plan st') (cs_pending_timeout st) ns c \<and>
       cs_pending_timeout st' = fold pend_after ns (cs_pending_timeout st))"

lemma codes_extends: "codes p pend ns c \<Longrightarrow> extends p q \<Longrightarrow> codes q pend ns c"
  by (induction p pend ns c rule: codes.induct) (auto intro: node_code_extends)

lemma codes_single [simp]: "codes p pend [n] c = node_code p pend n c"
  by simp

lemma resolve_state: "resolve_service t st = (i, st1) \<Longrightarrow> st1 = st\<lparr>cs_plan := cs_plan st1\<rparr>"
  by (auto simp: resolve_service_def split: prod.splits)

lemma add_const_state: "add_const s st = (i, st1) \<Longrightarrow> st1 = st\<lparr>cs_plan := cs_plan st1\<rparr>"
  by (auto simp: add_const_def split: prod.splits)

lemma add_const_room: "add_const s st = (i, st1) \<Longrightarrow> room (cs_plan st1) \<Longrightarrow> room (cs_plan st)"
  by (auto simp: add_const_def pool_add_def room_def Let_def split: prod.splits option.splits)

lemma emit_instr_plan: "cs_plan (emit_instr i st) = cs_plan st"
  by (simp add: emit_instr_def)

lemma laysI:
  assumes "cs_plan st' = p" and "named_ok p" and "extends (cs_plan st) p" and "room (cs_plan st)"
    and "cs_pending_retry st' = cs_pending_retry st" and "cs_instructions st' = cs_instructions st @ c"
    and "node_code p (cs_pending_timeout st) n c" and "cs_pending_timeout st' = pend_after n (cs_pending_timeout st)"
  shows "lays [n] st st'"
  using assms by (simp add: lays_def)

lemma resolve_obtain:
  assumes "resolve_service t st = (i, st1)" and "named_ok (cs_plan st)" and "room (cs_plan st1)"
  obtains p where "st1 = st\<lparr>cs_plan := p\<rparr>" "named_ok p" "service_name (p_services p) i = Some t" "extends (cs_plan st) p"
    "room (cs_plan st)"
  using resolve_named [OF assms] resolve_state [OF assms(1)] by metis

lemma add_const_obtain:
  assumes "add_const s st = (i, st1)" and "named_ok (cs_plan st)" and "room (cs_plan st1)"
  obtains p where "st1 = st\<lparr>cs_plan := p\<rparr>" "named_ok p" "pool_get (p_const_pool p) i = Some s" "extends (cs_plan st) p"
    "room (cs_plan st)"
  using add_const_named [OF assms] add_const_state [OF assms(1)] by metis

lemma emit_call_lays:
  assumes "\<And>i t p. service_name (p_services p) i = Some t \<Longrightarrow>
      node_code p (cs_pending_timeout st) (mkn t) [mk i (case cs_pending_timeout st of None \<Rightarrow> 0 | Some ms \<Rightarrow> ms)]"
    and "pend_after (mkn t) (cs_pending_timeout st) = None"
    and "named_ok (cs_plan st)" and "room (cs_plan (emit_call mk t st))"
  shows "lays [mkn t] st (emit_call mk t st)"
proof -
  obtain i st1 where r: "resolve_service t st = (i, st1)" by fastforce
  have "room (cs_plan st1)" using assms(4) by (simp add: emit_call_def r emit_instr_def)
  from resolve_obtain [OF r assms(3) this] obtain p where st1: "st1 = st\<lparr>cs_plan := p\<rparr>" and p: "named_ok p"
    and i: "service_name (p_services p) i = Some t" and "extends (cs_plan st) p" "room (cs_plan st)" .
  then show ?thesis
    by (intro laysI [of _ p, OF _ _ _ _ _ _ assms(1) [OF i]]) (simp_all add: emit_call_def r emit_instr_def assms(2))
qed

lemma add_const_lays:
  assumes "add_const s st = (i, st1)" and "named_ok (cs_plan st)" and "room (cs_plan st1)"
    and "\<And>p. pool_get (p_const_pool p) i = Some s \<Longrightarrow> node_code p (cs_pending_timeout st) n [ins]"
    and "pend_after n (cs_pending_timeout st) = cs_pending_timeout st"
  shows "lays [n] st (emit_instr ins st1)"
proof -
  from add_const_obtain [OF assms(1-3)] obtain p where "st1 = st\<lparr>cs_plan := p\<rparr>" "named_ok p"
    and i: "pool_get (p_const_pool p) i = Some s" and "extends (cs_plan st) p" "room (cs_plan st)" .
  then show ?thesis
    by (intro laysI [of _ p, OF _ _ _ _ _ _ assms(4) [OF i]]) (simp_all add: emit_instr_def assms(5))
qed

lemma gate_lays:
  assumes "compile_node (Gate f op v) st = ROk st'" and "named_ok (cs_plan st)" and "room (cs_plan st')"
  shows "lays [Gate f op v] st st'"
proof -
  obtain i st1 where r: "add_const f st = (i, st1)" by fastforce
  obtain j st2 where r2: "add_const v st1 = (j, st2)" by fastforce
  let ?c = "[instr_gate i (gate_u8 (case gate_parse op of None \<Rightarrow> GEq | Some g \<Rightarrow> g)) j, instr_jump_offset 0]"
  have st': "st' = st2\<lparr>cs_instructions := cs_instructions st2 @ ?c\<rparr>"
    using assms(1) by (simp add: r r2 emit_instr_def)
  have room: "room (cs_plan st2)" using assms(3) by (simp add: st')
  from add_const_obtain [OF r assms(2) add_const_room [OF r2 room]] obtain p where st1: "st1 = st\<lparr>cs_plan := p\<rparr>" and p: "named_ok p"
    and i: "pool_get (p_const_pool p) i = Some f" and ext: "extends (cs_plan st) p" "room (cs_plan st)" .
  have "named_ok (cs_plan st1)" using p by (simp add: st1)
  from add_const_obtain [OF r2 this room] obtain q where st2: "st2 = st1\<lparr>cs_plan := q\<rparr>" and q: "named_ok q"
    "pool_get (p_const_pool q) j = Some v" "extends p q" by (auto simp: st1)
  have "pool_get (p_const_pool q) i = Some f" using i q(3) by (simp add: extends_def)
  with q have "node_code q (cs_pending_timeout st) (Gate f op v) ?c" by (auto simp: node_code_def)
  from laysI [OF _ q(1) code_extends_trans [OF ext(1) q(3)] ext(2) _ _ this] show ?thesis
    by (simp add: st' st2 st1 pend_after_def)
qed

lemma compile_node_lays:
  assumes "compile_node n st = ROk st'" and "straight n" and "named_ok (cs_plan st)" and "room (cs_plan st')"
  shows "lays [n] st st'"
proof (cases n)
  case (Next t)
  with assms show ?thesis using emit_call_lays [of st Next instr_next t]
    by (auto simp: node_code_def pend_after_def Let_def)
next
  case (Async t)
  with assms show ?thesis using emit_call_lays [of st Async instr_async_svc t]
    by (auto simp: node_code_def pend_after_def Let_def)
next
  case (Fallback t)
  obtain i st1 where r: "resolve_service t st = (i, st1)" by fastforce
  have st': "st' = emit_instr (instr_fallback i) st1" using assms(1) by (simp add: Fallback r)
  then have "room (cs_plan st1)" using assms(4) by (simp add: emit_instr_def)
  from resolve_obtain [OF r assms(3) this] obtain p where st1: "st1 = st\<lparr>cs_plan := p\<rparr>" and p: "named_ok p"
    and i: "service_name (p_services p) i = Some t" and "extends (cs_plan st) p" "room (cs_plan st)" .
  then show ?thesis
    by (intro laysI [of _ p _ "[instr_fallback i]"]) (auto simp: Fallback st' emit_instr_def node_code_def pend_after_def Let_def)
next
  case (Gate f op v)
  then show ?thesis using assms gate_lays by blast
next
  case (MapExpr e)
  obtain i st1 where r: "add_const e st = (i, st1)" by fastforce
  with assms MapExpr show ?thesis
    by (auto intro!: add_const_lays [OF r] simp: emit_instr_plan node_code_def pend_after_def)
next
  case (Key e)
  obtain i st1 where r: "add_const e st = (i, st1)" by fastforce
  with assms Key show ?thesis
    by (auto intro!: add_const_lays [OF r] simp: emit_instr_plan node_code_def pend_after_def)
next
  case (Split e)
  obtain i st1 where r: "add_const e st = (i, st1)" by fastforce
  with assms Split show ?thesis
    by (auto intro!: add_const_lays [OF r] simp: emit_instr_plan node_code_def pend_after_def)
next
  case (Chunk count mode)
  with assms(1) obtain x y cs where st': "st' = st\<lparr>cs_plan := (cs_plan st)\<lparr>p_chunk_configs := cs\<rparr>,
      cs_instructions := cs_instructions st @ [instr_chunk x y]\<rparr>"
    by (auto simp: emit_instr_def Let_def)
  have "node_code p pend n [instr_chunk x y]" for p pend unfolding Chunk node_code_def by auto
  with assms show ?thesis
    by (intro laysI [of st' "cs_plan st'" st "[instr_chunk x y]"])
      (simp_all add: st' Chunk pend_after_def extends_def named_ok_def room_def)
qed (use assms in \<open>auto simp: straight_def lays_def emit_instr_def node_code_def pend_after_def extends_def named_ok_def room_def
    Let_def split: if_splits\<close>)

lemma resolve_room: "resolve_service t st = (i, st1) \<Longrightarrow> room (cs_plan st1) \<Longrightarrow> room (cs_plan st)"
  by (auto simp: resolve_service_def services_add_def room_def Let_def split: prod.splits option.splits)

lemma compile_node_room: "compile_node n st = ROk st' \<Longrightarrow> straight n \<Longrightarrow> room (cs_plan st') \<Longrightarrow> room (cs_plan st)"
  by (cases n)
    (auto simp: straight_def emit_call_def emit_instr_def Let_def room_def [of "_\<lparr>p_chunk_configs := _\<rparr>"] room_def [symmetric]
      split: prod.splits if_splits dest: resolve_room add_const_room)

lemma compile_nodes_room:
  "compile_nodes ns st = ROk st' \<Longrightarrow> list_all straight ns \<Longrightarrow> room (cs_plan st') \<Longrightarrow> room (cs_plan st)"
  by (induction ns arbitrary: st) (auto simp: rbind_eq_ROk dest: compile_node_room)

lemma compile_nodes_lays:
  "compile_nodes ns st = ROk st' \<Longrightarrow> list_all straight ns \<Longrightarrow> named_ok (cs_plan st) \<Longrightarrow> room (cs_plan st') \<Longrightarrow> lays ns st st'"
proof (induction ns arbitrary: st)
  case Nil
  then show ?case by (simp add: lays_def)
next
  case (Cons n ns)
  then obtain st1 where n: "compile_node n st = ROk st1" and ns: "compile_nodes ns st1 = ROk st'" "list_all straight ns"
    by (auto simp: rbind_eq_ROk)
  have one: "lays [n] st st1" using compile_node_lays [OF n] compile_nodes_room [OF ns] Cons.prems by simp
  then have "lays ns st1 st'" using Cons.IH [OF ns] Cons.prems by (simp add: lays_def)
  then obtain c2 where two: "cs_instructions st' = cs_instructions st1 @ c2" "codes (cs_plan st') (cs_pending_timeout st1) ns c2"
    "cs_pending_timeout st' = fold pend_after ns (cs_pending_timeout st1)" "extends (cs_plan st1) (cs_plan st')"
    "named_ok (cs_plan st')" "cs_pending_retry st' = cs_pending_retry st1"
    by (auto simp: lays_def)
  from one obtain c1 where "cs_instructions st1 = cs_instructions st @ c1" "node_code (cs_plan st1) (cs_pending_timeout st) n c1"
    "cs_pending_timeout st1 = pend_after n (cs_pending_timeout st)" "extends (cs_plan st) (cs_plan st1)" "room (cs_plan st)"
    "cs_pending_retry st1 = cs_pending_retry st"
    by (auto simp: lays_def)
  with two show ?case by (auto simp: lays_def intro: node_code_extends code_extends_trans)
qed

subsection \<open>Running the code of nodes\<close>

text \<open>The machine and the meaning agree up to the instruction pointer.\<close>

definition at :: "nat \<Rightarrow> 'w outcome \<Rightarrow> 'w outcome" where
  "at ip out = (case out of (r, ctx, w) \<Rightarrow> (r, ctx\<lparr>x_ip := ip\<rparr>, w))"

definition calls_by_name :: "'w vm_env \<Rightarrow> ExecutionPlan \<Rightarrow> 'w named \<Rightarrow> bool" where
  "calls_by_name E plan call \<longleftrightarrow> (\<forall>i t. service_name (p_services plan) i = Some t \<longrightarrow> vm_call E i = call t)"

lemma answered_at: "answered r (ctx\<lparr>x_ip := k\<rparr>) = at k (answered r ctx)"
  by (simp add: answered_def at_def split: prod.split sum.split)

lemma replaced_at: "replaced r h (ctx\<lparr>x_ip := k\<rparr>) = at k (replaced r h ctx)"
  by (simp add: replaced_def at_def split: prod.split rres.split)

lemma proceed_ok [simp]: "proceed (ROk (), ctx, w) k = k ctx w"
  by (simp add: proceed_def)

lemma single_step:
  assumes "p_instructions plan = pre @ i # c" and "\<And>k. dispatch F J E plan i (ctx\<lparr>x_ip := k\<rparr>) w = at k out"
    and "\<And>ctx1 w1. \<exists>ip. run_loop F J E plan (ctx1\<lparr>x_ip := length (pre @ [i])\<rparr>) w1 = Some (at ip (rest ctx1 w1))"
  shows "\<exists>ip. run_loop F J E plan (ctx\<lparr>x_ip := length pre\<rparr>) w = Some (at ip (proceed out rest))"
proof -
  obtain r ctx1 w1 where out: "out = (r, ctx1, w1)" by (metis prod_cases3)
  have "run_loop F J E plan (ctx\<lparr>x_ip := length pre\<rparr>) w =
    (if r = ROk () then run_loop F J E plan (ctx1\<lparr>x_ip := length (pre @ [i])\<rparr>) w1 else Some (at (Suc (length pre)) out))"
    using run_loop_step [of "ctx\<lparr>x_ip := length pre\<rparr>" plan F J E w r "ctx1\<lparr>x_ip := Suc (length pre)\<rparr>" w1]
    by (simp add: assms(1,2) advance_ip_def out at_def)
  with assms(3) [of ctx1 w1] show ?thesis
    by (cases r) (auto simp: out proceed_def)
qed

definition passes :: "Instruction \<Rightarrow> bool" where
  "passes i \<longleftrightarrow> i_op i \<noteq> OpGate \<and> i_op i \<noteq> OpLabel"

lemma pend_after_stops: "stops_skip n \<Longrightarrow> pend_after n pend = pend"
  by (cases n) (simp_all add: stops_skip_def pend_after_def)

lemma node_code_passes: "node_code plan pend n c \<Longrightarrow> \<not> stops_skip n \<Longrightarrow> list_all passes c"
  by (cases n) (auto simp: node_code_def stops_skip_def passes_def Let_def instr_defs)

lemma node_code_stops: "node_code plan pend n c \<Longrightarrow> stops_skip n \<Longrightarrow> \<exists>i c1. c = i # c1 \<and> \<not> passes i"
  by (cases n) (auto simp: node_code_def stops_skip_def passes_def Let_def instr_defs)

lemma skip_codes:
  "codes plan pend ns c \<Longrightarrow> skip_nodes pend ns = (pend1, ns1) \<Longrightarrow> codes plan pend1 ns1 (dropWhile passes c)"
proof (induction ns arbitrary: pend c)
  case (Cons n ns)
  then obtain c1 c2 where c: "c = c1 @ c2" "node_code plan pend n c1" "codes plan (pend_after n pend) ns c2" by auto
  show ?case
  proof (cases "stops_skip n")
    case True
    with node_code_stops [OF c(2)] have "dropWhile passes c = c" by (auto simp: c(1))
    moreover have "pend1 = pend" "ns1 = n # ns" using True Cons.prems(2) by simp_all
    ultimately show ?thesis using Cons.prems(1) by (simp only:)
  next
    case False
    then have "dropWhile passes c = dropWhile passes c2"
      using node_code_passes [OF c(2)] by (simp add: c(1) dropWhile_append2 list_all_iff)
    with False Cons.IH [OF c(3)] Cons.prems(2) show ?thesis by simp
  qed
qed simp

lemma gate_step:
  assumes "p_instructions plan = pre @ instr_gate i g j # instr_jump_offset 0 # c"
    and "pool_get (p_const_pool plan) i = Some f" and "pool_get (p_const_pool plan) j = Some v"
    and "b = (case extract_json_field J (x_body ctx) f of Some x \<Rightarrow> compare_values F x g v | None \<Rightarrow> False)"
  shows "run_loop F J E plan (ctx\<lparr>x_ip := length pre\<rparr>) w =
    run_loop F J E plan (ctx\<lparr>x_ip := length pre + 2 + (if b then 0 else length (takeWhile passes c))\<rparr>) w"
proof -
  let ?g = "instr_gate i g j"
  have skip: "skip_count plan (Suc (length pre)) = Suc (length (takeWhile passes c))"
    by (simp add: skip_count_def assms(1) passes_def [abs_def])
  have "dispatch F J E plan ?g (ctx\<lparr>x_ip := Suc (length pre)\<rparr>) w =
    (ROk (), ctx\<lparr>x_ip := Suc (length pre) + (if b then 0 else Suc (length (takeWhile passes c)))\<rparr>, w)"
    by (simp add: dispatch_def op_gate_def evaluate_def instr_defs assms(2,3,4) skip split: option.split)
  then have first: "run_loop F J E plan (ctx\<lparr>x_ip := length pre\<rparr>) w =
    run_loop F J E plan (ctx\<lparr>x_ip := Suc (length pre) + (if b then 0 else Suc (length (takeWhile passes c)))\<rparr>) w"
    using run_loop_step [of "ctx\<lparr>x_ip := length pre\<rparr>" plan F J E w "ROk ()"] by (simp add: assms(1) advance_ip_def)
  have "run_loop F J E plan (ctx\<lparr>x_ip := Suc (length pre)\<rparr>) w = run_loop F J E plan (ctx\<lparr>x_ip := Suc (Suc (length pre))\<rparr>) w"
    using run_loop_step [of "ctx\<lparr>x_ip := Suc (length pre)\<rparr>" plan F J E w "ROk ()" "ctx\<lparr>x_ip := Suc (Suc (length pre))\<rparr>" w]
    by (simp add: assms(1) advance_ip_def dispatch_def instr_defs nth_append)
  with first show ?thesis by simp
qed

lemma call_fields:
  "i_op (instr_next i t) = OpNext" "i_a (instr_next i t) = i" "\<not> has_retry (instr_next i t)"
  "i_op (instr_async_svc i t) = OpAsync" "i_a (instr_async_svc i t) = i" "\<not> has_retry (instr_async_svc i t)"
  "i_op (instr_fallback i) = OpFallback" "i_a (instr_fallback i) = i" "\<not> has_retry (instr_fallback i)"
  "timeout_ms (instr_fallback i) = 0"
  by (simp_all add: instr_defs has_retry_def timeout_ms_def)

lemma dispatch_call:
  assumes "calls_by_name E plan call" and "service_name (p_services plan) i = Some t"
  shows "dispatch F J E plan (instr_next i ms) (ctx\<lparr>x_ip := k\<rparr>) w = at k (answered (call t (x_body ctx) (take_bit 32 ms) w) ctx)"
    and "dispatch F J E plan (instr_async_svc i ms) (ctx\<lparr>x_ip := k\<rparr>) w = at k (answered (call t (x_body ctx) (take_bit 32 ms) w) ctx)"
    and "dispatch F J E plan (instr_fallback i) (ctx\<lparr>x_ip := k\<rparr>) w =
      at k (if x_failed ctx then answered (call t (x_body ctx) 0 w) (ctx\<lparr>x_failed := False\<rparr>) else (ROk (), ctx, w))"
proof -
  have c: "vm_call E i = call t" using assms by (simp add: calls_by_name_def)
  show "dispatch F J E plan (instr_next i ms) (ctx\<lparr>x_ip := k\<rparr>) w = at k (answered (call t (x_body ctx) (take_bit 32 ms) w) ctx)"
    by (simp add: dispatch_def op_next_def exec_next_def call_fields timeout_next c answered_at)
  show "dispatch F J E plan (instr_async_svc i ms) (ctx\<lparr>x_ip := k\<rparr>) w = at k (answered (call t (x_body ctx) (take_bit 32 ms) w) ctx)"
    by (simp add: dispatch_def op_next_def exec_next_def call_fields timeout_async c answered_at)
  show "dispatch F J E plan (instr_fallback i) (ctx\<lparr>x_ip := k\<rparr>) w =
      at k (if x_failed ctx then answered (call t (x_body ctx) 0 w) (ctx\<lparr>x_failed := False\<rparr>) else (ROk (), ctx, w))"
    by (cases ctx) (simp add: dispatch_def op_fallback_def exec_next_def call_fields c at_def answered_def split: prod.split sum.split)
qed

lemma wait_cases: "take_bit 32 (case pend of None \<Rightarrow> 0 | Some ms \<Rightarrow> ms) = wait pend"
  by (simp add: wait_def split: option.split)

lemma run_node:
  assumes names: "calls_by_name E plan call" and code: "node_code plan pend n c1" and plan: "p_instructions plan = pre @ c1 @ c2"
    and rest: "\<And>ctx1 w1. \<exists>ip. run_loop F J E plan (ctx1\<lparr>x_ip := length (pre @ c1)\<rparr>) w1 =
      Some (at ip (meaning F J (vm_env E) call (pend_after n pend) ns ctx1 w1))"
    and skip: "stops_skip n \<Longrightarrow> \<exists>ip. run_loop F J E plan (ctx\<lparr>x_ip := length (pre @ c1) + length (takeWhile passes c2)\<rparr>) w =
      Some (at ip (case skip_nodes pend ns of (pend1, ns1) \<Rightarrow> meaning F J (vm_env E) call pend1 ns1 ctx w))"
  shows "\<exists>ip. run_loop F J E plan (ctx\<lparr>x_ip := length pre\<rparr>) w = Some (at ip (meaning F J (vm_env E) call pend (n # ns) ctx w))"
proof -
  let ?rest = "meaning F J (vm_env E) call (pend_after n pend) ns"
  have one: "\<exists>ip. run_loop F J E plan (ctx\<lparr>x_ip := length pre\<rparr>) w = Some (at ip (proceed out ?rest))"
    if "c1 = [i]" "\<And>k. dispatch F J E plan i (ctx\<lparr>x_ip := k\<rparr>) w = at k out" for i out
    using single_step [of plan pre i c2, OF _ that(2), of ?rest] rest plan by (simp add: that(1))
  have none: "\<exists>ip. run_loop F J E plan (ctx\<lparr>x_ip := length pre\<rparr>) w = Some (at ip (?rest ctx w))"
    if "c1 = [i]" "\<And>ctx. dispatch F J E plan i ctx w = (ROk (), ctx, w)" for i
    using one [OF that(1), of "(ROk (), ctx, w)"] that(2) by (simp add: at_def)
  show ?thesis
  proof (cases n)
    case (Next t)
    with code obtain i where i: "service_name (p_services plan) i = Some t" "c1 = [instr_next i (case pend of None \<Rightarrow> 0 | Some ms \<Rightarrow> ms)]"
      unfolding node_code_def Let_def by auto
    from one [OF i(2) dispatch_call(1) [OF names i(1)]] show ?thesis by (simp add: Next wait_cases)
  next
    case (Async t)
    with code obtain i where i: "service_name (p_services plan) i = Some t" "c1 = [instr_async_svc i (case pend of None \<Rightarrow> 0 | Some ms \<Rightarrow> ms)]"
      unfolding node_code_def Let_def by auto
    from one [OF i(2) dispatch_call(2) [OF names i(1)]] show ?thesis by (simp add: Async wait_cases)
  next
    case (Fallback t)
    with code obtain i where i: "service_name (p_services plan) i = Some t" "c1 = [instr_fallback i]"
      unfolding node_code_def Let_def by auto
    from one [OF i(2) dispatch_call(3) [OF names i(1)]] show ?thesis by (simp add: Fallback split: if_splits)
  next
    case (Gate f op v)
    with code obtain i j where c1: "c1 = [instr_gate i (gate_u8 (case gate_parse op of None \<Rightarrow> GEq | Some g \<Rightarrow> g)) j, instr_jump_offset 0]"
      and ij: "pool_get (p_const_pool plan) i = Some f" "pool_get (p_const_pool plan) j = Some v"
      by (auto simp: node_code_def Let_def)
    have "p_instructions plan = pre @ instr_gate i (gate_u8 (case gate_parse op of None \<Rightarrow> GEq | Some g \<Rightarrow> g)) j # instr_jump_offset 0 # c2"
      using plan by (simp add: c1)
    from gate_step [OF this ij gate_holds_def, of F J E ctx w] show ?thesis
      using rest [of ctx w] skip by (simp add: Gate c1 pend_after_def stops_skip_def)
  next
    case (MapExpr e)
    with code obtain i where "c1 = [instr_map i]" "pool_get (p_const_pool plan) i = Some e"
      by (auto simp: node_code_def Let_def)
    with one [of "instr_map i" "replaced (exec_map F J (vm_env E) e (x_body ctx) w) 0 ctx"] show ?thesis
      by (simp add: MapExpr dispatch_def op_map_def instr_defs replaced_at)
  next
    case Collect
    with code one [of instr_collect "replaced (exec_collect J (x_body ctx), w) 1 ctx"] show ?thesis
      by (simp add: node_code_def dispatch_def instr_defs replaced_at)
  next
    case (Buffer k)
    with code one [of "instr_buffer (ucast k)" "(RErr ''Buffer must be handled at engine level'', ctx, w)"] show ?thesis
      by (simp add: node_code_def dispatch_def instr_defs at_def proceed_def)
  next
    case Drop
    have "run_loop F J E plan (ctx\<lparr>x_ip := length pre\<rparr>) w = Some (ROk (), ctx\<lparr>x_ip := length (p_instructions plan)\<rparr>, w)"
      using run_loop_step [of "ctx\<lparr>x_ip := length pre\<rparr>" plan F J E w "ROk ()" "ctx\<lparr>x_ip := length (p_instructions plan)\<rparr>" w] code
      by (simp add: Drop plan node_code_def advance_ip_def dispatch_def op_drop_def instr_defs run_loop_end)
    then show ?thesis by (auto simp: Drop at_def)
  qed (use code none rest in \<open>auto simp: node_code_def Let_def dispatch_def instr_defs\<close>)
qed

lemma run_meaning:
  assumes "calls_by_name E plan call"
  shows "codes plan pend ns c \<Longrightarrow> p_instructions plan = pre @ c \<Longrightarrow>
    \<exists>ip. run_loop F J E plan (ctx\<lparr>x_ip := length pre\<rparr>) w = Some (at ip (meaning F J (vm_env E) call pend ns ctx w))"
proof (induction "length ns" arbitrary: pend ns c pre ctx w rule: less_induct)
  case less
  show ?case
  proof (cases ns)
    case Nil
    with less.prems show ?thesis by (simp add: run_loop_end at_def) blast
  next
    case (Cons n ns1)
    then obtain c1 c2 where c: "c = c1 @ c2" and n: "node_code plan pend n c1" and c2: "codes plan (pend_after n pend) ns1 c2"
      using less.prems(1) by auto
    obtain pend2 ns2 where s: "skip_nodes pend ns1 = (pend2, ns2)" by fastforce
    have skip: "\<exists>ip. run_loop F J E plan (ctx\<lparr>x_ip := length (pre @ c1) + length (takeWhile passes c2)\<rparr>) w =
        Some (at ip (case skip_nodes pend ns1 of (pend1, ns2) \<Rightarrow> meaning F J (vm_env E) call pend1 ns2 ctx w))"
      if "stops_skip n"
    proof -
      have "codes plan pend2 ns2 (dropWhile passes c2)" using skip_codes [OF c2] s pend_after_stops [OF that] by simp
      from less.hyps [OF _ this, of "pre @ c1 @ takeWhile passes c2" ctx w] show ?thesis
        using less.prems(2) skip_nodes_shorter [OF s [symmetric]] by (simp add: Cons c s add.assoc)
    qed
    have "\<exists>ip. run_loop F J E plan (ctx1\<lparr>x_ip := length (pre @ c1)\<rparr>) w1 =
        Some (at ip (meaning F J (vm_env E) call (pend_after n pend) ns1 ctx1 w1))" for ctx1 w1
      using less.hyps [OF _ c2, of "pre @ c1"] less.prems(2) by (simp add: Cons c)
    from run_node [OF assms n _ this] skip less.prems(2) show ?thesis by (simp add: Cons c)
  qed
qed

lemma straight_retry: "compile_nodes ns st = ROk st' \<Longrightarrow> list_all straight ns \<Longrightarrow> cs_pending_retry st' = cs_pending_retry st"
proof (induction ns arbitrary: st)
  case (Cons n ns)
  have "cs_pending_retry st1 = cs_pending_retry st" if "compile_node n st = ROk st1" "straight n" for st1
    using that by (cases n) (auto simp: straight_def emit_call_def emit_instr_def resolve_service_def add_const_def Let_def
      split: prod.splits if_splits)
  with Cons show ?case by (auto simp: rbind_eq_ROk)
qed simp

lemma plan_names_ok: "named_ok (plan_new r)"
  by (simp add: named_ok_def plan_new_def pool_ok_def pool_new_def services_ok_def services_new_def)

lemma finish_plan_tables:
  assumes "cs_pending_retry st = None"
  shows "p_const_pool (finish_plan schema st) = p_const_pool (cs_plan st) \<and> p_services (finish_plan schema st) = p_services (cs_plan st)"
proof -
  have "p_const_pool (foldl (\<lambda>p i. add_instr i p) p is) = p_const_pool p \<and> p_services (foldl (\<lambda>p i. add_instr i p) p is) = p_services p"
    for p "is" by (induction "is" arbitrary: p) (simp_all add: add_instr_def)
  then show ?thesis using assms by (simp add: finish_plan_def attach_retry_def Let_def)
qed

subsection \<open>Properties\<close>



end
