(* ===== verification/Circuit_Breaker.thy ===== *)
theory Circuit_Breaker
  imports Prelude
begin

text \<open>
  The circuit breaker of \<^verbatim>\<open>server/internal/reliability/circuitbreaker.go\<close> and its adapter methods in
  \<^verbatim>\<open>pkgsupport.go\<close>.  Every method runs under the breaker's mutex, so a run of the breaker is a
  sequence of calls; the clock reading of a call is an argument.  The call counters do not reach \<open>2^63\<close>.
\<close>

subsection \<open>Operations\<close>

datatype State = StateClosed | StateHalfOpen | StateOpen

record CircuitBreaker =
  cb_state :: State
  cb_failureCount :: int
  cb_lastFailureTime :: gotime
  cb_threshold :: int
  cb_recoveryTimeout :: duration
  cb_halfOpenMaxReqs :: int
  cb_halfOpenReqs :: int

definition NewCircuitBreaker :: "int \<Rightarrow> duration \<Rightarrow> CircuitBreaker" where
  "NewCircuitBreaker threshold recoveryTimeout =
     \<lparr>cb_state = StateClosed, cb_failureCount = 0, cb_lastFailureTime = 0,
      cb_threshold = threshold, cb_recoveryTimeout = recoveryTimeout,
      cb_halfOpenMaxReqs = 3, cb_halfOpenReqs = 0\<rparr>"

definition Allow :: "gotime \<Rightarrow> CircuitBreaker \<Rightarrow> bool \<times> CircuitBreaker" where
  "Allow now cb =
     (case cb_state cb of
        StateClosed \<Rightarrow> (True, cb)
      | StateOpen \<Rightarrow>
          if now - cb_lastFailureTime cb > cb_recoveryTimeout cb
          then (True, cb\<lparr>cb_state := StateHalfOpen, cb_halfOpenReqs := 1\<rparr>)
          else (False, cb)
      | StateHalfOpen \<Rightarrow>
          let n = cb_halfOpenReqs cb
          in (n < cb_halfOpenMaxReqs cb, cb\<lparr>cb_halfOpenReqs := n + 1\<rparr>))"

definition Success :: "CircuitBreaker \<Rightarrow> CircuitBreaker" where
  "Success cb = cb\<lparr>cb_state := StateClosed, cb_failureCount := 0\<rparr>"

definition Failure :: "gotime \<Rightarrow> CircuitBreaker \<Rightarrow> CircuitBreaker" where
  "Failure now cb =
     (let cb1 = cb\<lparr>cb_failureCount := cb_failureCount cb + 1, cb_lastFailureTime := now\<rparr>
      in if cb_state cb1 = StateHalfOpen \<or> cb_failureCount cb1 \<ge> cb_threshold cb1
         then cb1\<lparr>cb_state := StateOpen\<rparr> else cb1)"

definition FailureCount :: "CircuitBreaker \<Rightarrow> int" where
  "FailureCount cb = cb_failureCount cb"

definition Reset :: "CircuitBreaker \<Rightarrow> CircuitBreaker" where
  "Reset cb = cb\<lparr>cb_state := StateClosed, cb_failureCount := 0\<rparr>"

datatype exec_result = ErrCircuitOpen | ExecErr | ExecOk

text \<open>\<^verbatim>\<open>Execute\<close> with a function that fails (\<open>ok = False\<close>) or succeeds, checked at \<open>now\<close> and reported at \<open>later\<close>.\<close>

definition Execute :: "gotime \<Rightarrow> gotime \<Rightarrow> bool \<Rightarrow> CircuitBreaker \<Rightarrow> exec_result \<times> CircuitBreaker" where
  "Execute now later ok cb =
     (case Allow now cb of (allowed, cb1) \<Rightarrow>
        if \<not> allowed then (ErrCircuitOpen, cb1)
        else if \<not> ok then (ExecErr, Failure later cb1)
        else (ExecOk, Success cb1))"

subsection \<open>Runs\<close>

datatype call = CallAllow gotime | CallSuccess | CallFailure gotime | CallReset

fun cbStep :: "CircuitBreaker \<Rightarrow> call \<Rightarrow> CircuitBreaker" where
  "cbStep cb (CallAllow now) = snd (Allow now cb)"
| "cbStep cb CallSuccess = Success cb"
| "cbStep cb (CallFailure now) = Failure now cb"
| "cbStep cb CallReset = Reset cb"

text \<open>The answers of a sequence of \<^verbatim>\<open>Allow\<close> calls.\<close>

fun allows :: "gotime list \<Rightarrow> CircuitBreaker \<Rightarrow> bool list" where
  "allows [] cb = []"
| "allows (t # ts) cb = (case Allow t cb of (b, cb1) \<Rightarrow> b # allows ts cb1)"

definition cb_inv :: "CircuitBreaker \<Rightarrow> bool" where
  "cb_inv cb \<longleftrightarrow> 0 < cb_threshold cb \<and> 0 \<le> cb_failureCount cb \<and> cb_halfOpenMaxReqs cb = 3 \<and>
     (cb_state cb = StateClosed \<longrightarrow> cb_failureCount cb < cb_threshold cb) \<and>
     (cb_state cb = StateHalfOpen \<longrightarrow> 1 \<le> cb_halfOpenReqs cb)"

lemmas cb_defs = Allow_def Success_def Failure_def Reset_def Let_def

lemma cbStep_inv [keep_inv]: "cb_inv cb \<Longrightarrow> cb_inv (cbStep cb c)"
  by (cases c; cases "cb_state cb") (auto simp: cb_inv_def cb_defs)

interpretation breaker: machine cbStep cb_inv
  by standard (rule cbStep_inv)

lemma NewCircuitBreaker_inv: "0 < n \<Longrightarrow> cb_inv (NewCircuitBreaker n d)"
  by (simp add: cb_inv_def NewCircuitBreaker_def)

lemma allows_halfOpen:
  "cb_state cb = StateHalfOpen \<Longrightarrow> allows ts cb =
     map (\<lambda>i. cb_halfOpenReqs cb + int i < cb_halfOpenMaxReqs cb) [0..<length ts]"
proof (induction ts arbitrary: cb)
  case (Cons t ts)
  then show ?case
    by (simp add: Allow_def Let_def upt_conv_Cons map_Suc_upt [symmetric] algebra_simps del: upt_Suc)
qed simp

lemma Failures_closed:
  "cb_state cb \<noteq> StateHalfOpen \<Longrightarrow>
     (cb_state cb = StateOpen \<longleftrightarrow> cb_threshold cb \<le> cb_failureCount cb) \<Longrightarrow>
     cb_state (foldl (\<lambda>cb t. Failure t cb) cb ts) =
       (if cb_failureCount cb + int (length ts) < cb_threshold cb then StateClosed else StateOpen)"
proof (induction ts arbitrary: cb)
  case Nil
  then show ?case by (cases "cb_state cb") auto
next
  case (Cons t ts)
  from Cons.prems Cons.IH [of "Failure t cb"] show ?case
    by (cases "cb_state cb") (auto simp: Failure_def Let_def)
qed

lemma allows_open_early:
  "cb_state cb = StateOpen \<Longrightarrow> \<forall>t \<in> set ts. t \<le> cb_lastFailureTime cb + cb_recoveryTimeout cb \<Longrightarrow>
     allows ts cb = replicate (length ts) False"
  by (induction ts) (auto simp: Allow_def)

lemma map_lt_threshold:
  "map (\<lambda>i. 1 + int i < 3) [0..<k] = replicate (min 2 k) True @ replicate (k - 2) False"
  by (rule nth_equalityI) (auto simp: nth_append)

subsection \<open>Properties\<close>

text \<open>
  Whatever calls a breaker with a positive threshold has seen: when it is closed, it has
  counted fewer failures than the threshold since the last success, and when it is half-open, it has
  admitted the request that half-opened it.
\<close>

lemma breaker_invariant:
  assumes "0 < n"
  shows "cb_inv (foldl cbStep (NewCircuitBreaker n d) calls)"
  using NewCircuitBreaker_inv [OF assms] by (rule breaker.run_inv)

text \<open>
  A new breaker trips after exactly its threshold of failures: after \<open>k\<close> failures without a
  success it is open when \<open>k\<close> has reached the threshold, and closed before.
\<close>

lemma breaker_trips:
  assumes "0 < n"
  shows "cb_state (foldl (\<lambda>cb t. Failure t cb) (NewCircuitBreaker n d) ts) =
    (if int (length ts) < n then StateClosed else StateOpen)"
  using assms Failures_closed [of "NewCircuitBreaker n d" ts] by (simp add: NewCircuitBreaker_def)



end
