(* ===== verification/Service_Registry.thy ===== *)
theory Service_Registry
  imports Prelude "HOL-Library.Word" "HOL-Library.Multiset"
begin

text \<open>
  The service registry of \<^verbatim>\<open>server/internal/registry\<close>: endpoints and instances of services by name, their health, and
  the choice of one of them.  The load of an endpoint is a floating-point number, here of any type, with its
  comparison \<open>lt\<close> and its zero as arguments.  The id of the local node is an argument too, and so is the answer
  \<open>rnd n\<close> of the random generator for a number below \<open>n\<close>.
\<close>

subsection \<open>Data\<close>

record MethodInfo =
  mi_Name :: string
  mi_InputType :: string
  mi_OutputType :: string
  mi_Sync :: bool
  mi_Async :: bool
  mi_TimeoutMs :: int
  mi_Tags :: "string list"

record ServiceCapabilities =
  cap_Sync :: bool
  cap_Async :: bool

record 'l Endpoint =
  ep_NodeID :: string
  ep_Address :: string
  ep_Port :: int
  ep_Protocol :: string
  ep_Healthy :: bool
  ep_Load :: 'l
  ep_Topic :: string
  ep_ReplyTopic :: string
  ep_ConsumerGroup :: string

record 'l ServiceInstance =
  si_ID :: string
  si_Name :: string
  si_Version :: string
  si_Methods :: "MethodInfo list"
  si_Capabilities :: ServiceCapabilities
  si_Endpoint :: "'l Endpoint"
  si_Zone :: string
  si_Weight :: int
  si_Tags :: "string list"
  si_Metadata :: "(string, string) gomap"
  si_Healthy :: bool
  si_HeartbeatAt :: gotime
  si_RegisteredAt :: "gotime option"

datatype LBStrategy = LBRandom | LBRoundRobin | LBLocalPrefer | LBLeastLoaded

record 'l ServiceRegistry =
  sr_services :: "(string, 'l Endpoint list) gomap"
  sr_instances :: "(string, 'l ServiceInstance list) gomap"
  sr_roundRobin :: "(string, 64 word) gomap"
  sr_defStrategy :: LBStrategy
  sr_hbTimeout :: duration

record 'l ServiceInfo =
  sf_Name :: string
  sf_Methods :: "MethodInfo list"
  sf_Instances :: "'l ServiceInstance list"
  sf_Endpoints :: "'l Endpoint list"

datatype registry_error =
    EmptyName
  | NilEndpoint
  | EmptyAddress string
  | InvalidPort int string
  | EmptyTopic
  | UnsupportedProtocol string
  | NotFound string
  | NoHealthy string
  | InstanceNotFound string string

text \<open>A choice ends with what was chosen, with an error, or in waiting for a lock the caller holds itself.\<close>

datatype 'a picked = Picked 'a | PickErr registry_error | PickDeadlock

definition NewServiceRegistry :: "'l ServiceRegistry" where
  "NewServiceRegistry = \<lparr>sr_services = [], sr_instances = [], sr_roundRobin = [], sr_defStrategy = LBLeastLoaded, sr_hbTimeout = 30 * 10 ^ 9\<rparr>"

definition listed :: "string \<Rightarrow> (string, 'a list) gomap \<Rightarrow> 'a list" where
  "listed k m = (case map_of m k of None \<Rightarrow> [] | Some xs \<Rightarrow> xs)"

subsection \<open>Registration\<close>

definition validateEndpoint :: "'l Endpoint \<Rightarrow> registry_error option" where
  "validateEndpoint ep =
     (if ep_Protocol ep \<in> {''http'', ''grpc'', ''tcp''} then
        if ep_Address ep = [] then Some (EmptyAddress (ep_Protocol ep))
        else if ep_Port ep \<le> 0 then Some (InvalidPort (ep_Port ep) (ep_Protocol ep))
        else None
      else if ep_Protocol ep = ''kafka'' then if ep_Topic ep = [] then Some EmptyTopic else None
      else Some (UnsupportedProtocol (ep_Protocol ep)))"

definition sameEndpoint :: "'l Endpoint \<Rightarrow> 'l Endpoint \<Rightarrow> bool" where
  "sameEndpoint a b \<longleftrightarrow> ep_NodeID a = ep_NodeID b \<and> ep_Address a = ep_Address b \<and> ep_Port a = ep_Port b"

text \<open>The first element of a kind is replaced, or the new one is appended.\<close>

fun replaceFirst :: "('a \<Rightarrow> bool) \<Rightarrow> 'a \<Rightarrow> 'a list \<Rightarrow> 'a list" where
  "replaceFirst P y [] = [y]"
| "replaceFirst P y (x # xs) = (if P x then y # xs else x # replaceFirst P y xs)"

definition addCounter :: "string \<Rightarrow> 'l ServiceRegistry \<Rightarrow> 'l ServiceRegistry" where
  "addCounter name r =
     (if map_of (sr_roundRobin r) name = None then r\<lparr>sr_roundRobin := AList.update name 0 (sr_roundRobin r)\<rparr> else r)"

definition Register ::
  "string \<Rightarrow> string \<Rightarrow> 'l Endpoint option \<Rightarrow> 'l ServiceRegistry \<Rightarrow> registry_error option \<times> 'l ServiceRegistry" where
  "Register localNode name endpoint r =
     (if name = [] then (Some EmptyName, r)
      else case endpoint of
        None \<Rightarrow> (Some NilEndpoint, r)
      | Some ep \<Rightarrow>
          let ep1 = (if ep_Protocol ep = [] then ep\<lparr>ep_Protocol := ''http''\<rparr> else ep)
          in case validateEndpoint ep1 of
               Some e \<Rightarrow> (Some e, r)
             | None \<Rightarrow>
                 let ep2 = ep1\<lparr>ep_NodeID := (if ep_NodeID ep1 = [] then localNode else ep_NodeID ep1), ep_Healthy := True\<rparr>;
                     eps = listed name (sr_services r);
                     r1 = r\<lparr>sr_services := AList.update name (replaceFirst (sameEndpoint ep2) ep2 eps) (sr_services r)\<rparr>
                 in (None, if \<exists>e \<in> set eps. sameEndpoint ep2 e then r1 else addCounter name r1))"

definition instanceID :: "'l ServiceInstance \<Rightarrow> string" where
  "instanceID inst =
     (if ep_Protocol (si_Endpoint inst) = ''kafka'' then si_Name inst @ ''-'' @ ep_Topic (si_Endpoint inst)
      else si_Name inst @ ''-'' @ ep_Address (si_Endpoint inst) @ ''-'' @ dec (nat (ep_Port (si_Endpoint inst))))"

text \<open>What registration fills in, and how it stores an instance and its endpoint.\<close>

definition fillInstance :: "gotime \<Rightarrow> 'l ServiceInstance \<Rightarrow> 'l ServiceInstance" where
  "fillInstance now inst =
     inst\<lparr>si_ID := (if si_ID inst = [] then instanceID inst else si_ID inst),
          si_Weight := (if si_Weight inst \<le> 0 then 100 else si_Weight inst), si_Healthy := True, si_HeartbeatAt := now,
          si_RegisteredAt := (case si_RegisteredAt inst of None \<Rightarrow> Some now | Some t \<Rightarrow> Some t)\<rparr>"

definition storeInstance :: "'l \<Rightarrow> 'l ServiceInstance \<Rightarrow> 'l ServiceRegistry \<Rightarrow> 'l ServiceRegistry" where
  "storeInstance zero inst r =
     (let name = si_Name inst; ep = (si_Endpoint inst)\<lparr>ep_Healthy := True, ep_Load := zero\<rparr>
      in addCounter name
           (r\<lparr>sr_instances := AList.update name
                  (replaceFirst (\<lambda>i. si_ID i = si_ID inst) inst (listed name (sr_instances r))) (sr_instances r),
              sr_services := AList.update name (replaceFirst (sameEndpoint ep) ep (listed name (sr_services r))) (sr_services r)\<rparr>))"

definition RegisterInstance ::
  "'l \<Rightarrow> gotime \<Rightarrow> 'l ServiceInstance \<Rightarrow> 'l ServiceRegistry \<Rightarrow> registry_error option \<times> 'l ServiceRegistry" where
  "RegisterInstance zero now inst r =
     (if si_Name inst = [] then (Some EmptyName, r)
      else
        let e = si_Endpoint inst;
            inst1 = inst\<lparr>si_Endpoint := (if ep_Protocol e = [] then e\<lparr>ep_Protocol := ''http''\<rparr> else e)\<rparr>
        in case validateEndpoint (si_Endpoint inst1) of
             Some err \<Rightarrow> (Some err, r)
           | None \<Rightarrow> (None, storeInstance zero (fillInstance now inst1) r))"

definition keepOrDelete :: "string \<Rightarrow> 'a list \<Rightarrow> (string, 'a list) gomap \<Rightarrow> (string, 'a list) gomap" where
  "keepOrDelete name xs m = (if xs = [] then AList.delete name m else AList.update name xs m)"

definition Unregister :: "string \<Rightarrow> string \<Rightarrow> 'l ServiceRegistry \<Rightarrow> 'l ServiceRegistry" where
  "Unregister name nodeID r =
     (let eps = filter (\<lambda>ep. ep_NodeID ep \<noteq> nodeID) (listed name (sr_services r));
          insts = filter (\<lambda>i. ep_NodeID (si_Endpoint i) \<noteq> nodeID) (listed name (sr_instances r))
      in r\<lparr>sr_services := keepOrDelete name eps (sr_services r),
           sr_roundRobin := (if eps = [] then AList.delete name (sr_roundRobin r) else sr_roundRobin r),
           sr_instances := keepOrDelete name insts (sr_instances r)\<rparr>)"

definition UnregisterInstance :: "string \<Rightarrow> string \<Rightarrow> 'l ServiceRegistry \<Rightarrow> 'l ServiceRegistry" where
  "UnregisterInstance name inst r =
     r\<lparr>sr_instances := keepOrDelete name (filter (\<lambda>i. si_ID i \<noteq> inst) (listed name (sr_instances r))) (sr_instances r)\<rparr>"

subsection \<open>Health\<close>

definition SetHeartbeatTimeout :: "duration \<Rightarrow> 'l ServiceRegistry \<Rightarrow> 'l ServiceRegistry" where
  "SetHeartbeatTimeout d r = r\<lparr>sr_hbTimeout := d\<rparr>"

fun changeFirst :: "('a \<Rightarrow> bool) \<Rightarrow> ('a \<Rightarrow> 'a) \<Rightarrow> 'a list \<Rightarrow> 'a list" where
  "changeFirst P f [] = []"
| "changeFirst P f (x # xs) = (if P x then f x # xs else x # changeFirst P f xs)"

definition changeListed :: "string \<Rightarrow> ('a list \<Rightarrow> 'a list) \<Rightarrow> (string, 'a list) gomap \<Rightarrow> (string, 'a list) gomap" where
  "changeListed name f m = (case map_of m name of None \<Rightarrow> m | Some xs \<Rightarrow> AList.update name (f xs) m)"

definition sameHost :: "'l ServiceInstance \<Rightarrow> 'l Endpoint \<Rightarrow> bool" where
  "sameHost i ep \<longleftrightarrow> ep_NodeID ep = ep_NodeID (si_Endpoint i) \<and> ep_Address ep = ep_Address (si_Endpoint i)"

definition Heartbeat ::
  "gotime \<Rightarrow> string \<Rightarrow> string \<Rightarrow> 'l ServiceRegistry \<Rightarrow> registry_error option \<times> 'l ServiceRegistry" where
  "Heartbeat now name inst r =
     (case find (\<lambda>i. si_ID i = inst) (listed name (sr_instances r)) of
        None \<Rightarrow> (Some (InstanceNotFound name inst), r)
      | Some i \<Rightarrow>
          (None, r\<lparr>sr_instances := changeListed name
                     (changeFirst (\<lambda>i. si_ID i = inst) (\<lambda>i. i\<lparr>si_HeartbeatAt := now, si_Healthy := True\<rparr>)) (sr_instances r),
                   sr_services := changeListed name (changeFirst (sameHost i) (\<lambda>ep. ep\<lparr>ep_Healthy := True\<rparr>)) (sr_services r)\<rparr>))"

definition expired :: "gotime \<Rightarrow> 'l ServiceRegistry \<Rightarrow> 'l ServiceInstance \<Rightarrow> bool" where
  "expired now r i \<longleftrightarrow> now - si_HeartbeatAt i > sr_hbTimeout r"

definition CheckExpired :: "gotime \<Rightarrow> 'l ServiceRegistry \<Rightarrow> string list \<times> 'l ServiceRegistry" where
  "CheckExpired now r =
     (concat (map (\<lambda>(name, is). map (\<lambda>i. name @ ''/'' @ si_ID i) (filter (expired now r) is)) (sr_instances r)),
      r\<lparr>sr_instances := map (\<lambda>(name, is). (name, map (\<lambda>i. if expired now r i then i\<lparr>si_Healthy := False\<rparr> else i) is)) (sr_instances r),
        sr_services := map (\<lambda>(name, eps). (name, map (\<lambda>ep.
            if \<exists>i \<in> set (listed name (sr_instances r)). expired now r i \<and> sameHost i ep then ep\<lparr>ep_Healthy := False\<rparr> else ep) eps))
          (sr_services r)\<rparr>)"

definition setHealth :: "bool \<Rightarrow> string \<Rightarrow> string \<Rightarrow> 'l ServiceRegistry \<Rightarrow> 'l ServiceRegistry" where
  "setHealth h name nodeID r =
     r\<lparr>sr_services := changeListed name (map (\<lambda>ep. if ep_NodeID ep = nodeID then ep\<lparr>ep_Healthy := h\<rparr> else ep)) (sr_services r),
       sr_instances := changeListed name (map (\<lambda>i. if ep_NodeID (si_Endpoint i) = nodeID then i\<lparr>si_Healthy := h\<rparr> else i)) (sr_instances r)\<rparr>"

definition MarkUnhealthy :: "string \<Rightarrow> string \<Rightarrow> 'l ServiceRegistry \<Rightarrow> 'l ServiceRegistry" where
  "MarkUnhealthy = setHealth False"

definition MarkHealthy :: "string \<Rightarrow> string \<Rightarrow> 'l ServiceRegistry \<Rightarrow> 'l ServiceRegistry" where
  "MarkHealthy = setHealth True"

subsection \<open>Lookup and choice\<close>

definition Lookup :: "string \<Rightarrow> 'l ServiceRegistry \<Rightarrow> 'l Endpoint list" where
  "Lookup name r = filter ep_Healthy (listed name (sr_services r))"

definition leastLoaded :: "('l \<Rightarrow> 'l \<Rightarrow> bool) \<Rightarrow> ('a \<Rightarrow> 'l) \<Rightarrow> 'a list \<Rightarrow> 'a" where
  "leastLoaded lt load xs = foldl (\<lambda>selected x. if lt (load x) (load selected) then x else selected) (hd xs) (tl xs)"

text \<open>One step of the counter of a service, and the index it gives.\<close>

definition nextIndex :: "string \<Rightarrow> nat \<Rightarrow> 'l ServiceRegistry \<Rightarrow> nat \<times> 'l ServiceRegistry" where
  "nextIndex name n r =
     (let c = (case map_of (sr_roundRobin r) name of None \<Rightarrow> 0 | Some c \<Rightarrow> c) + 1
      in (unat (c mod word_of_nat n), r\<lparr>sr_roundRobin := AList.update name c (sr_roundRobin r)\<rparr>))"

definition PickWithStrategy ::
  "('l \<Rightarrow> 'l \<Rightarrow> bool) \<Rightarrow> string \<Rightarrow> (nat \<Rightarrow> nat) \<Rightarrow> string \<Rightarrow> LBStrategy \<Rightarrow> 'l ServiceRegistry \<Rightarrow>
    'l Endpoint picked \<times> 'l ServiceRegistry" where
  "PickWithStrategy lt localNode rnd name strategy r =
     (if map_of (sr_services r) name = None then (PickErr (NotFound name), r)
      else
        let healthy = Lookup name r; n = length healthy
        in if healthy = [] then (PickErr (NoHealthy name), r)
           else case strategy of
                  LBRoundRobin \<Rightarrow> (case nextIndex name n r of (i, r1) \<Rightarrow> (Picked (healthy ! i), r1))
                | LBLocalPrefer \<Rightarrow>
                    (case find (\<lambda>ep. ep_NodeID ep = [] \<or> ep_NodeID ep = localNode) healthy of
                       Some ep \<Rightarrow> (Picked ep, r)
                     | None \<Rightarrow> (Picked (healthy ! rnd n), r))
                | LBLeastLoaded \<Rightarrow> (Picked (leastLoaded lt ep_Load healthy), r)
                | LBRandom \<Rightarrow> (Picked (healthy ! rnd n), r))"

definition Pick ::
  "('l \<Rightarrow> 'l \<Rightarrow> bool) \<Rightarrow> string \<Rightarrow> (nat \<Rightarrow> nat) \<Rightarrow> string \<Rightarrow> 'l ServiceRegistry \<Rightarrow> 'l Endpoint picked \<times> 'l ServiceRegistry" where
  "Pick lt localNode rnd name r = PickWithStrategy lt localNode rnd name (sr_defStrategy r) r"

text \<open>The caller of \<^verbatim>\<open>pickInstance\<close> holds the read lock, which the counter needs as a write lock.\<close>

definition pickInstance ::
  "('l \<Rightarrow> 'l \<Rightarrow> bool) \<Rightarrow> string \<Rightarrow> (nat \<Rightarrow> nat) \<Rightarrow> 'l ServiceInstance list \<Rightarrow> 'l ServiceRegistry \<Rightarrow> 'l ServiceInstance picked" where
  "pickInstance lt localNode rnd candidates r =
     (case sr_defStrategy r of
        LBLeastLoaded \<Rightarrow> Picked (leastLoaded lt (ep_Load \<circ> si_Endpoint) candidates)
      | LBRoundRobin \<Rightarrow> PickDeadlock
      | LBLocalPrefer \<Rightarrow>
          (case find (\<lambda>i. ep_NodeID (si_Endpoint i) = localNode) candidates of
             Some i \<Rightarrow> Picked i
           | None \<Rightarrow> Picked (candidates ! rnd (length candidates)))
      | LBRandom \<Rightarrow> Picked (candidates ! rnd (length candidates)))"

definition serves :: "gotime \<Rightarrow> string \<Rightarrow> string \<Rightarrow> 'l ServiceRegistry \<Rightarrow> 'l ServiceInstance \<Rightarrow> bool" where
  "serves now mth protocol r i \<longleftrightarrow>
     si_Healthy i \<and> \<not> expired now r i \<and> (protocol = [] \<or> ep_Protocol (si_Endpoint i) = protocol) \<and>
     (mth = [] \<or> mth \<in> mi_Name ` set (si_Methods i))"

definition LookupInstanceWithProtocol ::
  "('l \<Rightarrow> 'l \<Rightarrow> bool) \<Rightarrow> string \<Rightarrow> (nat \<Rightarrow> nat) \<Rightarrow> gotime \<Rightarrow> string \<Rightarrow> string \<Rightarrow> string \<Rightarrow> 'l ServiceRegistry \<Rightarrow> 'l ServiceInstance picked" where
  "LookupInstanceWithProtocol lt localNode rnd now name mth protocol r =
     (let instances = listed name (sr_instances r)
      in if instances = [] then PickErr (NotFound name)
         else
           let candidates = filter (serves now mth protocol r) instances
           in if candidates = [] then PickErr (NoHealthy name) else pickInstance lt localNode rnd candidates r)"

definition LookupInstance ::
  "('l \<Rightarrow> 'l \<Rightarrow> bool) \<Rightarrow> string \<Rightarrow> (nat \<Rightarrow> nat) \<Rightarrow> gotime \<Rightarrow> string \<Rightarrow> string \<Rightarrow> 'l ServiceRegistry \<Rightarrow> 'l ServiceInstance picked" where
  "LookupInstance lt localNode rnd now name mth r = LookupInstanceWithProtocol lt localNode rnd now name mth [] r"

definition ListServices :: "'l ServiceRegistry \<Rightarrow> string list" where
  "ListServices r = remdups (map fst (sr_instances r) @ map fst (sr_services r))"

definition ListEndpoints :: "string \<Rightarrow> 'l ServiceRegistry \<Rightarrow> 'l Endpoint list" where
  "ListEndpoints name r = listed name (sr_services r)"

definition ListInstances :: "string \<Rightarrow> 'l ServiceRegistry \<Rightarrow> 'l ServiceInstance list" where
  "ListInstances name r = listed name (sr_instances r)"

definition Snapshot :: "'l ServiceRegistry \<Rightarrow> (string, 'l Endpoint list) gomap" where
  "Snapshot r = sr_services r"

definition infoOf :: "string \<Rightarrow> 'l ServiceInstance list \<Rightarrow> 'l ServiceRegistry \<Rightarrow> 'l ServiceInfo" where
  "infoOf name instances r =
     \<lparr>sf_Name = name, sf_Methods = (case instances of [] \<Rightarrow> [] | i # _ \<Rightarrow> si_Methods i), sf_Instances = instances,
      sf_Endpoints = listed name (sr_services r)\<rparr>"

definition ServiceInfoOf :: "string \<Rightarrow> 'l ServiceRegistry \<Rightarrow> 'l ServiceInfo option" where
  "ServiceInfoOf name r = map_option (\<lambda>is. infoOf name is r) (map_of (sr_instances r) name)"

definition AllServiceInfo :: "'l ServiceRegistry \<Rightarrow> 'l ServiceInfo list" where
  "AllServiceInfo r = map (\<lambda>(name, is). infoOf name is r) (sr_instances r)"

subsection \<open>The invariant\<close>

definition registry_ok :: "'l ServiceRegistry \<Rightarrow> bool" where
  "registry_ok r \<longleftrightarrow>
     (\<forall>name. distinct (map (\<lambda>e. (ep_NodeID e, ep_Address e, ep_Port e)) (listed name (sr_services r))) \<and>
             distinct (map si_ID (listed name (sr_instances r))))"

datatype 'l registry_event =
    EvRegister string string "'l Endpoint option"
  | EvRegisterInstance 'l gotime "'l ServiceInstance"
  | EvUnregister string string
  | EvUnregisterInstance string string
  | EvHeartbeat gotime string string
  | EvCheckExpired gotime
  | EvSetHealth bool string string
  | EvSetTimeout duration
  | EvRoundRobin string nat

fun registryStep :: "'l ServiceRegistry \<Rightarrow> 'l registry_event \<Rightarrow> 'l ServiceRegistry" where
  "registryStep r (EvRegister l name ep) = snd (Register l name ep r)"
| "registryStep r (EvRegisterInstance z now i) = snd (RegisterInstance z now i r)"
| "registryStep r (EvUnregister name n) = Unregister name n r"
| "registryStep r (EvUnregisterInstance name i) = UnregisterInstance name i r"
| "registryStep r (EvHeartbeat now name i) = snd (Heartbeat now name i r)"
| "registryStep r (EvCheckExpired now) = snd (CheckExpired now r)"
| "registryStep r (EvSetHealth h name n) = setHealth h name n r"
| "registryStep r (EvSetTimeout d) = SetHeartbeatTimeout d r"
| "registryStep r (EvRoundRobin name n) = snd (nextIndex name n r)"

lemma listed_update [simp]: "listed k (AList.update k' xs m) = (if k = k' then xs else listed k m)"
  by (simp add: listed_def)

lemma listed_keepOrDelete [simp]: "listed k (keepOrDelete k' xs m) = (if k = k' then xs else listed k m)"
  by (simp add: keepOrDelete_def listed_def)

lemma listed_changeListed: "listed k (changeListed k' f m) = (if k = k' \<and> map_of m k' \<noteq> None then f (listed k m) else listed k m)"
  by (auto simp: changeListed_def listed_def split: option.split)

lemma listed_map: "listed k (map (\<lambda>(n, xs). (n, map (g n) xs)) m) = map (g k) (listed k m)"
  by (induction m) (auto simp: listed_def)

lemma distinct_replaceFirst:
  assumes "distinct (map f xs)" and "\<And>x. P x \<longleftrightarrow> f x = f y"
  shows "distinct (map f (replaceFirst P y xs))"
proof -
  have "f ` set (replaceFirst P y xs) = insert (f y) (f ` set xs)" for xs
    using assms(2) by (induction xs) (auto split: if_splits)
  with assms show ?thesis by (induction xs) auto
qed

lemma map_changeFirst: "(\<And>x. f (g x) = f x) \<Longrightarrow> map f (changeFirst P g xs) = map f xs"
  by (induction xs) auto

abbreviation ep_key :: "'l Endpoint \<Rightarrow> string \<times> string \<times> int" where
  "ep_key e \<equiv> (ep_NodeID e, ep_Address e, ep_Port e)"

lemma sameEndpoint_key: "sameEndpoint a b \<longleftrightarrow> ep_key b = ep_key a"
  by (auto simp: sameEndpoint_def)

lemma addCounter_fields [simp]:
  "sr_services (addCounter n r) = sr_services r" "sr_instances (addCounter n r) = sr_instances r"
  by (simp_all add: addCounter_def)

lemma registry_ok_counter [simp]: "registry_ok (addCounter n r) = registry_ok r"
  by (simp add: registry_ok_def)

lemma registry_ok_endpoint:
  assumes "registry_ok r"
  shows "registry_ok (r\<lparr>sr_services := AList.update name (replaceFirst (sameEndpoint e) e (listed name (sr_services r))) (sr_services r)\<rparr>)"
proof -
  have "distinct (map ep_key (replaceFirst (sameEndpoint e) e (listed name (sr_services r))))"
    using assms unfolding registry_ok_def by (intro distinct_replaceFirst) (simp_all add: sameEndpoint_key)
  with assms show ?thesis unfolding registry_ok_def by simp
qed

lemma registry_ok_instance:
  assumes "registry_ok r"
  shows "registry_ok (r\<lparr>sr_instances := AList.update name (replaceFirst (\<lambda>i. si_ID i = si_ID x) x (listed name (sr_instances r))) (sr_instances r)\<rparr>)"
proof -
  have "distinct (map si_ID (replaceFirst (\<lambda>i. si_ID i = si_ID x) x (listed name (sr_instances r))))"
    using assms unfolding registry_ok_def by (intro distinct_replaceFirst) simp_all
  with assms show ?thesis unfolding registry_ok_def by simp
qed

lemma map_if: "(\<And>x. f (g x) = f x) \<Longrightarrow> map f (map (\<lambda>x. if P x then g x else x) xs) = map f xs"
  by simp

interpretation registry: machine registryStep registry_ok
proof
  fix r :: "'l ServiceRegistry" and ev
  assume ok: "registry_ok r"
  then have eps: "distinct (map ep_key (listed n (sr_services r)))" and ids: "distinct (map si_ID (listed n (sr_instances r)))" for n
    by (simp_all add: registry_ok_def)
  show "registry_ok (registryStep r ev)"
  proof (cases ev)
    case (EvRegister l name ep)
    with ok show ?thesis by (simp add: Register_def Let_def registry_ok_endpoint split: option.split)
  next
    case (EvRegisterInstance z now i)
    have "registry_ok (storeInstance z x r)" for x
      using registry_ok_endpoint [OF registry_ok_instance [OF ok, of "si_Name x" x], of "si_Name x"] by (simp add: storeInstance_def Let_def)
    with EvRegisterInstance ok show ?thesis by (simp add: RegisterInstance_def Let_def split: option.split)
  next
    case (EvUnregister name n)
    with ok show ?thesis by (auto simp: Unregister_def Let_def registry_ok_def distinct_map_filter)
  next
    case (EvUnregisterInstance name i)
    with ok show ?thesis by (auto simp: UnregisterInstance_def registry_ok_def distinct_map_filter)
  next
    case (EvHeartbeat now name i)
    with ok show ?thesis
      by (auto simp: Heartbeat_def registry_ok_def listed_changeListed map_changeFirst split: option.split)
  next
    case (EvCheckExpired now)
    with eps ids show ?thesis by (simp add: CheckExpired_def registry_ok_def listed_map map_if comp_def if_distrib cong: if_cong)
  next
    case (EvSetHealth h name n)
    with ok show ?thesis by (simp add: setHealth_def registry_ok_def listed_changeListed comp_def if_distrib cong: if_cong)
  next
    case (EvSetTimeout d)
    with ok show ?thesis by (simp add: SetHeartbeatTimeout_def registry_ok_def)
  next
    case (EvRoundRobin name n)
    with ok show ?thesis by (simp add: nextIndex_def Let_def registry_ok_def)
  qed
qed

subsection \<open>Choosing\<close>

lemma leastLoaded_spec:
  fixes load :: "'a \<Rightarrow> 'l :: linorder"
  assumes "xs \<noteq> []"
  shows "leastLoaded (<) load xs \<in> set xs \<and> (\<forall>x \<in> set xs. load (leastLoaded (<) load xs) \<le> load x)"
proof -
  let ?f = "\<lambda>s x. if load x < load s then x else s"
  have "foldl ?f s ys \<in> set (s # ys) \<and> (\<forall>x \<in> set (s # ys). load (foldl ?f s ys) \<le> load x)" for s ys
  proof (induction ys arbitrary: s)
    case (Cons y ys)
    have "load (foldl ?f (?f s y) ys) \<le> load (?f s y)" using Cons [of "?f s y"] by simp
    moreover have "load (?f s y) \<le> load s" "load (?f s y) \<le> load y" by auto
    ultimately show ?case using Cons [of "?f s y"] by (auto split: if_splits intro: order_trans)
  qed simp
  from this [of "hd xs" "tl xs"] show ?thesis using assms by (simp add: leastLoaded_def)
qed

fun pickTimes ::
  "('l \<Rightarrow> 'l \<Rightarrow> bool) \<Rightarrow> string \<Rightarrow> (nat \<Rightarrow> nat) \<Rightarrow> string \<Rightarrow> nat \<Rightarrow> 'l ServiceRegistry \<Rightarrow> 'l Endpoint picked list" where
  "pickTimes lt l rnd name 0 r = []"
| "pickTimes lt l rnd name (Suc n) r =
     (case PickWithStrategy lt l rnd name LBRoundRobin r of (p, r1) \<Rightarrow> p # pickTimes lt l rnd name n r1)"

definition counter :: "string \<Rightarrow> 'l ServiceRegistry \<Rightarrow> nat" where
  "counter name r = (case map_of (sr_roundRobin r) name of None \<Rightarrow> 0 | Some c \<Rightarrow> unat c)"

lemma nextIndex_counter:
  assumes "counter name r + 1 < 2 ^ 64" and "0 < n" and "n < 2 ^ 64"
  obtains r1 where "nextIndex name n r = ((counter name r + 1) mod n, r1)" "counter name r1 = counter name r + 1"
    "Lookup name r1 = Lookup name r" "map_of (sr_services r1) name = map_of (sr_services r) name"
proof -
  define c where "c = (case map_of (sr_roundRobin r) name of None \<Rightarrow> 0 | Some c \<Rightarrow> c) + 1"
  have c: "unat c = counter name r + 1"
    using assms(1) by (auto simp: c_def counter_def unat_word_ariths(1) split: option.splits)
  have "unat (word_of_nat n :: 64 word) = n" using assms(3) by (simp add: unat_of_nat take_bit_nat_eq_self)
  then have "unat (c mod word_of_nat n) = (counter name r + 1) mod n" by (simp add: unat_mod c)
  then have "nextIndex name n r = ((counter name r + 1) mod n, r\<lparr>sr_roundRobin := AList.update name c (sr_roundRobin r)\<rparr>)"
    by (simp add: nextIndex_def c_def Let_def)
  then show ?thesis using that c by (simp add: counter_def Lookup_def)
qed

lemma pickTimes_rounds:
  assumes "map_of (sr_services r) name \<noteq> None" and "Lookup name r \<noteq> []" and "counter name r + k < 2 ^ 64" and "length (Lookup name r) < 2 ^ 64"
  shows "pickTimes lt l rnd name k r =
    map (\<lambda>j. Picked (Lookup name r ! ((counter name r + 1 + j) mod length (Lookup name r)))) [0..<k]"
  using assms
proof (induction k arbitrary: r)
  case (Suc k)
  obtain r1 where n: "nextIndex name (length (Lookup name r)) r = ((counter name r + 1) mod length (Lookup name r), r1)"
    "counter name r1 = counter name r + 1" "Lookup name r1 = Lookup name r" "map_of (sr_services r1) name = map_of (sr_services r) name"
    using nextIndex_counter [of name r "length (Lookup name r)"] Suc.prems by auto
  with Suc.IH [of r1] Suc.prems have "pickTimes lt l rnd name k r1 =
      map (\<lambda>j. Picked (Lookup name r ! ((counter name r + 2 + j) mod length (Lookup name r)))) [0..<k]" by simp
  then show ?case using n(1) Suc.prems by (simp add: PickWithStrategy_def Let_def upt_conv_Cons map_Suc_upt [symmetric] comp_def del: upt_Suc)
qed simp

lemma rotate_as_map: "map (\<lambda>j. xs ! ((c + j) mod length xs)) [0..<length xs] = rotate c xs"
  by (rule nth_equalityI) (simp_all add: nth_rotate)

lemma mset_rotated: "mset (rotate n xs) = mset xs"
  unfolding rotate_drop_take by (metis append_take_drop_id mset_append union_commute)

subsection \<open>Properties\<close>

text \<open>
  C33: Round robin is fair: as many choices in a row as a service has healthy endpoints choose each of them exactly
  once, from any state of the counter that does not overflow.
\<close>

theorem round_robin_fair:
  assumes "map_of (sr_services r) name \<noteq> None" and "Lookup name r \<noteq> []" and "counter name r + length (Lookup name r) < 2 ^ 64"
  shows "mset (pickTimes lt l rnd name (length (Lookup name r)) r) = image_mset Picked (mset (Lookup name r))"
proof -
  have "pickTimes lt l rnd name (length (Lookup name r)) r = map Picked (rotate (counter name r + 1) (Lookup name r))"
    using pickTimes_rounds [OF assms(1,2,3)] assms(3) rotate_as_map [of "Lookup name r" "counter name r + 1", symmetric]
    by (simp add: comp_def)
  then show ?thesis by (simp only: mset_map mset_rotated)
qed

theorem round_robin_fair_witness:
  "mset (pickTimes (<) [] (\<lambda>_. 0) ''s'' 2 (snd (Register [] ''s'' (Some \<lparr>ep_NodeID = ''n'', ep_Address = ''b'', ep_Port = 1, ep_Protocol = [],
       ep_Healthy = False, ep_Load = 0 :: nat, ep_Topic = [], ep_ReplyTopic = [], ep_ConsumerGroup = []\<rparr>)
     (snd (Register [] ''s'' (Some \<lparr>ep_NodeID = ''n'', ep_Address = ''a'', ep_Port = 1, ep_Protocol = [], ep_Healthy = False, ep_Load = 0,
       ep_Topic = [], ep_ReplyTopic = [], ep_ConsumerGroup = []\<rparr>) NewServiceRegistry))))) =
   {# Picked \<lparr>ep_NodeID = ''n'', ep_Address = ''a'', ep_Port = 1, ep_Protocol = ''http'', ep_Healthy = True, ep_Load = 0, ep_Topic = [],
        ep_ReplyTopic = [], ep_ConsumerGroup = []\<rparr>,
      Picked \<lparr>ep_NodeID = ''n'', ep_Address = ''b'', ep_Port = 1, ep_Protocol = ''http'', ep_Healthy = True, ep_Load = 0, ep_Topic = [],
        ep_ReplyTopic = [], ep_ConsumerGroup = []\<rparr> #}"
proof -
  let ?e = "\<lambda>a. \<lparr>ep_NodeID = ''n'', ep_Address = a, ep_Port = 1, ep_Protocol = [], ep_Healthy = False, ep_Load = 0 :: nat, ep_Topic = [],
    ep_ReplyTopic = [], ep_ConsumerGroup = []\<rparr>"
  define r where "r = snd (Register [] ''s'' (Some (?e ''b'')) (snd (Register [] ''s'' (Some (?e ''a'')) NewServiceRegistry)))"
  have r: "Lookup ''s'' r = [(?e ''a'')\<lparr>ep_Protocol := ''http'', ep_Healthy := True\<rparr>, (?e ''b'')\<lparr>ep_Protocol := ''http'', ep_Healthy := True\<rparr>]"
    "map_of (sr_services r) ''s'' \<noteq> None" "counter ''s'' r = 0"
    by (simp_all add: r_def Register_def validateEndpoint_def sameEndpoint_def NewServiceRegistry_def Lookup_def listed_def addCounter_def
        counter_def)
  have "mset (pickTimes (<) [] (\<lambda>_. 0) ''s'' (length (Lookup ''s'' r)) r) = image_mset Picked (mset (Lookup ''s'' r))"
    using r by (intro round_robin_fair) simp_all
  then show ?thesis by (simp add: r(1) numeral_2_eq_2 flip: r_def)
qed



text \<open>
  Two instances of a service on one host share their fate: when one of them expires, the endpoints of both are
  taken out, and the next heartbeat of the living one brings back the endpoint of the dead one, because
  endpoints are found by node and address without the port.
\<close>

lemma shared_host_endpoint_lost:
  assumes "listed name (sr_services r) = [e1, e2]" and "listed name (sr_instances r) = [i1, i2]" and "si_ID i1 \<noteq> si_ID i2"
    and "sameHost i1 e1" and "sameHost i1 e2" and "sameHost i2 e1" and "ep_Port e1 = ep_Port (si_Endpoint i1)"
    and "ep_Port e2 = ep_Port (si_Endpoint i2)" and "expired now r i1" and "\<not> expired now r i2"
  shows "Lookup name (snd (CheckExpired now r)) = [] \<and>
    Lookup name (snd (Heartbeat now2 name (si_ID i2) (snd (CheckExpired now r)))) = [e1\<lparr>ep_Healthy := True\<rparr>]"
proof -
  let ?r = "snd (CheckExpired now r)"
  have eps: "listed name (sr_services ?r) = [e1\<lparr>ep_Healthy := False\<rparr>, e2\<lparr>ep_Healthy := False\<rparr>]"
    using assms by (simp add: CheckExpired_def listed_map)
  have insts: "listed name (sr_instances ?r) = [i1\<lparr>si_Healthy := False\<rparr>, i2]"
    using assms by (simp add: CheckExpired_def listed_map)
  have present: "map_of (sr_services ?r) name \<noteq> None" using eps by (auto simp: listed_def split: option.splits)
  have "listed name (sr_services (snd (Heartbeat now2 name (si_ID i2) ?r))) = [e1\<lparr>ep_Healthy := True\<rparr>, e2\<lparr>ep_Healthy := False\<rparr>]"
    using assms(3,6) eps insts present by (simp add: Heartbeat_def listed_changeListed sameHost_def)
  with eps show ?thesis by (simp add: Lookup_def)
qed

end
