(* ===== verification/Service_Call.thy ===== *)
theory Service_Call
  imports Circuit_Breaker Service_Registry "HOL-Library.Char_ord"
begin

text \<open>
  Calls of services, \<^verbatim>\<open>server/internal/node/service_caller.go\<close>: the checks of names, retries with their pauses, calls over
  HTTP and over TCP with their frames, and the pool of TCP connections.  The network is a parameter: what a request over HTTP ends
  with and what becomes of a frame that is sent over a connection, each a function of a state of the world.  Error texts are kept where the
  code reads them.
\<close>

subsection \<open>Names\<close>

definition alnum :: "char \<Rightarrow> bool" where
  "alnum c \<longleftrightarrow> list_ex (\<lambda>(lo, hi). lo \<le> c \<and> c \<le> hi) [(CHR ''a'', CHR ''z''), (CHR ''A'', CHR ''Z''), (CHR ''0'', CHR ''9'')]"

definition validServiceName :: "string \<Rightarrow> bool" where
  "validServiceName s \<longleftrightarrow>
     (case s of [] \<Rightarrow> False | c # cs \<Rightarrow> alnum c \<and> length cs \<le> 127 \<and> list_all (\<lambda>c. alnum c \<or> c \<in> set ''._-'') cs)"

definition validMethodName :: "string \<Rightarrow> bool" where
  "validMethodName s \<longleftrightarrow>
     (case s of [] \<Rightarrow> False | c # cs \<Rightarrow> alnum c \<and> length cs \<le> 255 \<and> list_all (\<lambda>c. alnum c \<or> c \<in> set ''/_-'') cs)"

datatype call_error =
    NilInstance
  | InvalidServiceName string
  | InvalidMethodName string
  | BodyTooLarge nat
  | UnsupportedProtocolErr string
  | CallErr string
  | CtxErr
  | Exhausted nat call_error

subsection \<open>Frames\<close>

text \<open>A message over TCP is the method followed by the body, behind four bytes with their length.\<close>

definition bigEndian32 :: "32 word \<Rightarrow> bytes" where
  "bigEndian32 w = map (\<lambda>k. char_of (unat (drop_bit k w) mod 256)) [24, 16, 8, 0]"

definition readUint32 :: "bytes \<Rightarrow> 32 word" where
  "readUint32 bs = foldl (\<lambda>a c. a * 256 + word_of_nat (of_char c)) 0 (take 4 bs)"

definition tcpFrame :: "string \<Rightarrow> bytes \<Rightarrow> bytes" where
  "tcpFrame method body = (let msg = method @ body in bigEndian32 (word_of_nat (length msg)) @ msg)"

subsection \<open>Connections\<close>

text \<open>
  A connection is known by a number.  \<open>pending c\<close> says that a byte can be read from it at once, which is what the check for a living
  connection asks.
\<close>

record tcpConnPool =
  tp_conns :: "nat list"
  tp_closed :: bool

definition tcpPoolSize :: nat where
  "tcpPoolSize = 5"

definition isConnAlive :: "(nat \<Rightarrow> bool) \<Rightarrow> nat \<Rightarrow> bool" where
  "isConnAlive pending c = pending c"

definition getTCPPool :: "string \<Rightarrow> (string, tcpConnPool) gomap \<Rightarrow> tcpConnPool \<times> (string, tcpConnPool) gomap" where
  "getTCPPool addr pools =
     (case map_of pools addr of
        Some p \<Rightarrow> (p, pools)
      | None \<Rightarrow> let p = \<lparr>tp_conns = [], tp_closed = False\<rparr> in (p, AList.update addr p pools))"

text \<open>Connections from the pool that do not pass the check are closed; when there are none left a new one is dialled.\<close>

fun poolGet :: "(nat \<Rightarrow> bool) \<Rightarrow> (string + nat) \<Rightarrow> nat list \<Rightarrow> (string + nat) \<times> nat list \<times> nat list" where
  "poolGet pending dial [] = (dial, [], [])"
| "poolGet pending dial (c # cs) =
     (if isConnAlive pending c then (Inr c, cs, [])
      else case poolGet pending dial cs of (r, rest, closed) \<Rightarrow> (r, rest, c # closed))"

definition poolPut :: "nat \<Rightarrow> tcpConnPool \<Rightarrow> bool \<times> tcpConnPool" where
  "poolPut c p =
     (if tp_closed p \<or> \<not> length (tp_conns p) < tcpPoolSize then (False, p) else (True, p\<lparr>tp_conns := tp_conns p @ [c]\<rparr>))"

definition poolClose :: "tcpConnPool \<Rightarrow> nat list \<times> tcpConnPool" where
  "poolClose p = (tp_conns p, p\<lparr>tp_closed := True, tp_conns := []\<rparr>)"

subsection \<open>Calls\<close>

datatype http_out = BadRequest string | Failed string | Answer nat "string + bytes"

datatype tcp_out = WriteLength string | WriteBody string | ReadLength string | Length "32 word" "string + bytes"

record 'w Net =
  nt_http :: "string \<Rightarrow> bytes \<Rightarrow> 'w \<Rightarrow> http_out \<times> 'w"
  nt_dial :: "string \<Rightarrow> 'w \<Rightarrow> (string + nat) \<times> 'w"
  nt_pending :: "nat \<Rightarrow> 'w \<Rightarrow> bool"
  nt_tcp :: "nat \<Rightarrow> bytes \<Rightarrow> 'w \<Rightarrow> tcp_out \<times> 'w"

record 'l ServiceCaller =
  sc_tls :: bool
  sc_pools :: "(string, tcpConnPool) gomap"
  sc_cb :: CircuitBreaker
  sc_reg :: "'l ServiceRegistry"

definition maxBytes :: nat where
  "maxBytes = 10 * 1024 * 1024"

definition address :: "'l ServiceInstance \<Rightarrow> string" where
  "address inst = ep_Address (si_Endpoint inst) @ '':'' @ dec (nat (ep_Port (si_Endpoint inst)))"

definition failed :: "gotime \<Rightarrow> 'l ServiceCaller \<Rightarrow> 'l ServiceCaller" where
  "failed now sc = sc\<lparr>sc_cb := Failure now (sc_cb sc)\<rparr>"

definition unhealthy :: "'l ServiceInstance \<Rightarrow> 'l ServiceCaller \<Rightarrow> 'l ServiceCaller" where
  "unhealthy inst sc = sc\<lparr>sc_reg := MarkUnhealthy (si_Name inst) (ep_NodeID (si_Endpoint inst)) (sc_reg sc)\<rparr>"

definition succeeded :: "'l ServiceCaller \<Rightarrow> 'l ServiceCaller" where
  "succeeded sc = sc\<lparr>sc_cb := Success (sc_cb sc)\<rparr>"

definition callHTTP ::
  "'w Net \<Rightarrow> gotime \<Rightarrow> 'l ServiceInstance \<Rightarrow> string \<Rightarrow> bytes \<Rightarrow> 'l ServiceCaller \<Rightarrow> 'w \<Rightarrow> (call_error + bytes) \<times> 'l ServiceCaller \<times> 'w" where
  "callHTTP N now inst method body sc w =
     (let endpoint = (if sc_tls sc then ''https://'' else ''http://'') @ address inst @ ''/'' @ method
      in case nt_http N endpoint body w of
           (BadRequest e, w1) \<Rightarrow> (Inl (CallErr (''http request: '' @ e)), failed now sc, w1)
         | (Failed e, w1) \<Rightarrow> (Inl (CallErr (''http call: '' @ e)), unhealthy inst (failed now sc), w1)
         | (Answer status content, w1) \<Rightarrow>
             if status \<ge> 500 then (Inl (CallErr (''http status '' @ dec status)), unhealthy inst (failed now sc), w1)
             else case content of
                    Inl e \<Rightarrow> (Inl (CallErr (''http read: '' @ e)), failed now sc, w1)
                  | Inr bs \<Rightarrow> (Inr (take maxBytes bs), succeeded sc, w1))"

definition callGRPC ::
  "'l ServiceInstance \<Rightarrow> string \<Rightarrow> 'l ServiceCaller \<Rightarrow> 'w \<Rightarrow> (call_error + bytes) \<times> 'l ServiceCaller \<times> 'w" where
  "callGRPC inst method sc w =
     (if \<not> validServiceName (si_Name inst) then (Inl (InvalidServiceName (si_Name inst)), sc, w)
      else if \<not> validMethodName method then (Inl (InvalidMethodName method), sc, w)
      else (Inl (CallErr (''grpc transport: not implemented for service '' @ si_Name inst @ '' method '' @ method @ '' at '' @ address inst @
              '' '' @ [char_of (226 :: nat), char_of (128 :: nat), char_of (148 :: nat)] @
              '' configure generated proto client or use HTTP protocol'')), sc, w))"

definition callTCP ::
  "'w Net \<Rightarrow> gotime \<Rightarrow> 'l ServiceInstance \<Rightarrow> string \<Rightarrow> bytes \<Rightarrow> 'l ServiceCaller \<Rightarrow> 'w \<Rightarrow> (call_error + bytes) \<times> 'l ServiceCaller \<times> 'w" where
  "callTCP N now inst method body sc w =
     (let addr = address inst in
      case getTCPPool addr (sc_pools sc) of (p, pools) \<Rightarrow>
      case (if \<exists>c \<in> set (tp_conns p). nt_pending N c w then (Inl [], w) else nt_dial N addr w) of (dial, w1) \<Rightarrow>
      case poolGet (\<lambda>c. nt_pending N c w) dial (tp_conns p) of (conn, rest, closed) \<Rightarrow>
      let sc1 = sc\<lparr>sc_pools := AList.update addr (p\<lparr>tp_conns := rest\<rparr>) pools\<rparr>
      in case conn of
           Inl e \<Rightarrow> (Inl (CallErr (''tcp dial: '' @ e)), unhealthy inst (failed now sc1), w1)
         | Inr c \<Rightarrow>
             (case nt_tcp N c (tcpFrame method body) w1 of
                (WriteLength e, w2) \<Rightarrow> (Inl (CallErr (''tcp write length: '' @ e)), failed now sc1, w2)
              | (WriteBody e, w2) \<Rightarrow> (Inl (CallErr (''tcp write body: '' @ e)), failed now sc1, w2)
              | (ReadLength e, w2) \<Rightarrow> (Inl (CallErr (''tcp read length: '' @ e)), failed now sc1, w2)
              | (Length n content, w2) \<Rightarrow>
                  if unat n > maxBytes then (Inl (CallErr (''tcp response too large: '' @ dec (unat n) @ '' bytes'')), failed now sc1, w2)
                  else case content of
                         Inl e \<Rightarrow> (Inl (CallErr (''tcp read body: '' @ e)), failed now sc1, w2)
                       | Inr bs \<Rightarrow>
                           (Inr bs, succeeded (sc1\<lparr>sc_pools := AList.update addr (snd (poolPut c (p\<lparr>tp_conns := rest\<rparr>))) pools\<rparr>), w2)))"

subsection \<open>Retries\<close>

fun strContains :: "string \<Rightarrow> string \<Rightarrow> bool" where
  "strContains pat [] \<longleftrightarrow> pat = []"
| "strContains pat (c # cs) \<longleftrightarrow> take (length pat) (c # cs) = pat \<or> strContains pat cs"

definition retryable :: "string list" where
  "retryable = [''connection refused'', ''connection reset'', ''broken pipe'', ''i/o timeout'', ''no such host'', ''http status 5'', ''tcp dial'',
     ''grpc connect'']"

fun isRetryableError :: "call_error \<Rightarrow> bool" where
  "isRetryableError (CallErr text) \<longleftrightarrow> list_ex (\<lambda>pat. strContains pat text) retryable"
| "isRetryableError _ \<longleftrightarrow> False"

text \<open>The pause before an attempt, in nanoseconds: a product of 64-bit numbers that wraps around.\<close>

definition retryDelay :: "64 word \<Rightarrow> nat \<Rightarrow> 64 word" where
  "retryDelay baseDelay attempt =
     (let delay = baseDelay * push_bit (attempt - 1) 1 in if 5 * 10 ^ 9 <s delay then 5 * 10 ^ 9 else delay)"

definition callOnce ::
  "'w Net \<Rightarrow> gotime \<Rightarrow> 'l ServiceInstance \<Rightarrow> string \<Rightarrow> bytes \<Rightarrow> 'l ServiceCaller \<Rightarrow> 'w \<Rightarrow> (call_error + bytes) \<times> 'l ServiceCaller \<times> 'w" where
  "callOnce N now inst method body sc w =
     (if ep_Protocol (si_Endpoint inst) = ''http'' then callHTTP N now inst method body sc w
      else if ep_Protocol (si_Endpoint inst) = ''grpc'' then callGRPC inst method sc w
      else callTCP N now inst method body sc w)"

text \<open>
  \<open>left\<close> attempts are left, \<open>attempt\<close> have been made; \<open>cancelled n\<close> says that the context ends in the pause before attempt \<open>n\<close>.  The pauses
  are part of the answer.
\<close>

fun retryCalls ::
  "'w Net \<Rightarrow> gotime \<Rightarrow> (nat \<Rightarrow> bool) \<Rightarrow> 64 word \<Rightarrow> nat \<Rightarrow> nat \<Rightarrow> nat \<Rightarrow> call_error \<Rightarrow> 'l ServiceInstance \<Rightarrow> string \<Rightarrow> bytes \<Rightarrow>
    'l ServiceCaller \<Rightarrow> 'w \<Rightarrow> (call_error + bytes) \<times> 64 word list \<times> 'l ServiceCaller \<times> 'w" where
  "retryCalls N now cancelled base maxRetries attempt 0 lastErr inst method body sc w = (Inl (Exhausted (maxRetries + 1) lastErr), [], sc, w)"
| "retryCalls N now cancelled base maxRetries attempt (Suc left) lastErr inst method body sc w =
     (if attempt > 0 \<and> cancelled attempt then (Inl CtxErr, [retryDelay base attempt], sc, w)
      else
        let pause = (if attempt > 0 then [retryDelay base attempt] else [])
        in if ep_Protocol (si_Endpoint inst) \<notin> {''http'', ''grpc'', ''tcp''}
           then (Inl (UnsupportedProtocolErr (ep_Protocol (si_Endpoint inst))), pause, sc, w)
           else case callOnce N now inst method body sc w of
                  (Inr bs, sc1, w1) \<Rightarrow> (Inr bs, pause, sc1, w1)
                | (Inl e, sc1, w1) \<Rightarrow>
                    if \<not> isRetryableError e then (Inl e, pause, sc1, w1)
                    else case retryCalls N now cancelled base maxRetries (Suc attempt) left e inst method body sc1 w1 of
                           (r, ps, sc2, w2) \<Rightarrow> (r, pause @ ps, sc2, w2))"

definition CallServiceWithRetry ::
  "'w Net \<Rightarrow> gotime \<Rightarrow> (nat \<Rightarrow> bool) \<Rightarrow> int \<Rightarrow> 64 word \<Rightarrow> 'l ServiceInstance option \<Rightarrow> string \<Rightarrow> bytes \<Rightarrow> 'l ServiceCaller \<Rightarrow> 'w \<Rightarrow>
    (call_error + bytes) \<times> 64 word list \<times> 'l ServiceCaller \<times> 'w" where
  "CallServiceWithRetry N now cancelled maxRetries baseDelay inst0 method body sc w =
     (case inst0 of
        None \<Rightarrow> (Inl NilInstance, [], sc, w)
      | Some inst \<Rightarrow>
          if \<not> validServiceName (si_Name inst) then (Inl (InvalidServiceName (si_Name inst)), [], sc, w)
          else if \<not> validMethodName method then (Inl (InvalidMethodName method), [], sc, w)
          else if length body > maxBytes then (Inl (BodyTooLarge (length body)), [], sc, w)
          else retryCalls N now cancelled (if baseDelay \<le>s 0 then 100 * 10 ^ 6 else baseDelay) (nat maxRetries) 0 (nat maxRetries + 1) NilInstance
                 inst method body sc w)"

definition CallService ::
  "'w Net \<Rightarrow> gotime \<Rightarrow> 'l ServiceInstance option \<Rightarrow> string \<Rightarrow> bytes \<Rightarrow> 'l ServiceCaller \<Rightarrow> 'w \<Rightarrow> (call_error + bytes) \<times> 'l ServiceCaller \<times> 'w" where
  "CallService N now inst0 method body sc w =
     (case CallServiceWithRetry N now (\<lambda>_. False) 0 0 inst0 method body sc w of (r, _, sc1, w1) \<Rightarrow> (r, sc1, w1))"

subsection \<open>Frames and connections\<close>

lemma readUint32_bigEndian32: "readUint32 (bigEndian32 w @ bs) = w"
proof -
  have "(((word_of_nat (unat (drop_bit 24 w) mod 256) * 256 + word_of_nat (unat (drop_bit 16 w) mod 256)) * 256 +
      word_of_nat (unat (drop_bit 8 w) mod 256)) * 256 + word_of_nat (unat w mod 256) :: 32 word) = w"
  proof -
    define n where "n = unat w"
    have n: "n < 2 ^ 32" using unsigned_less [of w, where 'a = nat] by (simp add: n_def)
    have div: "n div 2 ^ 16 = n div 2 ^ 8 div 256" "n div 2 ^ 24 = n div 2 ^ 8 div 256 div 256" by (simp_all add: div_mult2_eq [symmetric])
    have "n div 2 ^ 24 < 256" using n by (simp add: less_mult_imp_div_less)
    then have "((n div 2 ^ 24 mod 256 * 256 + n div 2 ^ 16 mod 256) * 256 + n div 2 ^ 8 mod 256) * 256 + n mod 256 = n"
      unfolding div by (simp add: div_mult_mod_eq)
    then have "word_of_nat (((n div 2 ^ 24 mod 256 * 256 + n div 2 ^ 16 mod 256) * 256 + n div 2 ^ 8 mod 256) * 256 + n mod 256) =
        (word_of_nat n :: 32 word)" by (rule arg_cong)
    moreover have "word_of_nat n = w" by (simp add: n_def)
    moreover have "unat (drop_bit k w) = n div 2 ^ k" for k
      using n unfolding n_def by (subst unsigned_drop_bit_eq) (simp add: drop_bit_eq_div take_bit_nat_eq_self)
    ultimately show ?thesis by (simp only: of_nat_add of_nat_mult of_nat_numeral n_def)
  qed
  then show ?thesis by (simp add: readUint32_def bigEndian32_def)
qed

lemma tcpFrame_parts:
  "readUint32 (tcpFrame method body) = word_of_nat (length method + length body) \<and> drop 4 (tcpFrame method body) = method @ body"
  by (simp add: tcpFrame_def Let_def readUint32_bigEndian32) (simp add: bigEndian32_def)

text \<open>Nothing in a frame says where the method ends and the body begins.\<close>

lemma tcpFrame_ambiguous: "tcpFrame (method @ x) body = tcpFrame method (x @ body)"
  by (simp add: tcpFrame_def)

text \<open>A connection without unread bytes, as every idle one should be, is closed instead of used again.\<close>

lemma poolGet_idle: "\<forall>c \<in> set cs. \<not> pending c \<Longrightarrow> poolGet pending dial cs = (dial, [], cs)"
  by (induction cs) (auto simp: isConnAlive_def)

subsection \<open>What a call reports\<close>

lemma reports [simp]:
  "sc_cb (failed now sc) = Failure now (sc_cb sc)" "sc_cb (succeeded sc) = Success (sc_cb sc)" "sc_cb (unhealthy inst sc) = sc_cb sc"
  by (simp_all add: failed_def succeeded_def unhealthy_def)

lemma callHTTP_report:
  "callHTTP N now inst method body sc w = (r, sc1, w1) \<Longrightarrow>
    sc_cb sc1 = (case r of Inr _ \<Rightarrow> Success (sc_cb sc) | Inl _ \<Rightarrow> Failure now (sc_cb sc))"
  by (auto simp: callHTTP_def Let_def split: prod.splits http_out.splits sum.splits if_splits)

lemma callTCP_report:
  "callTCP N now inst method body sc w = (r, sc1, w1) \<Longrightarrow>
    sc_cb sc1 = (case r of Inr _ \<Rightarrow> Success (sc_cb sc) | Inl _ \<Rightarrow> Failure now (sc_cb sc))"
  by (auto simp: callTCP_def Let_def split: prod.splits tcp_out.splits sum.splits if_splits)

lemma callGRPC_report: "callGRPC inst method sc w = (r, sc1, w1) \<Longrightarrow> (\<exists>e. r = Inl e) \<and> sc1 = sc \<and> w1 = w"
  by (auto simp: callGRPC_def split: if_splits)

lemma CallService_once:
  assumes "validServiceName (si_Name inst)" and "validMethodName method" and "length body \<le> maxBytes"
    and "ep_Protocol (si_Endpoint inst) \<in> {''http'', ''grpc'', ''tcp''}"
  shows "CallService N now (Some inst) method body sc w =
    (case callOnce N now inst method body sc w of
       (Inr bs, sc1, w1) \<Rightarrow> (Inr bs, sc1, w1)
     | (Inl e, sc1, w1) \<Rightarrow> (if isRetryableError e then Inl (Exhausted 1 e) else Inl e, sc1, w1))"
  using assms by (auto simp: CallService_def CallServiceWithRetry_def split: prod.splits sum.splits)

lemma CallService_refused:
  assumes "\<not> validServiceName (si_Name inst) \<or> \<not> validMethodName method \<or> length body > maxBytes \<or>
      ep_Protocol (si_Endpoint inst) \<notin> {''http'', ''grpc'', ''tcp''}"
  shows "\<exists>e. CallService N now (Some inst) method body sc w = (Inl e, sc, w)"
  using assms by (auto simp: CallService_def CallServiceWithRetry_def)

text \<open>
  C27: A call of a service over HTTP or TCP reports exactly one outcome to the circuit breaker, success exactly when it answers.  Every other
  call fails without a word to the breaker and without touching the network: one over gRPC or an unknown protocol, one
  with a name that is not allowed or a body that is too large, and in particular one without a method.
\<close>

theorem call_reports_outcome:
  assumes "CallService N now (Some inst) method body sc w = (r, sc1, w1)"
  shows "(validServiceName (si_Name inst) \<and> validMethodName method \<and> length body \<le> maxBytes \<and> ep_Protocol (si_Endpoint inst) \<in> {''http'', ''tcp''} \<longrightarrow>
      sc_cb sc1 = (case r of Inr _ \<Rightarrow> Success (sc_cb sc) | Inl _ \<Rightarrow> Failure now (sc_cb sc))) \<and>
    (\<not> validServiceName (si_Name inst) \<or> \<not> validMethodName method \<or> length body > maxBytes \<or> ep_Protocol (si_Endpoint inst) \<notin> {''http'', ''tcp''} \<longrightarrow>
      (\<exists>e. r = Inl e) \<and> sc1 = sc \<and> w1 = w) \<and>
    (method = [] \<longrightarrow> (\<exists>e. r = Inl e) \<and> sc1 = sc \<and> w1 = w)"
proof -
  have off: "(\<exists>e. r = Inl e) \<and> sc1 = sc \<and> w1 = w"
    if out: "\<not> validServiceName (si_Name inst) \<or> \<not> validMethodName method \<or> length body > maxBytes \<or> ep_Protocol (si_Endpoint inst) \<notin> {''http'', ''tcp''}"
  proof (cases "validServiceName (si_Name inst) \<and> validMethodName method \<and> length body \<le> maxBytes \<and> ep_Protocol (si_Endpoint inst) = ''grpc''")
    case True
    then have "callOnce N now inst method body sc w = callGRPC inst method sc w" by (simp add: callOnce_def)
    then show ?thesis using assms CallService_once [of inst "method" body N now sc w] True callGRPC_report [of inst "method" sc w]
      by (auto split: prod.splits sum.splits)
  next
    case False
    with out have "\<not> validServiceName (si_Name inst) \<or> \<not> validMethodName method \<or> length body > maxBytes \<or>
        ep_Protocol (si_Endpoint inst) \<notin> {''http'', ''grpc'', ''tcp''}" by auto
    from CallService_refused [OF this, of N now sc w] assms show ?thesis by auto
  qed
  moreover have "sc_cb sc1 = (case r of Inr _ \<Rightarrow> Success (sc_cb sc) | Inl _ \<Rightarrow> Failure now (sc_cb sc))"
    if valid: "validServiceName (si_Name inst)" "validMethodName method" "length body \<le> maxBytes" "ep_Protocol (si_Endpoint inst) \<in> {''http'', ''tcp''}"
  proof -
    obtain r0 sc0 w0 where once: "callOnce N now inst method body sc w = (r0, sc0, w0)" by (metis prod_cases3)
    then have "sc_cb sc0 = (case r0 of Inr _ \<Rightarrow> Success (sc_cb sc) | Inl _ \<Rightarrow> Failure now (sc_cb sc))"
      using valid(4) callHTTP_report callTCP_report by (fastforce simp: callOnce_def split: if_splits)
    then show ?thesis using assms CallService_once [of inst "method" body N now sc w] valid once by (auto split: sum.splits if_splits)
  qed
  moreover have "\<not> validMethodName []" by (simp add: validMethodName_def)
  ultimately show ?thesis by metis
qed

theorem call_reports_outcome_witness:
  "let ep = \<lparr>ep_NodeID = ''n'', ep_Address = ''h'', ep_Port = 80, ep_Protocol = ''http'', ep_Healthy = True, ep_Load = 0 :: nat, ep_Topic = [],
         ep_ReplyTopic = [], ep_ConsumerGroup = []\<rparr>;
       inst = \<lparr>si_ID = ''i'', si_Name = ''pay'', si_Version = [], si_Methods = [], si_Capabilities = \<lparr>cap_Sync = True, cap_Async = False\<rparr>,
         si_Endpoint = ep, si_Zone = [], si_Weight = 0, si_Tags = [], si_Metadata = [], si_Healthy = True, si_HeartbeatAt = 0, si_RegisteredAt = None\<rparr>;
       N = \<lparr>nt_http = (\<lambda>_ _ u. (Answer 503 (Inr []), u)), nt_dial = (\<lambda>_ u. (Inl [], u)), nt_pending = (\<lambda>_ _. False),
         nt_tcp = (\<lambda>_ _ u. (WriteLength [], u))\<rparr>;
       sc = \<lparr>sc_tls = False, sc_pools = [], sc_cb = NewCircuitBreaker 5 30, sc_reg = NewServiceRegistry\<rparr>
   in sc_cb (fst (snd (CallService N 7 (Some inst) ''auth'' ''x'' sc ()))) = Failure 7 (NewCircuitBreaker 5 30) \<and>
      sc_cb (fst (snd (CallService N 7 (Some inst) [] ''x'' sc ()))) = NewCircuitBreaker 5 30"
proof -
  define ep where "ep = \<lparr>ep_NodeID = ''n'', ep_Address = ''h'', ep_Port = 80, ep_Protocol = ''http'', ep_Healthy = True, ep_Load = 0 :: nat,
    ep_Topic = [], ep_ReplyTopic = [], ep_ConsumerGroup = []\<rparr>"
  define inst where "inst = \<lparr>si_ID = ''i'', si_Name = ''pay'', si_Version = [], si_Methods = [],
    si_Capabilities = \<lparr>cap_Sync = True, cap_Async = False\<rparr>, si_Endpoint = ep, si_Zone = [], si_Weight = 0, si_Tags = [], si_Metadata = [],
    si_Healthy = True, si_HeartbeatAt = 0, si_RegisteredAt = None\<rparr>"
  define N where "N = \<lparr>nt_http = (\<lambda>_ _ u :: unit. (Answer 503 (Inr []), u)), nt_dial = (\<lambda>_ u. (Inl [], u)), nt_pending = (\<lambda>_ _. False),
    nt_tcp = (\<lambda>_ _ u. (WriteLength [], u))\<rparr>"
  define sc where "sc = \<lparr>sc_tls = False, sc_pools = [], sc_cb = NewCircuitBreaker 5 30, sc_reg = NewServiceRegistry :: nat ServiceRegistry\<rparr>"
  have names: "validServiceName (si_Name inst)" "validMethodName ''auth''" "length ''x'' \<le> maxBytes" "ep_Protocol (si_Endpoint inst) = ''http''"
    by (simp_all add: inst_def ep_def validServiceName_def validMethodName_def alnum_def less_eq_char_def maxBytes_def)
  obtain r1 s1 w1 where 1: "CallService N 7 (Some inst) ''auth'' ''x'' sc () = (r1, s1, w1)" by (metis prod_cases3)
  obtain r2 s2 w2 where 2: "CallService N 7 (Some inst) [] ''x'' sc () = (r2, s2, w2)" by (metis prod_cases3)
  have fails: "\<exists>e. r1 = Inl e"
    using 1 CallService_once [OF names(1,2,3), of N 7 sc "()"] names(4) by (auto simp: callOnce_def callHTTP_def N_def split: if_splits)
  have "sc_cb s1 = Failure 7 (sc_cb sc)" using call_reports_outcome [OF 1] names fails by auto
  moreover have "s2 = sc" using call_reports_outcome [OF 2] by auto
  ultimately show ?thesis using 1 2 by (simp add: Let_def sc_def inst_def ep_def N_def)
qed

end
