(* ===== verification/Saga.thy ===== *)
theory Saga
  imports Prelude
begin

text \<open>
  Sagas: the tracker of \<^verbatim>\<open>server/internal/reliability/saga.go\<close> and the orchestrator adapter of
  \<^verbatim>\<open>pkgsupport.go\<close>.  A compensation is an external call; an operation that makes such calls
  returns, besides its result, the list of the calls in the order it made them.  Whether a
  call succeeds is the compensator's answer.  The directory maps execution ids to the
  steps of the file \<^verbatim>\<open><id>-saga.json\<close>, or is \<^term>\<open>None\<close>; writes to it succeed.
\<close>

subsection \<open>The tracker\<close>

record SagaStep =
  sg_ServiceName :: string
  sg_Method :: string
  sg_Body :: bytes
  sg_CompSvc :: string
  sg_CompMethod :: string

type_synonym comp_call = "string \<times> string \<times> bytes"

record SagaTracker =
  st_steps :: "(string, SagaStep list) gomap"
  st_call :: "comp_call \<Rightarrow> bool"
  st_files :: "(string, SagaStep list) gomap option"

definition load :: "SagaTracker \<Rightarrow> SagaTracker" where
  "load st =
     (case st_files st of
        None \<Rightarrow> st
      | Some fs \<Rightarrow> foldl (\<lambda>st (i, ss). st\<lparr>st_steps := AList.update i ss (st_steps st)\<rparr>) st fs)"

definition NewSagaTracker :: "(comp_call \<Rightarrow> bool) option \<Rightarrow> SagaTracker" where
  "NewSagaTracker call =
     \<lparr>st_steps = [], st_call = (case call of None \<Rightarrow> (\<lambda>_. True) | Some f \<Rightarrow> f), st_files = None\<rparr>"

definition NewSagaTrackerWithDir ::
  "(comp_call \<Rightarrow> bool) option \<Rightarrow> (string, SagaStep list) gomap option \<Rightarrow> SagaTracker" where
  "NewSagaTrackerWithDir call files =
     load \<lparr>st_steps = [], st_call = (case call of None \<Rightarrow> (\<lambda>_. True) | Some f \<Rightarrow> f), st_files = files\<rparr>"

definition SetDir :: "(string, SagaStep list) gomap option \<Rightarrow> SagaTracker \<Rightarrow> SagaTracker" where
  "SetDir files st = load (st\<lparr>st_files := files\<rparr>)"

definition SetCompensator :: "(comp_call \<Rightarrow> bool) option \<Rightarrow> SagaTracker \<Rightarrow> SagaTracker" where
  "SetCompensator fn st = (case fn of None \<Rightarrow> st | Some f \<Rightarrow> st\<lparr>st_call := f\<rparr>)"

definition stepsOf :: "string \<Rightarrow> SagaTracker \<Rightarrow> SagaStep list" where
  "stepsOf execID st = (case map_of (st_steps st) execID of None \<Rightarrow> [] | Some ss \<Rightarrow> ss)"

definition persistLocked :: "string \<Rightarrow> SagaTracker \<Rightarrow> SagaTracker" where
  "persistLocked execID st =
     st\<lparr>st_files := map_option (AList.update execID (stepsOf execID st)) (st_files st)\<rparr>"

definition RegisterStep :: "string \<Rightarrow> SagaStep \<Rightarrow> SagaTracker \<Rightarrow> SagaTracker" where
  "RegisterStep execID step st =
     persistLocked execID
       (st\<lparr>st_steps := AList.update execID (stepsOf execID st @ [step]) (st_steps st)\<rparr>)"

text \<open>The loop of \<^verbatim>\<open>Compensate\<close>, over the steps from the last to the first: the failed steps and the calls made.\<close>

fun compensateLoop ::
  "(comp_call \<Rightarrow> bool) \<Rightarrow> SagaStep list \<Rightarrow> SagaStep list \<times> comp_call list" where
  "compensateLoop call [] = ([], [])"
| "compensateLoop call (s # ss) =
     (if sg_CompSvc s = [] \<and> sg_CompMethod s = [] then compensateLoop call ss
      else
        let c = (sg_CompSvc s, sg_CompMethod s, sg_Body s); (errs, calls) = compensateLoop call ss
        in (if call c then errs else s # errs, c # calls))"

definition Compensate :: "string \<Rightarrow> SagaTracker \<Rightarrow> SagaStep list \<times> comp_call list \<times> SagaTracker" where
  "Compensate execID st =
     (let steps = stepsOf execID st;
          st1 = st\<lparr>st_steps := AList.delete execID (st_steps st)\<rparr>
      in if steps = [] then ([], [], st1)
         else case compensateLoop (st_call st1) (rev steps) of (errs, calls) \<Rightarrow> (errs, calls, st1))"

definition StepsFor :: "string \<Rightarrow> SagaTracker \<Rightarrow> SagaStep list" where
  "StepsFor execID st = stepsOf execID st"

definition Clear :: "string \<Rightarrow> SagaTracker \<Rightarrow> SagaTracker" where
  "Clear execID st =
     st\<lparr>st_steps := AList.delete execID (st_steps st),
        st_files := map_option (AList.delete execID) (st_files st)\<rparr>"

subsection \<open>The orchestrator\<close>

text \<open>A step of the orchestrator has a name, and may have a compensation.\<close>

record OrchStep =
  os_Name :: string
  os_HasCompensate :: bool

record sagaInstance =
  si_steps :: "OrchStep list"
  si_stepIdx :: nat

record SagaPkgAdapter =
  sa_inner :: SagaTracker
  sa_instances :: "(string, sagaInstance) gomap"

datatype saga_error = SagaNotFound string | AlreadyExecuted string | StepFailed string | StepNotFound string

definition Begin :: "string \<Rightarrow> OrchStep list \<Rightarrow> SagaPkgAdapter \<Rightarrow> SagaPkgAdapter" where
  "Begin sagaID steps a =
     a\<lparr>sa_instances := AList.update sagaID \<lparr>si_steps = steps, si_stepIdx = 0\<rparr> (sa_instances a)\<rparr>"

fun findStep :: "nat \<Rightarrow> string \<Rightarrow> OrchStep list \<Rightarrow> nat option" where
  "findStep i name [] = None"
| "findStep i name (s # ss) = (if os_Name s = name then Some i else findStep (i + 1) name ss)"

text \<open>\<open>ok\<close> says whether the step's \<^verbatim>\<open>Execute\<close> succeeds; the second result whether it was called.\<close>

definition ExecuteStep ::
  "bool \<Rightarrow> string \<Rightarrow> string \<Rightarrow> SagaPkgAdapter \<Rightarrow> saga_error option \<times> bool \<times> SagaPkgAdapter" where
  "ExecuteStep ok sagaID stepName a =
     (case map_of (sa_instances a) sagaID of
        None \<Rightarrow> (Some (SagaNotFound sagaID), False, a)
      | Some si \<Rightarrow>
          (case findStep 0 stepName (si_steps si) of
             None \<Rightarrow> (Some (StepNotFound stepName), False, a)
           | Some i \<Rightarrow>
               if i < si_stepIdx si then (Some (AlreadyExecuted stepName), False, a)
               else if \<not> ok then (Some (StepFailed stepName), True, a)
               else (None, True,
                     a\<lparr>sa_instances :=
                         AList.update sagaID (si\<lparr>si_stepIdx := i + 1\<rparr>) (sa_instances a)\<rparr>)))"

text \<open>
  The compensations called, in order: calls of the tracker's compensator, or names of
  steps.  \<open>ok\<close> says which step's compensation succeeds; the names of the others are the errors.
\<close>

definition OrchCompensate ::
  "(string \<Rightarrow> bool) \<Rightarrow> string \<Rightarrow> SagaPkgAdapter
     \<Rightarrow> string list \<times> (comp_call list + string list) \<times> SagaPkgAdapter" where
  "OrchCompensate ok sagaID a =
     (case map_of (sa_instances a) sagaID of
        None \<Rightarrow>
          (case Compensate sagaID (sa_inner a) of (errs, calls, inner) \<Rightarrow>
             (map sg_ServiceName errs, Inl calls, a\<lparr>sa_inner := inner\<rparr>))
      | Some si \<Rightarrow>
          let called = map os_Name (filter os_HasCompensate (rev (take (si_stepIdx si) (si_steps si))))
          in (filter (\<lambda>n. \<not> ok n) called, Inr called,
              a\<lparr>sa_instances := AList.update sagaID (si\<lparr>si_stepIdx := 0\<rparr>) (sa_instances a)\<rparr>))"

definition SagaStatus :: "string \<Rightarrow> SagaPkgAdapter \<Rightarrow> (string \<times> string list) option" where
  "SagaStatus sagaID a =
     (case map_of (sa_instances a) sagaID of
        None \<Rightarrow> None
      | Some si \<Rightarrow>
          Some (if si_stepIdx si \<ge> length (si_steps si) then ''completed'' else ''active'',
                map os_Name (take (si_stepIdx si) (si_steps si))))"

subsection \<open>Lemmas\<close>

lemma stepsOf_RegisterStep:
  "stepsOf i (RegisterStep execID s st) = (if i = execID then stepsOf execID st @ [s] else stepsOf i st)"
  by (simp add: RegisterStep_def persistLocked_def stepsOf_def)

lemma stepsOf_registers:
  "stepsOf i (foldl (\<lambda>st s. RegisterStep execID s st) st ss) =
     (if i = execID then stepsOf execID st @ ss else stepsOf i st)"
  by (induction ss arbitrary: st) (simp_all add: stepsOf_RegisterStep)

definition compCalls :: "SagaStep list \<Rightarrow> comp_call list" where
  "compCalls ss = map (\<lambda>s. (sg_CompSvc s, sg_CompMethod s, sg_Body s))
     (filter (\<lambda>s. sg_CompSvc s \<noteq> [] \<or> sg_CompMethod s \<noteq> []) ss)"

lemma compensateLoop_calls: "snd (compensateLoop call ss) = compCalls ss"
  by (induction ss) (auto simp: compCalls_def Let_def split: prod.split)

lemma compensateLoop_errors:
  "fst (compensateLoop call ss) = filter (\<lambda>s. (sg_CompSvc s \<noteq> [] \<or> sg_CompMethod s \<noteq> []) \<and>
     \<not> call (sg_CompSvc s, sg_CompMethod s, sg_Body s)) ss"
  by (induction ss) (auto simp: Let_def split: prod.split)

lemma Compensate_result:
  "Compensate execID st =
     (fst (compensateLoop (st_call st) (rev (stepsOf execID st))), compCalls (rev (stepsOf execID st)),
      st\<lparr>st_steps := AList.delete execID (st_steps st)\<rparr>)"
  using compensateLoop_calls [of "st_call st" "rev (stepsOf execID st)"]
  by (cases "compensateLoop (st_call st) (rev (stepsOf execID st))";
      cases "stepsOf execID st = []") (auto simp: Compensate_def Let_def compCalls_def)

lemma map_of_load:
  "distinct (map fst fs) \<Longrightarrow>
     map_of (st_steps (foldl (\<lambda>st (i, ss). st\<lparr>st_steps := AList.update i ss (st_steps st)\<rparr>) st fs)) i =
       (case map_of fs i of None \<Rightarrow> map_of (st_steps st) i | Some ss \<Rightarrow> Some ss)"
proof (induction fs arbitrary: st)
  case (Cons x fs)
  obtain k ss where x: "x = (k, ss)" by fastforce
  from Cons.prems have "map_of fs k = None" by (simp add: x map_of_eq_None_iff)
  with Cons.IH [of "st\<lparr>st_steps := AList.update k ss (st_steps st)\<rparr>"] Cons.prems show ?case
    by (simp add: x split: option.split)
qed simp

lemma stepsOf_load:
  "distinct (map fst fs) \<Longrightarrow> st_files st = Some fs \<Longrightarrow> st_steps st = [] \<Longrightarrow>
     stepsOf i (load st) =
       (case map_of fs i of None \<Rightarrow> [] | Some ss \<Rightarrow> ss)"
  by (simp add: load_def stepsOf_def map_of_load split: option.split)

lemma findStep_nth:
  "distinct (map os_Name ss) \<Longrightarrow> i < length ss \<Longrightarrow> findStep k (os_Name (ss ! i)) ss = Some (k + i)"
proof (induction ss arbitrary: k i)
  case (Cons s ss)
  then show ?case by (cases i) (auto dest: nth_mem)
qed simp

subsection \<open>Properties\<close>

text \<open>
  After the steps of an execution are registered in order, \<^verbatim>\<open>Compensate\<close> calls exactly their
  compensations (those of steps that have one), last step first, reports the steps whose
  compensation failed, and forgets the execution: a second \<^verbatim>\<open>Compensate\<close> calls nothing.
\<close>

lemma Compensate_reverse:
  assumes "stepsOf execID st = []"
  shows "case Compensate execID (foldl (\<lambda>st s. RegisterStep execID s st) st ss) of (errs, calls, st1) \<Rightarrow>
    calls = compCalls (rev ss) \<and> set errs \<subseteq> set ss \<and>
    (errs = [] \<longleftrightarrow> list_all (st_call st1) calls) \<and> fst (snd (Compensate execID st1)) = []"
proof -
  let ?st = "foldl (\<lambda>st s. RegisterStep execID s st) st ss"
  let ?st1 = "?st\<lparr>st_steps := AList.delete execID (st_steps ?st)\<rparr>"
  have "stepsOf execID ?st = ss" "stepsOf execID ?st1 = []"
    using assms by (simp_all add: stepsOf_registers) (simp add: stepsOf_def)
  then show ?thesis
    by (auto simp: Compensate_result compensateLoop_errors compCalls_def filter_empty_conv list_all_iff)
qed

text \<open>
  \<^verbatim>\<open>Compensate\<close> leaves the execution's file in the directory: a tracker restarted from it knows
  all steps of the compensated execution again, and would compensate them a second time.
\<close>

lemma Compensate_restart:
  assumes "st_files st = Some fs" and "distinct (map fst fs)"
    and "Compensate execID (RegisterStep execID step st) = (errs, calls, st1)"
    and "NewSagaTrackerWithDir call (st_files st1) = st2"
  shows "stepsOf execID st2 = stepsOf execID st @ [step] \<and>
    fst (snd (Compensate execID st2)) = calls"
proof -
  let ?st = "RegisterStep execID step st"
  have "st_files st1 = Some (AList.update execID (stepsOf execID st @ [step]) fs)"
    using assms(1,3) by (auto simp: Compensate_result RegisterStep_def persistLocked_def stepsOf_def)
  with assms(2,4) have "stepsOf execID st2 = stepsOf execID st @ [step]"
    by (auto simp: NewSagaTrackerWithDir_def distinct_update
        stepsOf_load [of "AList.update execID (stepsOf execID st @ [step]) fs"])
  with assms(3) show ?thesis by (auto simp: Compensate_result stepsOf_RegisterStep)
qed

text \<open>
  The orchestrator lets a step run before the steps in front of it, and then compensates
  those too although they never ran: after executing only the step at position \<open>i\<close> of a new
  saga, compensation calls the compensations of all steps up to \<open>i\<close>, last first.
\<close>

lemma OrchCompensate_unexecuted:
  assumes "distinct (map os_Name steps)" and "i < length steps"
  shows "\<exists>a1. ExecuteStep True sagaID (os_Name (steps ! i)) (Begin sagaID steps a) = (None, True, a1) \<and>
    fst (snd (OrchCompensate ok sagaID a1)) =
      Inr (map os_Name (filter os_HasCompensate (rev (take (Suc i) steps))))"
  using findStep_nth [OF assms, of 0]
  by (simp add: ExecuteStep_def Begin_def OrchCompensate_def Let_def)

end
