(* ===== verification/Exec_State.thy ===== *)
theory Exec_State
  imports Prelude "HOL-Library.Word" "HOL-Library.Multiset"
begin

text \<open>
  The stores of execution states of \<^verbatim>\<open>server/internal/execstate\<close>: a map in memory, a directory with one file per
  execution and an index of the states by status, and the adapter of the package interface.  A file holds the
  state its text encodes, or no state when the text does not parse; its name is the id it is stored under.  Whether the disk accepts a
  write is an argument.  The order in which a map is walked is an argument too.
\<close>

subsection \<open>States\<close>

datatype Status = StatusCreated | StatusRunning | StatusWaitingForService | StatusCompleted | StatusFailed

fun statusString :: "Status \<Rightarrow> string" where
  "statusString StatusCreated = ''created''"
| "statusString StatusRunning = ''running''"
| "statusString StatusWaitingForService = ''waiting_for_service''"
| "statusString StatusCompleted = ''completed''"
| "statusString StatusFailed = ''failed''"

definition statusFromString :: "string \<Rightarrow> Status" where
  "statusFromString s =
     (if s = ''created'' then StatusCreated
      else if s = ''running'' then StatusRunning
      else if s = ''waiting_for_service'' then StatusWaitingForService
      else if s = ''completed'' then StatusCompleted
      else if s = ''failed'' then StatusFailed
      else StatusCreated)"

record State =
  st_ID :: string
  st_RuleID :: string
  st_Version :: "64 word"
  st_PlanBytes :: bytes
  st_CtxBytes :: bytes
  st_Status :: Status
  st_PendingSvc :: "16 word"
  st_PendingBody :: bytes
  st_Error :: string
  st_Output :: bytes
  st_CreatedAt :: gotime
  st_UpdatedAt :: gotime

datatype store_error = AlreadyExists string | NotFound string | DiskError | Unreadable

subsection \<open>The store in memory\<close>

type_synonym MemoryStore = "(string, State) gomap"

definition NewMemoryStore :: MemoryStore where
  "NewMemoryStore = []"

definition msCreate :: "State \<Rightarrow> MemoryStore \<Rightarrow> store_error option \<times> MemoryStore" where
  "msCreate s ms =
     (case map_of ms (st_ID s) of
        Some _ \<Rightarrow> (Some (AlreadyExists (st_ID s)), ms)
      | None \<Rightarrow> (None, AList.update (st_ID s) s ms))"

definition msSave :: "gotime \<Rightarrow> State \<Rightarrow> MemoryStore \<Rightarrow> MemoryStore" where
  "msSave now s ms = AList.update (st_ID s) (s\<lparr>st_UpdatedAt := now\<rparr>) ms"

definition msLoad :: "string \<Rightarrow> MemoryStore \<Rightarrow> store_error + State" where
  "msLoad ident ms = (case map_of ms ident of None \<Rightarrow> Inl (NotFound ident) | Some s \<Rightarrow> Inr s)"

definition msListByStatus :: "Status list \<Rightarrow> MemoryStore \<Rightarrow> State list" where
  "msListByStatus statuses ms =
     sort_key st_CreatedAt (filter (\<lambda>s. statuses = [] \<or> st_Status s \<in> set statuses) (map snd ms))"

definition msDelete :: "string \<Rightarrow> MemoryStore \<Rightarrow> store_error option \<times> MemoryStore" where
  "msDelete ident ms =
     (case map_of ms ident of None \<Rightarrow> (Some (NotFound ident), ms) | Some _ \<Rightarrow> (None, AList.delete ident ms))"

subsection \<open>The store on disk\<close>

text \<open>Every operation on an id holds the lock of its shard, one of sixteen.\<close>

definition shardCount :: nat where
  "shardCount = 16"

definition fnv32 :: "string \<Rightarrow> 32 word" where
  "fnv32 s = foldl (\<lambda>h c. (xor h (word_of_nat (of_char c))) * 16777619) 2166136261 s"

definition shardFor :: "string \<Rightarrow> nat" where
  "shardFor ident = unat (fnv32 ident) mod shardCount"

record FileStore =
  fs_files :: "(string, State option) gomap"
  fs_index :: "(Status \<times> string) set"

definition addToIndex :: "string \<Rightarrow> Status \<Rightarrow> FileStore \<Rightarrow> FileStore" where
  "addToIndex ident s fs = fs\<lparr>fs_index := insert (s, ident) (fs_index fs)\<rparr>"

definition removeFromIndex :: "string \<Rightarrow> FileStore \<Rightarrow> FileStore" where
  "removeFromIndex ident fs = fs\<lparr>fs_index := {(s, i) \<in> fs_index fs. i \<noteq> ident}\<rparr>"

text \<open>The zero status stands for no status at all, and for an execution that was created.\<close>

definition updateIndex :: "string \<Rightarrow> Status \<Rightarrow> Status \<Rightarrow> FileStore \<Rightarrow> FileStore" where
  "updateIndex ident oldStatus newStatus fs =
     (if oldStatus = newStatus then fs
      else fs\<lparr>fs_index := insert (newStatus, ident)
               (if oldStatus \<noteq> StatusCreated then fs_index fs - {(oldStatus, ident)} else fs_index fs)\<rparr>)"

definition getStatusFromIndex :: "Status list \<Rightarrow> string \<Rightarrow> FileStore \<Rightarrow> Status" where
  "getStatusFromIndex order ident fs =
     (case find (\<lambda>s. (s, ident) \<in> fs_index fs) order of None \<Rightarrow> StatusCreated | Some s \<Rightarrow> s)"

definition buildIndex :: "(string, State option) gomap \<Rightarrow> FileStore" where
  "buildIndex files =
     foldl (\<lambda>fs (ident, content). case content of None \<Rightarrow> fs | Some s \<Rightarrow> addToIndex ident (st_Status s) fs)
       \<lparr>fs_files = files, fs_index = {}\<rparr> files"

definition NewFileStore :: "(string, State option) gomap \<Rightarrow> FileStore" where
  "NewFileStore = buildIndex"

definition fsWrite :: "string \<Rightarrow> State \<Rightarrow> FileStore \<Rightarrow> FileStore" where
  "fsWrite ident s fs = fs\<lparr>fs_files := AList.update ident (Some s) (fs_files fs)\<rparr>"

definition fsRead :: "string \<Rightarrow> FileStore \<Rightarrow> store_error + State" where
  "fsRead ident fs =
     (case map_of (fs_files fs) ident of
        None \<Rightarrow> Inl (NotFound ident)
      | Some None \<Rightarrow> Inl Unreadable
      | Some (Some s) \<Rightarrow> Inr s)"

definition fsCreate :: "bool \<Rightarrow> State \<Rightarrow> FileStore \<Rightarrow> store_error option \<times> FileStore" where
  "fsCreate disk s fs =
     (if map_of (fs_files fs) (st_ID s) \<noteq> None then (Some (AlreadyExists (st_ID s)), fs)
      else if \<not> disk then (Some DiskError, fs)
      else (None, addToIndex (st_ID s) (st_Status s) (fsWrite (st_ID s) s fs)))"

definition fsSave :: "bool \<Rightarrow> Status list \<Rightarrow> gotime \<Rightarrow> State \<Rightarrow> FileStore \<Rightarrow> store_error option \<times> FileStore" where
  "fsSave disk order now s fs =
     (let oldStatus = getStatusFromIndex order (st_ID s) fs; s1 = s\<lparr>st_UpdatedAt := now\<rparr>
      in if \<not> disk then (Some DiskError, fs)
         else (None, updateIndex (st_ID s) oldStatus (st_Status s) (fsWrite (st_ID s) s1 fs)))"

definition fsLoad :: "string \<Rightarrow> FileStore \<Rightarrow> store_error + State" where
  "fsLoad ident fs = fsRead ident fs"

definition fsCandidates :: "Status list \<Rightarrow> string list \<Rightarrow> Status list \<Rightarrow> FileStore \<Rightarrow> string list" where
  "fsCandidates order ids statuses fs =
     concat (map (\<lambda>s. filter (\<lambda>i. (s, i) \<in> fs_index fs) ids) (if statuses = [] then order else statuses))"

definition fsListByStatus :: "Status list \<Rightarrow> string list \<Rightarrow> Status list \<Rightarrow> FileStore \<Rightarrow> State list" where
  "fsListByStatus order ids statuses fs =
     sort_key st_CreatedAt (concat (map (\<lambda>i. case fsRead i fs of Inl _ \<Rightarrow> [] | Inr s \<Rightarrow> [s]) (fsCandidates order ids statuses fs)))"

definition fsDelete :: "bool \<Rightarrow> string \<Rightarrow> FileStore \<Rightarrow> store_error option \<times> FileStore" where
  "fsDelete disk ident fs =
     (if \<not> disk \<and> map_of (fs_files fs) ident \<noteq> None then (Some DiskError, fs)
      else (None, removeFromIndex ident (fs\<lparr>fs_files := AList.delete ident (fs_files fs)\<rparr>)))"

subsection \<open>The adapter of the package interface\<close>

record ExecutionRecord =
  er_ID :: string
  er_PlanID :: string
  er_State :: string
  er_Body :: bytes
  er_Output :: bytes
  er_Error :: string
  er_CreatedAt :: gotime
  er_CompletedAt :: "gotime option"
  er_NodeID :: string

definition recordState :: "gotime \<Rightarrow> ExecutionRecord \<Rightarrow> State" where
  "recordState updated r =
     \<lparr>st_ID = er_ID r, st_RuleID = er_PlanID r, st_Version = 0, st_PlanBytes = [], st_CtxBytes = [],
      st_Status = statusFromString (er_State r), st_PendingSvc = 0, st_PendingBody = [], st_Error = er_Error r, st_Output = er_Output r,
      st_CreatedAt = er_CreatedAt r, st_UpdatedAt = updated\<rparr>"

definition stateToRecord :: "State \<Rightarrow> ExecutionRecord" where
  "stateToRecord st =
     \<lparr>er_ID = st_ID st, er_PlanID = st_RuleID st, er_State = statusString (st_Status st), er_Body = [], er_Output = st_Output st, er_Error = st_Error st,
      er_CreatedAt = st_CreatedAt st, er_CompletedAt = Some (st_UpdatedAt st), er_NodeID = []\<rparr>"

definition esCreate :: "bool \<Rightarrow> gotime \<Rightarrow> ExecutionRecord \<Rightarrow> FileStore \<Rightarrow> store_error option \<times> FileStore" where
  "esCreate disk now r fs =
     fsCreate disk (recordState (case er_CompletedAt r of None \<Rightarrow> now | Some t \<Rightarrow> t) r) fs"

definition esSave :: "bool \<Rightarrow> Status list \<Rightarrow> gotime \<Rightarrow> ExecutionRecord \<Rightarrow> FileStore \<Rightarrow> store_error option \<times> FileStore" where
  "esSave disk order now r fs = fsSave disk order now (recordState now r) fs"

definition esLoad :: "string \<Rightarrow> FileStore \<Rightarrow> store_error + ExecutionRecord" where
  "esLoad ident fs = (case fsLoad ident fs of Inl e \<Rightarrow> Inl e | Inr st \<Rightarrow> Inr (stateToRecord st))"

definition esList :: "Status list \<Rightarrow> string list \<Rightarrow> FileStore \<Rightarrow> ExecutionRecord list" where
  "esList order ids fs = map stateToRecord (fsListByStatus order ids [] fs)"

definition esListByPlan :: "Status list \<Rightarrow> string list \<Rightarrow> string \<Rightarrow> FileStore \<Rightarrow> ExecutionRecord list" where
  "esListByPlan order ids planID fs = filter (\<lambda>r. er_PlanID r = planID) (esList order ids fs)"

definition esDelete :: "bool \<Rightarrow> string \<Rightarrow> FileStore \<Rightarrow> store_error option \<times> FileStore" where
  "esDelete = fsDelete"

subsection \<open>The contract of a store\<close>

text \<open>
  What an execution relies on: a store is a map from ids to states.  \<open>inv\<close> is what a store keeps true of itself, \<open>view\<close> the map it
  stands for.  Both stores meet the contract, and what follows from it is proved once.
\<close>

datatype store_event =
    EvCreate State
  | EvSave "Status list" gotime State
  | EvDelete string

fun storeStep ::
  "(State \<Rightarrow> 's \<Rightarrow> 's) \<Rightarrow> (Status list \<Rightarrow> gotime \<Rightarrow> State \<Rightarrow> 's \<Rightarrow> 's) \<Rightarrow> (string \<Rightarrow> 's \<Rightarrow> 's) \<Rightarrow> 's \<Rightarrow> store_event \<Rightarrow> 's" where
  "storeStep create save delete st (EvCreate s) = create s st"
| "storeStep create save delete st (EvSave order now s) = save order now s st"
| "storeStep create save delete st (EvDelete ident) = delete ident st"

fun mapStep :: "(string \<rightharpoonup> State) \<Rightarrow> store_event \<Rightarrow> (string \<rightharpoonup> State)" where
  "mapStep m (EvCreate s) = (if m (st_ID s) = None then m(st_ID s \<mapsto> s) else m)"
| "mapStep m (EvSave order now s) = m(st_ID s \<mapsto> s\<lparr>st_UpdatedAt := now\<rparr>)"
| "mapStep m (EvDelete ident) = m(ident := None)"

locale state_store =
  fixes inv :: "'s \<Rightarrow> bool"
    and view :: "'s \<Rightarrow> (string \<rightharpoonup> State)"
    and create :: "State \<Rightarrow> 's \<Rightarrow> 's"
    and save :: "Status list \<Rightarrow> gotime \<Rightarrow> State \<Rightarrow> 's \<Rightarrow> 's"
    and delete :: "string \<Rightarrow> 's \<Rightarrow> 's"
    and load :: "string \<Rightarrow> 's \<Rightarrow> store_error + State"
  assumes create: "inv st \<Longrightarrow> inv (create s st) \<and> view (create s st) = mapStep (view st) (EvCreate s)"
    and save: "inv st \<Longrightarrow> inv (save order now s st) \<and> view (save order now s st) = mapStep (view st) (EvSave order now s)"
    and delete: "inv st \<Longrightarrow> inv (delete ident st) \<and> view (delete ident st) = mapStep (view st) (EvDelete ident)"
    and load: "inv st \<Longrightarrow> load ident st = (case view st ident of None \<Rightarrow> Inl (NotFound ident) | Some s \<Rightarrow> Inr s)"
begin

lemma run_view:
  "inv st \<Longrightarrow> inv (foldl (storeStep create save delete) st evs) \<and>
    view (foldl (storeStep create save delete) st evs) = foldl mapStep (view st) evs"
proof (induction evs arbitrary: st)
  case (Cons ev evs)
  have "inv (storeStep create save delete st ev) \<and> view (storeStep create save delete st ev) = mapStep (view st) ev"
    using create save delete Cons.prems by (cases ev) auto
  with Cons.IH [of "storeStep create save delete st ev"] show ?case by simp
qed simp

end

abbreviation memStep :: "MemoryStore \<Rightarrow> store_event \<Rightarrow> MemoryStore" where
  "memStep \<equiv> storeStep (\<lambda>s m. snd (msCreate s m)) (\<lambda>_. msSave) (\<lambda>i m. snd (msDelete i m))"

abbreviation fileStep :: "FileStore \<Rightarrow> store_event \<Rightarrow> FileStore" where
  "fileStep \<equiv> storeStep (\<lambda>s f. snd (fsCreate True s f)) (\<lambda>order now s f. snd (fsSave True order now s f)) (\<lambda>i f. snd (fsDelete True i f))"

definition readable :: "FileStore \<Rightarrow> bool" where
  "readable fs \<longleftrightarrow> distinct (map fst (fs_files fs)) \<and> (\<forall>i. map_of (fs_files fs) i \<noteq> Some None)"

definition fileView :: "FileStore \<Rightarrow> (string \<rightharpoonup> State)" where
  "fileView fs i = (case map_of (fs_files fs) i of None \<Rightarrow> None | Some c \<Rightarrow> c)"

interpretation mem: state_store "\<lambda>m. distinct (map fst m)" map_of "\<lambda>s m. snd (msCreate s m)" "\<lambda>_. msSave" "\<lambda>i m. snd (msDelete i m)" msLoad
  by unfold_locales
    (auto simp: msCreate_def msSave_def msDelete_def msLoad_def distinct_update distinct_delete fun_eq_iff split: option.splits)

lemma index_frame [simp]:
  "fs_files (addToIndex i s fs) = fs_files fs" "fs_files (removeFromIndex i fs) = fs_files fs" "fs_files (updateIndex i a b fs) = fs_files fs"
  "fs_index (fsWrite i st fs) = fs_index fs" "fs_files (fsWrite i st fs) = AList.update i (Some st) (fs_files fs)"
  by (simp_all add: addToIndex_def removeFromIndex_def updateIndex_def fsWrite_def)

lemma readable_Some: "readable fs \<Longrightarrow> map_of (fs_files fs) i = Some c \<Longrightarrow> \<exists>s. c = Some s"
  unfolding readable_def by (cases c) blast+

interpretation disk: state_store readable fileView "\<lambda>s f. snd (fsCreate True s f)" "\<lambda>order now s f. snd (fsSave True order now s f)"
  "\<lambda>i f. snd (fsDelete True i f)" fsLoad
proof unfold_locales
  fix st s assume "readable st"
  then show "readable (snd (fsCreate True s st)) \<and> fileView (snd (fsCreate True s st)) = mapStep (fileView st) (EvCreate s)"
  proof (cases "map_of (fs_files st) (st_ID s)")
    case (Some c)
    with \<open>readable st\<close> obtain t where "c = Some t" using readable_Some by metis
    with Some \<open>readable st\<close> show ?thesis by (simp add: fsCreate_def fileView_def)
  qed (auto simp: readable_def fsCreate_def fileView_def distinct_update fun_eq_iff)
next
  fix st order now s assume "readable st"
  then show "readable (snd (fsSave True order now s st)) \<and> fileView (snd (fsSave True order now s st)) = mapStep (fileView st) (EvSave order now s)"
    by (auto simp: readable_def fsSave_def Let_def fileView_def distinct_update fun_eq_iff)
next
  fix st ident assume "readable st"
  then show "readable (snd (fsDelete True ident st)) \<and> fileView (snd (fsDelete True ident st)) = mapStep (fileView st) (EvDelete ident)"
    by (auto simp: readable_def fsDelete_def fileView_def distinct_delete fun_eq_iff)
next
  fix st ident assume "readable st"
  then show "fsLoad ident st = (case fileView st ident of None \<Rightarrow> Inl (NotFound ident) | Some s \<Rightarrow> Inr s)"
    using readable_Some [of st ident] by (cases "map_of (fs_files st) ident") (auto simp: fsLoad_def fsRead_def fileView_def)
qed

subsection \<open>The index after a restart\<close>

lemma buildIndex_fold:
  "fs_files (foldl (\<lambda>fs (i, c). case c of None \<Rightarrow> fs | Some s \<Rightarrow> addToIndex i (st_Status s) fs) fs m) = fs_files fs \<and>
   fs_index (foldl (\<lambda>fs (i, c). case c of None \<Rightarrow> fs | Some s \<Rightarrow> addToIndex i (st_Status s) fs) fs m) =
     fs_index fs \<union> {(st_Status s, i) | i s. (i, Some s) \<in> set m}"
  by (induction m arbitrary: fs) (auto simp: addToIndex_def split: option.splits)

lemma NewFileStore_index:
  "fs_files (NewFileStore files) = files" "(t, i) \<in> fs_index (NewFileStore files) \<longleftrightarrow> (\<exists>s. (i, Some s) \<in> set files \<and> st_Status s = t)"
  using buildIndex_fold [of "\<lparr>fs_files = files, fs_index = {}\<rparr>" files] by (auto simp: NewFileStore_def buildIndex_def)

lemma mset_values: "distinct (map fst m) \<Longrightarrow> mset (map snd m) = image_mset (the \<circ> map_of m) (mset_set (dom (map_of m)))"
proof -
  assume d: "distinct (map fst m)"
  then have "map snd m = map (the \<circ> map_of m) (map fst m)" by (auto simp: map_of_is_SomeI)
  moreover have "mset (map fst m) = mset_set (dom (map_of m))" using d by (simp add: mset_set_set dom_map_of_conv_image_fst flip: set_map)
  ultimately show ?thesis by (metis mset_map)
qed

lemma listed_states:
  assumes "readable fs" and "distinct ids" and "set ids = fst ` set (fs_files fs)"
  shows "mset (concat (map (\<lambda>i. case fsRead i fs of Inl _ \<Rightarrow> [] | Inr s \<Rightarrow> [s]) (filter (\<lambda>i. Q (the (fileView fs i))) ids))) =
    image_mset (the \<circ> fileView fs) (filter_mset (\<lambda>i. Q (the (fileView fs i))) (mset_set (dom (fileView fs))))"
proof -
  have read: "(case fsRead i fs of Inl _ \<Rightarrow> [] | Inr s \<Rightarrow> [s]) = [the (fileView fs i)]" if i: "i \<in> set ids" for i
  proof -
    obtain c where c: "map_of (fs_files fs) i = Some c" using i assms(3) by (metis domD dom_map_of_conv_image_fst)
    then obtain s where "c = Some s" using readable_Some [OF assms(1)] by metis
    with c show ?thesis by (simp add: fsRead_def fileView_def)
  qed
  have "map (\<lambda>i. case fsRead i fs of Inl _ \<Rightarrow> [] | Inr s \<Rightarrow> [s]) (filter (\<lambda>i. Q (the (fileView fs i))) ids) =
      map (\<lambda>i. [the (fileView fs i)]) (filter (\<lambda>i. Q (the (fileView fs i))) ids)" by (rule map_cong [OF refl]) (simp add: read)
  then have "concat (map (\<lambda>i. case fsRead i fs of Inl _ \<Rightarrow> [] | Inr s \<Rightarrow> [s]) (filter (\<lambda>i. Q (the (fileView fs i))) ids)) =
      map (the \<circ> fileView fs) (filter (\<lambda>i. Q (the (fileView fs i))) ids)" by (simp only: concat_map_singleton comp_def)
  moreover have "dom (fileView fs) = set ids"
  proof -
    have "fileView fs i \<noteq> None \<longleftrightarrow> i \<in> fst ` set (fs_files fs)" for i
      using readable_Some [OF assms(1), of i] map_of_eq_None_iff [of "fs_files fs" i]
      by (cases "map_of (fs_files fs) i") (auto simp: fileView_def simp del: map_of_eq_Some_iff)
    then show ?thesis unfolding assms(3) by blast
  qed
  ultimately show ?thesis using assms(2) by (simp add: mset_set_set)
qed

lemma restarted_candidates:
  assumes "readable fs" and "r = NewFileStore (fs_files fs)" and "set ids = fst ` set (fs_files fs)"
  shows "readable r \<and> fileView r = fileView fs \<and> filter (\<lambda>i. (t, i) \<in> fs_index r) ids = filter (\<lambda>i. st_Status (the (fileView r i)) = t) ids"
proof -
  have "(t, i) \<in> fs_index r \<longleftrightarrow> st_Status (the (fileView fs i)) = t" if i: "i \<in> set ids" for i
  proof -
    obtain c where c: "map_of (fs_files fs) i = Some c" using i assms(3) by (metis domD dom_map_of_conv_image_fst)
    then obtain s where s: "c = Some s" using readable_Some [OF assms(1)] by metis
    have "(i, Some u) \<in> set (fs_files fs) \<longleftrightarrow> u = s" for u
      using c s assms(1) unfolding readable_def by (metis eq_key_imp_eq_value map_of_SomeD option.inject)
    then show ?thesis using c s by (auto simp: assms(2) NewFileStore_index(2) fileView_def)
  qed
  moreover have "readable r" "fileView r = fileView fs" using assms(1) by (auto simp: assms(2) readable_def fileView_def NewFileStore_index(1) fun_eq_iff)
  ultimately show ?thesis by (auto intro: filter_cong)
qed



text \<open>
  The index of a running store is not exact: an execution that was created stays listed under that status for good, since the
  number of the status stands for none at all, and it is listed twice when no status is asked for.
\<close>

lemma created_stays_listed:
  assumes "st_Status s = StatusCreated" and "t \<notin> {StatusCreated, StatusFailed}" and "order = [StatusCreated, t]"
    and "f = foldl fileStep (NewFileStore []) [EvCreate s, EvSave order now (s\<lparr>st_Status := t\<rparr>)]"
  shows "fsListByStatus order [st_ID s] [StatusCreated] f = [s\<lparr>st_Status := t, st_UpdatedAt := now\<rparr>] \<and>
    length (fsListByStatus order [st_ID s] [] f) = 2"
  using assms
  by (simp add: fsCreate_def fsSave_def Let_def fsListByStatus_def fsCandidates_def fsRead_def NewFileStore_index updateIndex_def
      addToIndex_def fsWrite_def getStatusFromIndex_def)

lemma record_roundtrip: "statusFromString (statusString s) = s"
  by (cases s) (simp_all add: statusFromString_def)

end
