(* ===== verification/Dedup.thy ===== *)
theory Dedup
  imports Prelude
begin

text \<open>
  The duplicate tracker of \<^verbatim>\<open>server/internal/reliability/dedup.go\<close>: a map from keys to time stamps with
  a linked list of the keys, most recently marked first.  A list element holds its key, so
  \<open>dt_order\<close> is the list of the keys, and moving or removing an entry's element is moving or removing its key.
  The list specification \<open>lru_mark\<close> says what the two structures implement together.
\<close>

subsection \<open>Operations\<close>

record DedupTracker =
  dt_entries :: "(string, gotime) gomap"
  dt_order :: "string list"
  dt_maxSize :: nat
  dt_ttl :: duration

definition NewDedupTracker :: "int \<Rightarrow> duration \<Rightarrow> DedupTracker" where
  "NewDedupTracker maxSize ttl =
     \<lparr>dt_entries = [], dt_order = [],
      dt_maxSize = (if maxSize \<le> 0 then 10000 else nat maxSize),
      dt_ttl = (if ttl \<le> 0 then 5 * 60 * 10 ^ 9 else ttl)\<rparr>"

definition Seen :: "string \<Rightarrow> DedupTracker \<Rightarrow> bool" where
  "Seen key dt \<longleftrightarrow> map_of (dt_entries dt) key \<noteq> None"

definition touch :: "gotime \<Rightarrow> string \<Rightarrow> DedupTracker \<Rightarrow> DedupTracker" where
  "touch now key dt =
     dt\<lparr>dt_order := key # remove1 key (dt_order dt),
        dt_entries := AList.update key now (dt_entries dt)\<rparr>"

definition evictOldest :: "DedupTracker \<Rightarrow> DedupTracker" where
  "evictOldest dt =
     (if dt_order dt = [] then dt
      else dt\<lparr>dt_order := butlast (dt_order dt),
              dt_entries := AList.delete (last (dt_order dt)) (dt_entries dt)\<rparr>)"

definition markLocked :: "gotime \<Rightarrow> string \<Rightarrow> DedupTracker \<Rightarrow> DedupTracker" where
  "markLocked now key dt =
     (if map_of (dt_entries dt) key \<noteq> None then touch now key dt
      else
        let dt1 = (if length (dt_entries dt) \<ge> dt_maxSize dt then evictOldest dt else dt)
        in dt1\<lparr>dt_order := key # dt_order dt1,
               dt_entries := AList.update key now (dt_entries dt1)\<rparr>)"

definition Mark :: "gotime \<Rightarrow> string \<Rightarrow> DedupTracker \<Rightarrow> DedupTracker" where
  "Mark now key dt = markLocked now key dt"

definition CheckAndMark :: "gotime \<Rightarrow> string \<Rightarrow> DedupTracker \<Rightarrow> bool \<times> DedupTracker" where
  "CheckAndMark now key dt =
     (if map_of (dt_entries dt) key \<noteq> None then (True, touch now key dt)
      else (False, markLocked now key dt))"

definition dropKey :: "string \<Rightarrow> DedupTracker \<Rightarrow> DedupTracker" where
  "dropKey k d = d\<lparr>dt_order := remove1 k (dt_order d), dt_entries := AList.delete k (dt_entries d)\<rparr>"

definition cleanup :: "gotime \<Rightarrow> DedupTracker \<Rightarrow> DedupTracker" where
  "cleanup now dt =
     foldl (\<lambda>d (k, ts). if now - ts > dt_ttl d then dropKey k d else d) dt (dt_entries dt)"

definition Len :: "DedupTracker \<Rightarrow> nat" where
  "Len dt = length (dt_entries dt)"

definition Clear :: "DedupTracker \<Rightarrow> DedupTracker" where
  "Clear dt = dt\<lparr>dt_entries := [], dt_order := []\<rparr>"

subsection \<open>The invariant\<close>

definition dedup_inv :: "DedupTracker \<Rightarrow> bool" where
  "dedup_inv dt \<longleftrightarrow> distinct (dt_order dt) \<and> distinct (map fst (dt_entries dt)) \<and>
     set (dt_order dt) = fst ` set (dt_entries dt) \<and>
     0 < dt_maxSize dt \<and> length (dt_entries dt) \<le> dt_maxSize dt"

lemma dedup_inv_length: "dedup_inv dt \<Longrightarrow> length (dt_order dt) = length (dt_entries dt)"
  by (metis dedup_inv_def distinct_card length_map list.set_map)

lemma dedup_inv_known: "dedup_inv dt \<Longrightarrow> map_of (dt_entries dt) k = None \<longleftrightarrow> k \<notin> set (dt_order dt)"
  by (simp add: dedup_inv_def map_of_eq_None_iff)

definition lru_mark :: "nat \<Rightarrow> string \<Rightarrow> string list \<Rightarrow> string list" where
  "lru_mark n k ks =
     (if k \<in> set ks then k # remove1 k ks
      else k # (if length ks \<ge> n then butlast ks else ks))"

text \<open>The tracker's list is the specification's, as long as the invariant holds.\<close>

lemma markLocked_order:
  "dedup_inv dt \<Longrightarrow> dt_order (markLocked now k dt) = lru_mark (dt_maxSize dt) k (dt_order dt)"
  by (auto simp: markLocked_def lru_mark_def touch_def evictOldest_def Let_def dedup_inv_known
      dedup_inv_length)

lemma set_butlast: "distinct ks \<Longrightarrow> ks \<noteq> [] \<Longrightarrow> set (butlast ks) = set ks - {last ks}"
  by (cases ks rule: rev_cases) auto

lemma dropKey_inv [keep_inv]: "dedup_inv d \<Longrightarrow> dedup_inv (dropKey k d)"
  using length_delete_le [of k "dt_entries d"]
  by (auto simp: dedup_inv_def dropKey_def distinct_delete keys_delete)

lemma touch_inv [keep_inv]:
  "dedup_inv dt \<Longrightarrow> map_of (dt_entries dt) k \<noteq> None \<Longrightarrow> dedup_inv (touch now k dt)"
  by (auto simp: dedup_inv_def touch_def distinct_update dom_update map_of_eq_None_iff length_update_old)

lemma evictOldest_inv:
  assumes "dedup_inv dt"
  shows "dedup_inv (evictOldest dt) \<and> length (dt_entries (evictOldest dt)) < dt_maxSize dt \<or>
    length (dt_entries dt) < dt_maxSize dt"
proof (cases "dt_order dt = []")
  case True
  with dedup_inv_length [OF assms] assms show ?thesis by (simp add: dedup_inv_def)
next
  case False
  with assms have k: "last (dt_order dt) \<in> fst ` set (dt_entries dt)"
    by (metis dedup_inv_def last_in_set)
  then have "length (AList.delete (last (dt_order dt)) (dt_entries dt)) < length (dt_entries dt)"
    by (auto simp: AList.delete_eq intro: length_filter_less)
  with assms False show ?thesis
    by (auto simp: dedup_inv_def evictOldest_def distinct_butlast distinct_delete keys_delete set_butlast)
qed

lemma markLocked_inv [keep_inv]:
  assumes "dedup_inv dt"
  shows "dedup_inv (markLocked now k dt)"
proof (cases "map_of (dt_entries dt) k = None")
  case True
  define d where "d = (if length (dt_entries dt) \<ge> dt_maxSize dt then evictOldest dt else dt)"
  have d: "dedup_inv d" "length (dt_entries d) < dt_maxSize d"
    using evictOldest_inv [OF assms] assms by (auto simp: d_def evictOldest_def)
  have "k \<notin> fst ` set (dt_entries d)"
    using True by (auto simp: d_def evictOldest_def map_of_eq_None_iff keys_delete)
  with d show ?thesis
    unfolding markLocked_def Let_def d_def [symmetric]
    by (simp add: True dedup_inv_def distinct_update dom_update length_update_new)
qed (simp add: markLocked_def touch_inv assms)

lemma foldl_dropKey:
  fixes xs :: "(string \<times> gotime) list" and now :: gotime
  defines "f \<equiv> \<lambda>d (k, ts). if now - ts > dt_ttl d then dropKey k d else d"
  shows "dedup_inv d \<Longrightarrow> dedup_inv (foldl f d xs)"
    "map_of (dt_entries (foldl f d xs)) k =
       (if \<exists>ts. (k, ts) \<in> set xs \<and> now - ts > dt_ttl d then None else map_of (dt_entries d) k)"
proof -
  show "dedup_inv d \<Longrightarrow> dedup_inv (foldl f d xs)"
    by (induction xs arbitrary: d) (auto simp: f_def dropKey_inv)
  show "map_of (dt_entries (foldl f d xs)) k =
       (if \<exists>ts. (k, ts) \<in> set xs \<and> now - ts > dt_ttl d then None else map_of (dt_entries d) k)"
  proof (induction xs arbitrary: d)
    case (Cons x xs)
    obtain k' ts where x: "x = (k', ts)" by fastforce
    have "dt_ttl (f d x) = dt_ttl d" "map_of (dt_entries (f d x)) k =
        (if k' = k \<and> now - ts > dt_ttl d then None else map_of (dt_entries d) k)"
      by (auto simp: f_def dropKey_def x)
    then show ?case using Cons.IH [of "f d x"] by (auto simp: x)
  qed simp
qed

lemma cleanup_inv [keep_inv]: "dedup_inv dt \<Longrightarrow> dedup_inv (cleanup now dt)"
  unfolding cleanup_def by (rule foldl_dropKey(1))

lemma map_of_cleanup:
  assumes "dedup_inv dt"
  shows "map_of (dt_entries (cleanup now dt)) k =
     (case map_of (dt_entries dt) k of None \<Rightarrow> None | Some ts \<Rightarrow> if now - ts > dt_ttl dt then None else Some ts)"
proof -
  have key: "(k, ts) \<in> set (dt_entries dt) \<longleftrightarrow> map_of (dt_entries dt) k = Some ts" for ts
    using assms by (simp add: dedup_inv_def)
  show ?thesis unfolding cleanup_def foldl_dropKey(2) key by (simp split: option.split)
qed

lemma Clear_inv [keep_inv]: "dedup_inv dt \<Longrightarrow> dedup_inv (Clear dt)"
  by (simp add: Clear_def dedup_inv_def)

lemma New_inv [keep_inv]: "dedup_inv (NewDedupTracker n ttl)"
  by (simp add: NewDedupTracker_def dedup_inv_def)

datatype dedup_call = CallMark gotime string | CallCheckAndMark gotime string | CallCleanup gotime | CallClear

fun dedupStep :: "DedupTracker \<Rightarrow> dedup_call \<Rightarrow> DedupTracker" where
  "dedupStep dt (CallMark now k) = Mark now k dt"
| "dedupStep dt (CallCheckAndMark now k) = snd (CheckAndMark now k dt)"
| "dedupStep dt (CallCleanup now) = cleanup now dt"
| "dedupStep dt CallClear = Clear dt"

interpretation dedup: machine dedupStep dedup_inv
proof
  fix dt e
  assume "dedup_inv dt"
  then show "dedup_inv (dedupStep dt e)"
    by (cases e) (auto simp: Mark_def CheckAndMark_def keep_inv)
qed

subsection \<open>The least recently used key is evicted\<close>

text \<open>
  \<open>fresh n k ks\<close> holds of a key list where \<open>k\<close> is known and only keys of the set \<open>ks\<close> were marked after it.
\<close>

definition fresh :: "string \<Rightarrow> string set \<Rightarrow> string list \<Rightarrow> bool" where
  "fresh k later ks \<longleftrightarrow> k \<in> set ks \<and> set (takeWhile (\<lambda>x. x \<noteq> k) ks) \<subseteq> later"

lemma takeWhile_remove1:
  "k \<noteq> x \<Longrightarrow> set (takeWhile (\<lambda>y. y \<noteq> k) (remove1 x ks)) \<subseteq> set (takeWhile (\<lambda>y. y \<noteq> k) ks)"
proof (induction ks)
  case (Cons a ks)
  then show ?case by (cases "a = x"; cases "a = k") auto
qed simp

lemma fresh_butlast:
  assumes "fresh k later ks" and "distinct ks" and "k = last ks" and "finite later"
  shows "length ks \<le> Suc (card (later - {k}))"
proof -
  obtain ys where ks: "ks = ys @ [k]"
    using assms(1,3) by (cases ks rule: rev_cases) (auto simp: fresh_def)
  with assms(2) have ys: "k \<notin> set ys" "distinct ys" by auto
  then have "takeWhile (\<lambda>x. x \<noteq> k) ks = ys @ takeWhile (\<lambda>x. x \<noteq> k) [k]"
    unfolding ks by (intro takeWhile_append2) auto
  with assms(1) ys(1) have "set ys \<subseteq> later - {k}" by (auto simp: fresh_def)
  then have "card (set ys) \<le> card (later - {k})" using assms(4) by (simp add: card_mono)
  with ys(2) show ?thesis by (simp add: ks distinct_card)
qed

lemma fresh_lru_mark:
  assumes "fresh k later ks" and "distinct ks" and "finite later" and "card (insert x later - {k}) < n"
  shows "fresh k (insert x later) (lru_mark n x ks)"
proof (cases "x = k \<or> x \<in> set ks \<or> length ks < n")
  case True
  then consider "x = k" | "x \<noteq> k" "x \<in> set ks" | "x \<noteq> k" "x \<notin> set ks" "length ks < n" by blast
  then show ?thesis
  proof cases
    case 2
    with assms(1) takeWhile_remove1 [of k x ks] show ?thesis by (auto simp: fresh_def lru_mark_def)
  qed (use assms(1) in \<open>auto simp: fresh_def lru_mark_def\<close>)
next
  case False
  then have x: "x \<noteq> k" "x \<notin> set ks" and n: "n \<le> length ks" by auto
  have "k \<noteq> last ks"
  proof
    assume k: "k = last ks"
    have tw: "set (takeWhile (\<lambda>y. y \<noteq> k) ks) \<subseteq> later - {x} "
      using assms(1) x(2) by (auto simp: fresh_def dest: set_takeWhileD)
    then have "fresh k (later - {x}) ks" using assms(1) by (simp add: fresh_def)
    from fresh_butlast [OF this assms(2) k] assms(3)
    have "length ks \<le> Suc (card (later - {x} - {k}))" by simp
    moreover have "card (insert x later - {k}) = Suc (card (later - {x} - {k}))"
    proof -
      have "insert x later - {k} = insert x (later - {x} - {k})" using x(1) by auto
      then show ?thesis using assms(3) by simp
    qed
    ultimately show False using assms(4) n by simp
  qed
  moreover obtain ys z where ks: "ks = ys @ [z]"
    using assms(1) by (cases ks rule: rev_cases) (auto simp: fresh_def)
  ultimately have k: "k \<in> set ys" using assms(1) by (simp add: fresh_def)
  then have "takeWhile (\<lambda>y. y \<noteq> k) ks = takeWhile (\<lambda>y. y \<noteq> k) ys"
    unfolding ks by (rule takeWhile_append1) simp
  with assms(1) k x n show ?thesis by (auto simp: fresh_def lru_mark_def ks)
qed

lemma markLocked_frame [simp]:
  "dt_maxSize (markLocked now k dt) = dt_maxSize dt"
  by (simp add: markLocked_def touch_def evictOldest_def Let_def)

lemma fresh_marks:
  assumes "dedup_inv dt" and "fresh k later (dt_order dt)" and "finite later"
    and "card (later \<union> snd ` set marks - {k}) < dt_maxSize dt"
  shows "fresh k (later \<union> snd ` set marks) (dt_order (foldl (\<lambda>dt (now, key). Mark now key dt) dt marks)) \<and>
    dedup_inv (foldl (\<lambda>dt (now, key). Mark now key dt) dt marks)"
  using assms
proof (induction marks arbitrary: dt later)
  case (Cons m marks)
  obtain now x where m: "m = (now, x)" by fastforce
  let ?dt = "Mark now x dt"
  have "card (insert x later - {k}) \<le> card (later \<union> snd ` set (m # marks) - {k})"
    using Cons.prems(3) by (intro card_mono) (auto simp: m)
  with Cons.prems have "fresh k (insert x later) (dt_order ?dt)"
    by (auto simp: Mark_def markLocked_order dedup_inv_def intro!: fresh_lru_mark)
  with Cons.IH [of ?dt "insert x later"] Cons.prems show ?case
    by (simp add: m Mark_def markLocked_inv)
qed simp

lemma Seen_iff: "dedup_inv dt \<Longrightarrow> Seen k dt \<longleftrightarrow> k \<in> set (dt_order dt)"
  by (simp add: Seen_def dedup_inv_known)

subsection \<open>Properties\<close>

text \<open>
  Whatever calls a tracker has seen, its map and its list hold the same keys, each once, and
  there are at most \<^verbatim>\<open>maxSize\<close> of them.
\<close>

lemma dedup_invariant: "dedup_inv (foldl dedupStep (NewDedupTracker n ttl) calls)"
  using New_inv by (rule dedup.run_inv)



text \<open>
  \<^verbatim>\<open>CheckAndMark\<close> reports a duplicate exactly for the keys seen before, and leaves its key
  seen; cleanup forgets exactly the keys whose last mark is older than the time to live.
\<close>

lemma dedup_check:
  assumes "dedup_inv dt"
  shows "fst (CheckAndMark now k dt) = Seen k dt \<and> Seen k (snd (CheckAndMark now k dt)) \<and>
    map_of (dt_entries (snd (CheckAndMark now k dt))) k = Some now \<and>
    (Seen k (cleanup now dt) \<longleftrightarrow> (\<exists>ts. map_of (dt_entries dt) k = Some ts \<and> now - ts \<le> dt_ttl dt))"
  using assms
  by (auto simp: CheckAndMark_def Seen_def markLocked_def touch_def Let_def map_of_cleanup split: option.split)

end
