(* ===== verification/Dead_Letter.thy ===== *)
theory Dead_Letter
  imports Prelude "HOL-Library.Char_ord" "HOL-Library.List_Lexorder"
begin

text \<open>
  The dead-letter queue of \<^verbatim>\<open>server/internal/reliability/dlq.go\<close> and its adapter in \<^verbatim>\<open>pkgsupport.go\<close>.
  The directory is a map from entry ids to the entry of the file \<^verbatim>\<open><id>.json\<close>, or \<^term>\<open>None\<close> when the
  queue has no directory; writes to it succeed.  The replay function and the Kafka
  producer are functions of the entry that say whether the call succeeds.  A message to load
  is \<^term>\<open>None\<close> when it cannot be decoded.
\<close>

subsection \<open>State\<close>

record DeadLetterEntry =
  dl_ID :: string
  dl_RuleID :: string
  dl_Topic :: string
  dl_Partition :: int
  dl_Offset :: int
  dl_Body :: bytes
  dl_Error :: string
  dl_FailedAt :: gotime
  dl_RetryCount :: int

record DLQ =
  dlq_entries :: "DeadLetterEntry list"
  dlq_maxSize :: nat
  dlq_replayFn :: "(DeadLetterEntry \<Rightarrow> bool) option"
  dlq_producer :: "(DeadLetterEntry \<Rightarrow> bool) option"
  dlq_files :: "(string, DeadLetterEntry) gomap option"

datatype dlq_error = InvalidEntryID string | ProduceFailed | ReplayFailed

definition safeIDChar :: "char \<Rightarrow> bool" where
  "safeIDChar c \<longleftrightarrow>
     list_ex (\<lambda>(lo, hi). lo \<le> c \<and> c \<le> hi) [(CHR ''a'', CHR ''z''), (CHR ''A'', CHR ''Z''), (CHR ''0'', CHR ''9'')] \<or>
     c \<in> set ''_-''"

definition safeID :: "string \<Rightarrow> bool" where
  "safeID i \<longleftrightarrow> i \<noteq> [] \<and> list_all safeIDChar i"

subsection \<open>Operations\<close>

definition persistEntry :: "DeadLetterEntry \<Rightarrow> DLQ \<Rightarrow> DLQ" where
  "persistEntry e d = d\<lparr>dlq_files := map_option (AList.update (dl_ID e) e) (dlq_files d)\<rparr>"

definition removePersisted :: "string \<Rightarrow> DLQ \<Rightarrow> DLQ" where
  "removePersisted i d = d\<lparr>dlq_files := map_option (AList.delete i) (dlq_files d)\<rparr>"

text \<open>The names of a directory are listed in order.\<close>

definition loadFromDir :: "DLQ \<Rightarrow> DLQ" where
  "loadFromDir d =
     (case dlq_files d of
        None \<Rightarrow> d
      | Some fs \<Rightarrow>
          d\<lparr>dlq_entries := dlq_entries d @ map snd (sort_key (\<lambda>(i, e). i @ ''.json'') fs)\<rparr>)"

definition NewDLQ ::
  "int \<Rightarrow> (DeadLetterEntry \<Rightarrow> bool) option \<Rightarrow> (string, DeadLetterEntry) gomap option \<Rightarrow> DLQ" where
  "NewDLQ maxSize producer files =
     loadFromDir
       \<lparr>dlq_entries = [], dlq_maxSize = (if maxSize \<le> 0 then 10000 else nat maxSize),
        dlq_replayFn = None, dlq_producer = producer, dlq_files = files\<rparr>"

definition SetReplayFn :: "(DeadLetterEntry \<Rightarrow> bool) option \<Rightarrow> DLQ \<Rightarrow> DLQ" where
  "SetReplayFn fn d = d\<lparr>dlq_replayFn := fn\<rparr>"

definition evict :: "DLQ \<Rightarrow> DLQ" where
  "evict d =
     (if length (dlq_entries d) \<ge> dlq_maxSize d
      then removePersisted (dl_ID (hd (dlq_entries d))) (d\<lparr>dlq_entries := tl (dlq_entries d)\<rparr>)
      else d)"

definition Send :: "gotime \<Rightarrow> DeadLetterEntry \<Rightarrow> DLQ \<Rightarrow> dlq_error option \<times> DLQ" where
  "Send now e d =
     (if \<not> safeID (dl_ID e) then (Some (InvalidEntryID (dl_ID e)), d)
      else
        let e1 = e\<lparr>dl_FailedAt := now\<rparr>;
            d1 = evict d;
            d2 = persistEntry e1 (d1\<lparr>dlq_entries := dlq_entries d1 @ [e1]\<rparr>)
        in case dlq_producer d2 of
             None \<Rightarrow> (None, d2)
           | Some produce \<Rightarrow> (if produce e1 then None else Some ProduceFailed, d2))"

fun loadMessages ::
  "string set \<Rightarrow> nat \<Rightarrow> DeadLetterEntry option list \<Rightarrow> DLQ \<Rightarrow> nat \<times> DLQ" where
  "loadMessages existing added [] d = (added, d)"
| "loadMessages existing added (None # ms) d = loadMessages existing added ms d"
| "loadMessages existing added (Some e # ms) d =
     (if \<not> safeID (dl_ID e) then loadMessages existing added ms d
      else if dl_ID e \<in> existing then loadMessages existing added ms d
      else
        let d1 = evict d
        in loadMessages (insert (dl_ID e) existing) (added + 1) ms
             (persistEntry e (d1\<lparr>dlq_entries := dlq_entries d1 @ [e]\<rparr>)))"

definition LoadFromMessages :: "DeadLetterEntry option list \<Rightarrow> DLQ \<Rightarrow> nat \<times> DLQ" where
  "LoadFromMessages messages d = loadMessages (dl_ID ` set (dlq_entries d)) 0 messages d"

definition Replay :: "string \<Rightarrow> DLQ \<Rightarrow> dlq_error option \<times> DLQ" where
  "Replay i d =
     (case find (\<lambda>e. dl_ID e = i) (dlq_entries d) of
        None \<Rightarrow> (None, d)
      | Some e \<Rightarrow>
          let idx = length (takeWhile (\<lambda>e. dl_ID e \<noteq> i) (dlq_entries d));
              d1 = removePersisted i
                (d\<lparr>dlq_entries := take idx (dlq_entries d) @ drop (idx + 1) (dlq_entries d)\<rparr>)
          in case dlq_replayFn d1 of
               None \<Rightarrow> (None, d1)
             | Some fn \<Rightarrow>
                 (if fn (e\<lparr>dl_RetryCount := dl_RetryCount e + 1\<rparr>) then None else Some ReplayFailed, d1))"

fun replayLoop :: "(DeadLetterEntry \<Rightarrow> bool) \<Rightarrow> gotime \<Rightarrow> nat \<Rightarrow> DeadLetterEntry list \<Rightarrow> DLQ \<Rightarrow> nat \<times> DLQ" where
  "replayLoop fn now count [] d = (count, d)"
| "replayLoop fn now count (e # es) d =
     (let e1 = e\<lparr>dl_RetryCount := dl_RetryCount e + 1\<rparr> in
      if \<not> fn e1 then replayLoop fn now count es (snd (Send now e1 d))
      else replayLoop fn now (count + 1) es (removePersisted (dl_ID e1) d))"

definition ReplayAll :: "gotime \<Rightarrow> DLQ \<Rightarrow> nat \<times> DLQ" where
  "ReplayAll now d =
     (let entries = dlq_entries d; d1 = d\<lparr>dlq_entries := []\<rparr> in
      case dlq_replayFn d1 of
        None \<Rightarrow> (0, d1)
      | Some fn \<Rightarrow> replayLoop fn now 0 entries d1)"

definition ListEntries :: "DLQ \<Rightarrow> DeadLetterEntry list" where
  "ListEntries d = dlq_entries d"

definition Len :: "DLQ \<Rightarrow> nat" where
  "Len d = length (dlq_entries d)"

definition Clear :: "DLQ \<Rightarrow> DLQ" where
  "Clear d = foldl (\<lambda>d e. removePersisted (dl_ID e) d) (d\<lparr>dlq_entries := []\<rparr>) (dlq_entries d)"

subsection \<open>The adapter\<close>

record DeadLetterMessage =
  dm_OriginalTopic :: string
  dm_Body :: bytes
  dm_FailCount :: int
  dm_LastError :: string
  dm_FailedAt :: gotime

definition toMessage :: "DeadLetterEntry \<Rightarrow> DeadLetterMessage" where
  "toMessage e = \<lparr>dm_OriginalTopic = dl_Topic e, dm_Body = dl_Body e, dm_FailCount = dl_RetryCount e,
     dm_LastError = dl_Error e, dm_FailedAt = dl_FailedAt e\<rparr>"

text \<open>The id of a pushed message is \<^verbatim>\<open>dlq-\<close> followed by the clock reading, which is not negative.\<close>

definition Push :: "gotime \<Rightarrow> gotime \<Rightarrow> DeadLetterMessage \<Rightarrow> DLQ \<Rightarrow> dlq_error option \<times> DLQ" where
  "Push idTime now msg d =
     Send now \<lparr>dl_ID = ''dlq-'' @ dec (nat idTime), dl_RuleID = [], dl_Topic = dm_OriginalTopic msg,
       dl_Partition = 0, dl_Offset = 0, dl_Body = dm_Body msg, dl_Error = dm_LastError msg,
       dl_FailedAt = dm_FailedAt msg, dl_RetryCount = dm_FailCount msg\<rparr> d"

definition Pop :: "DLQ \<Rightarrow> DeadLetterMessage option \<times> DLQ" where
  "Pop d =
     (case dlq_entries d of
        [] \<Rightarrow> (None, d)
      | e # es \<Rightarrow> (Some (toMessage e), removePersisted (dl_ID e) (d\<lparr>dlq_entries := es\<rparr>)))"

definition Peek :: "DLQ \<Rightarrow> DeadLetterMessage option" where
  "Peek d = (case dlq_entries d of [] \<Rightarrow> None | e # _ \<Rightarrow> Some (toMessage e))"

subsection \<open>The entries\<close>

definition keepLast :: "nat \<Rightarrow> 'a list \<Rightarrow> 'a list" where
  "keepLast n xs = drop (length xs - n) xs"

lemma keepLast_keepLast: "keepLast n (keepLast n xs @ ys) = keepLast n (xs @ ys)"
  by (cases "n \<le> length xs") (simp_all add: keepLast_def add.commute)

lemma keepLast_short: "length xs \<le> n \<Longrightarrow> keepLast n xs = xs"
  by (simp add: keepLast_def)

lemma length_keepLast [simp]: "length (keepLast n xs) \<le> n"
  by (simp add: keepLast_def)

definition dlq_inv :: "DLQ \<Rightarrow> bool" where
  "dlq_inv d \<longleftrightarrow> 0 < dlq_maxSize d \<and> length (dlq_entries d) \<le> dlq_maxSize d"

lemma persist_frame [simp]:
  "dlq_entries (persistEntry e d) = dlq_entries d" "dlq_entries (removePersisted i d) = dlq_entries d"
  "dlq_maxSize (persistEntry e d) = dlq_maxSize d" "dlq_maxSize (removePersisted i d) = dlq_maxSize d"
  "dlq_producer (persistEntry e d) = dlq_producer d" "dlq_producer (removePersisted i d) = dlq_producer d"
  "dlq_replayFn (persistEntry e d) = dlq_replayFn d" "dlq_replayFn (removePersisted i d) = dlq_replayFn d"
  by (simp_all add: persistEntry_def removePersisted_def)

lemma evict_frame [simp]:
  "dlq_maxSize (evict d) = dlq_maxSize d" "dlq_producer (evict d) = dlq_producer d"
  "dlq_replayFn (evict d) = dlq_replayFn d"
  by (simp_all add: evict_def)

lemma evict_entries:
  "dlq_inv d \<Longrightarrow> dlq_entries (evict d) @ [e] = keepLast (dlq_maxSize d) (dlq_entries d @ [e])"
  by (cases "dlq_entries d") (auto simp: dlq_inv_def evict_def keepLast_def Suc_diff_le)

lemma Send_entries:
  assumes "dlq_inv d"
  shows "dlq_entries (snd (Send now e d)) =
    (if safeID (dl_ID e) then keepLast (dlq_maxSize d) (dlq_entries d @ [e\<lparr>dl_FailedAt := now\<rparr>])
     else dlq_entries d)"
  using evict_entries [OF assms] by (simp add: Send_def Let_def split: option.split)

lemma Send_frame [simp]:
  "dlq_maxSize (snd (Send now e d)) = dlq_maxSize d" "dlq_replayFn (snd (Send now e d)) = dlq_replayFn d"
  by (simp_all add: Send_def Let_def split: option.split)

lemma Send_inv [keep_inv]: "dlq_inv d \<Longrightarrow> dlq_inv (snd (Send now e d))"
  using Send_entries [of d now e] by (simp add: dlq_inv_def)

lemma loadMessages_inv: "dlq_inv d \<Longrightarrow> dlq_inv (snd (loadMessages existing added ms d))"
proof (induction existing added ms d rule: loadMessages.induct)
  case (3 existing added e ms d)
  have "dlq_inv (persistEntry e ((evict d)\<lparr>dlq_entries := dlq_entries (evict d) @ [e]\<rparr>))"
    using "3.prems" by (simp add: dlq_inv_def evict_entries [unfolded dlq_inv_def])
  with 3 show ?case by (simp add: Let_def)
qed simp_all

lemma Replay_inv [keep_inv]: "dlq_inv d \<Longrightarrow> dlq_inv (snd (Replay i d))"
  by (simp add: Replay_def Let_def dlq_inv_def split: option.split) linarith

lemma replayLoop_inv: "dlq_inv d \<Longrightarrow> dlq_inv (snd (replayLoop fn now n es d))"
proof (induction fn now n es d rule: replayLoop.induct)
  case (2 fn now n e es d)
  have "dlq_inv (removePersisted i d)" for i using "2.prems" by (simp add: dlq_inv_def)
  with 2 show ?case by (simp add: Let_def Send_inv)
qed simp

lemma ReplayAll_inv [keep_inv]: "dlq_inv d \<Longrightarrow> dlq_inv (snd (ReplayAll now d))"
  by (auto simp: ReplayAll_def Let_def dlq_inv_def intro!: replayLoop_inv [unfolded dlq_inv_def] split: option.split)

lemma Clear_frame: "dlq_entries (Clear d) = [] \<and> dlq_maxSize (Clear d) = dlq_maxSize d"
proof -
  have "dlq_entries (foldl (\<lambda>d e. removePersisted (dl_ID e) d) d es) = dlq_entries d \<and>
      dlq_maxSize (foldl (\<lambda>d e. removePersisted (dl_ID e) d) d es) = dlq_maxSize d" for d and es :: "DeadLetterEntry list"
    by (induction es arbitrary: d) simp_all
  then show ?thesis by (simp add: Clear_def)
qed

datatype dlq_call =
    CallSend gotime DeadLetterEntry
  | CallLoad "DeadLetterEntry option list"
  | CallReplay string
  | CallReplayAll gotime
  | CallSetReplay "(DeadLetterEntry \<Rightarrow> bool) option"
  | CallPop
  | CallClear

fun dlqStep :: "DLQ \<Rightarrow> dlq_call \<Rightarrow> DLQ" where
  "dlqStep d (CallSend now e) = snd (Send now e d)"
| "dlqStep d (CallLoad ms) = snd (LoadFromMessages ms d)"
| "dlqStep d (CallReplay i) = snd (Replay i d)"
| "dlqStep d (CallReplayAll now) = snd (ReplayAll now d)"
| "dlqStep d (CallSetReplay fn) = SetReplayFn fn d"
| "dlqStep d CallPop = snd (Pop d)"
| "dlqStep d CallClear = Clear d"

interpretation dlq: machine dlqStep dlq_inv
proof
  fix d e
  assume inv: "dlq_inv d"
  then show "dlq_inv (dlqStep d e)"
    using Clear_frame [of d]
    by (cases e) (auto simp: keep_inv LoadFromMessages_def loadMessages_inv SetReplayFn_def Pop_def
        dlq_inv_def [of "Clear d"] split: list.split, simp_all add: dlq_inv_def)
qed

lemma Sends_entries:
  "dlq_inv d \<Longrightarrow> \<forall>(now, e) \<in> set es. safeID (dl_ID e) \<Longrightarrow>
     dlq_entries (foldl (\<lambda>d (now, e). snd (Send now e d)) d es) =
       keepLast (dlq_maxSize d) (dlq_entries d @ map (\<lambda>(now, e). e\<lparr>dl_FailedAt := now\<rparr>) es)"
proof (induction es arbitrary: d)
  case Nil
  then show ?case by (simp add: keepLast_short dlq_inv_def)
next
  case (Cons x es)
  obtain now e where x: "x = (now, e)" by fastforce
  with Cons.prems have "safeID (dl_ID e)" by auto
  with Cons show ?case
    by (simp add: x Send_inv Send_entries keepLast_keepLast)
qed

definition retried :: "gotime \<Rightarrow> DeadLetterEntry \<Rightarrow> DeadLetterEntry" where
  "retried now e = e\<lparr>dl_RetryCount := dl_RetryCount e + 1, dl_FailedAt := now\<rparr>"

abbreviation bumped :: "DeadLetterEntry \<Rightarrow> DeadLetterEntry" where
  "bumped e \<equiv> e\<lparr>dl_RetryCount := dl_RetryCount e + 1\<rparr>"

lemma replayLoop_result:
  "dlq_inv d \<Longrightarrow> length (dlq_entries d) + length es \<le> dlq_maxSize d \<Longrightarrow> \<forall>e \<in> set es. safeID (dl_ID e) \<Longrightarrow>
     fst (replayLoop fn now n es d) = n + length (filter (\<lambda>e. fn (bumped e)) es) \<and>
     dlq_entries (snd (replayLoop fn now n es d)) =
       dlq_entries d @ map (retried now) (filter (\<lambda>e. \<not> fn (bumped e)) es)"
proof (induction fn now n es d rule: replayLoop.induct)
  case (2 fn now n e es d)
  have "dlq_inv (removePersisted i d)" for i using "2.prems" by (simp add: dlq_inv_def)
  with 2 show ?case
    by (simp add: Let_def Send_inv Send_entries keepLast_short retried_def)
qed simp

subsection \<open>The directory\<close>

text \<open>The files of the directory are the entries of the queue, by their distinct ids.\<close>

definition synced :: "DLQ \<Rightarrow> bool" where
  "synced d \<longleftrightarrow> distinct (map dl_ID (dlq_entries d)) \<and>
     (\<forall>fs. dlq_files d = Some fs \<longrightarrow> distinct (map fst fs) \<and>
        set fs = (\<lambda>e. (dl_ID e, e)) ` set (dlq_entries d))"

lemma set_alist_delete: "set (AList.delete k m) = {(k', v). (k', v) \<in> set m \<and> k' \<noteq> k}"
  by (auto simp: AList.delete_eq)

lemma set_alist_update_new:
  "k \<notin> fst ` set m \<Longrightarrow> set (AList.update k v m) = insert (k, v) (set m)"
  by (induction m) auto

lemma synced_removed:
  assumes "synced d" and "dlq_entries d = xs @ e # ys"
  shows "synced (removePersisted (dl_ID e) (d\<lparr>dlq_entries := xs @ ys\<rparr>))"
  using assms
  by (auto simp: synced_def removePersisted_def distinct_delete set_alist_delete image_iff)

lemma evict_synced: "synced d \<Longrightarrow> dlq_inv d \<Longrightarrow> synced (evict d)"
  using synced_removed [of d "[]"] by (cases "dlq_entries d") (auto simp: evict_def dlq_inv_def)

lemma added_synced:
  assumes "synced d" and "dl_ID e \<notin> dl_ID ` set (dlq_entries d)"
  shows "synced (persistEntry e (d\<lparr>dlq_entries := dlq_entries d @ [e]\<rparr>))"
  using assms
  by (auto simp: synced_def persistEntry_def distinct_update set_alist_update_new image_iff)

lemma evict_ids: "dl_ID ` set (dlq_entries (evict d)) \<subseteq> dl_ID ` set (dlq_entries d)"
  by (cases "dlq_entries d") (auto simp: evict_def)

lemma Send_synced:
  assumes "synced d" and "dlq_inv d" and "dl_ID e \<notin> dl_ID ` set (dlq_entries d)"
  shows "synced (snd (Send now e d))"
proof -
  have "dl_ID (e\<lparr>dl_FailedAt := now\<rparr>) \<notin> dl_ID ` set (dlq_entries (evict d))"
    using assms(3) evict_ids by auto
  with added_synced [OF evict_synced [OF assms(1,2)] this] assms(1) show ?thesis
    by (simp add: Send_def Let_def split: option.split)
qed

lemma find_split:
  "find P xs = Some x \<Longrightarrow> xs = takeWhile (\<lambda>y. \<not> P y) xs @ x # drop (Suc (length (takeWhile (\<lambda>y. \<not> P y) xs))) xs"
  by (induction xs) (auto split: if_splits)

lemma find_SomeD: "find P xs = Some x \<Longrightarrow> P x \<and> x \<in> set xs"
  by (induction xs) (auto split: if_splits)

lemma Replay_synced: "synced d \<Longrightarrow> synced (snd (Replay i d))"
proof (cases "find (\<lambda>e. dl_ID e = i) (dlq_entries d)")
  case (Some e)
  assume "synced d"
  moreover from find_split [OF Some] have "dlq_entries d =
      take (length (takeWhile (\<lambda>e. dl_ID e \<noteq> i) (dlq_entries d))) (dlq_entries d) @ e #
      drop (length (takeWhile (\<lambda>e. dl_ID e \<noteq> i) (dlq_entries d)) + 1) (dlq_entries d)"
    by (simp add: takeWhile_eq_take [symmetric])
  moreover have "dl_ID e = i" using find_SomeD [OF Some] by simp
  ultimately show ?thesis
    using Some synced_removed by (fastforce simp: Replay_def Let_def split: option.split)
qed (simp add: Replay_def)

lemma Pop_synced: "synced d \<Longrightarrow> synced (snd (Pop d))"
  using synced_removed [of d "[]"] by (auto simp: Pop_def split: list.split)

subsection \<open>Properties\<close>

text \<open>
  Whatever is sent to, loaded into, replayed from or cleared from a new queue without a
  directory, it never holds more than \<^verbatim>\<open>maxSize\<close> entries.
\<close>

lemma dlq_bounded: "dlq_inv (foldl dlqStep (NewDLQ n producer None) calls)"
proof -
  have "dlq_inv (NewDLQ n producer None)" by (simp add: dlq_inv_def NewDLQ_def loadFromDir_def)
  then show ?thesis by (rule dlq.run_inv)
qed

text \<open>
  Sending entries with valid ids keeps the most recent \<^verbatim>\<open>maxSize\<close> of the old and new entries, in
  order, each new one stamped with its time of failure: the oldest are evicted first.
\<close>

lemma Send_keeps_latest:
  assumes "dlq_inv d" and "\<forall>(now, e) \<in> set es. safeID (dl_ID e)"
  shows "dlq_entries (foldl (\<lambda>d (now, e). snd (Send now e d)) d es) =
    keepLast (dlq_maxSize d) (dlq_entries d @ map (\<lambda>(now, e). e\<lparr>dl_FailedAt := now\<rparr>) es)"
  using assms by (rule Sends_entries)

definition exampleEntry :: "string \<Rightarrow> DeadLetterEntry" where
  "exampleEntry i = \<lparr>dl_ID = i, dl_RuleID = ''r'', dl_Topic = ''t'', dl_Partition = 0, dl_Offset = 0,
     dl_Body = [], dl_Error = ''e'', dl_FailedAt = 0, dl_RetryCount = 0\<rparr>"

text \<open>
  \<^verbatim>\<open>ReplayAll\<close> with a replay function offers every entry once, counts those it accepts, and
  leaves exactly the rejected ones in the queue, in order, with their retry count increased.
\<close>

lemma ReplayAll_result:
  assumes "dlq_inv d" and "dlq_replayFn d = Some fn" and "\<forall>e \<in> set (dlq_entries d). safeID (dl_ID e)"
  shows "fst (ReplayAll now d) = length (filter (\<lambda>e. fn (bumped e)) (dlq_entries d)) \<and>
    dlq_entries (snd (ReplayAll now d)) = map (retried now) (filter (\<lambda>e. \<not> fn (bumped e)) (dlq_entries d))"
  using assms replayLoop_result [of "d\<lparr>dlq_entries := []\<rparr>" "dlq_entries d" fn now 0]
  by (simp add: ReplayAll_def Let_def dlq_inv_def)

text \<open>Without a replay function \<^verbatim>\<open>ReplayAll\<close> drops every entry from the queue and replays none.\<close>

lemma ReplayAll_without_function:
  assumes "dlq_replayFn d = None"
  shows "fst (ReplayAll now d) = 0 \<and> dlq_entries (snd (ReplayAll now d)) = [] \<and>
    dlq_files (snd (ReplayAll now d)) = dlq_files d"
  using assms by (simp add: ReplayAll_def Let_def)



end
