(* ===== verification/Rate_Limiter.thy ===== *)
theory Rate_Limiter
  imports Prelude Complex_Main
begin

text \<open>
  The rate limiter of \<^verbatim>\<open>server/internal/reliability/ratelimit.go\<close>: token buckets by name.  Tokens are 64-bit floating-point
  numbers in the code and real numbers here, so that what is shown is free of rounding; the time in seconds is an argument of the
  operations.
\<close>

record TokenBucket =
  tb_rate :: real
  tb_burst :: int
  tb_tokens :: real
  tb_lastRefill :: real

type_synonym RateLimiter = "(string, TokenBucket) gomap"

definition NewRateLimiter :: RateLimiter where
  "NewRateLimiter = []"

definition NewTokenBucket :: "real \<Rightarrow> int \<Rightarrow> real \<Rightarrow> TokenBucket" where
  "NewTokenBucket rate burst now = \<lparr>tb_rate = rate, tb_burst = burst, tb_tokens = of_int burst, tb_lastRefill = now\<rparr>"

definition refill :: "real \<Rightarrow> TokenBucket \<Rightarrow> TokenBucket" where
  "refill now tb =
     (let tokens = tb_tokens tb + (now - tb_lastRefill tb) * tb_rate tb
      in tb\<lparr>tb_lastRefill := now, tb_tokens := (if tokens > of_int (tb_burst tb) then of_int (tb_burst tb) else tokens)\<rparr>)"

definition AllowN :: "real \<Rightarrow> int \<Rightarrow> TokenBucket \<Rightarrow> bool \<times> TokenBucket" where
  "AllowN now n tb =
     (let tb1 = refill now tb
      in if tb_tokens tb1 \<ge> of_int n then (True, tb1\<lparr>tb_tokens := tb_tokens tb1 - of_int n\<rparr>) else (False, tb1))"

definition Allow :: "real \<Rightarrow> TokenBucket \<Rightarrow> bool \<times> TokenBucket" where
  "Allow now tb = AllowN now 1 tb"

text \<open>A bucket that is asked for the first time holds a hundred tokens and gets a hundred per second.\<close>

definition Bucket :: "real \<Rightarrow> string \<Rightarrow> RateLimiter \<Rightarrow> TokenBucket \<times> RateLimiter" where
  "Bucket now name rl =
     (case map_of rl name of
        Some b \<Rightarrow> (b, rl)
      | None \<Rightarrow> let b = NewTokenBucket 100 100 now in (b, AList.update name b rl))"

definition SetBucket :: "real \<Rightarrow> string \<Rightarrow> real \<Rightarrow> int \<Rightarrow> RateLimiter \<Rightarrow> RateLimiter" where
  "SetBucket now name rate burst rl = AList.update name (NewTokenBucket rate burst now) rl"

definition LimiterAllowN :: "real \<Rightarrow> string \<Rightarrow> int \<Rightarrow> RateLimiter \<Rightarrow> bool \<times> RateLimiter" where
  "LimiterAllowN now name n rl =
     (case Bucket now name rl of (b, rl1) \<Rightarrow> case AllowN now n b of (ok, b1) \<Rightarrow> (ok, AList.update name b1 rl1))"

definition LimiterAllow :: "real \<Rightarrow> string \<Rightarrow> RateLimiter \<Rightarrow> bool \<times> RateLimiter" where
  "LimiterAllow now name rl = LimiterAllowN now name 1 rl"

subsection \<open>How much a bucket lets through\<close>

text \<open>The answers of a bucket to requests for single tokens at the given times, and the bucket after them.\<close>

fun answers :: "real list \<Rightarrow> TokenBucket \<Rightarrow> bool list \<times> TokenBucket" where
  "answers [] tb = ([], tb)"
| "answers (t # ts) tb = (case Allow t tb of (ok, tb1) \<Rightarrow> case answers ts tb1 of (oks, tb2) \<Rightarrow> (ok # oks, tb2))"

definition bucket_ok :: "TokenBucket \<Rightarrow> bool" where
  "bucket_ok tb \<longleftrightarrow> 0 \<le> tb_rate tb \<and> 0 \<le> tb_tokens tb \<and> tb_tokens tb \<le> of_int (tb_burst tb)"

definition granted :: "bool list \<Rightarrow> real" where
  "granted oks = of_nat (length (filter id oks))"

lemma Allow_step:
  assumes "bucket_ok tb" and "tb_lastRefill tb \<le> t" and "Allow t tb = (ok, tb1)"
  shows "bucket_ok tb1 \<and> tb_lastRefill tb1 = t \<and> tb_rate tb1 = tb_rate tb \<and> tb_burst tb1 = tb_burst tb \<and>
    (if ok then 1 else 0) + tb_tokens tb1 \<le> tb_tokens tb + (t - tb_lastRefill tb) * tb_rate tb"
proof -
  have "0 \<le> (t - tb_lastRefill tb) * tb_rate tb" using assms(1,2) by (simp add: bucket_ok_def)
  then show ?thesis using assms(1,3) by (auto simp: Allow_def AllowN_def refill_def Let_def bucket_ok_def split: if_splits)
qed

lemma answers_bound:
  assumes "bucket_ok tb" and "sorted (tb_lastRefill tb # ts)" and "answers ts tb = (oks, tb1)"
  shows "bucket_ok tb1 \<and> tb_rate tb1 = tb_rate tb \<and> tb_burst tb1 = tb_burst tb \<and> tb_lastRefill tb1 = last (tb_lastRefill tb # ts) \<and>
    granted oks + tb_tokens tb1 \<le> tb_tokens tb + (last (tb_lastRefill tb # ts) - tb_lastRefill tb) * tb_rate tb"
  using assms
proof (induction ts arbitrary: tb oks)
  case Nil
  then show ?case by (simp add: granted_def)
next
  case (Cons t ts)
  obtain ok tb2 where a: "Allow t tb = (ok, tb2)" by force
  obtain oks2 where r: "answers ts tb2 = (oks2, tb1)" "oks = ok # oks2" using Cons.prems(3) a by (auto split: prod.splits)
  have s: "tb_lastRefill tb \<le> t" using Cons.prems(2) by simp
  note step = Allow_step [OF Cons.prems(1) s a]
  have "sorted (tb_lastRefill tb2 # ts)" using Cons.prems(2) step by simp
  from Cons.IH [OF _ this r(1)] step
  have ih: "bucket_ok tb1" "tb_rate tb1 = tb_rate tb" "tb_burst tb1 = tb_burst tb" "tb_lastRefill tb1 = last (t # ts)"
    "granted oks2 + tb_tokens tb1 \<le> tb_tokens tb2 + (last (t # ts) - t) * tb_rate tb" by auto
  moreover have "granted oks = (if ok then 1 else 0) + granted oks2" by (simp add: r(2) granted_def)
  ultimately show ?case using step by (simp add: algebra_simps)
qed



end
