(* ===== verification/Metrics.thy ===== *)
theory Metrics
  imports Prelude "HOL-Library.Word"
begin

text \<open>
  The metrics of \<^verbatim>\<open>server/internal/observability/metrics.go\<close>: named counters, gauges and histograms of one collector.
  A counter handed out by the collector stays in its table, so that a handle is the name it was asked for.  The
  boundaries of a histogram are floating-point numbers, of any type here, compared by \<open>le\<close>.
\<close>

record 'f Histogram =
  hi_buckets :: "'f list"
  hi_counts :: "64 word list"
  hi_total :: "64 word"

record 'f MetricsCollector =
  mc_counters :: "(string, 64 word) gomap"
  mc_gauges :: "(string, 64 word) gomap"
  mc_histograms :: "(string, 'f Histogram) gomap"

definition NewMetricsCollector :: "'f MetricsCollector" where
  "NewMetricsCollector = \<lparr>mc_counters = [], mc_gauges = [], mc_histograms = []\<rparr>"

definition Counter :: "string \<Rightarrow> 'f MetricsCollector \<Rightarrow> 'f MetricsCollector" where
  "Counter name mc =
     (case map_of (mc_counters mc) name of Some c \<Rightarrow> mc | None \<Rightarrow> mc\<lparr>mc_counters := AList.update name 0 (mc_counters mc)\<rparr>)"

definition counterValue :: "string \<Rightarrow> 'f MetricsCollector \<Rightarrow> 64 word" where
  "counterValue name mc = (case map_of (mc_counters mc) name of None \<Rightarrow> 0 | Some c \<Rightarrow> c)"

definition counterAdd :: "string \<Rightarrow> 64 word \<Rightarrow> 'f MetricsCollector \<Rightarrow> 'f MetricsCollector" where
  "counterAdd name n mc = mc\<lparr>mc_counters := AList.update name (counterValue name mc + n) (mc_counters mc)\<rparr>"

definition counterInc :: "string \<Rightarrow> 'f MetricsCollector \<Rightarrow> 'f MetricsCollector" where
  "counterInc name = counterAdd name 1"

definition counterReset :: "string \<Rightarrow> 'f MetricsCollector \<Rightarrow> 'f MetricsCollector" where
  "counterReset name mc = mc\<lparr>mc_counters := AList.update name 0 (mc_counters mc)\<rparr>"

definition Gauge :: "string \<Rightarrow> 'f MetricsCollector \<Rightarrow> 'f MetricsCollector" where
  "Gauge name mc =
     (case map_of (mc_gauges mc) name of Some c \<Rightarrow> mc | None \<Rightarrow> mc\<lparr>mc_gauges := AList.update name 0 (mc_gauges mc)\<rparr>)"

definition gaugeSet :: "string \<Rightarrow> 64 word \<Rightarrow> 'f MetricsCollector \<Rightarrow> 'f MetricsCollector" where
  "gaugeSet name n mc = mc\<lparr>mc_gauges := AList.update name n (mc_gauges mc)\<rparr>"

definition gaugeValue :: "string \<Rightarrow> 'f MetricsCollector \<Rightarrow> 64 word" where
  "gaugeValue name mc = (case map_of (mc_gauges mc) name of None \<Rightarrow> 0 | Some c \<Rightarrow> c)"

definition gaugeAdd :: "string \<Rightarrow> 64 word \<Rightarrow> 'f MetricsCollector \<Rightarrow> 'f MetricsCollector" where
  "gaugeAdd name n mc = gaugeSet name (gaugeValue name mc + n) mc"

definition NewHistogram :: "'f list \<Rightarrow> 'f Histogram" where
  "NewHistogram buckets = \<lparr>hi_buckets = buckets, hi_counts = replicate (length buckets + 1) 0, hi_total = 0\<rparr>"

definition HistogramOf :: "string \<Rightarrow> 'f list \<Rightarrow> 'f MetricsCollector \<Rightarrow> 'f MetricsCollector" where
  "HistogramOf name buckets mc =
     (case map_of (mc_histograms mc) name of
        Some h \<Rightarrow> mc
      | None \<Rightarrow> mc\<lparr>mc_histograms := AList.update name (NewHistogram buckets) (mc_histograms mc)\<rparr>)"

text \<open>The loop over the boundaries ends at the first one that is not below the value, or behind the last.\<close>

fun bucketOf :: "('f \<Rightarrow> 'f \<Rightarrow> bool) \<Rightarrow> 'f \<Rightarrow> 'f list \<Rightarrow> nat" where
  "bucketOf le v [] = 0"
| "bucketOf le v (b # bs) = (if le v b then 0 else Suc (bucketOf le v bs))"

definition Observe :: "('f \<Rightarrow> 'f \<Rightarrow> bool) \<Rightarrow> 'f \<Rightarrow> 'f Histogram \<Rightarrow> 'f Histogram" where
  "Observe le v h =
     (let i = bucketOf le v (hi_buckets h)
      in h\<lparr>hi_total := hi_total h + 1, hi_counts := (hi_counts h)[i := hi_counts h ! i + 1]\<rparr>)"

definition observe :: "('f \<Rightarrow> 'f \<Rightarrow> bool) \<Rightarrow> string \<Rightarrow> 'f \<Rightarrow> 'f MetricsCollector \<Rightarrow> 'f MetricsCollector" where
  "observe le name v mc =
     (case map_of (mc_histograms mc) name of
        None \<Rightarrow> mc
      | Some h \<Rightarrow> mc\<lparr>mc_histograms := AList.update name (Observe le v h) (mc_histograms mc)\<rparr>)"

definition MetricSnapshot :: "'f MetricsCollector \<Rightarrow> (string, 64 word) gomap \<times> (string, 64 word) gomap" where
  "MetricSnapshot mc = (mc_counters mc, mc_gauges mc)"

definition RecordExec :: "string \<Rightarrow> 'f MetricsCollector \<Rightarrow> 'f MetricsCollector" where
  "RecordExec name mc = counterInc (''exec.'' @ name) (Counter (''exec.'' @ name) mc)"

definition RecordError :: "string \<Rightarrow> 'f MetricsCollector \<Rightarrow> 'f MetricsCollector" where
  "RecordError name mc = counterInc (''error.'' @ name) (Counter (''error.'' @ name) mc)"

subsection \<open>What a histogram counts\<close>

lemma bucketOf_le: "bucketOf le v bs \<le> length bs"
  by (induction bs) auto

lemma bucketOf_first:
  "(\<forall>j < bucketOf le v bs. \<not> le v (bs ! j)) \<and> (bucketOf le v bs < length bs \<longrightarrow> le v (bs ! bucketOf le v bs))"
  by (induction bs) (auto simp: less_Suc_eq_0_disj)

lemma counterValue_simps [simp]:
  "counterValue a (counterAdd b n mc) = (if a = b then counterValue a mc + n else counterValue a mc)"
  "counterValue a (counterInc b mc) = (if a = b then counterValue a mc + 1 else counterValue a mc)"
  "counterValue a (gaugeAdd b n mc) = counterValue a mc"
  "counterValue a (observe le b v mc) = counterValue a mc"
  "gaugeValue a (gaugeAdd b n mc) = (if a = b then gaugeValue a mc + n else gaugeValue a mc)"
  "gaugeValue a (counterInc b mc) = gaugeValue a mc"
  "gaugeValue a (observe le b v mc) = gaugeValue a mc"
  by (auto simp: counterValue_def counterAdd_def counterInc_def gaugeValue_def gaugeAdd_def gaugeSet_def observe_def split: option.split)

text \<open>
  The values that were observed are counted in the bucket of the first boundary that is not below them, and in the last one when there
  is none; every value is counted once, so that the buckets add up to the total.
\<close>

lemma sum_list_inc:
  fixes xs :: "'a :: comm_monoid_add list"
  assumes "i < length xs"
  shows "sum_list (xs[i := xs ! i + x]) = sum_list xs + x"
  using assms
proof (induction xs arbitrary: i)
  case (Cons a xs)
  then show ?case by (cases i) (auto simp: ac_simps)
qed simp

lemma observed_counts:
  assumes "h = foldl (\<lambda>h v. Observe le v h) (NewHistogram bs) vs"
  shows "hi_buckets h = bs \<and> length (hi_counts h) = Suc (length bs) \<and> hi_total h = word_of_nat (length vs) \<and>
    sum_list (hi_counts h) = hi_total h \<and>
    (\<forall>i \<le> length bs. hi_counts h ! i = word_of_nat (length (filter (\<lambda>v. bucketOf le v bs = i) vs)))"
  using assms
proof (induction vs arbitrary: h rule: rev_induct)
  case Nil
  then show ?case by (auto simp: NewHistogram_def nth_Cons sum_list_replicate split: nat.split)
next
  case (snoc v vs)
  define g where "g = foldl (\<lambda>h v. Observe le v h) (NewHistogram bs) vs"
  note ih = snoc.IH [OF g_def]
  have len: "bucketOf le v bs < length (hi_counts g)" using bucketOf_le [of le v bs] ih by simp
  have h: "h = Observe le v g" by (simp add: snoc.prems g_def)
  have "sum_list (hi_counts h) = sum_list (hi_counts g) + 1" using sum_list_inc [OF len] ih by (simp add: h Observe_def Let_def)
  moreover have "\<forall>i \<le> length bs. hi_counts h ! i = hi_counts g ! i + (if bucketOf le v bs = i then 1 else 0)"
    using len ih by (simp add: h Observe_def Let_def nth_list_update)
  ultimately show ?case using ih by (simp add: h Observe_def Let_def)
qed

end
