(* ===== verification/Node_Exec.thy ===== *)
theory Node_Exec
  imports Service_Call Saga Exec_State Dedup Dead_Letter Rate_Limiter Metrics
begin

text \<open>
  How a node runs a plan, \<^verbatim>\<open>server/internal/node\<close> (\<^verbatim>\<open>execute_plan.go\<close>, \<^verbatim>\<open>recovery.go\<close>, \<^verbatim>\<open>exec_registry.go\<close>) with
  \<^verbatim>\<open>bridge.go\<close>: single steps of the runtime, calls of services through registry, breaker and caller, the saga with its compensations,
  the state that is saved after every step, and what a node does with an incoming message and after a restart.  The runtime behind the
  bridge is a parameter, a function from plan, context and response to the output of a step.
\<close>

subsection \<open>The bridge\<close>

datatype StepResult = StepDone | StepPending | StepContinue | StepOther int

record StepOutput =
  so_Result :: StepResult
  so_Output :: bytes
  so_PendingSvc :: "16 word"
  so_PendingBody :: bytes
  so_TimeoutMs :: "64 word"
  so_CtxBytes :: bytes

fun splitByte :: "char \<Rightarrow> string \<Rightarrow> (string \<times> string) option" where
  "splitByte c [] = None"
| "splitByte c (x # xs) = (if x = c then Some ([], xs) else map_option (\<lambda>(a, b). (x # a, b)) (splitByte c xs))"

definition ParseServiceMethod :: "string \<Rightarrow> string \<times> string" where
  "ParseServiceMethod s = (case splitByte (CHR ''.'') s of Some (a, b) \<Rightarrow> (a, b) | None \<Rightarrow> (s, []))"

definition ParseCompensation :: "string \<Rightarrow> string \<times> string \<times> string \<times> string" where
  "ParseCompensation s =
     (case splitByte (CHR '':'') s of
        None \<Rightarrow> (case ParseServiceMethod s of (svc, m) \<Rightarrow> (svc, m, [], []))
      | Some (beforeColon, afterColon) \<Rightarrow>
          (case ParseServiceMethod beforeColon of (svc, method) \<Rightarrow>
             case splitByte (CHR ''.'') afterColon of
               Some (c, m) \<Rightarrow> (svc, method, c, m)
             | None \<Rightarrow> (svc, method, svc, afterColon)))"

subsection \<open>Hashes\<close>

definition fnv128a :: "bytes \<Rightarrow> 128 word" where
  "fnv128a body = foldl (\<lambda>h c. xor h (word_of_nat (of_char c)) * (2 ^ 88 + 315)) 144066263297769815596495629667062367629 body"

definition hexDigit :: "nat \<Rightarrow> char" where
  "hexDigit d = (if d < 10 then char_of (48 + d) else char_of (87 + d))"

definition HashBody :: "bytes \<Rightarrow> string" where
  "HashBody body = map (\<lambda>k. hexDigit (unat (drop_bit (4 * k) (fnv128a body)) mod 16)) (rev [0..<32])"

definition HashBodyPrefixed :: "string \<Rightarrow> bytes \<Rightarrow> string" where
  "HashBodyPrefixed prefix body = prefix @ ''-'' @ HashBody body"

subsection \<open>The node\<close>

record execEntry =
  ee_started :: gotime
  ee_name :: string

text \<open>The compensations that were called, last ones at the end, are kept in the state as what the node has done to the outside.\<close>

record ('l, 'f) Node =
  nd_Saga :: "SagaTracker option"
  nd_StateStore :: "FileStore option"
  nd_breakers :: "(string, CircuitBreaker) gomap"
  nd_Registry :: "'l ServiceRegistry"
  nd_pools :: "(string, tcpConnPool) gomap"
  nd_tls :: bool
  nd_metrics :: "'f MetricsCollector"
  nd_Execs :: "(string, execEntry) gomap"
  nd_DLQ :: DLQ
  nd_RateLimiter :: RateLimiter
  nd_Dedup :: DedupTracker
  nd_compensated :: "comp_call list"

text \<open>
  The surroundings of an execution: the runtime, the services of a plan, whether the context is done at a step, the network, the
  comparison of loads and the random generator of the registry, the disk and the walk over the index of the store, and the time.
\<close>

record ('l, 'w) Env =
  ev_step :: "bytes \<Rightarrow> bytes \<Rightarrow> bytes option \<Rightarrow> StepOutput"
  ev_services :: "bytes \<Rightarrow> (16 word \<times> string) list option"
  ev_done :: "nat \<Rightarrow> bool"
  ev_net :: "'w Net"
  ev_lt :: "'l \<Rightarrow> 'l \<Rightarrow> bool"
  ev_localNode :: string
  ev_rnd :: "nat \<Rightarrow> nat"
  ev_disk :: bool
  ev_order :: "Status list"
  ev_now :: gotime

definition recordExec :: "string \<Rightarrow> ('l, 'f) Node \<Rightarrow> ('l, 'f) Node" where
  "recordExec name n = n\<lparr>nd_metrics := RecordExec name (nd_metrics n)\<rparr>"

definition recordError :: "string \<Rightarrow> ('l, 'f) Node \<Rightarrow> ('l, 'f) Node" where
  "recordError name n = n\<lparr>nd_metrics := RecordError name (nd_metrics n)\<rparr>"

subsection \<open>Running executions\<close>

definition ExecRegister :: "gotime \<Rightarrow> string \<Rightarrow> string \<Rightarrow> ('l, 'f) Node \<Rightarrow> ('l, 'f) Node" where
  "ExecRegister now ident name n = n\<lparr>nd_Execs := AList.update ident \<lparr>ee_started = now, ee_name = name\<rparr> (nd_Execs n)\<rparr>"

definition ExecUnregister :: "string \<Rightarrow> ('l, 'f) Node \<Rightarrow> ('l, 'f) Node" where
  "ExecUnregister ident n = n\<lparr>nd_Execs := AList.delete ident (nd_Execs n)\<rparr>"

text \<open>Cancelling answers with the executions whose contexts end.\<close>

definition ExecCancel :: "string \<Rightarrow> ('l, 'f) Node \<Rightarrow> string list \<times> ('l, 'f) Node" where
  "ExecCancel ident n =
     (case map_of (nd_Execs n) ident of None \<Rightarrow> ([], n) | Some _ \<Rightarrow> ([ident], ExecUnregister ident n))"

definition ExecCancelAll :: "('l, 'f) Node \<Rightarrow> string list \<times> ('l, 'f) Node" where
  "ExecCancelAll n = (map fst (nd_Execs n), n\<lparr>nd_Execs := []\<rparr>)"

definition ExecList :: "('l, 'f) Node \<Rightarrow> (string, gotime) gomap" where
  "ExecList n = map (\<lambda>(i, e). (i, ee_started e)) (nd_Execs n)"

subsection \<open>Calls of services\<close>

datatype svc_error = BreakerOpen string | LookupFailed string registry_error | CallFailed string call_error | LookupBlocks

definition callService ::
  "('l, 'w) Env \<Rightarrow> string \<Rightarrow> string \<Rightarrow> bytes \<Rightarrow> 64 word \<Rightarrow> ('l, 'f) Node \<Rightarrow> 'w \<Rightarrow> (svc_error + bytes) \<times> ('l, 'f) Node \<times> 'w" where
  "callService E svcName method body timeoutMs n0 w =
     (let n = recordExec ''svc_call'' n0;
          cb0 = (case map_of (nd_breakers n) svcName of None \<Rightarrow> NewCircuitBreaker 5 (30 * 10 ^ 9) | Some cb \<Rightarrow> cb)
      in case Circuit_Breaker.Allow (ev_now E) cb0 of (allowed, cb) \<Rightarrow>
         let n1 = n\<lparr>nd_breakers := AList.update svcName cb (nd_breakers n)\<rparr>
         in if \<not> allowed then (Inl (BreakerOpen svcName), recordError ''circuit_breaker_open'' n1, w)
            else case LookupInstance (ev_lt E) (ev_localNode E) (ev_rnd E) (ev_now E) svcName method (nd_Registry n1) of
                   PickErr e \<Rightarrow>
                     (Inl (LookupFailed svcName e), n1\<lparr>nd_breakers := AList.update svcName (Failure (ev_now E) cb) (nd_breakers n1)\<rparr>, w)
                 | PickDeadlock \<Rightarrow> (Inl LookupBlocks, n1, w)
                 | Picked inst \<Rightarrow>
                     (case CallService (ev_net E) (ev_now E) (Some inst) method body
                             \<lparr>sc_tls = nd_tls n1, sc_pools = nd_pools n1, sc_cb = cb, sc_reg = nd_Registry n1\<rparr> w of
                        (r, sc, w1) \<Rightarrow>
                          (case r of Inl e \<Rightarrow> Inl (CallFailed svcName e) | Inr bs \<Rightarrow> Inr bs,
                           n1\<lparr>nd_breakers := AList.update svcName (sc_cb sc) (nd_breakers n1), nd_Registry := sc_reg sc, nd_pools := sc_pools sc\<rparr>,
                           w1)))"

subsection \<open>The steps of an execution\<close>

definition maxExecutionSteps :: nat where
  "maxExecutionSteps = 1000"

datatype run_error =
    Cancelled nat
  | StepErr nat string
  | ServiceErr string svc_error
  | Unexpected nat int
  | MaxSteps
  | RecoveryRetry svc_error

definition tryCompensate :: "string \<Rightarrow> ('l, 'f) Node \<Rightarrow> ('l, 'f) Node" where
  "tryCompensate execID n =
     (case nd_Saga n of
        None \<Rightarrow> n
      | Some s \<Rightarrow> (case Compensate execID s of (_, calls, s1) \<Rightarrow> n\<lparr>nd_Saga := Some s1, nd_compensated := nd_compensated n @ calls\<rparr>))"

definition clearSaga :: "string \<Rightarrow> ('l, 'f) Node \<Rightarrow> ('l, 'f) Node" where
  "clearSaga execID n = n\<lparr>nd_Saga := map_option (Saga.Clear execID) (nd_Saga n)\<rparr>"

definition registerStep :: "string \<Rightarrow> SagaStep \<Rightarrow> ('l, 'f) Node \<Rightarrow> ('l, 'f) Node" where
  "registerStep execID s n = (if sg_CompSvc s \<noteq> [] then n\<lparr>nd_Saga := map_option (RegisterStep execID s) (nd_Saga n)\<rparr> else n)"

text \<open>A state is changed and saved only when there is a store; a failure to save is only logged.\<close>

definition saveState ::
  "('l, 'w) Env \<Rightarrow> (Exec_State.State \<Rightarrow> Exec_State.State) \<Rightarrow> Exec_State.State \<Rightarrow> ('l, 'f) Node \<Rightarrow> Exec_State.State \<times> ('l, 'f) Node" where
  "saveState E change st n =
     (case nd_StateStore n of
        None \<Rightarrow> (st, n)
      | Some fs \<Rightarrow>
          ((change st)\<lparr>st_UpdatedAt := ev_now E\<rparr>,
           n\<lparr>nd_StateStore := Some (snd (fsSave (ev_disk E) (ev_order E) (ev_now E) (change st) fs))\<rparr>))"

definition serviceName :: "(16 word, string) gomap \<Rightarrow> 16 word \<Rightarrow> string" where
  "serviceName names svc = (case map_of names svc of None \<Rightarrow> ''svc-'' @ dec (unat svc) | Some s \<Rightarrow> s)"

definition executeStep :: "('l, 'w) Env \<Rightarrow> bytes \<Rightarrow> bytes \<Rightarrow> bytes option \<Rightarrow> string + StepOutput" where
  "executeStep E plan ctx resp = (if plan = [] then Inl ''execute step: empty plan'' else Inr (ev_step E plan ctx resp))"

text \<open>\<open>call\<close> calls a service of the node; \<open>left\<close> steps are left and \<open>step\<close> were made.\<close>

fun runSteps ::
  "('l, 'w) Env \<Rightarrow> (string \<Rightarrow> string \<Rightarrow> bytes \<Rightarrow> 64 word \<Rightarrow> ('l, 'f) Node \<Rightarrow> 'w \<Rightarrow> (svc_error + bytes) \<times> ('l, 'f) Node \<times> 'w) \<Rightarrow> string \<Rightarrow>
    bytes \<Rightarrow> (16 word, string) gomap \<Rightarrow> nat \<Rightarrow> nat \<Rightarrow> bytes \<Rightarrow> bytes option \<Rightarrow> Exec_State.State \<Rightarrow> ('l, 'f) Node \<Rightarrow> 'w \<Rightarrow>
    (run_error + bytes) \<times> Exec_State.State \<times> ('l, 'f) Node \<times> 'w" where
  "runSteps E call execID plan names 0 step ctx resp st n w = (Inl MaxSteps, st, tryCompensate execID n, w)"
| "runSteps E call execID plan names (Suc left) step ctx resp st n w =
     (if ev_done E step then (Inl (Cancelled step), st, tryCompensate execID n, w)
      else case executeStep E plan ctx resp of
             Inl e \<Rightarrow> (Inl (StepErr step e), st, tryCompensate execID n, w)
           | Inr out \<Rightarrow>
               (case so_Result out of
                  StepDone \<Rightarrow> (Inr (so_Output out), st, clearSaga execID (recordExec ''completed'' n), w)
                | StepPending \<Rightarrow>
                    (case saveState E (\<lambda>s. s\<lparr>st_Status := StatusWaitingForService, st_PendingSvc := so_PendingSvc out, st_PendingBody := so_PendingBody out,
                             st_CtxBytes := so_CtxBytes out\<rparr>) st (recordExec ''svc_pending'' n) of (st1, n1) \<Rightarrow>
                     case ParseCompensation (serviceName names (so_PendingSvc out)) of (svc, method, compSvc, compMethod) \<Rightarrow>
                     let n2 = registerStep execID \<lparr>sg_ServiceName = svc, sg_Method = method, sg_Body = so_PendingBody out, sg_CompSvc = compSvc,
                                sg_CompMethod = compMethod\<rparr> n1
                     in case call svc method (so_PendingBody out) (so_TimeoutMs out) n2 w of
                          (Inl e, n3, w1) \<Rightarrow> (Inl (ServiceErr svc e), st1, tryCompensate execID n3, w1)
                        | (Inr r, n3, w1) \<Rightarrow>
                            (case saveState E (\<lambda>s. s\<lparr>st_Status := StatusRunning, st_PendingSvc := 0, st_PendingBody := [], st_CtxBytes := so_CtxBytes out\<rparr>)
                                    st1 n3 of (st2, n4) \<Rightarrow>
                             runSteps E call execID plan names left (Suc step) (so_CtxBytes out) (Some r) st2 n4 w1))
                | StepContinue \<Rightarrow>
                    (case saveState E (\<lambda>s. s\<lparr>st_Status := StatusRunning, st_CtxBytes := so_CtxBytes out\<rparr>) st n of (st1, n1) \<Rightarrow>
                     runSteps E call execID plan names left (Suc step) (so_CtxBytes out) None st1 n1 w)
                | StepOther c \<Rightarrow> (Inl (Unexpected step c), st, tryCompensate execID n, w)))"

definition planNames :: "('l, 'w) Env \<Rightarrow> bytes \<Rightarrow> (16 word, string) gomap" where
  "planNames E plan =
     (case ev_services E plan of None \<Rightarrow> [] | Some es \<Rightarrow> foldl (\<lambda>m (i, name). AList.update i name m) [] es)"

definition newState :: "gotime \<Rightarrow> string \<Rightarrow> bytes \<Rightarrow> Exec_State.State" where
  "newState now execID plan =
     \<lparr>st_ID = execID, st_RuleID = [], st_Version = 0, st_PlanBytes = plan, st_CtxBytes = [], st_Status = StatusCreated, st_PendingSvc = 0,
      st_PendingBody = [], st_Error = [], st_Output = [], st_CreatedAt = now, st_UpdatedAt = now\<rparr>"

text \<open>\<open>text e\<close> is the text of an error.  The body of the message is an argument that no step of the plan ever sees.\<close>

definition executePlan ::
  "('l, 'w) Env \<Rightarrow> (run_error \<Rightarrow> string) \<Rightarrow>
    (string \<Rightarrow> string \<Rightarrow> bytes \<Rightarrow> 64 word \<Rightarrow> ('l, 'f) Node \<Rightarrow> 'w \<Rightarrow> (svc_error + bytes) \<times> ('l, 'f) Node \<times> 'w) \<Rightarrow> string \<Rightarrow> bytes \<Rightarrow> bytes \<Rightarrow>
    ('l, 'f) Node \<Rightarrow> 'w \<Rightarrow> (run_error + bytes) \<times> ('l, 'f) Node \<times> 'w" where
  "executePlan E text call execID plan body n0 w0 =
     (let st0 = newState (ev_now E) execID plan;
          n1 = ExecRegister (ev_now E) execID [] n0;
          n2 = n1\<lparr>nd_StateStore := map_option (\<lambda>fs. snd (fsCreate (ev_disk E) st0 fs)) (nd_StateStore n1)\<rparr>
      in case runSteps E call execID plan (planNames E plan) maxExecutionSteps 0 [] None st0 n2 w0 of
           (r, st1, n3, w1) \<Rightarrow>
             let n4 = snd (saveState E (\<lambda>s. case r of
                         Inl e \<Rightarrow> s\<lparr>st_Status := StatusFailed, st_Error := text e\<rparr>
                       | Inr out \<Rightarrow> s\<lparr>st_Status := StatusCompleted, st_Output := out\<rparr>) st1 n3)
             in (r, ExecUnregister execID n4, w1))"

subsection \<open>Recovery\<close>

text \<open>The answer is the result of the execution that was taken up again, or the failure of the call it was waiting for.\<close>

definition recoverExecution ::
  "('l, 'w) Env \<Rightarrow> (run_error \<Rightarrow> string) \<Rightarrow>
    (string \<Rightarrow> string \<Rightarrow> bytes \<Rightarrow> 64 word \<Rightarrow> ('l, 'f) Node \<Rightarrow> 'w \<Rightarrow> (svc_error + bytes) \<times> ('l, 'f) Node \<times> 'w) \<Rightarrow> Exec_State.State \<Rightarrow>
    ('l, 'f) Node \<Rightarrow> 'w \<Rightarrow> (run_error + bytes) \<times> ('l, 'f) Node \<times> 'w" where
  "recoverExecution E text call st n w =
     (let names = planNames E (st_PlanBytes st);
          fails = (\<lambda>e st n. snd (saveState E (\<lambda>s. s\<lparr>st_Status := StatusFailed, st_Error := text e\<rparr>) st n));
          resume = (\<lambda>resp st n w.
            case runSteps E call (st_ID st) (st_PlanBytes st) names maxExecutionSteps 0 (st_CtxBytes st) resp st n w of
              (Inl e, st1, n1, w1) \<Rightarrow> (Inl e, fails e st1 n1, w1)
            | (Inr out, st1, n1, w1) \<Rightarrow>
                (Inr out, n1\<lparr>nd_StateStore := map_option (\<lambda>fs. snd (fsDelete (ev_disk E) (st_ID st) fs)) (nd_StateStore n1)\<rparr>, w1))
      in if st_Status st = StatusWaitingForService then
           case ParseServiceMethod (serviceName names (st_PendingSvc st)) of (svc, method) \<Rightarrow>
           case call svc method (st_PendingBody st) 0 n w of
             (Inl e, n1, w1) \<Rightarrow> (Inl (RecoveryRetry e), fails (RecoveryRetry e) st n1, w1)
           | (Inr r, n1, w1) \<Rightarrow>
               (case saveState E (\<lambda>s. s\<lparr>st_Status := StatusRunning, st_PendingSvc := 0, st_PendingBody := []\<rparr>) st n1 of (st1, n2) \<Rightarrow>
                  resume (Some r) st1 n2 w1)
         else resume None st n w)"

text \<open>Up to eight executions are taken up at a time; here one after the other, in the order of the list.\<close>

definition recoverInFlight ::
  "('l, 'w) Env \<Rightarrow> (run_error \<Rightarrow> string) \<Rightarrow>
    (string \<Rightarrow> string \<Rightarrow> bytes \<Rightarrow> 64 word \<Rightarrow> ('l, 'f) Node \<Rightarrow> 'w \<Rightarrow> (svc_error + bytes) \<times> ('l, 'f) Node \<times> 'w) \<Rightarrow> string list \<Rightarrow>
    ('l, 'f) Node \<Rightarrow> 'w \<Rightarrow> ('l, 'f) Node \<times> 'w" where
  "recoverInFlight E text call ids n w =
     (case nd_StateStore n of
        None \<Rightarrow> (n, w)
      | Some fs \<Rightarrow>
          foldl (\<lambda>(n, w) st. snd (recoverExecution E text call st n w)) (n, w)
            (fsListByStatus (ev_order E) ids [StatusRunning, StatusWaitingForService] fs))"

subsection \<open>All plans on a message\<close>

text \<open>The active plans run at once; \<open>arrivals\<close> are their indices and outcomes in the order in which they come in.\<close>

definition executeAll :: "bytes list \<Rightarrow> (nat \<times> (string + bytes)) list \<Rightarrow> bytes option list \<times> string option" where
  "executeAll plans arrivals =
     (if plans = [] then ([], None)
      else foldl (\<lambda>(results, firstErr) (i, r).
             case r of Inl e \<Rightarrow> (results, if firstErr = None then Some e else firstErr)
                     | Inr out \<Rightarrow> (results[i := Some out], firstErr))
           (replicate (length plans) None, None) arrivals)"

definition messageTask :: "bytes list \<Rightarrow> (nat \<times> (string + bytes)) list \<Rightarrow> string + bytes option" where
  "messageTask plans arrivals =
     (case executeAll plans arrivals of
        (_, Some e) \<Rightarrow> Inl e
      | ([], None) \<Rightarrow> Inr None
      | (r # _, None) \<Rightarrow> Inr r)"

subsection \<open>Incoming messages\<close>

datatype incoming = RateLimited | Duplicate | Executed bytes | ExecFailed string

definition letter :: "string \<Rightarrow> bytes \<Rightarrow> string \<Rightarrow> DeadLetterEntry" where
  "letter ident body err =
     \<lparr>dl_ID = ident, dl_RuleID = [], dl_Topic = [], dl_Partition = 0, dl_Offset = 0, dl_Body = body, dl_Error = err, dl_FailedAt = 0, dl_RetryCount = 0\<rparr>"

definition sendDLQ :: "gotime \<Rightarrow> DeadLetterEntry \<Rightarrow> ('l, 'f) Node \<Rightarrow> ('l, 'f) Node" where
  "sendDLQ now e n = n\<lparr>nd_DLQ := snd (Send now e (nd_DLQ n))\<rparr>"

text \<open>\<open>submit\<close> hands a message to the pool of agents, which runs the active plans on it, and waits.\<close>

definition handleIncomingMessage ::
  "gotime \<Rightarrow> (string \<Rightarrow> bytes \<Rightarrow> ('l, 'f) Node \<Rightarrow> 'w \<Rightarrow> (string + bytes) \<times> ('l, 'f) Node \<times> 'w) \<Rightarrow> bytes \<Rightarrow> ('l, 'f) Node \<Rightarrow> 'w \<Rightarrow>
    incoming \<times> ('l, 'f) Node \<times> 'w" where
  "handleIncomingMessage now submit msg n w =
     (case LimiterAllow (real_of_int now / 10 ^ 9) ''ingress'' (nd_RateLimiter n) of (allowed, rl) \<Rightarrow>
      let n1 = n\<lparr>nd_RateLimiter := rl\<rparr>
      in if \<not> allowed then
           (RateLimited, sendDLQ now (letter (HashBodyPrefixed ''rl'' msg) msg ''rate limited'') (recordError ''rate_limited'' n1), w)
         else case CheckAndMark now (HashBody msg) (nd_Dedup n1) of (seen, d) \<Rightarrow>
           let n2 = n1\<lparr>nd_Dedup := d\<rparr>
           in if seen then (Duplicate, recordExec ''dedup_skipped'' n2, w)
              else case submit (HashBody msg) msg n2 w of
                     (Inl e, n3, w1) \<Rightarrow> (ExecFailed e, sendDLQ now (letter (HashBody msg) msg e) (recordError ''exec'' n3), w1)
                   | (Inr out, n3, w1) \<Rightarrow> (Executed out, recordExec ''msg'' n3, w1))"

subsection \<open>What a run leaves behind\<close>

text \<open>The calls of services a run makes, as the saga sees them.\<close>

definition sagaStep :: "(16 word, string) gomap \<Rightarrow> StepOutput \<Rightarrow> SagaStep" where
  "sagaStep names out =
     (case ParseCompensation (serviceName names (so_PendingSvc out)) of (svc, method, compSvc, compMethod) \<Rightarrow>
        \<lparr>sg_ServiceName = svc, sg_Method = method, sg_Body = so_PendingBody out, sg_CompSvc = compSvc, sg_CompMethod = compMethod\<rparr>)"

fun runCalls ::
  "('l, 'w) Env \<Rightarrow> (string \<Rightarrow> string \<Rightarrow> bytes \<Rightarrow> 64 word \<Rightarrow> ('l, 'f) Node \<Rightarrow> 'w \<Rightarrow> (svc_error + bytes) \<times> ('l, 'f) Node \<times> 'w) \<Rightarrow> string \<Rightarrow>
    bytes \<Rightarrow> (16 word, string) gomap \<Rightarrow> nat \<Rightarrow> nat \<Rightarrow> bytes \<Rightarrow> bytes option \<Rightarrow> Exec_State.State \<Rightarrow> ('l, 'f) Node \<Rightarrow> 'w \<Rightarrow> SagaStep list" where
  "runCalls E call execID plan names 0 step ctx resp st n w = []"
| "runCalls E call execID plan names (Suc left) step ctx resp st n w =
     (if ev_done E step then []
      else case executeStep E plan ctx resp of
             Inl e \<Rightarrow> []
           | Inr out \<Rightarrow>
               (case so_Result out of
                  StepPending \<Rightarrow>
                    (let s = sagaStep names out;
                         p = saveState E (\<lambda>s. s\<lparr>st_Status := StatusWaitingForService, st_PendingSvc := so_PendingSvc out, st_PendingBody := so_PendingBody out,
                             st_CtxBytes := so_CtxBytes out\<rparr>) st (recordExec ''svc_pending'' n)
                     in s # (case call (sg_ServiceName s) (sg_Method s) (so_PendingBody out) (so_TimeoutMs out) (registerStep execID s (snd p)) w of
                          (Inl e, n3, w1) \<Rightarrow> []
                        | (Inr r, n3, w1) \<Rightarrow>
                            (case saveState E (\<lambda>s. s\<lparr>st_Status := StatusRunning, st_PendingSvc := 0, st_PendingBody := [], st_CtxBytes := so_CtxBytes out\<rparr>)
                                    (fst p) n3 of (st2, n4) \<Rightarrow>
                             runCalls E call execID plan names left (Suc step) (so_CtxBytes out) (Some r) st2 n4 w1)))
                | StepContinue \<Rightarrow>
                    (case saveState E (\<lambda>s. s\<lparr>st_Status := StatusRunning, st_CtxBytes := so_CtxBytes out\<rparr>) st n of (st1, n1) \<Rightarrow>
                     runCalls E call execID plan names left (Suc step) (so_CtxBytes out) None st1 n1 w)
                | _ \<Rightarrow> []))"

definition keeps_saga ::
  "(string \<Rightarrow> string \<Rightarrow> bytes \<Rightarrow> 64 word \<Rightarrow> ('l, 'f) Node \<Rightarrow> 'w \<Rightarrow> (svc_error + bytes) \<times> ('l, 'f) Node \<times> 'w) \<Rightarrow> bool" where
  "keeps_saga call \<longleftrightarrow> (\<forall>svc m b t n w.
     nd_Saga (fst (snd (call svc m b t n w))) = nd_Saga n \<and> nd_compensated (fst (snd (call svc m b t n w))) = nd_compensated n \<and>
     nd_StateStore (fst (snd (call svc m b t n w))) = nd_StateStore n)"

lemma keeps_sagaD:
  assumes "keeps_saga call" "call svc m b t n w = (r, n1, w1)"
  shows "nd_Saga n1 = nd_Saga n" "nd_compensated n1 = nd_compensated n" "nd_StateStore n1 = nd_StateStore n"
proof -
  have "nd_Saga (fst (snd (call svc m b t n w))) = nd_Saga n \<and> nd_compensated (fst (snd (call svc m b t n w))) = nd_compensated n \<and>
     nd_StateStore (fst (snd (call svc m b t n w))) = nd_StateStore n"
    using assms(1) unfolding keeps_saga_def by blast
  then show "nd_Saga n1 = nd_Saga n" "nd_compensated n1 = nd_compensated n" "nd_StateStore n1 = nd_StateStore n"
    using assms(2) by simp_all
qed

lemma callService_keeps_saga: "keeps_saga (callService E)"
  by (simp add: keeps_saga_def callService_def Let_def recordExec_def recordError_def split: prod.split picked.split)

lemma node_frame [simp]:
  "nd_Saga (recordExec k n) = nd_Saga n" "nd_compensated (recordExec k n) = nd_compensated n" "nd_StateStore (recordExec k n) = nd_StateStore n"
  "nd_Saga (snd (saveState E f st n)) = nd_Saga n" "nd_compensated (snd (saveState E f st n)) = nd_compensated n"
  "nd_compensated (registerStep execID s n) = nd_compensated n" "nd_StateStore (registerStep execID s n) = nd_StateStore n"
  "nd_compensated (clearSaga execID n) = nd_compensated n" "nd_StateStore (clearSaga execID n) = nd_StateStore n"
  "nd_Saga (ExecRegister now i name n) = nd_Saga n" "nd_compensated (ExecRegister now i name n) = nd_compensated n"
  "nd_StateStore (ExecRegister now i name n) = nd_StateStore n" "nd_Saga (ExecUnregister i n) = nd_Saga n"
  "nd_compensated (ExecUnregister i n) = nd_compensated n" "nd_StateStore (ExecUnregister i n) = nd_StateStore n"
  by (simp_all add: recordExec_def saveState_def registerStep_def clearSaga_def ExecRegister_def ExecUnregister_def split: option.split)

lemma nd_StateStore_saveState:
  "nd_StateStore (snd (saveState E f st n)) =
    map_option (\<lambda>fs. snd (fsSave (ev_disk E) (ev_order E) (ev_now E) (f st) fs)) (nd_StateStore n)"
  by (simp add: saveState_def split: option.split)

lemma tryCompensate_saga:
  "nd_Saga n = Some s \<Longrightarrow> \<exists>s1. nd_Saga (tryCompensate i n) = Some s1 \<and> stepsOf i s1 = [] \<and>
    nd_compensated (tryCompensate i n) = nd_compensated n @ compCalls (rev (stepsOf i s))"
  by (auto simp: tryCompensate_def Compensate_result stepsOf_def)

lemma nd_StateStore_tryCompensate [simp]: "nd_StateStore (tryCompensate i n) = nd_StateStore n"
  by (simp add: tryCompensate_def split: option.split prod.split)

lemma clearSaga_saga: "nd_Saga n = Some s \<Longrightarrow> \<exists>s1. nd_Saga (clearSaga i n) = Some s1 \<and> stepsOf i s1 = []"
  by (simp add: clearSaga_def Saga.Clear_def stepsOf_def)

lemma registerStep_saga:
  "nd_Saga n = Some s \<Longrightarrow> \<exists>s1. nd_Saga (registerStep i x n) = Some s1 \<and>
    stepsOf i s1 = stepsOf i s @ (if sg_CompSvc x \<noteq> [] then [x] else [])"
  by (simp add: registerStep_def stepsOf_RegisterStep)

definition compensating :: "SagaStep list \<Rightarrow> SagaStep list" where
  "compensating = filter (\<lambda>x. sg_CompSvc x \<noteq> [])"

lemma compensating_Cons: "compensating (x # xs) = compensating [x] @ compensating xs"
  by (simp add: compensating_def)

abbreviation waiting :: "StepOutput \<Rightarrow> Exec_State.State \<Rightarrow> Exec_State.State" where
  "waiting out s \<equiv> s\<lparr>st_Status := StatusWaitingForService, st_PendingSvc := so_PendingSvc out, st_PendingBody := so_PendingBody out,
     st_CtxBytes := so_CtxBytes out\<rparr>"

abbreviation answered :: "StepOutput \<Rightarrow> Exec_State.State \<Rightarrow> Exec_State.State" where
  "answered out s \<equiv> s\<lparr>st_Status := StatusRunning, st_PendingSvc := 0, st_PendingBody := [], st_CtxBytes := so_CtxBytes out\<rparr>"

abbreviation continued :: "StepOutput \<Rightarrow> Exec_State.State \<Rightarrow> Exec_State.State" where
  "continued out s \<equiv> s\<lparr>st_Status := StatusRunning, st_CtxBytes := so_CtxBytes out\<rparr>"

lemma runSteps_cases:
  assumes "runSteps E call i plan names (Suc left) step ctx resp st n w = (r, st1, n1, w1)"
  obtains (stopped) e where "r = Inl e" "st1 = st" "n1 = tryCompensate i n"
      "runCalls E call i plan names (Suc left) step ctx resp st n w = []"
  | (completed) b where "r = Inr b" "st1 = st" "n1 = clearSaga i (recordExec ''completed'' n)"
  | (continued) out st2 n2 where "saveState E (continued out) st n = (st2, n2)"
      "runSteps E call i plan names left (Suc step) (so_CtxBytes out) None st2 n2 w = (r, st1, n1, w1)"
      "runCalls E call i plan names (Suc left) step ctx resp st n w =
        runCalls E call i plan names left (Suc step) (so_CtxBytes out) None st2 n2 w"
  | (call_failed) out n2 x e n3 where "saveState E (waiting out) st (recordExec ''svc_pending'' n) = (st1, n2)"
      "call (sg_ServiceName x) (sg_Method x) (so_PendingBody out) (so_TimeoutMs out) (registerStep i x n2) w = (Inl e, n3, w1)"
      "r = Inl (ServiceErr (sg_ServiceName x) e)" "n1 = tryCompensate i n3"
      "runCalls E call i plan names (Suc left) step ctx resp st n w = [x]"
  | (call_answered) out st2 n2 x b n3 w2 st4 n4 where "saveState E (waiting out) st (recordExec ''svc_pending'' n) = (st2, n2)"
      "call (sg_ServiceName x) (sg_Method x) (so_PendingBody out) (so_TimeoutMs out) (registerStep i x n2) w = (Inr b, n3, w2)"
      "saveState E (answered out) st2 n3 = (st4, n4)"
      "runSteps E call i plan names left (Suc step) (so_CtxBytes out) (Some b) st4 n4 w2 = (r, st1, n1, w1)"
      "runCalls E call i plan names (Suc left) step ctx resp st n w =
        x # runCalls E call i plan names left (Suc step) (so_CtxBytes out) (Some b) st4 n4 w2"
proof (cases "ev_done E step")
  case True
  then show thesis using assms by (intro that(1)) auto
next
  case go: False
  show thesis
  proof (cases "executeStep E plan ctx resp")
    case (Inl e)
    then show thesis using assms go by (intro that(1)) auto
  next
    case out: (Inr out)
    obtain st2 n2 where sv: "saveState E (waiting out) st (recordExec ''svc_pending'' n) = (st2, n2)" by fastforce
    obtain svc m cs cm where pc: "ParseCompensation (serviceName names (so_PendingSvc out)) = (svc, m, cs, cm)" by (metis prod_cases4)
    obtain q n3 w2 where cl: "call svc m (so_PendingBody out) (so_TimeoutMs out) (registerStep i (sagaStep names out) n2) w = (q, n3, w2)"
      by (metis prod_cases3)
    obtain st4 n4 where sv2: "saveState E (answered out) st2 n3 = (st4, n4)" by fastforce
    obtain st5 n5 where sv3: "saveState E (continued out) st n = (st5, n5)" by fastforce
    show thesis
    proof (cases "so_Result out")
      case StepPending
      note run = assms go out sv StepPending pc cl sv2
      show thesis
      proof (cases q)
        case (Inl e)
        then show thesis using run by (intro that(4) [of out n2 "sagaStep names out" e n3]) (simp_all add: sagaStep_def Let_def)
      next
        case (Inr b)
        then show thesis using run
          by (intro that(5) [of out st2 n2 "sagaStep names out" b n3 w2 st4 n4]) (simp_all add: sagaStep_def Let_def)
      qed
    next
      case StepDone
      then show thesis using assms go out by (intro that(2)) auto
    next
      case StepContinue
      then show thesis using assms go out sv3 by (intro that(3) [of out st5 n5]) auto
    next
      case (StepOther c)
      then show thesis using assms go out by (intro that(1)) auto
    qed
  qed
qed

lemma saveState_frame:
  assumes "saveState E f st n = (st1, n1)"
  shows "nd_Saga n1 = nd_Saga n" "nd_compensated n1 = nd_compensated n" "nd_StateStore n1 = None \<longleftrightarrow> nd_StateStore n = None"
    "(\<And>s. st_ID (f s) = st_ID s) \<Longrightarrow> st_ID st1 = st_ID st"
  using assms by (auto simp: saveState_def split: option.splits)

lemma runSteps_saga:
  assumes keeps: "keeps_saga call"
  shows "nd_Saga n = Some s \<Longrightarrow> runSteps E call i plan names left step ctx resp st n w = (r, st1, n1, w1) \<Longrightarrow>
    \<exists>s1. nd_Saga n1 = Some s1 \<and> stepsOf i s1 = [] \<and> nd_compensated n1 = nd_compensated n @
      (case r of Inr _ \<Rightarrow> []
       | Inl _ \<Rightarrow> compCalls (rev (stepsOf i s @ compensating (runCalls E call i plan names left step ctx resp st n w))))"
proof (induction left arbitrary: step ctx resp st n w s)
  case 0
  then show ?case using tryCompensate_saga [of n s i] by (auto simp: compensating_def)
next
  case (Suc left)
  from Suc.prems(2) show ?case
  proof (cases rule: runSteps_cases)
    case (stopped e)
    then show ?thesis using tryCompensate_saga [OF Suc.prems(1), of i] by (simp add: compensating_def)
  next
    case (completed b)
    then show ?thesis using clearSaga_saga [of "recordExec ''completed'' n" s i] Suc.prems(1) by simp
  next
    case (continued out st2 n2)
    note fr = saveState_frame(1,2) [OF continued(1)]
    from Suc.IH [OF _ continued(2), of s] Suc.prems(1) fr(1) show ?thesis
      unfolding continued(3) fr(2) [symmetric] by simp
  next
    case (call_failed out n2 x e n3)
    obtain s3 where "nd_Saga n3 = Some s3" "stepsOf i s3 = stepsOf i s @ compensating [x]" "nd_compensated n3 = nd_compensated n"
      using registerStep_saga [of n2 s i x] Suc.prems(1) saveState_frame [OF call_failed(1)] keeps_sagaD [OF keeps call_failed(2)]
      by (auto simp: compensating_def)
    then show ?thesis using tryCompensate_saga [of n3 s3 i] unfolding call_failed(3,4,5) by simp
  next
    case (call_answered out st2 n2 x b n3 w2 st4 n4)
    define R where "R = runCalls E call i plan names left (Suc step) (so_CtxBytes out) (Some b) st4 n4 w2"
    obtain s3 where s3: "nd_Saga n4 = Some s3" "stepsOf i s3 = stepsOf i s @ compensating [x]" "nd_compensated n4 = nd_compensated n"
      using registerStep_saga [of n2 s i x] Suc.prems(1) saveState_frame [OF call_answered(1)] saveState_frame [OF call_answered(3)]
        keeps_sagaD [OF keeps call_answered(2)] by (auto simp: compensating_def)
    from Suc.IH [OF s3(1) call_answered(4), folded R_def] show ?thesis
      unfolding call_answered(5) [folded R_def] compensating_Cons [of x R] s3(2,3) append_assoc .
  qed
qed

lemma runSteps_store:
  assumes keeps: "keeps_saga call"
  shows "runSteps E call i plan names left step ctx resp st n w = (r, st1, n1, w1) \<Longrightarrow>
    st_ID st1 = st_ID st \<and> (nd_StateStore n1 = None \<longleftrightarrow> nd_StateStore n = None)"
proof (induction left arbitrary: step ctx resp st n w)
  case (Suc left)
  from Suc.prems show ?case
  proof (cases rule: runSteps_cases)
    case (continued out st2 n2)
    then show ?thesis using Suc.IH [OF continued(2)] saveState_frame(3,4) [OF continued(1)] by simp
  next
    case (call_failed out n2 x e n3)
    then show ?thesis using saveState_frame(3,4) [OF call_failed(1)] keeps_sagaD [OF keeps call_failed(2)] by simp
  next
    case (call_answered out st2 n2 x b n3 w2 st4 n4)
    then show ?thesis using Suc.IH [OF call_answered(4)] saveState_frame(3,4) [OF call_answered(1)] saveState_frame(3,4) [OF call_answered(3)]
      keeps_sagaD [OF keeps call_answered(2)] by simp
  qed simp_all
qed auto

lemma fsLoad_saved: "fsLoad (st_ID s) (snd (fsSave True order now s fs)) = Inr (s\<lparr>st_UpdatedAt := now\<rparr>)"
  by (simp add: fsLoad_def fsRead_def fsSave_def Let_def update_conv')

text \<open>C2: An execution that fails undoes its calls of services in the reverse of their order: the compensators called are those of the calls it made
  that have one, the last call, which failed, among them; one that completes undoes nothing.  Either way no step is left in the saga for the
  execution, and its state in the store is the final one: completed with its output, or failed with the text of its error.\<close>

theorem execution_compensates:
  assumes "nd_Saga n = Some s" and "stepsOf execID s = []" and "nd_StateStore n = Some fs" and "ev_disk E"
    and "n0 = (ExecRegister (ev_now E) execID [] n)
      \<lparr>nd_StateStore := Some (snd (fsCreate True (newState (ev_now E) execID plan) fs))\<rparr>"
    and "executePlan E text (callService E) execID plan body n w = (r, n1, w1)"
  shows "nd_compensated n1 = nd_compensated n @
      (case r of Inr _ \<Rightarrow> []
       | Inl _ \<Rightarrow> compCalls (rev (compensating (runCalls E (callService E) execID plan (planNames E plan) maxExecutionSteps 0 [] None
           (newState (ev_now E) execID plan) n0 w)))) \<and>
    stepsOf execID (the (nd_Saga n1)) = [] \<and>
    (\<exists>fs1 st. nd_StateStore n1 = Some fs1 \<and> fsLoad execID fs1 = Inr st \<and> st_ID st = execID \<and>
      (case r of Inl e \<Rightarrow> st_Status st = StatusFailed \<and> st_Error st = text e
       | Inr out \<Rightarrow> st_Status st = StatusCompleted \<and> st_Output st = out))"
proof -
  obtain r2 st2 n2 w2 where run: "runSteps E (callService E) execID plan (planNames E plan) maxExecutionSteps 0 [] None
      (newState (ev_now E) execID plan) n0 w = (r2, st2, n2, w2)" by (metis prod_cases4)
  define f :: "Exec_State.State \<Rightarrow> Exec_State.State" where "f = (\<lambda>s. case r2 of Inl e \<Rightarrow> s\<lparr>st_Status := StatusFailed, st_Error := text e\<rparr>
      | Inr out \<Rightarrow> s\<lparr>st_Status := StatusCompleted, st_Output := out\<rparr>)"
  obtain st3 n3 where sv: "saveState E f st2 n2 = (st3, n3)" by fastforce
  have n0: "nd_Saga n0 = Some s" "nd_compensated n0 = nd_compensated n" "nd_StateStore n0 \<noteq> None"
    using assms(1,5) by simp_all
  have r: "r = r2" and n1: "n1 = ExecUnregister execID n3"
    using assms(3-6) run sv by (simp_all add: executePlan_def Let_def f_def)
  note saga = runSteps_saga [OF callService_keeps_saga n0(1) run]
  note store = runSteps_store [OF callService_keeps_saga run]
  then obtain fs2 where fs2: "nd_StateStore n2 = Some fs2" and i: "st_ID (f st2) = execID"
    using n0(3) by (cases "nd_StateStore n2") (auto simp: f_def newState_def split: sum.split)
  then have "nd_StateStore n3 = Some (snd (fsSave True (ev_order E) (ev_now E) (f st2) fs2))"
    using sv assms(4) by (auto simp: saveState_def)
  then have "\<exists>fs1 st. nd_StateStore n1 = Some fs1 \<and> fsLoad execID fs1 = Inr st \<and> st_ID st = execID \<and>
      (case r of Inl e \<Rightarrow> st_Status st = StatusFailed \<and> st_Error st = text e
       | Inr out \<Rightarrow> st_Status st = StatusCompleted \<and> st_Output st = out)"
    using fsLoad_saved [of "f st2" "ev_order E" "ev_now E" fs2] i n1 r by (auto simp: f_def split: sum.splits)
  then show ?thesis
    using saga saveState_frame(1,2) [OF sv] n0(2) n1 r assms(2) by (auto split: sum.splits)
qed

text \<open>A node with nothing registered, and a plan that does nothing but call \<open>pay\<close>.\<close>

definition emptyNode :: "(nat, nat) Node" where
  "emptyNode =
     \<lparr>nd_Saga = Some (NewSagaTracker None), nd_StateStore = Some (NewFileStore []), nd_breakers = [], nd_Registry = NewServiceRegistry,
      nd_pools = [], nd_tls = False, nd_metrics = NewMetricsCollector, nd_Execs = [], nd_DLQ = NewDLQ 10 None None,
      nd_RateLimiter = NewRateLimiter, nd_Dedup = NewDedupTracker 0 0, nd_compensated = []\<rparr>"

definition payEnv :: "(nat, unit) Env" where
  "payEnv =
     \<lparr>ev_step = (\<lambda>_ ctx resp. case resp of
        None \<Rightarrow> \<lparr>so_Result = StepPending, so_Output = [], so_PendingSvc = 0, so_PendingBody = ''5'', so_TimeoutMs = 0, so_CtxBytes = ctx\<rparr>
      | Some b \<Rightarrow> \<lparr>so_Result = StepDone, so_Output = b, so_PendingSvc = 0, so_PendingBody = [], so_TimeoutMs = 0, so_CtxBytes = ctx\<rparr>),
      ev_services = (\<lambda>_. Some [(0, ''pay.charge:refund'')]), ev_done = (\<lambda>_. False),
      ev_net = \<lparr>nt_http = (\<lambda>_ _ w. (Answer 503 (Inr []), w)), nt_dial = (\<lambda>_ w. (Inl [], w)), nt_pending = (\<lambda>_ _. False),
        nt_tcp = (\<lambda>_ _ w. (WriteLength [], w))\<rparr>,
      ev_lt = (<), ev_localNode = ''n1'', ev_rnd = (\<lambda>_. 0), ev_disk = True, ev_order = [StatusRunning, StatusWaitingForService], ev_now = 7\<rparr>"

lemma unknown_service_fails:
  "nd_breakers n = [] \<Longrightarrow> nd_Registry n = NewServiceRegistry \<Longrightarrow> \<exists>e n1. callService E svc m b t n w = (Inl e, n1, w)"
  by (simp add: callService_def recordExec_def Let_def NewServiceRegistry_def LookupInstance_def LookupInstanceWithProtocol_def listed_def
      Circuit_Breaker.Allow_def NewCircuitBreaker_def)

lemma payEnv_frame [simp]:
  "nd_breakers (registerStep i x n) = nd_breakers n" "nd_Registry (registerStep i x n) = nd_Registry n"
  "nd_breakers (snd (saveState E f st n)) = nd_breakers n" "nd_Registry (snd (saveState E f st n)) = nd_Registry n"
  "nd_breakers (recordExec k n) = nd_breakers n" "nd_Registry (recordExec k n) = nd_Registry n"
  by (simp_all add: recordExec_def saveState_def registerStep_def split: option.split)

lemma payEnv_run:
  assumes "nd_breakers n = []" and "nd_Registry n = NewServiceRegistry"
  shows "\<exists>e st1 n1 w1. runSteps payEnv (callService payEnv) ''x'' ''p'' (planNames payEnv ''p'') (Suc k) 0 [] None st n w = (Inl e, st1, n1, w1)"
    and "compCalls (rev (compensating (runCalls payEnv (callService payEnv) ''x'' ''p'' (planNames payEnv ''p'') (Suc k) 0 [] None st n w))) =
      [(''pay'', ''refund'', ''5'')]"
proof -
  let ?out = "\<lparr>so_Result = StepPending, so_Output = [], so_PendingSvc = 0, so_PendingBody = ''5'', so_TimeoutMs = 0, so_CtxBytes = []\<rparr>"
  have st: "executeStep payEnv ''p'' [] None = Inr ?out" "\<not> ev_done payEnv 0" by (simp_all add: executeStep_def payEnv_def)
  have pc: "ParseCompensation (serviceName (planNames payEnv ''p'') 0) = (''pay'', ''charge'', ''pay'', ''refund'')"
    by (simp add: payEnv_def planNames_def serviceName_def ParseCompensation_def ParseServiceMethod_def)
  then have x: "sagaStep (planNames payEnv ''p'') ?out =
      \<lparr>sg_ServiceName = ''pay'', sg_Method = ''charge'', sg_Body = ''5'', sg_CompSvc = ''pay'', sg_CompMethod = ''refund''\<rparr>"
    by (simp add: sagaStep_def)
  obtain st2 n2 where sv: "saveState payEnv (waiting ?out) st (recordExec ''svc_pending'' n) = (st2, n2)" by fastforce
  then have "nd_breakers n2 = [] \<and> nd_Registry n2 = NewServiceRegistry"
    using assms payEnv_frame(3,4) [of payEnv "waiting ?out" st "recordExec ''svc_pending'' n"] by simp
  then obtain e n3 where cl: "callService payEnv ''pay'' ''charge'' ''5'' 0 (registerStep ''x'' (sagaStep (planNames payEnv ''p'') ?out) n2) w = (Inl e, n3, w)"
    using unknown_service_fails [of "registerStep ''x'' (sagaStep (planNames payEnv ''p'') ?out) n2"] by fastforce
  show "\<exists>e st1 n1 w1. runSteps payEnv (callService payEnv) ''x'' ''p'' (planNames payEnv ''p'') (Suc k) 0 [] None st n w = (Inl e, st1, n1, w1)"
    using st pc sv cl x by simp
  show "compCalls (rev (compensating (runCalls payEnv (callService payEnv) ''x'' ''p'' (planNames payEnv ''p'') (Suc k) 0 [] None st n w))) =
      [(''pay'', ''refund'', ''5'')]"
    using st sv cl x by (simp add: compensating_def compCalls_def Let_def)
qed

theorem execution_compensates_witness:
  "nd_compensated (fst (snd (executePlan payEnv (\<lambda>_. ''failed'') (callService payEnv) ''x'' ''p'' ''body'' emptyNode ()))) = [(''pay'', ''refund'', ''5'')]"
proof -
  obtain r n1 w1 where run: "executePlan payEnv (\<lambda>_. ''failed'') (callService payEnv) ''x'' ''p'' ''body'' emptyNode () = (r, n1, w1)"
    by (metis prod_cases3)
  define n0 where "n0 = (ExecRegister (ev_now payEnv) ''x'' [] emptyNode)
      \<lparr>nd_StateStore := Some (snd (fsCreate True (newState (ev_now payEnv) ''x'' ''p'') (NewFileStore [])))\<rparr>"
  have n0: "nd_breakers n0 = []" "nd_Registry n0 = NewServiceRegistry"
    by (simp_all add: n0_def ExecRegister_def emptyNode_def)
  have k: "maxExecutionSteps = Suc 999" by (simp add: maxExecutionSteps_def)
  have start: "nd_Saga emptyNode = Some (NewSagaTracker None)" "stepsOf ''x'' (NewSagaTracker None) = []"
      "nd_StateStore emptyNode = Some (NewFileStore [])" "ev_disk payEnv"
    by (simp_all add: emptyNode_def NewSagaTracker_def stepsOf_def payEnv_def)
  have "\<exists>e. r = Inl e"
    using run payEnv_run(1) [OF n0, of 999 "newState (ev_now payEnv) ''x'' ''p''" "()"] start(3,4)
    by (auto simp: executePlan_def Let_def n0_def k)
  with execution_compensates [OF start n0_def run]
  have "nd_compensated n1 = nd_compensated emptyNode @ [(''pay'', ''refund'', ''5'')]"
    unfolding k using payEnv_run(2) [OF n0, of 999 "newState (ev_now payEnv) ''x'' ''p''" "()"] by auto
  then show ?thesis using run by (simp add: emptyNode_def)
qed

subsection \<open>Taking an execution up again\<close>

text \<open>The states a run saves, in order, on a node that has a store.\<close>

fun runSaves ::
  "('l, 'w) Env \<Rightarrow> (string \<Rightarrow> string \<Rightarrow> bytes \<Rightarrow> 64 word \<Rightarrow> ('l, 'f) Node \<Rightarrow> 'w \<Rightarrow> (svc_error + bytes) \<times> ('l, 'f) Node \<times> 'w) \<Rightarrow> string \<Rightarrow>
    bytes \<Rightarrow> (16 word, string) gomap \<Rightarrow> nat \<Rightarrow> nat \<Rightarrow> bytes \<Rightarrow> bytes option \<Rightarrow> Exec_State.State \<Rightarrow> ('l, 'f) Node \<Rightarrow> 'w \<Rightarrow> Exec_State.State list" where
  "runSaves E call execID plan names 0 step ctx resp st n w = []"
| "runSaves E call execID plan names (Suc left) step ctx resp st n w =
     (if ev_done E step then []
      else case executeStep E plan ctx resp of
             Inl e \<Rightarrow> []
           | Inr out \<Rightarrow>
               (case so_Result out of
                  StepPending \<Rightarrow>
                    (case saveState E (waiting out) st (recordExec ''svc_pending'' n) of (st1, n1) \<Rightarrow>
                     let s = sagaStep names out
                     in st1 # (case call (sg_ServiceName s) (sg_Method s) (so_PendingBody out) (so_TimeoutMs out) (registerStep execID s n1) w of
                          (Inl e, n3, w1) \<Rightarrow> []
                        | (Inr r, n3, w1) \<Rightarrow>
                            (case saveState E (answered out) st1 n3 of (st2, n4) \<Rightarrow>
                             st2 # runSaves E call execID plan names left (Suc step) (so_CtxBytes out) (Some r) st2 n4 w1)))
                | StepContinue \<Rightarrow>
                    (case saveState E (continued out) st n of (st1, n1) \<Rightarrow>
                     st1 # runSaves E call execID plan names left (Suc step) (so_CtxBytes out) None st1 n1 w)
                | _ \<Rightarrow> []))"

text \<open>The output of a plan whose services always answer, without a node around it.\<close>

fun plainRun ::
  "('l, 'w) Env \<Rightarrow> (string \<Rightarrow> string \<Rightarrow> bytes \<Rightarrow> bytes) \<Rightarrow> bytes \<Rightarrow> (16 word, string) gomap \<Rightarrow> nat \<Rightarrow> bytes \<Rightarrow> bytes option \<Rightarrow> bytes option" where
  "plainRun E answer plan names 0 ctx resp = None"
| "plainRun E answer plan names (Suc left) ctx resp =
     (let out = ev_step E plan ctx resp; s = sagaStep names out
      in case so_Result out of
           StepDone \<Rightarrow> Some (so_Output out)
         | StepPending \<Rightarrow> plainRun E answer plan names left (so_CtxBytes out) (Some (answer (sg_ServiceName s) (sg_Method s) (so_PendingBody out)))
         | StepContinue \<Rightarrow> plainRun E answer plan names left (so_CtxBytes out) None
         | StepOther c \<Rightarrow> None)"

text \<open>What the runtime, the context and the services must do: a pending step is pending again, in the same way, when it is repeated.\<close>

definition resumable ::
  "('l, 'w) Env \<Rightarrow> (string \<Rightarrow> string \<Rightarrow> bytes \<Rightarrow> 64 word \<Rightarrow> ('l, 'f) Node \<Rightarrow> 'w \<Rightarrow> (svc_error + bytes) \<times> ('l, 'f) Node \<times> 'w) \<Rightarrow>
    (string \<Rightarrow> string \<Rightarrow> bytes \<Rightarrow> bytes) \<Rightarrow> bytes \<Rightarrow> bool" where
  "resumable E call answer plan \<longleftrightarrow> plan \<noteq> [] \<and> (\<forall>i. \<not> ev_done E i) \<and> ev_disk E \<and> keeps_saga call \<and>
     (\<forall>svc m b t n w. fst (call svc m b t n w) = Inr (answer svc m b)) \<and>
     (\<forall>ctx resp. so_Result (ev_step E plan ctx resp) = StepPending \<longrightarrow>
        ev_step E plan (so_CtxBytes (ev_step E plan ctx resp)) None = ev_step E plan ctx resp) \<and>
     (\<forall>svc. CHR '':'' \<notin> set (serviceName (planNames E plan) svc))"

lemma splitByte_None: "c \<notin> set s \<Longrightarrow> splitByte c s = None"
  by (induction s) auto

lemma resumable_call: "resumable E call answer plan \<Longrightarrow> \<exists>n1 w1. call svc m b t n w = (Inr (answer svc m b), n1, w1)"
  unfolding resumable_def by (metis prod.collapse)

lemma resumable_keeps: "resumable E call answer plan \<Longrightarrow> keeps_saga call"
  by (simp add: resumable_def)

lemma resumable_step: "resumable E call answer plan \<Longrightarrow> executeStep E plan ctx resp = Inr (ev_step E plan ctx resp)"
  by (simp add: resumable_def executeStep_def)

lemma resumable_again:
  "resumable E call answer plan \<Longrightarrow> so_Result (ev_step E plan ctx resp) = StepPending \<Longrightarrow>
    ev_step E plan (so_CtxBytes (ev_step E plan ctx resp)) None = ev_step E plan ctx resp"
  by (simp add: resumable_def)

lemma sagaStep_names:
  "ParseCompensation (serviceName names (so_PendingSvc out)) = (svc, m, cs, cm) \<Longrightarrow> sg_ServiceName (sagaStep names out) = svc \<and> sg_Method (sagaStep names out) = m"
  by (simp add: sagaStep_def)

lemma resumable_names:
  assumes "resumable E call answer plan"
  shows "ParseServiceMethod (serviceName (planNames E plan) (so_PendingSvc out)) =
    (sg_ServiceName (sagaStep (planNames E plan) out), sg_Method (sagaStep (planNames E plan) out))"
  using assms by (simp add: resumable_def sagaStep_def ParseCompensation_def splitByte_None split: prod.split)

lemma runSteps_plain:
  assumes res: "resumable E call answer plan"
  shows "\<exists>r st1 n1 w1. runSteps E call i plan names left step ctx resp st n w = (r, st1, n1, w1) \<and>
    (case plainRun E answer plan names left ctx resp of Some out \<Rightarrow> r = Inr out | None \<Rightarrow> \<exists>e. r = Inl e)"
proof (induction left arbitrary: step ctx resp st n w)
  case (Suc left)
  define out where "out = ev_step E plan ctx resp"
  have go: "\<not> ev_done E step" "executeStep E plan ctx resp = Inr out"
    using res resumable_step [OF res] by (simp_all add: resumable_def out_def)
  show ?case
  proof (cases "so_Result out")
    case StepPending
    obtain svc m cs cm where pc: "ParseCompensation (serviceName names (so_PendingSvc out)) = (svc, m, cs, cm)" by (metis prod_cases4)
    obtain st2 n2 where sv: "saveState E (waiting out) st (recordExec ''svc_pending'' n) = (st2, n2)" by fastforce
    obtain n3 w2 where cl: "call svc m (so_PendingBody out) (so_TimeoutMs out) (registerStep i \<lparr>sg_ServiceName = svc, sg_Method = m,
        sg_Body = so_PendingBody out, sg_CompSvc = cs, sg_CompMethod = cm\<rparr> n2) w = (Inr (answer svc m (so_PendingBody out)), n3, w2)"
      using resumable_call [OF res] by metis
    obtain st4 n4 where sv2: "saveState E (answered out) st2 n3 = (st4, n4)" by fastforce
    show ?thesis using Suc.IH [of "Suc step" "so_CtxBytes out" "Some (answer svc m (so_PendingBody out))" st4 n4 w2] go StepPending pc sv cl sv2
      sagaStep_names [OF pc] by (simp add: out_def [symmetric])
  next
    case StepContinue
    obtain st2 n2 where sv: "saveState E (continued out) st n = (st2, n2)" by fastforce
    show ?thesis using Suc.IH [of "Suc step" "so_CtxBytes out" None st2 n2 w] go StepContinue sv by (simp add: out_def [symmetric])
  qed (use go in \<open>auto simp: out_def [symmetric]\<close>)
qed simp

text \<open>A saved state is either running, and the run goes on from its context, or waits for a service, and the run goes on with the answer.\<close>

definition resumes ::
  "('l, 'w) Env \<Rightarrow> (string \<Rightarrow> string \<Rightarrow> bytes \<Rightarrow> bytes) \<Rightarrow> bytes \<Rightarrow> (16 word, string) gomap \<Rightarrow> nat \<Rightarrow> bytes \<Rightarrow> Exec_State.State \<Rightarrow> bool" where
  "resumes E answer plan names k out s \<longleftrightarrow> st_PlanBytes s = plan \<and>
     (st_Status s = StatusRunning \<and> plainRun E answer plan names k (st_CtxBytes s) None = Some out \<or>
      st_Status s = StatusWaitingForService \<and> (case ParseServiceMethod (serviceName names (st_PendingSvc s)) of (svc, m) \<Rightarrow>
        plainRun E answer plan names k (st_CtxBytes s) (Some (answer svc m (st_PendingBody s))) = Some out))"

lemma plainRun_mono: "plainRun E answer plan names j ctx resp = Some out \<Longrightarrow> j \<le> k \<Longrightarrow> plainRun E answer plan names k ctx resp = Some out"
proof (induction j arbitrary: k ctx resp)
  case (Suc j)
  obtain k1 where "k = Suc k1" "j \<le> k1" using Suc.prems(2) by (cases k) auto
  then show ?case using Suc.prems(1) Suc.IH [of _ _ k1] by (simp add: Let_def split: StepResult.splits)
qed simp

lemma plainRun_Suc: "plainRun E answer plan names j ctx resp = Some out \<Longrightarrow> plainRun E answer plan names (Suc j) ctx resp = Some out"
  by (erule plainRun_mono) simp

lemma resumes_Suc: "resumes E answer plan names k out s \<Longrightarrow> resumes E answer plan names (Suc k) out s"
  by (cases "ParseServiceMethod (serviceName names (st_PendingSvc s))") (auto simp: resumes_def simp del: plainRun.simps dest: plainRun_Suc)

lemma saveState_changed: "nd_StateStore n \<noteq> None \<Longrightarrow> saveState E f st n = (st1, n1) \<Longrightarrow> st1 = (f st)\<lparr>st_UpdatedAt := ev_now E\<rparr> \<and> nd_StateStore n1 \<noteq> None"
  by (auto simp: saveState_def)

lemma saves_resume:
  assumes res: "resumable E call answer plan" and nm: "names = planNames E plan"
  shows "plainRun E answer plan names left ctx resp = Some r \<Longrightarrow> nd_StateStore n \<noteq> None \<Longrightarrow> st_PlanBytes st = plan \<Longrightarrow>
    s \<in> set (runSaves E call i plan names left step ctx resp st n w) \<Longrightarrow> resumes E answer plan names left r s"
proof (induction left arbitrary: step ctx resp st n w)
  case (Suc left)
  define out where "out = ev_step E plan ctx resp"
  have go: "\<not> ev_done E step" "executeStep E plan ctx resp = Inr out"
    using res resumable_step [OF res] by (simp_all add: resumable_def out_def)
  show ?case
  proof (cases "so_Result out")
    case StepPending
    define x where "x = sagaStep names out"
    define b where "b = answer (sg_ServiceName x) (sg_Method x) (so_PendingBody out)"
    obtain st2 n2 where sv: "saveState E (waiting out) st (recordExec ''svc_pending'' n) = (st2, n2)" by fastforce
    obtain n3 w2 where cl: "call (sg_ServiceName x) (sg_Method x) (so_PendingBody out) (so_TimeoutMs out) (registerStep i x n2) w = (Inr b, n3, w2)"
      using resumable_call [OF res] unfolding b_def by metis
    obtain st4 n4 where sv2: "saveState E (answered out) st2 n3 = (st4, n4)" by fastforce
    have st2: "st2 = (waiting out st)\<lparr>st_UpdatedAt := ev_now E\<rparr>" "nd_StateStore n3 \<noteq> None"
      using saveState_changed [OF _ sv] Suc.prems(2) keeps_sagaD(3) [OF resumable_keeps [OF res] cl] by auto
    have st4: "st4 = (answered out st2)\<lparr>st_UpdatedAt := ev_now E\<rparr>" "nd_StateStore n4 \<noteq> None"
      using saveState_changed [OF st2(2) sv2] by auto
    have run: "plainRun E answer plan names left (so_CtxBytes out) (Some b) = Some r"
      using Suc.prems(1) StepPending by (simp add: out_def [symmetric] x_def b_def Let_def)
    have again: "plainRun E answer plan names (Suc left) (so_CtxBytes out) None = Some r"
      using run resumable_again [OF res StepPending [unfolded out_def]] StepPending by (simp add: out_def [symmetric] x_def b_def Let_def)
    have "s = st2 \<or> s = st4 \<or> s \<in> set (runSaves E call i plan names left (Suc step) (so_CtxBytes out) (Some b) st4 n4 w2)"
      using Suc.prems(4) go StepPending sv cl sv2 by (simp add: x_def Let_def)
    then show ?thesis
    proof (elim disjE)
      assume "s = st2"
      then show ?thesis using plainRun_Suc [OF run] resumable_names [OF res, of out] Suc.prems(3) st2(1)
        by (simp add: resumes_def nm b_def x_def del: plainRun.simps)
    next
      assume "s = st4"
      then show ?thesis using again Suc.prems(3) st4(1) st2(1) by (simp add: resumes_def del: plainRun.simps)
    next
      assume "s \<in> set (runSaves E call i plan names left (Suc step) (so_CtxBytes out) (Some b) st4 n4 w2)"
      from Suc.IH [OF run st4(2) _ this] show ?thesis using resumes_Suc Suc.prems(3) st4(1) st2(1) by simp
    qed
  next
    case StepContinue
    obtain st2 n2 where sv: "saveState E (continued out) st n = (st2, n2)" by fastforce
    have run: "plainRun E answer plan names left (so_CtxBytes out) None = Some r"
      using Suc.prems(1) StepContinue by (simp add: out_def [symmetric])
    have st2: "st2 = (continued out st)\<lparr>st_UpdatedAt := ev_now E\<rparr>" "nd_StateStore n2 \<noteq> None"
      using saveState_changed [OF Suc.prems(2) sv] by auto
    have "s = st2 \<or> s \<in> set (runSaves E call i plan names left (Suc step) (so_CtxBytes out) None st2 n2 w)"
      using Suc.prems(4) go StepContinue sv by simp
    then show ?thesis
    proof (elim disjE)
      assume "s = st2"
      then show ?thesis using plainRun_Suc [OF run] Suc.prems(3) st2(1) by (simp add: resumes_def del: plainRun.simps)
    next
      assume "s \<in> set (runSaves E call i plan names left (Suc step) (so_CtxBytes out) None st2 n2 w)"
      from Suc.IH [OF run st2(2) _ this] show ?thesis using resumes_Suc Suc.prems(3) st2(1) by simp
    qed
  qed (use Suc.prems(4) go in simp_all)
qed simp

lemma recover_resumed:
  assumes res: "resumable E call answer plan" and s: "resumes E answer plan (planNames E plan) maxExecutionSteps out s"
    and store: "nd_StateStore n \<noteq> None"
  shows "\<exists>n1 w1 fs. recoverExecution E text call s n w = (Inr out, n1, w1) \<and> nd_StateStore n1 = Some fs \<and> fsLoad (st_ID s) fs = Inl (NotFound (st_ID s))"
proof -
  let ?names = "planNames E plan"
  have plan: "st_PlanBytes s = plan" using s by (simp add: resumes_def)
  have resume: "\<exists>st1 n1 w1 fs. runSteps E call (st_ID st) plan ?names maxExecutionSteps 0 ctx resp st n w = (Inr out, st1, n1, w1) \<and>
      nd_StateStore n1 = Some fs \<and> fsLoad i (snd (fsDelete True i fs)) = Inl (NotFound i)"
    if r: "plainRun E answer plan ?names maxExecutionSteps ctx resp = Some out" and st: "nd_StateStore n \<noteq> None" for ctx resp st n w i
  proof -
    obtain st1 n1 w1 where run: "runSteps E call (st_ID st) plan ?names maxExecutionSteps 0 ctx resp st n w = (Inr out, st1, n1, w1)"
      using runSteps_plain [OF res, of "st_ID st" ?names maxExecutionSteps 0 ctx resp st n w] r by auto
    moreover obtain fs where "nd_StateStore n1 = Some fs" using runSteps_store [OF resumable_keeps [OF res] run] st by auto
    ultimately show ?thesis by (simp add: fsDelete_def fsLoad_def fsRead_def map_of_delete)
  qed
  consider "st_Status s = StatusRunning" "plainRun E answer plan ?names maxExecutionSteps (st_CtxBytes s) None = Some out"
    | svc m where "st_Status s = StatusWaitingForService" "ParseServiceMethod (serviceName ?names (st_PendingSvc s)) = (svc, m)"
        "plainRun E answer plan ?names maxExecutionSteps (st_CtxBytes s) (Some (answer svc m (st_PendingBody s))) = Some out"
    using s by (auto simp: resumes_def split: prod.splits)
  then show ?thesis
  proof cases
    case 1
    then show ?thesis using resume [OF 1(2) store, of s w "st_ID s"] plan res
      by (auto simp: recoverExecution_def resumable_def Let_def)
  next
    case 2
    obtain n1 w1 where cl: "call svc m (st_PendingBody s) 0 n w = (Inr (answer svc m (st_PendingBody s)), n1, w1)"
      using resumable_call [OF res] by metis
    obtain st2 n2 where sv: "saveState E (\<lambda>s. s\<lparr>st_Status := StatusRunning, st_PendingSvc := 0, st_PendingBody := []\<rparr>) s n1 = (st2, n2)" by fastforce
    have st2: "st2 = s\<lparr>st_Status := StatusRunning, st_PendingSvc := 0, st_PendingBody := [], st_UpdatedAt := ev_now E\<rparr>" "nd_StateStore n2 \<noteq> None"
      using saveState_changed [OF _ sv] keeps_sagaD(3) [OF resumable_keeps [OF res] cl] store by auto
    show ?thesis using resume [OF 2(3) st2(2), of st2 w1 "st_ID s"] 2 cl sv plan res st2(1)
      by (auto simp: recoverExecution_def resumable_def Let_def)
  qed
qed


text \<open>A service that answers with its argument, and the plan that calls it without a compensator.\<close>

definition echoCall :: "string \<Rightarrow> string \<Rightarrow> bytes \<Rightarrow> 64 word \<Rightarrow> (nat, nat) Node \<Rightarrow> unit \<Rightarrow> (svc_error + bytes) \<times> (nat, nat) Node \<times> unit" where
  "echoCall svc m b t n w = (Inr b, n, w)"


subsection \<open>What becomes of incoming messages\<close>

fun handleAll ::
  "(string \<Rightarrow> bytes \<Rightarrow> ('l, 'f) Node \<Rightarrow> 'w \<Rightarrow> (string + bytes) \<times> ('l, 'f) Node \<times> 'w) \<Rightarrow> (gotime \<times> bytes) list \<Rightarrow> ('l, 'f) Node \<Rightarrow> 'w \<Rightarrow>
    incoming list \<times> ('l, 'f) Node \<times> 'w" where
  "handleAll submit [] n w = ([], n, w)"
| "handleAll submit ((now, msg) # ms) n w =
     (case handleIncomingMessage now submit msg n w of (r, n1, w1) \<Rightarrow>
      case handleAll submit ms n1 w1 of (rs, n2, w2) \<Rightarrow> (r # rs, n2, w2))"

fun letterOf :: "(gotime \<times> bytes) \<Rightarrow> incoming \<Rightarrow> DeadLetterEntry list" where
  "letterOf (now, msg) RateLimited = [(letter (HashBodyPrefixed ''rl'' msg) msg ''rate limited'')\<lparr>dl_FailedAt := now\<rparr>]"
| "letterOf (now, msg) (ExecFailed e) = [(letter (HashBody msg) msg e)\<lparr>dl_FailedAt := now\<rparr>]"
| "letterOf _ _ = []"

fun submitted :: "(gotime \<times> bytes) \<Rightarrow> incoming \<Rightarrow> string list" where
  "submitted (now, msg) (Executed b) = [HashBody msg]"
| "submitted (now, msg) (ExecFailed e) = [HashBody msg]"
| "submitted _ _ = []"

definition keeps_queues :: "(string \<Rightarrow> bytes \<Rightarrow> ('l, 'f) Node \<Rightarrow> 'w \<Rightarrow> (string + bytes) \<times> ('l, 'f) Node \<times> 'w) \<Rightarrow> bool" where
  "keeps_queues submit \<longleftrightarrow> (\<forall>k b n w.
     nd_DLQ (fst (snd (submit k b n w))) = nd_DLQ n \<and> nd_Dedup (fst (snd (submit k b n w))) = nd_Dedup n)"

lemma keeps_queuesD:
  assumes "keeps_queues submit" "submit k b n w = (r, n1, w1)"
  shows "nd_DLQ n1 = nd_DLQ n" "nd_Dedup n1 = nd_Dedup n"
proof -
  have "nd_DLQ (fst (snd (submit k b n w))) = nd_DLQ n \<and> nd_Dedup (fst (snd (submit k b n w))) = nd_Dedup n"
    using assms(1) unfolding keeps_queues_def by blast
  then show "nd_DLQ n1 = nd_DLQ n" "nd_Dedup n1 = nd_Dedup n" using assms(2) by simp_all
qed

lemma hexDigit_safe: "d < 16 \<Longrightarrow> safeIDChar (hexDigit d)"
  by (simp add: safeIDChar_def hexDigit_def less_eq_char_def)

lemma HashBody_safe: "safeID (HashBody b)"
  by (simp add: safeID_def HashBody_def list_all_iff hexDigit_safe)

lemma HashBodyPrefixed_safe: "safeID (HashBodyPrefixed ''rl'' b)"
  using HashBody_safe [of b] by (simp add: safeID_def HashBodyPrefixed_def safeIDChar_def less_eq_char_def)

lemma CheckAndMark_known:
  assumes "dedup_inv d" and "CheckAndMark now k d = (seen, d1)" and "k \<notin> set (dt_order d) \<Longrightarrow> length (dt_order d) < dt_maxSize d"
  shows "dedup_inv d1 \<and> (seen \<longleftrightarrow> k \<in> set (dt_order d)) \<and> set (dt_order d1) = insert k (set (dt_order d)) \<and> dt_maxSize d1 = dt_maxSize d"
proof (cases "k \<in> set (dt_order d)")
  case True
  then have "seen" "d1 = touch now k d" "map_of (dt_entries d) k \<noteq> None"
    using assms(2) dedup_inv_known [OF assms(1), of k] by (auto simp: CheckAndMark_def)
  moreover have "dedup_inv (touch now k d)" using assms(1) calculation(3) by (rule touch_inv)
  moreover have "set (dt_order (touch now k d)) = insert k (set (dt_order d))"
    using assms(1) True by (auto simp: touch_def dedup_inv_def)
  ultimately show ?thesis using True by (simp add: touch_def)
next
  case False
  then have "\<not> seen" "d1 = markLocked now k d" "map_of (dt_entries d) k = None"
    using assms(2) dedup_inv_known [OF assms(1), of k] by (auto simp: CheckAndMark_def)
  moreover have "dt_maxSize (markLocked now k d) = dt_maxSize d"
    by (simp add: markLocked_def touch_def evictOldest_def Let_def)
  ultimately show ?thesis
    using False assms(3) markLocked_inv [OF assms(1), of now k] markLocked_order [OF assms(1), of now k] by (simp add: lru_mark_def)
qed

lemma handle_one:
  assumes keeps: "keeps_queues submit" and dlq: "dlq_inv (nd_DLQ n)" and ded: "dedup_inv (nd_Dedup n)"
    and room: "HashBody msg \<notin> set (dt_order (nd_Dedup n)) \<Longrightarrow> length (dt_order (nd_Dedup n)) < dt_maxSize (nd_Dedup n)"
    and run: "handleIncomingMessage now submit msg n w = (r, n1, w1)"
  shows "dlq_inv (nd_DLQ n1)" "dlq_maxSize (nd_DLQ n1) = dlq_maxSize (nd_DLQ n)" "dedup_inv (nd_Dedup n1)"
    "dt_maxSize (nd_Dedup n1) = dt_maxSize (nd_Dedup n)"
    "dlq_entries (nd_DLQ n1) = keepLast (dlq_maxSize (nd_DLQ n)) (dlq_entries (nd_DLQ n) @ letterOf (now, msg) r)"
    "set (dt_order (nd_Dedup n)) \<subseteq> set (dt_order (nd_Dedup n1))"
    "set (dt_order (nd_Dedup n1)) \<subseteq> insert (HashBody msg) (set (dt_order (nd_Dedup n)))"
    "set (submitted (now, msg) r) \<subseteq> set (dt_order (nd_Dedup n1)) - set (dt_order (nd_Dedup n))"
    "distinct (submitted (now, msg) r)"
proof -
  obtain allowed rl where al: "LimiterAllow (real_of_int now / 10 ^ 9) ''ingress'' (nd_RateLimiter n) = (allowed, rl)" by fastforce
  obtain seen d where cm: "CheckAndMark now (HashBody msg) (nd_Dedup n) = (seen, d)" by fastforce
  obtain q n3 w3 where sub: "submit (HashBody msg) msg (n\<lparr>nd_RateLimiter := rl, nd_Dedup := d\<rparr>) w = (q, n3, w3)" by (metis prod_cases3)
  have n3: "nd_DLQ n3 = nd_DLQ n" "nd_Dedup n3 = d"
    using keeps_queuesD [OF keeps sub] by simp_all
  note know = CheckAndMark_known [OF ded cm room]
  have keep: "keepLast (dlq_maxSize (nd_DLQ n)) (dlq_entries (nd_DLQ n)) = dlq_entries (nd_DLQ n)"
    using dlq by (simp add: keepLast_def dlq_inv_def)
  consider "\<not> allowed" | "allowed" "seen" | e where "allowed" "\<not> seen" "q = Inl e" | b where "allowed" "\<not> seen" "q = Inr b"
    by (cases q) auto
  then have "dlq_inv (nd_DLQ n1) \<and> dlq_maxSize (nd_DLQ n1) = dlq_maxSize (nd_DLQ n) \<and> dedup_inv (nd_Dedup n1) \<and>
    dt_maxSize (nd_Dedup n1) = dt_maxSize (nd_Dedup n) \<and>
    dlq_entries (nd_DLQ n1) = keepLast (dlq_maxSize (nd_DLQ n)) (dlq_entries (nd_DLQ n) @ letterOf (now, msg) r) \<and>
    set (dt_order (nd_Dedup n)) \<subseteq> set (dt_order (nd_Dedup n1)) \<and>
    set (dt_order (nd_Dedup n1)) \<subseteq> insert (HashBody msg) (set (dt_order (nd_Dedup n))) \<and>
    set (submitted (now, msg) r) \<subseteq> set (dt_order (nd_Dedup n1)) - set (dt_order (nd_Dedup n)) \<and> distinct (submitted (now, msg) r)"
  proof cases
    case 1
    let ?l = "letter (HashBodyPrefixed ''rl'' msg) msg ''rate limited''"
    have res: "r = RateLimited" "nd_DLQ n1 = snd (Send now ?l (nd_DLQ n))" "nd_Dedup n1 = nd_Dedup n"
      using run al 1 by (auto simp: handleIncomingMessage_def Let_def sendDLQ_def recordError_def)
    have "dl_ID ?l = HashBodyPrefixed ''rl'' msg" by (simp add: letter_def)
    then show ?thesis unfolding res using ded Send_inv [OF dlq] Send_entries [OF dlq, of now ?l] HashBodyPrefixed_safe by (simp add: subset_insertI)
  next
    case 2
    have res: "r = Duplicate" "nd_DLQ n1 = nd_DLQ n" "nd_Dedup n1 = d"
      using run al cm 2 by (auto simp: handleIncomingMessage_def Let_def recordExec_def)
    show ?thesis unfolding res using dlq know keep by auto
  next
    case (3 e)
    let ?l = "letter (HashBody msg) msg e"
    have res: "r = ExecFailed e" "nd_DLQ n1 = snd (Send now ?l (nd_DLQ n))" "nd_Dedup n1 = d"
      using run al cm 3 sub n3 by (auto simp: handleIncomingMessage_def Let_def sendDLQ_def recordError_def)
    have "dl_ID ?l = HashBody msg" by (simp add: letter_def)
    then show ?thesis unfolding res using know 3 Send_inv [OF dlq] Send_entries [OF dlq, of now ?l] HashBody_safe by auto
  next
    case (4 b)
    have res: "r = Executed b" "nd_DLQ n1 = nd_DLQ n" "nd_Dedup n1 = d"
      using run al cm 4 sub n3 by (auto simp: handleIncomingMessage_def Let_def recordExec_def)
    show ?thesis unfolding res using dlq know keep 4 by auto
  qed
  then show "dlq_inv (nd_DLQ n1)" "dlq_maxSize (nd_DLQ n1) = dlq_maxSize (nd_DLQ n)" "dedup_inv (nd_Dedup n1)"
    "dt_maxSize (nd_Dedup n1) = dt_maxSize (nd_Dedup n)"
    "dlq_entries (nd_DLQ n1) = keepLast (dlq_maxSize (nd_DLQ n)) (dlq_entries (nd_DLQ n) @ letterOf (now, msg) r)"
    "set (dt_order (nd_Dedup n)) \<subseteq> set (dt_order (nd_Dedup n1))"
    "set (dt_order (nd_Dedup n1)) \<subseteq> insert (HashBody msg) (set (dt_order (nd_Dedup n)))"
    "set (submitted (now, msg) r) \<subseteq> set (dt_order (nd_Dedup n1)) - set (dt_order (nd_Dedup n))"
    "distinct (submitted (now, msg) r)"
    by blast+
qed

lemma handle_all:
  assumes keeps: "keeps_queues submit"
  shows "dlq_inv (nd_DLQ n) \<Longrightarrow> dedup_inv (nd_Dedup n) \<Longrightarrow>
    card (set (dt_order (nd_Dedup n)) \<union> (HashBody \<circ> snd) ` set ms) \<le> dt_maxSize (nd_Dedup n) \<Longrightarrow> handleAll submit ms n w = (rs, n1, w1) \<Longrightarrow>
    dlq_entries (nd_DLQ n1) = keepLast (dlq_maxSize (nd_DLQ n)) (dlq_entries (nd_DLQ n) @ concat (map2 letterOf ms rs)) \<and>
    distinct (concat (map2 submitted ms rs)) \<and> set (concat (map2 submitted ms rs)) \<inter> set (dt_order (nd_Dedup n)) = {}"
proof (induction ms arbitrary: n w rs)
  case Nil
  then show ?case by (simp add: keepLast_def dlq_inv_def)
next
  case (Cons m ms)
  obtain now msg where m: "m = (now, msg)" by fastforce
  obtain r n2 w2 where one: "handleIncomingMessage now submit msg n w = (r, n2, w2)" by (metis prod_cases3)
  obtain rs2 where rest: "handleAll submit ms n2 w2 = (rs2, n1, w1)" and rs: "rs = r # rs2"
    using Cons.prems(4) m one by (auto split: prod.splits)
  let ?K = "set (dt_order (nd_Dedup n))" and ?H = "(HashBody \<circ> snd) ` set ms"
  have room: "length (dt_order (nd_Dedup n)) < dt_maxSize (nd_Dedup n)" if h: "HashBody msg \<notin> ?K"
  proof -
    have "length (dt_order (nd_Dedup n)) = card ?K" using Cons.prems(2) distinct_card [of "dt_order (nd_Dedup n)"] unfolding dedup_inv_def by metis
    also have "\<dots> < card (insert (HashBody msg) ?K)" using h by simp
    also have "\<dots> \<le> card (?K \<union> (HashBody \<circ> snd) ` set (m # ms))" by (rule card_mono) (auto simp: m)
    finally show ?thesis using Cons.prems(3) by simp
  qed
  note step = handle_one [OF keeps Cons.prems(1,2) room one]
  have "card (set (dt_order (nd_Dedup n2)) \<union> ?H) \<le> card (?K \<union> (HashBody \<circ> snd) ` set (m # ms))"
    using step(7) by (intro card_mono) (auto simp: m)
  then have "card (set (dt_order (nd_Dedup n2)) \<union> ?H) \<le> dt_maxSize (nd_Dedup n2)"
    using Cons.prems(3) step(4) by simp
  note ih = Cons.IH [OF step(1,3) this rest]
  have letters: "dlq_entries (nd_DLQ n1) = keepLast (dlq_maxSize (nd_DLQ n)) (dlq_entries (nd_DLQ n) @ concat (map2 letterOf (m # ms) rs))"
    using ih step(2,5) by (simp add: rs m keepLast_keepLast)
  define S where "S = concat (map2 submitted ms rs2)"
  have "concat (map2 submitted (m # ms) rs) = submitted (now, msg) r @ S" by (simp add: S_def rs m)
  then show ?case using letters ih [folded S_def] step(6,8,9) by auto
qed



lemma executeAll_fold:
  "\<forall>(i, r) \<in> set arrivals. r = Inr (out i) \<Longrightarrow>
    foldl (\<lambda>(results, firstErr) (i, r).
        case r of Inl e \<Rightarrow> (results, if firstErr = None then Some e else firstErr) | Inr out \<Rightarrow> (results[i := Some out], firstErr))
      (results, None) arrivals = (map (\<lambda>i. if i \<in> fst ` set arrivals then Some (out i) else results ! i) [0..<length results], None)"
proof (induction arrivals arbitrary: results)
  case Nil
  then show ?case by (simp add: map_nth)
next
  case (Cons x xs)
  then obtain i where "x = (i, Inr (out i))" by (cases x) auto
  then show ?case using Cons by (auto simp: nth_list_update)
qed

text \<open>When all plans succeed the order in which they end does not matter: the result is that of the first plan.\<close>

lemma messageTask_any_order:
  assumes "plans \<noteq> []" and "\<forall>(i, r) \<in> set arrivals. r = Inr (out i)" and "fst ` set arrivals = {0..<length plans}"
  shows "executeAll plans arrivals = (map (\<lambda>i. Some (out i)) [0..<length plans], None)" "messageTask plans arrivals = Inr (Some (out 0))"
proof -
  show *: "executeAll plans arrivals = (map (\<lambda>i. Some (out i)) [0..<length plans], None)"
    using assms executeAll_fold [OF assms(2)] by (simp add: executeAll_def)
  show "messageTask plans arrivals = Inr (Some (out 0))"
    unfolding messageTask_def * using assms(1) by (simp add: upt_conv_Cons)
qed

end
