(* ===== verification/Task_Scheduler.thy ===== *)
theory Task_Scheduler
  imports Metrics "HOL-Library.Multiset"
begin

text \<open>
  The scheduler of \<^verbatim>\<open>server/internal/scheduler\<close> (\<^verbatim>\<open>lane.go\<close>, \<^verbatim>\<open>prod.go\<close>, \<^verbatim>\<open>pkgsupport.go\<close>): lanes with bounded
  queues, workers that serve their own lane and steal from the others, and callers that wait for a result.  The goroutines
  are a step relation over the state of the scheduler, its workers and its callers; every channel operation is a
  step, and a \<^verbatim>\<open>select\<close> with several ready cases may take any of them.  Closures are functions of what they find when
  they are called.
\<close>

subsection \<open>Tasks and lanes\<close>

definition PriorityFast :: int where "PriorityFast = 0"
definition PriorityNormal :: int where "PriorityNormal = 1"
definition PriorityHeavy :: int where "PriorityHeavy = 2"

datatype exec_out = Ran bytes "string option" | Panicked string

record Task =
  tk_ID :: string
  tk_Priority :: int
  tk_Body :: bytes
  tk_Deadline :: "gotime option"
  tk_Execute :: "nat \<Rightarrow> exec_out"
  tk_ResultCh :: "nat option"

record TaskResult =
  tr_Output :: bytes
  tr_Error :: "string option"

record LaneConfig =
  lc_Name :: int
  lc_MaxConcurrent :: nat
  lc_QueueSize :: nat
  lc_RejectOnFull :: bool

record lane =
  ln_cfg :: LaneConfig
  ln_queue :: "Task list"

record 'f Scheduler =
  sd_lanes :: "(int, lane) gomap"
  sd_started :: bool
  sd_stopped :: bool
  sd_totalEnq :: "64 word"
  sd_totalDeq :: "64 word"
  sd_totalRej :: "64 word"
  sd_metrics :: "'f MetricsCollector option"

definition DefaultLanes :: "LaneConfig list" where
  "DefaultLanes =
     [\<lparr>lc_Name = PriorityFast, lc_MaxConcurrent = 50, lc_QueueSize = 5000, lc_RejectOnFull = False\<rparr>,
      \<lparr>lc_Name = PriorityNormal, lc_MaxConcurrent = 20, lc_QueueSize = 2000, lc_RejectOnFull = False\<rparr>,
      \<lparr>lc_Name = PriorityHeavy, lc_MaxConcurrent = 5, lc_QueueSize = 500, lc_RejectOnFull = True\<rparr>]"

definition newLane :: "LaneConfig \<Rightarrow> lane" where
  "newLane cfg = \<lparr>ln_cfg = cfg, ln_queue = []\<rparr>"

definition NewScheduler :: "LaneConfig list option \<Rightarrow> 'f Scheduler" where
  "NewScheduler lanes =
     \<lparr>sd_lanes = foldl (\<lambda>m lc. AList.update (lc_Name lc) (newLane lc) m) [] (case lanes of None \<Rightarrow> DefaultLanes | Some ls \<Rightarrow> ls),
      sd_started = False, sd_stopped = False, sd_totalEnq = 0, sd_totalDeq = 0, sd_totalRej = 0, sd_metrics = None\<rparr>"

definition NewWithMetrics :: "'f list \<Rightarrow> LaneConfig list option \<Rightarrow> 'f MetricsCollector option \<Rightarrow> 'f Scheduler" where
  "NewWithMetrics buckets lanes mc =
     (NewScheduler lanes)\<lparr>sd_metrics := map_option (\<lambda>m.
        HistogramOf ''scheduler.exec_latency_ms'' buckets (Gauge ''scheduler.active_workers'' (Counter ''scheduler.reject_total''
          (Counter ''scheduler.dequeue_total'' (Counter ''scheduler.enqueue_total'' m))))) mc\<rparr>"

definition measured :: "('f MetricsCollector \<Rightarrow> 'f MetricsCollector) \<Rightarrow> 'f Scheduler \<Rightarrow> 'f Scheduler" where
  "measured f s = s\<lparr>sd_metrics := map_option f (sd_metrics s)\<rparr>"

subsection \<open>Queueing a task\<close>

text \<open>
  A lane that rejects takes a task or not; another one waits for room or for the stop of the scheduler, and takes either, as \<open>pick\<close> says,
  when there are both.
\<close>

datatype 'a enq = Queued 'a | Refused | Blocked

definition enqueue :: "bool \<Rightarrow> bool \<Rightarrow> Task \<Rightarrow> lane \<Rightarrow> lane enq" where
  "enqueue pick stopped t l =
     (let room = length (ln_queue l) < lc_QueueSize (ln_cfg l); l1 = l\<lparr>ln_queue := ln_queue l @ [t]\<rparr>
      in if lc_RejectOnFull (ln_cfg l) then if room then Queued l1 else Refused
         else if room \<and> (pick \<or> \<not> stopped) then Queued l1
         else if stopped then Refused
         else Blocked)"

datatype sched_error = NilTask | UnknownPriority | ErrQueueFull

datatype enq_result = Accepted | EnqErr sched_error | EnqBlocks

definition normalPriority :: "Task \<Rightarrow> Task" where
  "normalPriority t =
     (if tk_Priority t < PriorityFast \<or> tk_Priority t > PriorityHeavy then t\<lparr>tk_Priority := PriorityNormal\<rparr> else t)"

definition EnqueueTask :: "bool \<Rightarrow> Task option \<Rightarrow> 'f Scheduler \<Rightarrow> enq_result \<times> 'f Scheduler" where
  "EnqueueTask pick task s =
     (case task of
        None \<Rightarrow> (EnqErr NilTask, s)
      | Some t0 \<Rightarrow>
          let t = normalPriority t0
          in case map_of (sd_lanes s) (tk_Priority t) of
               None \<Rightarrow> (EnqErr UnknownPriority, s)
             | Some l \<Rightarrow>
                 (case enqueue pick (sd_stopped s) t l of
                    Queued l1 \<Rightarrow>
                      (Accepted, measured (counterInc ''scheduler.enqueue_total'')
                         (s\<lparr>sd_lanes := AList.update (tk_Priority t) l1 (sd_lanes s), sd_totalEnq := sd_totalEnq s + 1\<rparr>))
                  | Refused \<Rightarrow>
                      (EnqErr ErrQueueFull, measured (counterInc ''scheduler.reject_total'') (s\<lparr>sd_totalRej := sd_totalRej s + 1\<rparr>))
                  | Blocked \<Rightarrow> (EnqBlocks, s)))"

text \<open>The adapter of the package interface makes a task whose work is to answer with the bytes of the plan.\<close>

datatype Lane = LaneFast | LaneNormal | LaneHeavy

definition contextToTask :: "string \<Rightarrow> Lane \<Rightarrow> bytes \<Rightarrow> bytes \<Rightarrow> Task" where
  "contextToTask ident ln planBytes body =
     \<lparr>tk_ID = ident,
      tk_Priority = (case ln of LaneFast \<Rightarrow> PriorityFast | LaneHeavy \<Rightarrow> PriorityHeavy | LaneNormal \<Rightarrow> PriorityNormal),
      tk_Body = body, tk_Deadline = None, tk_Execute = (\<lambda>_. Ran planBytes None), tk_ResultCh = None\<rparr>"

record SchedulerSnapshot =
  ss_ReadyQueueLen :: nat
  ss_WaitingQueueLen :: nat
  ss_ActiveWorkers :: nat
  ss_LaneCounts :: "(int, nat) gomap"

definition SnapshotOf :: "'f Scheduler \<Rightarrow> SchedulerSnapshot" where
  "SnapshotOf s =
     \<lparr>ss_ReadyQueueLen = sum_list (map (length \<circ> ln_queue \<circ> snd) (sd_lanes s)), ss_WaitingQueueLen = 0,
      ss_ActiveWorkers = sum_list (map (lc_MaxConcurrent \<circ> ln_cfg \<circ> snd) (sd_lanes s)),
      ss_LaneCounts = map (\<lambda>(p, l). (p, length (ln_queue l))) (sd_lanes s)\<rparr>"

definition ExecCount :: "'f Scheduler \<Rightarrow> 64 word" where
  "ExecCount = sd_totalEnq"

subsection \<open>Workers and callers\<close>

text \<open>
  A worker is in front of the first \<^verbatim>\<open>select\<close>, of the look into lane \<open>p\<close>, or of the last \<^verbatim>\<open>select\<close> of
  \<^verbatim>\<open>dequeueOrSteal\<close>; it has got a task, runs it, or is about to send its result; or it has returned.
\<close>

datatype worker =
    WSelect
  | WSteal int
  | WBlock
  | WGot Task
  | WRun Task
  | WSend Task TaskResult
  | WExit

datatype caller = CWait | CDrain | CGot TaskResult | CCancelled | CErr sched_error

record 'f sys =
  sy_sched :: "'f Scheduler"
  sy_workers :: "(int \<times> worker) list"
  sy_ctxDone :: bool
  sy_chans :: "nat \<Rightarrow> TaskResult list"
  sy_callers :: "caller list"

definition startWorkers :: "'f Scheduler \<Rightarrow> (int \<times> worker) list" where
  "startWorkers s = concat (map (\<lambda>(p, l). replicate (lc_MaxConcurrent (ln_cfg l)) (p, WSelect)) (sd_lanes s))"

definition Start :: "'f sys \<Rightarrow> 'f sys" where
  "Start y =
     (if sd_started (sy_sched y) then y
      else y\<lparr>sy_sched := (sy_sched y)\<lparr>sd_started := True\<rparr>, sy_workers := sy_workers y @ startWorkers (sy_sched y)\<rparr>)"

text \<open>Stopping closes a channel, which panics the second time; it returns when all workers have.\<close>

definition Stop :: "'f sys \<Rightarrow> 'f sys option" where
  "Stop y =
     (if \<not> sd_started (sy_sched y) then Some y
      else if sd_stopped (sy_sched y) then None
      else Some (y\<lparr>sy_sched := (sy_sched y)\<lparr>sd_started := False, sd_stopped := True\<rparr>\<rparr>))"

definition stopReturns :: "'f sys \<Rightarrow> bool" where
  "stopReturns y \<longleftrightarrow> (\<forall>(p, w) \<in> set (sy_workers y). w = WExit)"

definition NewSys :: "'f Scheduler \<Rightarrow> 'f sys" where
  "NewSys s = \<lparr>sy_sched = s, sy_workers = [], sy_ctxDone = False, sy_chans = (\<lambda>_. []), sy_callers = []\<rparr>"

definition laneOf :: "int \<Rightarrow> 'f sys \<Rightarrow> Task list" where
  "laneOf p y = (case map_of (sd_lanes (sy_sched y)) p of None \<Rightarrow> [] | Some l \<Rightarrow> ln_queue l)"

definition takeTask :: "int \<Rightarrow> 'f sys \<Rightarrow> 'f sys" where
  "takeTask p y =
     (case map_of (sd_lanes (sy_sched y)) p of
        None \<Rightarrow> y
      | Some l \<Rightarrow> y\<lparr>sy_sched := (sy_sched y)\<lparr>sd_lanes := AList.update p (l\<lparr>ln_queue := tl (ln_queue l)\<rparr>) (sd_lanes (sy_sched y))\<rparr>\<rparr>)"

definition setWorker :: "nat \<Rightarrow> worker \<Rightarrow> 'f sys \<Rightarrow> 'f sys" where
  "setWorker i w y = y\<lparr>sy_workers := (sy_workers y)[i := (fst (sy_workers y ! i), w)]\<rparr>"

definition onSched :: "('f Scheduler \<Rightarrow> 'f Scheduler) \<Rightarrow> 'f sys \<Rightarrow> 'f sys" where
  "onSched f y = y\<lparr>sy_sched := f (sy_sched y)\<rparr>"

definition beginExec :: "'f Scheduler \<Rightarrow> 'f Scheduler" where
  "beginExec s =
     measured (gaugeAdd ''scheduler.active_workers'' 1 \<circ> counterInc ''scheduler.dequeue_total'') (s\<lparr>sd_totalDeq := sd_totalDeq s + 1\<rparr>)"

definition endExec :: "('f \<Rightarrow> 'f \<Rightarrow> bool) \<Rightarrow> 'f \<Rightarrow> 'f Scheduler \<Rightarrow> 'f Scheduler" where
  "endExec le ms s =
     measured (gaugeAdd ''scheduler.active_workers'' (- 1) \<circ> observe le ''scheduler.exec_latency_ms'' ms) s"

fun resultOf :: "exec_out \<Rightarrow> TaskResult" where
  "resultOf (Ran out err) = \<lparr>tr_Output = out, tr_Error = err\<rparr>"
| "resultOf (Panicked msg) = \<lparr>tr_Output = [], tr_Error = Some (''task panicked: '' @ msg)\<rparr>"

subsection \<open>Steps\<close>

text \<open>A step is labelled with a task that went into or out of a lane, or with a task whose execution ended and its result.\<close>

datatype act = ActIn int Task | ActOut int Task | ActDone Task TaskResult | ActTau

inductive sched_step :: "('f \<Rightarrow> 'f \<Rightarrow> bool) \<Rightarrow> 'f sys \<Rightarrow> act \<Rightarrow> 'f sys \<Rightarrow> bool" for le where
  enqueued: "EnqueueTask pick (Some t) (sy_sched y) = (Accepted, s) \<Longrightarrow> tk_ResultCh t = None \<Longrightarrow>
    sched_step le y (ActIn (tk_Priority (normalPriority t)) (normalPriority t)) (y\<lparr>sy_sched := s\<rparr>)"
| enqueue_fails: "EnqueueTask pick t (sy_sched y) = (EnqErr e, s) \<Longrightarrow> sched_step le y ActTau (y\<lparr>sy_sched := s\<rparr>)"
| waits: "t = u\<lparr>tk_ResultCh := Some (length (sy_callers y))\<rparr> \<Longrightarrow> EnqueueTask pick (Some t) (sy_sched y) = (Accepted, s) \<Longrightarrow>
    sched_step le y (ActIn (tk_Priority (normalPriority t)) (normalPriority t)) (y\<lparr>sy_sched := s, sy_callers := sy_callers y @ [CWait]\<rparr>)"
| wait_fails: "EnqueueTask pick (Some (u\<lparr>tk_ResultCh := Some (length (sy_callers y))\<rparr>)) (sy_sched y) = (EnqErr e, s) \<Longrightarrow>
    sched_step le y ActTau (y\<lparr>sy_sched := s, sy_callers := sy_callers y @ [CErr e]\<rparr>)"
| receives: "c < length (sy_callers y) \<Longrightarrow> sy_callers y ! c = CWait \<Longrightarrow> sy_chans y c = [r] \<Longrightarrow>
    sched_step le y ActTau (y\<lparr>sy_callers := (sy_callers y)[c := CGot r], sy_chans := (sy_chans y)(c := [])\<rparr>)"
| gives_up: "c < length (sy_callers y) \<Longrightarrow> sy_callers y ! c = CWait \<Longrightarrow>
    sched_step le y ActTau (y\<lparr>sy_callers := (sy_callers y)[c := CDrain]\<rparr>)"
| drains: "c < length (sy_callers y) \<Longrightarrow> sy_callers y ! c = CDrain \<Longrightarrow> sy_chans y c = [r] \<Longrightarrow>
    sched_step le y ActTau (y\<lparr>sy_callers := (sy_callers y)[c := CCancelled], sy_chans := (sy_chans y)(c := [])\<rparr>)"
| drain_stops: "c < length (sy_callers y) \<Longrightarrow> sy_callers y ! c = CDrain \<Longrightarrow> sd_stopped (sy_sched y) \<Longrightarrow>
    sched_step le y ActTau (y\<lparr>sy_callers := (sy_callers y)[c := CCancelled]\<rparr>)"
| starts: "sched_step le y ActTau (Start y)"
| stops: "Stop y = Some y1 \<Longrightarrow> sched_step le y ActTau y1"
| ends: "sched_step le y ActTau (y\<lparr>sy_ctxDone := True\<rparr>)"
| exits: "i < length (sy_workers y) \<Longrightarrow> sy_workers y ! i = (p, w) \<Longrightarrow> w \<in> {WSelect, WBlock} \<Longrightarrow>
    sd_stopped (sy_sched y) \<or> sy_ctxDone y \<Longrightarrow> sched_step le y ActTau (setWorker i WExit y)"
| takes: "i < length (sy_workers y) \<Longrightarrow> sy_workers y ! i = (p, w) \<Longrightarrow> w \<in> {WSelect, WBlock} \<Longrightarrow> laneOf p y = t # q \<Longrightarrow>
    sched_step le y (ActOut p t) (setWorker i (WGot t) (takeTask p y))"
| looks: "i < length (sy_workers y) \<Longrightarrow> sy_workers y ! i = (p, WSelect) \<Longrightarrow> \<not> sd_stopped (sy_sched y) \<Longrightarrow> \<not> sy_ctxDone y \<Longrightarrow>
    laneOf p y = [] \<Longrightarrow> sched_step le y ActTau (setWorker i (WSteal PriorityHeavy) y)"
| skips: "i < length (sy_workers y) \<Longrightarrow> sy_workers y ! i = (p, WSteal q) \<Longrightarrow> q \<ge> PriorityFast \<Longrightarrow> q = p \<or> laneOf q y = [] \<Longrightarrow>
    sched_step le y ActTau (setWorker i (WSteal (q - 1)) y)"
| steals: "i < length (sy_workers y) \<Longrightarrow> sy_workers y ! i = (p, WSteal q) \<Longrightarrow> q \<ge> PriorityFast \<Longrightarrow> q \<noteq> p \<Longrightarrow> laneOf q y = t # ts \<Longrightarrow>
    sched_step le y (ActOut q t) (setWorker i (WGot t) (takeTask q y))"
| blocks: "i < length (sy_workers y) \<Longrightarrow> sy_workers y ! i = (p, WSteal q) \<Longrightarrow> q < PriorityFast \<Longrightarrow>
    sched_step le y ActTau (setWorker i WBlock y)"
| begins: "i < length (sy_workers y) \<Longrightarrow> sy_workers y ! i = (p, WGot t) \<Longrightarrow>
    sched_step le y ActTau (setWorker i (WRun t) (onSched beginExec y))"
| finishes: "i < length (sy_workers y) \<Longrightarrow> sy_workers y ! i = (p, WRun t) \<Longrightarrow> tk_ResultCh t = None \<Longrightarrow>
    sched_step le y (ActDone t (resultOf (tk_Execute t seed))) (setWorker i WSelect (onSched (endExec le ms) y))"
| answers: "i < length (sy_workers y) \<Longrightarrow> sy_workers y ! i = (p, WRun t) \<Longrightarrow> tk_ResultCh t = Some c \<Longrightarrow>
    sched_step le y ActTau (setWorker i (WSend t (resultOf (tk_Execute t seed))) y)"
| sends: "i < length (sy_workers y) \<Longrightarrow> sy_workers y ! i = (p, WSend t r) \<Longrightarrow> tk_ResultCh t = Some c \<Longrightarrow> sy_chans y c = [] \<Longrightarrow>
    sched_step le y (ActDone t r)
      (setWorker i WSelect (onSched (endExec le ms) (y\<lparr>sy_chans := (sy_chans y)(c := [r])\<rparr>)))"

inductive sched_runs :: "('f \<Rightarrow> 'f \<Rightarrow> bool) \<Rightarrow> 'f sys \<Rightarrow> act list \<Rightarrow> 'f sys \<Rightarrow> bool" for le y0 where
  none: "sched_runs le y0 [] y0"
| more: "sched_runs le y0 as y \<Longrightarrow> sched_step le y a y1 \<Longrightarrow> sched_runs le y0 (as @ [a]) y1"

subsection \<open>What a run has done\<close>

fun went_in :: "int \<Rightarrow> act list \<Rightarrow> Task list" where
  "went_in p [] = []"
| "went_in p (ActIn q t # as) = (if q = p then t # went_in p as else went_in p as)"
| "went_in p (_ # as) = went_in p as"

fun came_out :: "int \<Rightarrow> act list \<Rightarrow> Task list" where
  "came_out p [] = []"
| "came_out p (ActOut q t # as) = (if q = p then t # came_out p as else came_out p as)"
| "came_out p (_ # as) = came_out p as"

fun held :: "worker \<Rightarrow> Task list" where
  "held (WGot t) = [t]"
| "held (WRun t) = [t]"
| "held (WSend t r) = [t]"
| "held _ = []"

fun task_in :: "act \<Rightarrow> Task list" where
  "task_in (ActIn p t) = [t]"
| "task_in _ = []"

fun task_out :: "act \<Rightarrow> Task list" where
  "task_out (ActOut p t) = [t]"
| "task_out _ = []"

fun task_done :: "act \<Rightarrow> (Task \<times> TaskResult) list" where
  "task_done (ActDone t r) = [(t, r)]"
| "task_done _ = []"

definition queued :: "'f sys \<Rightarrow> Task multiset" where
  "queued y = (\<Sum>(p, l) \<leftarrow> sd_lanes (sy_sched y). mset (ln_queue l))"

definition working :: "'f sys \<Rightarrow> Task multiset" where
  "working y = (\<Sum>(p, w) \<leftarrow> sy_workers y. mset (held w))"

definition all_in :: "act list \<Rightarrow> Task multiset" where
  "all_in as = (\<Sum>a \<leftarrow> as. mset (task_in a))"

definition all_done :: "act list \<Rightarrow> (Task \<times> TaskResult) multiset" where
  "all_done as = (\<Sum>a \<leftarrow> as. mset (task_done a))"

lemma went_in_append [simp]: "went_in p (as @ bs) = went_in p as @ went_in p bs"
  by (induction p as rule: went_in.induct) auto

lemma came_out_append [simp]: "came_out p (as @ bs) = came_out p as @ came_out p bs"
  by (induction p as rule: came_out.induct) auto

abbreviation lanes :: "'f sys \<Rightarrow> (int, lane) gomap" where
  "lanes y \<equiv> sd_lanes (sy_sched y)"

subsection \<open>How steps change lanes and workers\<close>

lemma sum_list_replace:
  fixes f :: "'a \<Rightarrow> 'b :: comm_monoid_add"
  assumes "i < length xs"
  shows "sum_list (map f (xs[i := x])) + f (xs ! i) = sum_list (map f xs) + f x"
  using assms
proof (induction xs arbitrary: i)
  case (Cons a xs)
  then show ?case by (cases i) (auto simp: ac_simps)
qed simp

lemma sum_lanes_update:
  fixes f :: "lane \<Rightarrow> 'b :: comm_monoid_add"
  assumes "distinct (map fst m)" and "map_of m p = Some l"
  shows "(\<Sum>(q, k) \<leftarrow> AList.update p l1 m. f k) + f l = (\<Sum>(q, k) \<leftarrow> m. f k) + f l1"
  using assms
proof (induction m)
  case (Cons e m)
  then show ?case by (cases e) (auto simp: ac_simps split: if_splits)
qed simp

lemma EnqueueTask_Accepted:
  assumes "EnqueueTask pick (Some t) s = (Accepted, s1)"
  obtains l where "map_of (sd_lanes s) (tk_Priority (normalPriority t)) = Some l" "length (ln_queue l) < lc_QueueSize (ln_cfg l)"
    "sd_lanes s1 = AList.update (tk_Priority (normalPriority t)) (l\<lparr>ln_queue := ln_queue l @ [normalPriority t]\<rparr>) (sd_lanes s)"
    "sd_stopped s1 = sd_stopped s" "sd_started s1 = sd_started s"
  using assms by (auto simp: EnqueueTask_def enqueue_def measured_def Let_def split: option.splits enq.splits if_splits)

lemma EnqueueTask_EnqErr:
  assumes "EnqueueTask pick t s = (EnqErr e, s1)"
  shows "sd_lanes s1 = sd_lanes s \<and> sd_stopped s1 = sd_stopped s \<and> sd_started s1 = sd_started s"
  using assms by (auto simp: EnqueueTask_def enqueue_def measured_def Let_def split: option.splits enq.splits if_splits)

lemma normalPriority_fields [simp]: "tk_ResultCh (normalPriority t) = tk_ResultCh t" "tk_Execute (normalPriority t) = tk_Execute t"
  by (simp_all add: normalPriority_def)

lemma lanes_simps [simp]:
  "lanes (setWorker i w y) = lanes y" "lanes (onSched beginExec y) = lanes y" "lanes (onSched (endExec le ms) y) = lanes y"
  "lanes (Start y) = lanes y" "laneOf p (setWorker i w y) = laneOf p y" "laneOf p (onSched beginExec y) = laneOf p y"
  "laneOf p (onSched (endExec le ms) y) = laneOf p y" "laneOf p (Start y) = laneOf p y"
  "laneOf p (y\<lparr>sy_callers := cs\<rparr>) = laneOf p y" "laneOf p (y\<lparr>sy_chans := ch\<rparr>) = laneOf p y" "laneOf p (y\<lparr>sy_ctxDone := b\<rparr>) = laneOf p y"
  by (simp_all add: setWorker_def onSched_def beginExec_def endExec_def measured_def Start_def laneOf_def)

lemma lanes_Stop: "Stop y = Some y1 \<Longrightarrow> lanes y1 = lanes y \<and> sy_workers y1 = sy_workers y \<and> sy_callers y1 = sy_callers y \<and> sy_chans y1 = sy_chans y"
  by (auto simp: Stop_def split: if_splits)

lemma laneOf_lanes: "laneOf p y = (case map_of (lanes y) p of None \<Rightarrow> [] | Some l \<Rightarrow> ln_queue l)"
  by (simp add: laneOf_def)

lemma takeTask_lanes:
  assumes "laneOf p y = t # q"
  obtains l where "map_of (lanes y) p = Some l" "ln_queue l = t # q" "lanes (takeTask p y) = AList.update p (l\<lparr>ln_queue := q\<rparr>) (lanes y)"
    "sy_workers (takeTask p y) = sy_workers y"
  using assms by (auto simp: laneOf_def takeTask_def split: option.splits)

definition lanes_ok :: "'f sys \<Rightarrow> bool" where
  "lanes_ok y \<longleftrightarrow> distinct (map fst (lanes y)) \<and> (\<forall>p l. map_of (lanes y) p = Some l \<longrightarrow> length (ln_queue l) \<le> lc_QueueSize (ln_cfg l))"

lemma lanes_ok_change: "lanes y1 = AList.update p l (lanes y) \<Longrightarrow> lanes_ok y \<Longrightarrow> length (ln_queue l) \<le> lc_QueueSize (ln_cfg l) \<Longrightarrow> lanes_ok y1"
  by (auto simp: lanes_ok_def distinct_update)

lemma lanes_ok_same: "lanes y1 = lanes y \<Longrightarrow> lanes_ok y \<Longrightarrow> lanes_ok y1"
  by (simp add: lanes_ok_def)

lemma lanes_ok_length: "lanes_ok y \<Longrightarrow> map_of (lanes y) p = Some l \<Longrightarrow> length (ln_queue l) \<le> lc_QueueSize (ln_cfg l)"
  by (simp add: lanes_ok_def)

lemma step_lanes:
  assumes "sched_step le y a y1" and "lanes_ok y"
  shows "lanes_ok y1 \<and> (\<forall>p. laneOf p y @ went_in p [a] = came_out p [a] @ laneOf p y1)"
  using assms
proof (cases rule: sched_step.cases)
  case (enqueued pick t s)
  then show ?thesis using assms(2)
    by (elim EnqueueTask_Accepted) (auto simp: laneOf_def intro: lanes_ok_change)
next
  case (waits t u pick s)
  then show ?thesis using assms(2)
    by (elim EnqueueTask_Accepted) (auto simp: laneOf_def intro: lanes_ok_change)
next
  case (takes i p w t q)
  obtain l where l: "map_of (lanes y) p = Some l" "ln_queue l = t # q" "lanes (takeTask p y) = AList.update p (l\<lparr>ln_queue := q\<rparr>) (lanes y)"
    using takeTask_lanes [OF takes(6)] by metis
  with lanes_ok_length [OF assms(2) l(1)] show ?thesis
    using assms(2) takes by (auto simp: laneOf_lanes intro!: lanes_ok_change [where y = y])
next
  case (steals i p q t ts)
  obtain l where l: "map_of (lanes y) q = Some l" "ln_queue l = t # ts" "lanes (takeTask q y) = AList.update q (l\<lparr>ln_queue := ts\<rparr>) (lanes y)"
    using takeTask_lanes [OF steals(7)] by metis
  with lanes_ok_length [OF assms(2) l(1)] show ?thesis
    using assms(2) steals by (auto simp: laneOf_lanes intro!: lanes_ok_change [where y = y])
qed (auto simp: laneOf_lanes dest!: EnqueueTask_EnqErr lanes_Stop intro: lanes_ok_same)

subsection \<open>No task is lost or run twice\<close>

lemma working_setWorker:
  assumes "i < length (sy_workers y)"
  shows "working (setWorker i w y) + mset (held (snd (sy_workers y ! i))) = working y + mset (held w)"
  using sum_list_replace [OF assms, of "\<lambda>(p, w). mset (held w)" "(fst (sy_workers y ! i), w)"]
  by (simp add: working_def setWorker_def case_prod_beta)

lemma working_set_eq: "i < length (sy_workers y) \<Longrightarrow> held (snd (sy_workers y ! i)) = held w \<Longrightarrow> working (setWorker i w y) = working y"
  using working_setWorker [of i y w] by simp

lemma working_simps [simp]:
  "working (onSched f y) = working y" "working (y\<lparr>sy_sched := s\<rparr>) = working y" "working (y\<lparr>sy_callers := cs\<rparr>) = working y"
  "working (y\<lparr>sy_chans := ch\<rparr>) = working y" "working (y\<lparr>sy_ctxDone := b\<rparr>) = working y"
  by (simp_all add: working_def onSched_def)

lemma working_Start [simp]: "working (Start y) = working y"
proof -
  have "(\<Sum>(p, w) \<leftarrow> ws. mset (held w)) = {#}" if "\<forall>(p, w) \<in> set ws. w = WSelect" for ws :: "(int \<times> worker) list"
    using that by (induction ws) auto
  from this [of "startWorkers (sy_sched y)"] show ?thesis by (auto simp: working_def Start_def startWorkers_def)
qed

lemma working_takeTask [simp]: "working (takeTask p y) = working y" "sy_workers (takeTask p y) = sy_workers y"
  by (auto simp: working_def takeTask_def split: option.split)

lemma queued_same: "lanes y1 = lanes y \<Longrightarrow> queued y1 = queued y"
  by (simp add: queued_def)

lemma queued_change:
  "lanes y1 = AList.update p l1 (lanes y) \<Longrightarrow> lanes_ok y \<Longrightarrow> map_of (lanes y) p = Some l \<Longrightarrow>
    queued y1 + mset (ln_queue l) = queued y + mset (ln_queue l1)"
  using sum_lanes_update [of "lanes y" p l "\<lambda>l. mset (ln_queue l)" l1] by (simp add: queued_def lanes_ok_def)

lemma queued_Accepted:
  assumes "EnqueueTask pick (Some t) (sy_sched y) = (Accepted, sy_sched y1)" and "lanes_ok y"
  shows "queued y1 = queued y + {# normalPriority t #}"
proof -
  obtain l where l: "map_of (lanes y) (tk_Priority (normalPriority t)) = Some l"
    "lanes y1 = AList.update (tk_Priority (normalPriority t)) (l\<lparr>ln_queue := ln_queue l @ [normalPriority t]\<rparr>) (lanes y)"
    using EnqueueTask_Accepted [OF assms(1)] by metis
  from queued_change [OF l(2) assms(2) l(1)] show ?thesis by simp
qed

lemma queued_taken:
  assumes "laneOf p y = t # q" and "lanes_ok y"
  shows "queued y = queued (takeTask p y) + {# t #}"
proof -
  obtain l where l: "map_of (lanes y) p = Some l" "ln_queue l = t # q" "lanes (takeTask p y) = AList.update p (l\<lparr>ln_queue := q\<rparr>) (lanes y)"
    using takeTask_lanes [OF assms(1)] by metis
  from queued_change [OF l(3) assms(2) l(1)] l(2) show ?thesis by (simp add: union_commute)
qed

lemma queued_setWorker [simp]: "queued (setWorker i w y) = queued y"
  by (rule queued_same) simp

lemma onSched_simps [simp]:
  "queued (onSched beginExec y) = queued y" "queued (onSched (endExec le ms) y) = queued y" "queued (y\<lparr>sy_chans := ch\<rparr>) = queued y"
  "sy_workers (onSched f y) = sy_workers y"
  by (rule queued_same, simp)+ (simp add: onSched_def)

lemma step_counts:
  assumes "sched_step le y a y1" and "lanes_ok y"
  shows "queued y + working y + mset (task_in a) = queued y1 + working y1 + image_mset fst (mset (task_done a))"
  using assms
proof (cases rule: sched_step.cases)
  case (enqueued pick t s)
  then show ?thesis using queued_Accepted [of pick t y y1] assms(2) by simp
next
  case (waits t u pick s)
  then show ?thesis using queued_Accepted [of pick t y y1] assms(2) by simp
next
  case (takes i p w t q)
  then show ?thesis
    using queued_taken [OF takes(6) assms(2)] working_setWorker [of i "takeTask p y" "WGot t"] by (auto simp: union_ac)
next
  case (steals i p q t ts)
  then show ?thesis
    using queued_taken [OF steals(7) assms(2)] working_setWorker [of i "takeTask q y" "WGot t"] by (auto simp: union_ac)
next
  case (finishes i p t seed ms)
  then show ?thesis
    using working_setWorker [of i "onSched (endExec le ms) y" WSelect] by (auto simp: union_ac)
next
  case (sends i p t r c ms)
  then show ?thesis
    using working_setWorker [of i "onSched (endExec le ms) (y\<lparr>sy_chans := (sy_chans y)(c := [r])\<rparr>)" WSelect]
    by (auto simp: union_ac)
next
  case (stops)
  then have "queued y1 = queued y" "working y1 = working y" using lanes_Stop [of y y1] by (auto simp: queued_def working_def)
  then show ?thesis by (simp add: stops)
qed (auto simp: queued_def working_set_eq dest!: EnqueueTask_EnqErr)

subsection \<open>Results reach the caller that waits for them\<close>

definition for_chan :: "nat \<Rightarrow> Task \<Rightarrow> bool" where
  "for_chan c t \<longleftrightarrow> tk_ResultCh t = Some c"

definition answer_of :: "Task \<Rightarrow> TaskResult \<Rightarrow> bool" where
  "answer_of t r \<longleftrightarrow> (\<exists>seed. r = resultOf (tk_Execute t seed))"

definition sent :: "nat \<Rightarrow> (Task \<times> TaskResult) multiset \<Rightarrow> TaskResult multiset" where
  "sent c ds = image_mset snd (filter_mset (for_chan c \<circ> fst) ds)"

definition accepted :: "'f sys \<Rightarrow> nat \<Rightarrow> nat" where
  "accepted y c = (if c < length (sy_callers y) \<and> (\<forall>e. sy_callers y ! c \<noteq> CErr e) then 1 else 0)"

fun send_good :: "worker \<Rightarrow> bool" where
  "send_good (WSend t r) \<longleftrightarrow> tk_ResultCh t \<noteq> None \<and> answer_of t r"
| "send_good _ \<longleftrightarrow> True"

definition sending_ok :: "'f sys \<Rightarrow> bool" where
  "sending_ok y \<longleftrightarrow> (\<forall>x \<in> set (sy_workers y). send_good (snd x))"

lemma sending_ok_set: "sending_ok y \<Longrightarrow> send_good w \<Longrightarrow> sending_ok (setWorker i w y)"
  by (auto simp: sending_ok_def setWorker_def dest!: set_update_subset_insert [THEN subsetD])

lemma sending_ok_same: "sy_workers y1 = sy_workers y \<Longrightarrow> sending_ok y \<Longrightarrow> sending_ok y1"
  by (simp add: sending_ok_def)

lemma sending_ok_nth: "sending_ok y \<Longrightarrow> i < length (sy_workers y) \<Longrightarrow> sy_workers y ! i = (p, WSend t r) \<Longrightarrow> answer_of t r"
  by (metis nth_mem send_good.simps(1) sending_ok_def snd_conv)

lemma step_answers:
  assumes "sched_step le y a y1" and "sending_ok y"
  shows "sending_ok y1 \<and> (\<forall>(t, r) \<in> set (task_done a). answer_of t r)"
  using assms
proof (cases rule: sched_step.cases)
  case starts
  then show ?thesis using assms(2) by (auto simp: sending_ok_def Start_def startWorkers_def)
next
  case stops
  then show ?thesis using assms(2) lanes_Stop [OF stops(2)] by (simp add: sending_ok_def)
next
  case (sends i p t r c ms)
  then show ?thesis using assms(2) sending_ok_nth [OF assms(2) sends(3,4)]
    by (auto intro!: sending_ok_set intro: sending_ok_same [where y = y])
qed (use assms(2) in \<open>auto simp: answer_of_def intro!: sending_ok_set intro: sending_ok_same [where y = y]\<close>)

lemma step_accepted:
  assumes "sched_step le y a y1"
  shows "size (filter_mset (for_chan c) (mset (task_in a))) + accepted y c = accepted y1 c"
  using assms
proof (cases rule: sched_step.cases)
  case stops
  then show ?thesis using lanes_Stop [OF stops(2)] by (simp add: accepted_def)
qed (auto simp: accepted_def for_chan_def nth_append nth_list_update setWorker_def onSched_def Start_def takeTask_def less_Suc_eq
    split: option.split)

definition waiting :: "'f sys \<Rightarrow> nat \<Rightarrow> bool" where
  "waiting y c \<longleftrightarrow> c < length (sy_callers y) \<and> (sy_callers y ! c = CWait \<or> sy_callers y ! c = CDrain)"

lemma step_chans:
  assumes "sched_step le y a y1"
  shows "mset (sy_chans y1 c) \<subseteq># mset (sy_chans y c) + sent c (mset (task_done a)) \<and>
    (waiting y1 c \<longrightarrow> (waiting y c \<or> c = length (sy_callers y)) \<and> mset (sy_chans y1 c) = mset (sy_chans y c) + sent c (mset (task_done a))) \<and>
    (c < length (sy_callers y1) \<and> sy_callers y1 ! c = CGot r \<longrightarrow>
      c < length (sy_callers y) \<and> sy_callers y ! c = CGot r \<or> r \<in> set (sy_chans y c))"
  using assms
proof (cases rule: sched_step.cases)
  case stops
  then show ?thesis using lanes_Stop [OF stops(2)] by (simp add: waiting_def sent_def)
qed (auto simp: waiting_def sent_def for_chan_def nth_append nth_list_update setWorker_def onSched_def Start_def takeTask_def less_Suc_eq
    split: option.splits if_splits)

subsection \<open>The invariant of a run\<close>

definition run_ok :: "act list \<Rightarrow> 'f sys \<Rightarrow> bool" where
  "run_ok as y \<longleftrightarrow>
     lanes_ok y \<and> (\<forall>p. went_in p as = came_out p as @ laneOf p y) \<and>
     all_in as = queued y + working y + image_mset fst (all_done as) \<and>
     sending_ok y \<and> (\<forall>(t, r) \<in># all_done as. answer_of t r) \<and>
     (\<forall>c. size (filter_mset (for_chan c) (all_in as)) = accepted y c) \<and>
     (\<forall>c. mset (sy_chans y c) \<subseteq># sent c (all_done as)) \<and>
     (\<forall>c. waiting y c \<longrightarrow> mset (sy_chans y c) = sent c (all_done as)) \<and>
     (\<forall>c r. c < length (sy_callers y) \<and> sy_callers y ! c = CGot r \<longrightarrow> r \<in># sent c (all_done as))"

lemma all_append [simp]: "all_in (as @ [a]) = all_in as + mset (task_in a)" "all_done (as @ [a]) = all_done as + mset (task_done a)"
  by (simp_all add: all_in_def all_done_def)

lemma sent_append [simp]: "sent c (A + B) = sent c A + sent c B"
  by (simp add: sent_def)

lemma size_sent: "size (sent c ds) = size (filter_mset (for_chan c) (image_mset fst ds))"
  by (simp add: sent_def filter_mset_image_mset comp_def)

lemma new_lanes:
  "\<forall>l. (p, l) \<in> set m \<longrightarrow> ln_queue l = [] \<Longrightarrow> (p, l) \<in> set (foldl (\<lambda>m lc. AList.update (lc_Name lc) (newLane lc) m) m cfgs) \<Longrightarrow>
    ln_queue l = []"
proof (induction cfgs arbitrary: m)
  case (Cons c cfgs)
  show ?case
    by (rule Cons.IH [OF _ Cons.prems(2) [simplified]])
      (use Cons.prems(1) set_update_sub [of "lc_Name c" "newLane c" m] in \<open>auto simp: newLane_def\<close>)
qed simp

lemma new_distinct: "distinct (map fst m) \<Longrightarrow> distinct (map fst (foldl (\<lambda>m lc. AList.update (lc_Name lc) (newLane lc) m) m cfgs))"
  by (induction cfgs arbitrary: m) (auto simp: distinct_update)

lemma no_queues: "\<forall>(p, l) \<in> set m. ln_queue l = [] \<Longrightarrow> (\<Sum>(p, l) \<leftarrow> m. mset (ln_queue l)) = {#}"
  by (induction m) auto

lemma run_ok_New: "run_ok [] (NewSys (NewWithMetrics b ls mc))"
proof -
  define y where "y = NewSys (NewWithMetrics b ls mc)"
  have empty: "\<forall>(p, l) \<in> set (lanes y). ln_queue l = []"
    using new_lanes [of _ "[]"] by (auto simp: y_def NewSys_def NewWithMetrics_def NewScheduler_def)
  have lane: "ln_queue l = []" if "map_of (lanes y) p = Some l" for p l using empty map_of_SomeD [OF that] by auto
  have "lanes_ok y" by (auto simp: lanes_ok_def lane) (simp add: y_def NewSys_def NewWithMetrics_def NewScheduler_def new_distinct)
  moreover have "laneOf p y = []" for p by (auto simp: laneOf_def lane split: option.split)
  moreover have "queued y = {#}" using no_queues [OF empty] by (simp add: queued_def)
  moreover have "sy_workers y = []" "sy_callers y = []" "sy_chans y = (\<lambda>_. [])" by (simp_all add: y_def NewSys_def)
  ultimately have "run_ok [] y"
    by (simp add: run_ok_def working_def all_in_def all_done_def sending_ok_def accepted_def sent_def waiting_def)
  then show ?thesis by (simp add: y_def)
qed

lemma run_ok_step:
  assumes "run_ok as y" and "sched_step le y a y1"
  shows "run_ok (as @ [a]) y1"
proof -
  have lanes: "lanes_ok y" and fifo: "went_in p as = came_out p as @ laneOf p y"
    and counts: "all_in as = queued y + working y + image_mset fst (all_done as)"
    and sending: "sending_ok y" and answers: "\<forall>(t, r) \<in># all_done as. answer_of t r"
    and acc: "size (filter_mset (for_chan c) (all_in as)) = accepted y c"
    and chans: "mset (sy_chans y c) \<subseteq># sent c (all_done as)" "waiting y c \<Longrightarrow> mset (sy_chans y c) = sent c (all_done as)"
    and got: "c < length (sy_callers y) \<Longrightarrow> sy_callers y ! c = CGot r \<Longrightarrow> r \<in># sent c (all_done as)" for p c r
    using assms(1) unfolding run_ok_def by blast+
  have fresh: "sent (length (sy_callers y)) (all_done as) = {#}"
  proof -
    let ?c = "length (sy_callers y)"
    have "size (sent ?c (all_done as)) \<le> size (filter_mset (for_chan ?c) (all_in as))" unfolding size_sent counts by simp
    also have "\<dots> = 0" by (simp only: acc) (simp add: accepted_def)
    finally show ?thesis by simp
  qed
  have new: "sy_chans y (length (sy_callers y)) = []" using chans(1) [of "length (sy_callers y)"] unfolding fresh by simp
  note lanes1 = step_lanes [OF assms(2) lanes] and counts1 = step_counts [OF assms(2) lanes] and answers1 = step_answers [OF assms(2) sending]
    and acc1 = step_accepted [OF assms(2)] and chans1 = step_chans [OF assms(2)]
  show ?thesis unfolding run_ok_def
  proof (intro conjI allI impI)
    show "lanes_ok y1" using lanes1 by blast
    show "went_in p (as @ [a]) = came_out p (as @ [a]) @ laneOf p y1" for p using lanes1 fifo [of p] by simp
    show "all_in (as @ [a]) = queued y1 + working y1 + image_mset fst (all_done (as @ [a]))" using counts1 counts by (simp add: union_ac)
    show "sending_ok y1" using answers1 by blast
    show "\<forall>(t, r) \<in># all_done (as @ [a]). answer_of t r" using answers1 answers by auto
    show "size (filter_mset (for_chan c) (all_in (as @ [a]))) = accepted y1 c" for c using acc1 [of c] acc [of c] by simp
    show "mset (sy_chans y1 c) \<subseteq># sent c (all_done (as @ [a]))" for c
      using chans1 [of c, THEN conjunct1] chans(1) [of c] by (simp add: subset_mset.order_trans)
    show "mset (sy_chans y1 c) = sent c (all_done (as @ [a]))" if "waiting y1 c" for c
    proof -
      have *: "waiting y c \<or> c = length (sy_callers y)" "mset (sy_chans y1 c) = mset (sy_chans y c) + sent c (mset (task_done a))"
        using chans1 [of c] that by blast+
      then have "mset (sy_chans y c) = sent c (all_done as)" using chans(2) fresh new by auto
      with * show ?thesis by simp
    qed
    show "r \<in># sent c (all_done (as @ [a]))" if "c < length (sy_callers y1) \<and> sy_callers y1 ! c = CGot r" for c r
    proof -
      have "c < length (sy_callers y) \<and> sy_callers y ! c = CGot r \<or> r \<in> set (sy_chans y c)" using chans1 [of c r] that by blast
      then show ?thesis using got [of c r] mset_subset_eqD [OF chans(1) [of c], of r] by auto
    qed
  qed
qed

lemma runs_ok:
  assumes "sched_runs le (NewSys (NewWithMetrics b ls mc)) as y"
  shows "run_ok as y"
  using assms by (induction rule: sched_runs.induct) (auto intro: run_ok_New run_ok_step)

lemma run_ok_single:
  assumes "run_ok as y" and "accepted y c = 1"
  shows "\<exists>t. filter_mset (for_chan c) (all_in as) = {# t #}"
  using assms by (metis run_ok_def size_1_singleton_mset)

lemma working_sends: "(p, WSend t r) \<in> set (sy_workers y) \<Longrightarrow> t \<in># working y"
proof -
  have "t \<in># (\<Sum>(p, w) \<leftarrow> ws. mset (held w))" if "(p, WSend t r) \<in> set ws" for ws using that by (induction ws) auto
  then show "(p, WSend t r) \<in> set (sy_workers y) \<Longrightarrow> t \<in># working y" by (simp add: working_def)
qed

lemma channel_free:
  assumes "run_ok as y" and "t \<in># working y" and "tk_ResultCh t = Some c"
  shows "sy_chans y c = []"
proof -
  have counts: "all_in as = queued y + working y + image_mset fst (all_done as)" and acc: "size (filter_mset (for_chan c) (all_in as)) = accepted y c"
    and chans: "mset (sy_chans y c) \<subseteq># sent c (all_done as)" using assms(1) unfolding run_ok_def by blast+
  have "t \<in># filter_mset (for_chan c) (working y)" using assms(2,3) by (simp add: for_chan_def)
  then have "size (filter_mset (for_chan c) (working y)) \<noteq> 0" by auto
  moreover have "size (filter_mset (for_chan c) (working y)) + size (sent c (all_done as)) \<le> 1"
  proof -
    have "size (filter_mset (for_chan c) (working y)) + size (sent c (all_done as)) \<le> size (filter_mset (for_chan c) (all_in as))"
      unfolding counts size_sent by simp
    also have "\<dots> \<le> 1" unfolding acc by (simp add: accepted_def)
    finally show ?thesis .
  qed
  ultimately have "sent c (all_done as) = {#}" by (metis add_leE le_add2 le_antisym less_one linorder_not_le size_eq_0_iff_empty add_is_1 One_nat_def)
  with chans show ?thesis by simp
qed

text \<open>
  C4: Whatever the workers, callers and the clock do, the scheduler neither loses nor repeats a task: the tasks it accepted are
  those that wait in a lane, those a worker holds, and those whose execution ended, each once.  The tasks of a lane are
  taken out in the order in which they came in, whoever takes them, and a lane never holds more than its size.
\<close>

theorem scheduler_conserves:
  assumes "sched_runs le (NewSys (NewWithMetrics buckets ls mc)) as y"
  shows "all_in as = queued y + working y + image_mset fst (all_done as) \<and>
    (\<forall>p. went_in p as = came_out p as @ laneOf p y) \<and>
    (\<forall>p l. map_of (sd_lanes (sy_sched y)) p = Some l \<longrightarrow> length (ln_queue l) \<le> lc_QueueSize (ln_cfg l))"
  using runs_ok [OF assms] unfolding run_ok_def lanes_ok_def by blast

text \<open>
  C24: A caller that waits for its task gets the result of exactly this task, once.  While it waits, its task is in a lane, held by a
  worker, or its result is ready; and no worker ever waits for the caller to take a result, not even when the caller
  has given up.
\<close>

theorem caller_gets_result:
  assumes "sched_runs le (NewSys (NewWithMetrics buckets ls mc)) as y" and "c < length (sy_callers y)"
  shows "(\<forall>r. sy_callers y ! c = CGot r \<longrightarrow>
      (\<exists>t. filter_mset (for_chan c) (all_in as) = {# t #} \<and> (t, r) \<in># all_done as \<and> answer_of t r)) \<and>
    (sy_callers y ! c = CWait \<longrightarrow>
      (\<exists>t. filter_mset (for_chan c) (all_in as) = {# t #} \<and>
        (t \<in># queued y \<or> t \<in># working y \<or> (\<exists>r. (t, r) \<in># all_done as \<and> answer_of t r \<and> sy_chans y c = [r])))) \<and>
    (\<forall>p t r. (p, WSend t r) \<in> set (sy_workers y) \<longrightarrow> (\<exists>d. tk_ResultCh t = Some d \<and> sy_chans y d = []))"
proof -
  have ok: "run_ok as y" by (rule runs_ok [OF assms(1)])
  have counts: "all_in as = queued y + working y + image_mset fst (all_done as)" and answers: "\<forall>(t, r) \<in># all_done as. answer_of t r"
    and waiting: "waiting y c \<Longrightarrow> mset (sy_chans y c) = sent c (all_done as)"
    and got: "sy_callers y ! c = CGot r \<Longrightarrow> r \<in># sent c (all_done as)" and sending: "sending_ok y" for r
    using ok assms(2) unfolding run_ok_def by blast+
  have only: "u = t" if "filter_mset (for_chan c) (all_in as) = {# t #}" "(u, r) \<in># all_done as" "for_chan c u" for t u r
  proof -
    have "u \<in># filter_mset (for_chan c) (all_in as)" using that(2,3) by (force simp: counts)
    then show ?thesis unfolding that(1) by simp
  qed
  have "\<exists>t. filter_mset (for_chan c) (all_in as) = {# t #} \<and> (t, r) \<in># all_done as \<and> answer_of t r" if cgot: "sy_callers y ! c = CGot r" for r
  proof -
    have "accepted y c = 1" using cgot assms(2) by (simp add: accepted_def)
    then obtain t where t: "filter_mset (for_chan c) (all_in as) = {# t #}" using run_ok_single [OF ok] by metis
    obtain u where "(u, r) \<in># all_done as" "for_chan c u" using got [OF cgot] by (auto simp: sent_def)
    with only [OF t] answers t show ?thesis by auto
  qed
  moreover have "\<exists>t. filter_mset (for_chan c) (all_in as) = {# t #} \<and>
      (t \<in># queued y \<or> t \<in># working y \<or> (\<exists>r. (t, r) \<in># all_done as \<and> answer_of t r \<and> sy_chans y c = [r]))" if "sy_callers y ! c = CWait"
  proof -
    have acc: "accepted y c = 1" using that assms(2) by (simp add: accepted_def)
    then obtain t where t: "filter_mset (for_chan c) (all_in as) = {# t #}" using run_ok_single [OF ok] by metis
    then have "t \<in># filter_mset (for_chan c) (all_in as)" by simp
    then have tc: "for_chan c t" and "t \<in># queued y \<or> t \<in># working y \<or> (\<exists>r. (t, r) \<in># all_done as)" by (auto simp: counts)
    moreover have "sy_chans y c = [r] \<and> answer_of t r" if "(t, r) \<in># all_done as" for r
    proof -
      have "size (sent c (all_done as)) \<le> size (filter_mset (for_chan c) (all_in as))" unfolding size_sent counts by simp
      then have "size (mset (sy_chans y c)) \<le> 1" using waiting \<open>sy_callers y ! c = CWait\<close> assms(2) by (simp add: t waiting_def)
      moreover have "r \<in># mset (sy_chans y c)" using waiting \<open>sy_callers y ! c = CWait\<close> assms(2) that tc
        by (force simp: waiting_def sent_def)
      ultimately show ?thesis using answers that by (cases "sy_chans y c") auto
    qed
    ultimately show ?thesis using t by blast
  qed
  moreover have "\<exists>d. tk_ResultCh t = Some d \<and> sy_chans y d = []" if "(p, WSend t r) \<in> set (sy_workers y)" for p t r
  proof -
    have "send_good (WSend t r)" using sending that by (force simp: sending_ok_def)
    then obtain d where "tk_ResultCh t = Some d" by auto
    with channel_free [OF ok working_sends [OF that]] show ?thesis by simp
  qed
  ultimately show ?thesis by blast
qed

text \<open>A scheduler with one lane and one worker, and the run of one task whose caller waits.\<close>

definition exampleTask :: Task where
  "exampleTask = \<lparr>tk_ID = ''a'', tk_Priority = 0, tk_Body = [], tk_Deadline = None, tk_Execute = (\<lambda>_. Ran ''out'' None), tk_ResultCh = Some 0\<rparr>"

definition exampleSched :: "Task list \<Rightarrow> bool \<Rightarrow> 64 word \<Rightarrow> 64 word \<Rightarrow> nat Scheduler" where
  "exampleSched q started enq deq =
     \<lparr>sd_lanes = [(0, \<lparr>ln_cfg = \<lparr>lc_Name = 0, lc_MaxConcurrent = 1, lc_QueueSize = 1, lc_RejectOnFull = True\<rparr>, ln_queue = q\<rparr>)], sd_started = started,
      sd_stopped = False, sd_totalEnq = enq, sd_totalDeq = deq, sd_totalRej = 0, sd_metrics = None\<rparr>"

definition exampleSys :: "nat Scheduler \<Rightarrow> worker list \<Rightarrow> TaskResult list \<Rightarrow> caller list \<Rightarrow> nat sys" where
  "exampleSys s ws rs cs = \<lparr>sy_sched = s, sy_workers = map (Pair 0) ws, sy_ctxDone = False, sy_chans = (\<lambda>_. [])(0 := rs), sy_callers = cs\<rparr>"

lemmas example_defs = exampleTask_def exampleSched_def exampleSys_def NewSys_def NewWithMetrics_def NewScheduler_def newLane_def EnqueueTask_def
  enqueue_def normalPriority_def PriorityFast_def PriorityHeavy_def measured_def setWorker_def takeTask_def laneOf_def onSched_def beginExec_def
  endExec_def Start_def startWorkers_def fun_upd_def Let_def

lemma example_run:
  fixes le :: "nat \<Rightarrow> nat \<Rightarrow> bool"
  defines "r \<equiv> \<lparr>tr_Output = ''out'', tr_Error = None\<rparr>"
  shows "sched_runs le (NewSys (NewWithMetrics [] (Some [\<lparr>lc_Name = 0, lc_MaxConcurrent = 1, lc_QueueSize = 1, lc_RejectOnFull = True\<rparr>]) None))
    [ActIn 0 exampleTask, ActTau, ActOut 0 exampleTask, ActTau, ActTau, ActDone exampleTask r, ActTau]
    (exampleSys (exampleSched [] True 1 1) [WSelect] [] [CGot r])"
proof -
  let ?y0 = "exampleSys (exampleSched [] False 0 0) [] [] []" and ?y1 = "exampleSys (exampleSched [exampleTask] False 1 0) [] [] [CWait]"
    and ?y2 = "exampleSys (exampleSched [exampleTask] True 1 0) [WSelect] [] [CWait]"
    and ?y3 = "exampleSys (exampleSched [] True 1 0) [WGot exampleTask] [] [CWait]"
    and ?y4 = "exampleSys (exampleSched [] True 1 1) [WRun exampleTask] [] [CWait]"
    and ?y5 = "exampleSys (exampleSched [] True 1 1) [WSend exampleTask r] [] [CWait]"
    and ?y6 = "exampleSys (exampleSched [] True 1 1) [WSelect] [r] [CWait]"
    and ?y7 = "exampleSys (exampleSched [] True 1 1) [WSelect] [] [CGot r]"
  have 0: "NewSys (NewWithMetrics [] (Some [\<lparr>lc_Name = 0, lc_MaxConcurrent = 1, lc_QueueSize = 1, lc_RejectOnFull = True\<rparr>]) None) = ?y0"
    by (simp add: example_defs)
  have 1: "sched_step le ?y0 (ActIn 0 exampleTask) ?y1"
    using waits [where t = exampleTask and u = exampleTask and y = ?y0 and pick = True and s = "exampleSched [exampleTask] False 1 0" and le = le] by (simp add: example_defs)
  have 2: "sched_step le ?y1 ActTau ?y2" using starts [where y = ?y1 and le = le] by (simp add: example_defs)
  have 3: "sched_step le ?y2 (ActOut 0 exampleTask) ?y3" using takes [where i = 0 and y = ?y2 and p = 0 and w = WSelect and t = exampleTask and q = "[]" and le = le] by (simp add: example_defs)
  have 4: "sched_step le ?y3 ActTau ?y4" using begins [where i = 0 and y = ?y3 and p = 0 and t = exampleTask and le = le] by (simp add: example_defs)
  have 5: "sched_step le ?y4 ActTau ?y5" using answers [where i = 0 and y = ?y4 and p = 0 and t = exampleTask and c = 0 and le = le] by (simp add: example_defs r_def)
  have 6: "sched_step le ?y5 (ActDone exampleTask r) ?y6" using sends [where i = 0 and y = ?y5 and p = 0 and t = exampleTask and r = r and c = 0 and le = le] by (simp add: example_defs)
  have 7: "sched_step le ?y6 ActTau ?y7" using receives [where c = 0 and y = ?y6 and r = r and le = le] by (simp add: example_defs cong: if_cong)
  have "sched_runs le ?y0 [ActIn 0 exampleTask, ActTau, ActOut 0 exampleTask, ActTau, ActTau, ActDone exampleTask r, ActTau] ?y7"
    using more [OF more [OF more [OF more [OF more [OF more [OF more [OF none 1] 2] 3] 4] 5] 6] 7] by simp
  then show ?thesis by (simp only: 0)
qed

theorem scheduler_conserves_witness:
  "all_in [ActIn 0 exampleTask, ActTau, ActOut 0 exampleTask, ActTau, ActTau, ActDone exampleTask \<lparr>tr_Output = ''out'', tr_Error = None\<rparr>, ActTau] =
     image_mset fst (all_done [ActIn 0 exampleTask, ActTau, ActOut 0 exampleTask, ActTau, ActTau,
       ActDone exampleTask \<lparr>tr_Output = ''out'', tr_Error = None\<rparr>, ActTau])"
  using scheduler_conserves [OF example_run] by (simp add: queued_def working_def exampleSys_def exampleSched_def)

theorem caller_gets_result_witness:
  "\<exists>t. (t, \<lparr>tr_Output = ''out'', tr_Error = None\<rparr>) \<in># all_done [ActIn 0 exampleTask, ActTau, ActOut 0 exampleTask, ActTau, ActTau,
     ActDone exampleTask \<lparr>tr_Output = ''out'', tr_Error = None\<rparr>, ActTau] \<and> answer_of t \<lparr>tr_Output = ''out'', tr_Error = None\<rparr>"
  using caller_gets_result [OF example_run, of 0] by (auto simp: exampleSys_def)

end
