(* ===== verification/Agent_Pool.thy ===== *)
theory Agent_Pool
  imports Prelude Metrics Complex_Main "HOL-Library.Multiset"
begin

text \<open>
  The agents of a node, \<^verbatim>\<open>server/internal/agent\<close>: the bounded queue of tasks (\<^verbatim>\<open>task.go\<close>), a worker (\<^verbatim>\<open>agent.go\<close>), the pool that
  starts and retires workers (\<^verbatim>\<open>pool.go\<close>) and the health monitor (\<^verbatim>\<open>health.go\<close>).  The goroutines are a step relation: every step is one
  statement that other goroutines can see.  A Go \<^verbatim>\<open>select\<close> takes any of its ready cases; the ready cases are a list, and the
  case taken is an argument.  What the function of a task does is the label of the step that ends it.
\<close>

subsection \<open>The queue\<close>

record Task =
  tk_ID :: string
  tk_Body :: bytes
  tk_Created :: gotime

datatype outcome = TaskOk bytes | TaskErr string | TaskPanics string

record TaskQueue =
  tq_queue :: "Task list"
  tq_maxSize :: nat
  tq_totalEnq :: nat
  tq_totalDeq :: nat
  tq_totalRej :: nat
  tq_stopped :: bool

definition NewTaskQueue :: "int \<Rightarrow> TaskQueue" where
  "NewTaskQueue maxSize =
     \<lparr>tq_queue = [], tq_maxSize = (if maxSize \<le> 0 then 10000 else nat maxSize), tq_totalEnq = 0, tq_totalDeq = 0, tq_totalRej = 0,
      tq_stopped = False\<rparr>"

definition putTask :: "gotime \<Rightarrow> Task \<Rightarrow> TaskQueue \<Rightarrow> TaskQueue" where
  "putTask now t tq = tq\<lparr>tq_queue := tq_queue tq @ [t\<lparr>tk_Created := now\<rparr>], tq_totalEnq := Suc (tq_totalEnq tq)\<rparr>"

definition Enqueue :: "gotime \<Rightarrow> Task \<Rightarrow> TaskQueue \<Rightarrow> bool \<times> TaskQueue" where
  "Enqueue now t tq =
     (if tq_stopped tq then (False, tq)
      else if length (tq_queue tq) < tq_maxSize tq then (True, putTask now t tq)
      else (False, tq\<lparr>tq_totalRej := Suc (tq_totalRej tq)\<rparr>))"

datatype enq_case = EnqPut | EnqStop | EnqDone

definition enqueueReady :: "bool \<Rightarrow> TaskQueue \<Rightarrow> enq_case list" where
  "enqueueReady ctxDone tq =
     (if length (tq_queue tq) < tq_maxSize tq then [EnqPut] else []) @ (if tq_stopped tq then [EnqStop] else []) @ (if ctxDone then [EnqDone] else [])"

fun EnqueueWait :: "gotime \<Rightarrow> Task \<Rightarrow> enq_case \<Rightarrow> TaskQueue \<Rightarrow> bool \<times> TaskQueue" where
  "EnqueueWait now t EnqPut tq = (True, putTask now t tq)"
| "EnqueueWait now t EnqStop tq = (False, tq)"
| "EnqueueWait now t EnqDone tq = (False, tq\<lparr>tq_totalRej := Suc (tq_totalRej tq)\<rparr>)"

datatype deq_case = DeqTake | DeqStop | DeqDone

definition dequeueReady :: "bool \<Rightarrow> TaskQueue \<Rightarrow> deq_case list" where
  "dequeueReady ctxDone tq =
     (if tq_queue tq \<noteq> [] then [DeqTake] else []) @ (if tq_stopped tq then [DeqStop] else []) @ (if ctxDone then [DeqDone] else [])"

definition takeHead :: "TaskQueue \<Rightarrow> Task option \<times> TaskQueue" where
  "takeHead tq =
     (case tq_queue tq of
        [] \<Rightarrow> (None, tq)
      | t # ts \<Rightarrow> (Some t, tq\<lparr>tq_queue := ts, tq_totalDeq := Suc (tq_totalDeq tq)\<rparr>))"

fun DequeueWait :: "deq_case \<Rightarrow> TaskQueue \<Rightarrow> Task option \<times> TaskQueue" where
  "DequeueWait DeqTake tq = takeHead tq"
| "DequeueWait _ tq = (None, tq)"

text \<open>Without waiting, an empty queue has no task; a stopped one may or may not give up its tasks.\<close>

definition Dequeue :: "deq_case \<Rightarrow> TaskQueue \<Rightarrow> Task option \<times> TaskQueue" where
  "Dequeue c tq = (if c \<in> set (dequeueReady False tq) then DequeueWait c tq else (None, tq))"

definition Len :: "TaskQueue \<Rightarrow> nat" where
  "Len tq = length (tq_queue tq)"

definition Cap :: "TaskQueue \<Rightarrow> nat" where
  "Cap tq = tq_maxSize tq"

record QueueStats =
  qs_Enqueued :: nat
  qs_Dequeued :: nat
  qs_Rejected :: nat
  qs_Pending :: nat
  qs_Capacity :: nat

definition QueueStatsOf :: "TaskQueue \<Rightarrow> QueueStats" where
  "QueueStatsOf tq =
     \<lparr>qs_Enqueued = tq_totalEnq tq, qs_Dequeued = tq_totalDeq tq, qs_Rejected = tq_totalRej tq, qs_Pending = length (tq_queue tq),
      qs_Capacity = tq_maxSize tq\<rparr>"

definition showStats :: "QueueStats \<Rightarrow> string" where
  "showStats qs =
     ''enqueued='' @ dec (qs_Enqueued qs) @ '' dequeued='' @ dec (qs_Dequeued qs) @ '' rejected='' @ dec (qs_Rejected qs) @
     '' pending='' @ dec (qs_Pending qs) @ ''/'' @ dec (qs_Capacity qs)"

definition StopQueue :: "TaskQueue \<Rightarrow> TaskQueue" where
  "StopQueue tq = tq\<lparr>tq_stopped := True\<rparr>"

subsection \<open>An agent\<close>

datatype AgentState = StateIdle | StateRunning | StateDraining | StateStopped

fun agentStateString :: "AgentState \<Rightarrow> string" where
  "agentStateString StateIdle = ''idle''"
| "agentStateString StateRunning = ''running''"
| "agentStateString StateDraining = ''draining''"
| "agentStateString StateStopped = ''stopped''"

text \<open>Besides the fields of the struct an agent has the task its goroutine is executing.\<close>

record Agent =
  ag_id :: string
  ag_state :: AgentState
  ag_stop :: bool
  ag_lastTaskTime :: gotime
  ag_tasksExecuted :: nat
  ag_tasksFailed :: nat
  ag_panicCount :: nat
  ag_startTime :: gotime
  ag_execTimeout :: duration
  ag_current :: "Task option"

definition NewAgent :: "gotime \<Rightarrow> string \<Rightarrow> duration \<Rightarrow> Agent" where
  "NewAgent now ident execTimeout =
     \<lparr>ag_id = ident, ag_state = StateIdle, ag_stop = False, ag_lastTaskTime = 0, ag_tasksExecuted = 0, ag_tasksFailed = 0, ag_panicCount = 0,
      ag_startTime = now, ag_execTimeout = execTimeout, ag_current = None\<rparr>"

record AgentStats =
  as_ID :: string
  as_State :: string
  as_TasksExecuted :: nat
  as_TasksFailed :: nat
  as_PanicCount :: nat
  as_StartTime :: gotime
  as_LastTaskTime :: gotime
  as_Uptime :: duration

definition AgentStatsOf :: "gotime \<Rightarrow> Agent \<Rightarrow> AgentStats" where
  "AgentStatsOf now a =
     \<lparr>as_ID = ag_id a, as_State = agentStateString (ag_state a), as_TasksExecuted = ag_tasksExecuted a, as_TasksFailed = ag_tasksFailed a,
      as_PanicCount = ag_panicCount a, as_StartTime = ag_startTime a, as_LastTaskTime = ag_lastTaskTime a, as_Uptime = now - ag_startTime a\<rparr>"

definition StopAsync :: "Agent \<Rightarrow> Agent" where
  "StopAsync a = a\<lparr>ag_stop := True\<rparr>"

definition setState :: "AgentState \<Rightarrow> Agent \<Rightarrow> Agent" where
  "setState s a = a\<lparr>ag_state := s\<rparr>"

text \<open>The deadline of a task's context: a task that waited longer than the timeout gets none.\<close>

definition taskDeadline :: "gotime \<Rightarrow> Task \<Rightarrow> Agent \<Rightarrow> gotime option" where
  "taskDeadline now t a = (if tk_Created t + ag_execTimeout a > now then Some (now + ag_execTimeout a) else None)"

definition beginTask :: "gotime \<Rightarrow> Task \<Rightarrow> Agent \<Rightarrow> Agent" where
  "beginTask now t a = (setState StateRunning a)\<lparr>ag_lastTaskTime := now, ag_current := Some t\<rparr>"

datatype result = Output bytes | Failed string | Panicked string string | AgentStopped string

fun finishTask :: "outcome \<Rightarrow> Agent \<Rightarrow> result \<times> Agent" where
  "finishTask (TaskOk out) a = (Output out, a\<lparr>ag_tasksExecuted := Suc (ag_tasksExecuted a), ag_current := None\<rparr>)"
| "finishTask (TaskErr e) a = (Failed e, a\<lparr>ag_tasksFailed := Suc (ag_tasksFailed a), ag_current := None\<rparr>)"
| "finishTask (TaskPanics e) a =
     (Panicked (ag_id a) e, a\<lparr>ag_panicCount := Suc (ag_panicCount a), ag_tasksFailed := Suc (ag_tasksFailed a), ag_current := None\<rparr>)"

definition drainOne :: "Agent \<Rightarrow> result \<times> Agent" where
  "drainOne a = (AgentStopped (ag_id a), a\<lparr>ag_tasksExecuted := Suc (ag_tasksExecuted a)\<rparr>)"

subsection \<open>The pool\<close>

record PoolConfig =
  pc_MinAgents :: int
  pc_MaxAgents :: int
  pc_QueueSize :: int
  pc_ExecTimeout :: duration
  pc_HealthCheck :: duration
  pc_ScaleUpThreshold :: real
  pc_ScaleDownThreshold :: duration

definition DefaultPoolConfig :: PoolConfig where
  "DefaultPoolConfig =
     \<lparr>pc_MinAgents = 2, pc_MaxAgents = 16, pc_QueueSize = 10000, pc_ExecTimeout = 30 * 10 ^ 9, pc_HealthCheck = 5 * 10 ^ 9,
      pc_ScaleUpThreshold = 8 / 10, pc_ScaleDownThreshold = 30 * 10 ^ 9\<rparr>"

text \<open>
  \<open>po_threads\<close> are all agents that were started; \<open>po_agents\<close> are the indices of those in the map of the pool, in the order of an
  iteration over it.  \<open>po_answers\<close> are the results that were sent to the channels of tasks, and \<open>po_accepted\<close> the tasks the queue took.
\<close>

record AgentPool =
  po_config :: PoolConfig
  po_queue :: TaskQueue
  po_threads :: "Agent list"
  po_agents :: "nat list"
  po_stopped :: bool
  po_totalSubmitted :: nat
  po_totalCompleted :: nat
  po_totalFailed :: nat
  po_lastScaleTime :: gotime
  po_metrics :: "nat MetricsCollector"
  po_accepted :: "Task list"
  po_answers :: "(Task \<times> result) list"

definition fixConfig :: "PoolConfig \<Rightarrow> PoolConfig" where
  "fixConfig c =
     (let mn = (if pc_MinAgents c \<le> 0 then 2 else pc_MinAgents c);
          mx = (if pc_MaxAgents c \<le> 0 then 16 else pc_MaxAgents c)
      in \<lparr>pc_MinAgents = mn, pc_MaxAgents = (if mx < mn then mn else mx), pc_QueueSize = (if pc_QueueSize c \<le> 0 then 10000 else pc_QueueSize c),
          pc_ExecTimeout = (if pc_ExecTimeout c \<le> 0 then 30 * 10 ^ 9 else pc_ExecTimeout c),
          pc_HealthCheck = (if pc_HealthCheck c \<le> 0 then 5 * 10 ^ 9 else pc_HealthCheck c),
          pc_ScaleUpThreshold = (if pc_ScaleUpThreshold c \<le> 0 then 8 / 10 else pc_ScaleUpThreshold c),
          pc_ScaleDownThreshold = (if pc_ScaleDownThreshold c \<le> 0 then 30 * 10 ^ 9 else pc_ScaleDownThreshold c)\<rparr>)"

definition NewPool :: "gotime \<Rightarrow> PoolConfig \<Rightarrow> AgentPool" where
  "NewPool now c =
     \<lparr>po_config = fixConfig c, po_queue = NewTaskQueue (pc_QueueSize (fixConfig c)), po_threads = [], po_agents = [], po_stopped = False,
      po_totalSubmitted = 0, po_totalCompleted = 0, po_totalFailed = 0, po_lastScaleTime = now,
      po_metrics = fold Gauge [''agent.active_count'', ''agent.queue_depth'']
        (fold Counter [''agent.submit_total'', ''agent.complete_total'', ''agent.fail_total'', ''agent.scale_up_total'', ''agent.scale_down_total'']
           NewMetricsCollector),
      po_accepted = [], po_answers = []\<rparr>"

definition spawnAgentLocked :: "gotime \<Rightarrow> AgentPool \<Rightarrow> AgentPool" where
  "spawnAgentLocked now p =
     (let i = length (po_threads p)
      in p\<lparr>po_threads := po_threads p @ [NewAgent now (''agent-'' @ dec (Suc i)) (pc_ExecTimeout (po_config p))],
           po_agents := po_agents p @ [i]\<rparr>)"

definition StartPool :: "gotime \<Rightarrow> AgentPool \<Rightarrow> AgentPool" where
  "StartPool now p = (spawnAgentLocked now ^^ nat (pc_MinAgents (po_config p))) p"

text \<open>Stopping closes the channels and signals the agents of the map; the caller then waits for them.\<close>

definition StopPool :: "AgentPool \<Rightarrow> AgentPool" where
  "StopPool p =
     p\<lparr>po_stopped := True, po_queue := StopQueue (po_queue p),
       po_threads := map (\<lambda>(i, a). if i \<in> set (po_agents p) then StopAsync a else a) (enumerate 0 (po_threads p))\<rparr>"

definition submitted :: "AgentPool \<Rightarrow> AgentPool" where
  "submitted p = p\<lparr>po_totalSubmitted := Suc (po_totalSubmitted p), po_metrics := counterInc ''agent.submit_total'' (po_metrics p)\<rparr>"

definition queued :: "gotime \<Rightarrow> Task \<Rightarrow> bool \<times> TaskQueue \<Rightarrow> AgentPool \<Rightarrow> bool \<times> AgentPool" where
  "queued now t out p =
     (fst out, p\<lparr>po_queue := snd out, po_accepted := po_accepted p @ (if fst out then [t\<lparr>tk_Created := now\<rparr>] else [])\<rparr>)"

definition Submit :: "gotime \<Rightarrow> Task option \<Rightarrow> AgentPool \<Rightarrow> bool \<times> AgentPool" where
  "Submit now task p =
     (case task of
        None \<Rightarrow> (False, p)
      | Some t \<Rightarrow> if po_stopped p then (False, p) else queued now t (Enqueue now t (po_queue p)) (submitted p))"

definition SubmitWait :: "gotime \<Rightarrow> enq_case \<Rightarrow> Task option \<Rightarrow> AgentPool \<Rightarrow> bool \<times> AgentPool" where
  "SubmitWait now c task p =
     (case task of None \<Rightarrow> (False, p) | Some t \<Rightarrow> queued now t (EnqueueWait now t c (po_queue p)) (submitted p))"

text \<open>The second half of \<^verbatim>\<open>SubmitAndWait\<close>: the caller got a result, or its context or the pool ended.\<close>

datatype wait_case = GotResult result | WaitDone | WaitStopped

fun answerCaller :: "wait_case \<Rightarrow> AgentPool \<Rightarrow> (string + bytes) \<times> AgentPool" where
  "answerCaller (GotResult (Output out)) p =
     (Inr out, p\<lparr>po_totalCompleted := Suc (po_totalCompleted p), po_metrics := counterInc ''agent.complete_total'' (po_metrics p)\<rparr>)"
| "answerCaller c p =
     (Inl (case c of
        GotResult (Failed e) \<Rightarrow> e
      | GotResult (Panicked i e) \<Rightarrow> ''agent '' @ i @ '': task panicked: '' @ e
      | GotResult (AgentStopped i) \<Rightarrow> ''agent '' @ i @ '': stopped''
      | GotResult (Output _) \<Rightarrow> []
      | WaitDone \<Rightarrow> ''context done''
      | WaitStopped \<Rightarrow> ''pool: stopped''),
      p\<lparr>po_totalFailed := Suc (po_totalFailed p), po_metrics := counterInc ''agent.fail_total'' (po_metrics p)\<rparr>)"

record PoolStats =
  ps_AgentCount :: nat
  ps_MinAgents :: int
  ps_MaxAgents :: int
  ps_Queue :: QueueStats
  ps_Submitted :: nat
  ps_Completed :: nat
  ps_Failed :: nat

definition PoolStatsOf :: "AgentPool \<Rightarrow> PoolStats" where
  "PoolStatsOf p =
     \<lparr>ps_AgentCount = length (po_agents p), ps_MinAgents = pc_MinAgents (po_config p), ps_MaxAgents = pc_MaxAgents (po_config p),
      ps_Queue = QueueStatsOf (po_queue p), ps_Submitted = po_totalSubmitted p, ps_Completed = po_totalCompleted p, ps_Failed = po_totalFailed p\<rparr>"

definition AgentStatsAll :: "gotime \<Rightarrow> AgentPool \<Rightarrow> AgentStats list" where
  "AgentStatsAll now p = map (\<lambda>i. AgentStatsOf now (po_threads p ! i)) (po_agents p)"

subsection \<open>Scaling\<close>

definition scaleUp :: "gotime \<Rightarrow> AgentPool \<Rightarrow> AgentPool" where
  "scaleUp now p =
     (if real (Len (po_queue p)) / real (Cap (po_queue p)) > pc_ScaleUpThreshold (po_config p) \<and>
         int (length (po_agents p)) < pc_MaxAgents (po_config p) \<and> now - po_lastScaleTime p > 5 * 10 ^ 9
      then (spawnAgentLocked now p)\<lparr>po_lastScaleTime := now, po_metrics := counterInc ''agent.scale_up_total'' (po_metrics p)\<rparr>
      else p)"

fun oldestIdle :: "Agent list \<Rightarrow> nat list \<Rightarrow> nat option \<Rightarrow> nat option" where
  "oldestIdle ts [] best = best"
| "oldestIdle ts (i # is) best =
     oldestIdle ts is
       (if ag_state (ts ! i) = StateIdle \<and>
           (case best of None \<Rightarrow> True | Some j \<Rightarrow> ag_lastTaskTime (ts ! i) < ag_lastTaskTime (ts ! j))
        then Some i else best)"

definition scaleDown :: "gotime \<Rightarrow> AgentPool \<Rightarrow> AgentPool" where
  "scaleDown now p =
     (if int (length (po_agents p)) > pc_MinAgents (po_config p) \<and> now - po_lastScaleTime p > pc_ScaleDownThreshold (po_config p) then
        (case oldestIdle (po_threads p) (po_agents p) None of
           None \<Rightarrow> p
         | Some i \<Rightarrow>
             if now - ag_lastTaskTime (po_threads p ! i) > pc_ScaleDownThreshold (po_config p)
             then p\<lparr>po_threads := (po_threads p)[i := StopAsync (po_threads p ! i)], po_agents := removeAll i (po_agents p),
                    po_lastScaleTime := now, po_metrics := counterInc ''agent.scale_down_total'' (po_metrics p)\<rparr>
             else p)
      else p)"

definition checkHealth :: "gotime \<Rightarrow> AgentPool \<Rightarrow> AgentPool" where
  "checkHealth now p =
     scaleDown now (scaleUp now (p\<lparr>po_metrics := gaugeSet ''agent.queue_depth'' (word_of_nat (Len (po_queue p)))
       (gaugeSet ''agent.active_count'' (word_of_nat (length (po_agents p))) (po_metrics p))\<rparr>))"

subsection \<open>The health monitor\<close>

datatype HealthStatus = HealthHealthy | HealthDegraded | HealthUnhealthy

fun healthString :: "HealthStatus \<Rightarrow> string" where
  "healthString HealthHealthy = ''healthy''"
| "healthString HealthDegraded = ''degraded''"
| "healthString HealthUnhealthy = ''unhealthy''"

record HealthCheck =
  hc_Name :: string
  hc_Timeout :: duration
  hc_Critical :: bool

record HealthMonitor =
  hm_checks :: "HealthCheck list"
  hm_status :: HealthStatus
  hm_lastRun :: gotime
  hm_lastErr :: "string option"

definition NewHealthMonitor :: HealthMonitor where
  "NewHealthMonitor = \<lparr>hm_checks = [], hm_status = HealthHealthy, hm_lastRun = 0, hm_lastErr = None\<rparr>"

definition RegisterCheck :: "HealthCheck \<Rightarrow> HealthMonitor \<Rightarrow> HealthMonitor" where
  "RegisterCheck c hm = hm\<lparr>hm_checks := hm_checks hm @ [if hc_Timeout c \<le> 0 then c\<lparr>hc_Timeout := 5 * 10 ^ 9\<rparr> else c]\<rparr>"

text \<open>\<open>check c\<close> is the error of a check, or none; it runs with the timeout of the check.\<close>

fun checkLoop :: "(HealthCheck \<Rightarrow> string option) \<Rightarrow> HealthCheck list \<Rightarrow> HealthStatus \<times> string option \<Rightarrow> HealthStatus \<times> string option" where
  "checkLoop check [] st = st"
| "checkLoop check (c # cs) (status, lastErr) =
     checkLoop check cs
       (case check c of
          None \<Rightarrow> (status, lastErr)
        | Some e \<Rightarrow>
            (if hc_Critical c then HealthUnhealthy else if status = HealthHealthy then HealthDegraded else status,
             Some (hc_Name c @ '': '' @ e)))"

definition runChecks :: "gotime \<Rightarrow> (HealthCheck \<Rightarrow> string option) \<Rightarrow> HealthMonitor \<Rightarrow> (HealthStatus \<times> string option) \<times> HealthMonitor" where
  "runChecks now check hm =
     (let r = checkLoop check (hm_checks hm) (HealthHealthy, None)
      in (r, hm\<lparr>hm_status := fst r, hm_lastRun := now, hm_lastErr := snd r\<rparr>))"

record HealthReport =
  hr_Status :: HealthStatus
  hr_LastRun :: gotime
  hr_LastError :: string
  hr_Checks :: nat

definition Report :: "HealthMonitor \<Rightarrow> HealthReport" where
  "Report hm =
     \<lparr>hr_Status = hm_status hm, hr_LastRun = hm_lastRun hm, hr_LastError = (case hm_lastErr hm of None \<Rightarrow> [] | Some e \<Rightarrow> e),
      hr_Checks = length (hm_checks hm)\<rparr>"

lemma checkLoop_status:
  "fst (checkLoop check cs (s, e)) =
    (if s = HealthUnhealthy \<or> (\<exists>c \<in> set cs. hc_Critical c \<and> check c \<noteq> None) then HealthUnhealthy
     else if s = HealthDegraded \<or> (\<exists>c \<in> set cs. check c \<noteq> None) then HealthDegraded else HealthHealthy)"
  by (induction check cs "(s, e)" arbitrary: s e rule: checkLoop.induct)
    (auto split: option.splits intro: HealthStatus.exhaust)

text \<open>The status is unhealthy when a critical check fails, degraded when another one does, and healthy when none fails.\<close>

lemma runChecks_status:
  "hm_status (snd (runChecks now check hm)) =
    (if \<exists>c \<in> set (hm_checks hm). hc_Critical c \<and> check c \<noteq> None then HealthUnhealthy
     else if \<exists>c \<in> set (hm_checks hm). check c \<noteq> None then HealthDegraded else HealthHealthy)"
  by (simp add: runChecks_def Let_def checkLoop_status)

subsection \<open>Every interleaving\<close>

definition setThread :: "nat \<Rightarrow> Agent \<Rightarrow> AgentPool \<Rightarrow> AgentPool" where
  "setThread i a p = p\<lparr>po_threads := (po_threads p)[i := a]\<rparr>"

definition answer :: "Task \<Rightarrow> result \<Rightarrow> AgentPool \<Rightarrow> AgentPool" where
  "answer t r p = p\<lparr>po_answers := po_answers p @ [(t, r)]\<rparr>"

inductive pool_step :: "AgentPool \<Rightarrow> AgentPool \<Rightarrow> bool" where
  ps_submit: "pool_step p (snd (Submit now task p))"
| ps_submit_wait: "c \<in> set (enqueueReady dn (po_queue p)) \<Longrightarrow> pool_step p (snd (SubmitWait now c task p))"
| ps_caller: "pool_step p (snd (answerCaller c p))"
| ps_begin: "i < length (po_threads p) \<Longrightarrow> po_threads p ! i = a \<Longrightarrow> ag_state a = StateIdle \<Longrightarrow>
    pool_step p (setThread i (setState StateRunning a) p)"
| ps_take: "i < length (po_threads p) \<Longrightarrow> po_threads p ! i = a \<Longrightarrow> ag_state a = StateRunning \<Longrightarrow> ag_current a = None \<Longrightarrow>
    DequeueWait DeqTake (po_queue p) = (Some t, q) \<Longrightarrow> pool_step p (setThread i (beginTask now t a) (p\<lparr>po_queue := q\<rparr>))"
| ps_finish: "i < length (po_threads p) \<Longrightarrow> po_threads p ! i = a \<Longrightarrow> ag_current a = Some t \<Longrightarrow> finishTask out a = (r, a1) \<Longrightarrow>
    pool_step p (answer t r (setThread i a1 p))"
| ps_done: "i < length (po_threads p) \<Longrightarrow> po_threads p ! i = a \<Longrightarrow> ag_state a = StateRunning \<Longrightarrow> ag_current a = None \<Longrightarrow> \<not> ag_stop a \<Longrightarrow>
    pool_step p (setThread i (setState StateStopped a) p)"
| ps_drain: "i < length (po_threads p) \<Longrightarrow> po_threads p ! i = a \<Longrightarrow> ag_state a = StateRunning \<Longrightarrow> ag_current a = None \<Longrightarrow> ag_stop a \<Longrightarrow>
    pool_step p (setThread i (setState StateDraining a) p)"
| ps_drain_one: "i < length (po_threads p) \<Longrightarrow> po_threads p ! i = a \<Longrightarrow> ag_state a = StateDraining \<Longrightarrow> tq_queue (po_queue p) = t # ts \<Longrightarrow>
    drainOne a = (r, a1) \<Longrightarrow> pool_step p (answer t r (setThread i a1 (p\<lparr>po_queue := (po_queue p)\<lparr>tq_queue := ts\<rparr>\<rparr>)))"
| ps_drain_end: "i < length (po_threads p) \<Longrightarrow> po_threads p ! i = a \<Longrightarrow> ag_state a = StateDraining \<Longrightarrow> tq_queue (po_queue p) = [] \<Longrightarrow>
    pool_step p (setThread i (setState StateStopped a) p)"
| ps_health: "pool_step p (checkHealth now p)"
| ps_stop: "pool_step p (StopPool p)"

inductive pool_runs :: "AgentPool \<Rightarrow> AgentPool \<Rightarrow> bool" where
  pr_refl: "pool_runs p p"
| pr_step: "pool_runs p q \<Longrightarrow> pool_step q r \<Longrightarrow> pool_runs p r"

subsection \<open>What the pool keeps\<close>

definition current :: "Agent \<Rightarrow> Task multiset" where
  "current a = (case ag_current a of None \<Rightarrow> {#} | Some t \<Rightarrow> {#t#})"

definition hands :: "Agent list \<Rightarrow> Task multiset" where
  "hands ts = sum_list (map current ts)"

definition answered :: "(result \<Rightarrow> bool) \<Rightarrow> AgentPool \<Rightarrow> nat" where
  "answered P p = length (filter (P \<circ> snd) (po_answers p))"

fun counted :: "result \<Rightarrow> bool" where
  "counted (Output _) = True"
| "counted (AgentStopped _) = True"
| "counted _ = False"

fun panicked :: "result \<Rightarrow> bool" where
  "panicked (Panicked _ _) = True"
| "panicked _ = False"

lemma sum_list_set:
  fixes f :: "'a \<Rightarrow> 'b :: comm_monoid_add"
  shows "i < length xs \<Longrightarrow> sum_list (map f (xs[i := y])) + f (xs ! i) = sum_list (map f xs) + f y"
  by (induction xs arbitrary: i) (auto simp: ac_simps split: nat.splits elim: less_SucE)

lemma thread_sums:
  assumes "i < length ts" and "ts ! i = a"
  shows "hands (ts[i := b]) + current a = hands ts + current b"
    "sum_list (map ag_tasksExecuted (ts[i := b])) + ag_tasksExecuted a = sum_list (map ag_tasksExecuted ts) + ag_tasksExecuted b"
    "sum_list (map ag_tasksFailed (ts[i := b])) + ag_tasksFailed a = sum_list (map ag_tasksFailed ts) + ag_tasksFailed b"
    "sum_list (map ag_panicCount (ts[i := b])) + ag_panicCount a = sum_list (map ag_panicCount ts) + ag_panicCount b"
  using assms sum_list_set [of i ts _ b] by (simp_all add: hands_def)

text \<open>The parts of the invariant: where the tasks are, what was counted, and which agents there are.\<close>

definition tasks_inv :: "AgentPool \<Rightarrow> bool" where
  "tasks_inv p \<longleftrightarrow>
     mset (po_accepted p) = mset (tq_queue (po_queue p)) + hands (po_threads p) + image_mset fst (mset (po_answers p)) \<and>
     tq_totalEnq (po_queue p) = length (po_accepted p) \<and> length (tq_queue (po_queue p)) \<le> tq_maxSize (po_queue p)"

definition counts_inv :: "AgentPool \<Rightarrow> bool" where
  "counts_inv p \<longleftrightarrow>
     sum_list (map ag_tasksExecuted (po_threads p)) = answered counted p \<and>
     sum_list (map ag_tasksFailed (po_threads p)) = answered (\<lambda>r. \<not> counted r) p \<and>
     sum_list (map ag_panicCount (po_threads p)) = answered panicked p"

definition agents_inv :: "AgentPool \<Rightarrow> bool" where
  "agents_inv p \<longleftrightarrow> distinct (po_agents p) \<and> set (po_agents p) \<subseteq> {0..<length (po_threads p)} \<and>
     pc_MinAgents (po_config p) \<le> int (length (po_agents p)) \<and> int (length (po_agents p)) \<le> pc_MaxAgents (po_config p)"

definition pool_inv :: "AgentPool \<Rightarrow> bool" where
  "pool_inv p \<longleftrightarrow> tasks_inv p \<and> counts_inv p \<and> agents_inv p"

text \<open>Nothing that the invariant speaks of changes.\<close>

lemma inv_frame:
  assumes "po_accepted q = po_accepted p" "po_queue q = po_queue p" "po_answers q = po_answers p" "po_config q = po_config p"
    "po_agents q = po_agents p" "map ag_current (po_threads q) = map ag_current (po_threads p)"
    "map ag_tasksExecuted (po_threads q) = map ag_tasksExecuted (po_threads p)" "map ag_tasksFailed (po_threads q) = map ag_tasksFailed (po_threads p)"
    "map ag_panicCount (po_threads q) = map ag_panicCount (po_threads p)"
  shows "tasks_inv p \<Longrightarrow> tasks_inv q" "counts_inv p \<Longrightarrow> counts_inv q" "agents_inv p \<Longrightarrow> agents_inv q"
proof -
  have "hands ts = sum_list (map (case_option {#} (\<lambda>t. {#t#})) (map ag_current ts))" for ts by (simp add: hands_def comp_def current_def [abs_def])
  then have "hands (po_threads q) = hands (po_threads p)" using assms(6) by metis
  then show "tasks_inv p \<Longrightarrow> tasks_inv q" using assms by (simp add: tasks_inv_def)
  show "counts_inv p \<Longrightarrow> counts_inv q" using assms by (simp add: counts_inv_def answered_def)
  show "agents_inv p \<Longrightarrow> agents_inv q" using assms map_eq_imp_length_eq [OF assms(6)] by (simp add: agents_inv_def)
qed

lemma setState_inv:
  "i < length (po_threads p) \<Longrightarrow> po_threads p ! i = a \<Longrightarrow> tasks_inv p \<Longrightarrow> tasks_inv (setThread i (setState s a) p)"
  "i < length (po_threads p) \<Longrightarrow> po_threads p ! i = a \<Longrightarrow> counts_inv p \<Longrightarrow> counts_inv (setThread i (setState s a) p)"
  "i < length (po_threads p) \<Longrightarrow> po_threads p ! i = a \<Longrightarrow> agents_inv p \<Longrightarrow> agents_inv (setThread i (setState s a) p)"
  by (erule inv_frame [rotated -1]; auto simp: setThread_def setState_def map_update list_update_same_conv)+

lemma setState_pool_inv:
  "i < length (po_threads p) \<Longrightarrow> po_threads p ! i = a \<Longrightarrow> pool_inv p \<Longrightarrow> pool_inv (setThread i (setState s a) p)"
  unfolding pool_inv_def using setState_inv by blast

lemma take_inv:
  assumes "i < length (po_threads p)" "po_threads p ! i = a" "ag_current a = None" "DequeueWait DeqTake (po_queue p) = (Some t, q)"
    and p1: "p1 = setThread i (beginTask now t a) (p\<lparr>po_queue := q\<rparr>)"
  shows "tasks_inv p \<Longrightarrow> tasks_inv p1" "counts_inv p \<Longrightarrow> counts_inv p1" "agents_inv p \<Longrightarrow> agents_inv p1"
proof -
  note sums = thread_sums [OF assms(1,2), of "beginTask now t a"]
  obtain ts where q: "tq_queue (po_queue p) = t # ts" "q = (po_queue p)\<lparr>tq_queue := ts, tq_totalDeq := Suc (tq_totalDeq (po_queue p))\<rparr>"
    using assms(4) by (auto simp: takeHead_def split: list.splits)
  have "current a = {#}" "current (beginTask now t a) = {#t#}" using assms(3) by (simp_all add: current_def beginTask_def)
  then show "tasks_inv p \<Longrightarrow> tasks_inv p1" using sums(1) q by (simp add: tasks_inv_def p1 setThread_def)
  show "counts_inv p \<Longrightarrow> counts_inv p1" using sums(2,3,4) by (simp add: counts_inv_def answered_def p1 setThread_def beginTask_def setState_def)
  show "agents_inv p \<Longrightarrow> agents_inv p1" by (simp add: agents_inv_def p1 setThread_def)
qed

lemma finish_inv:
  assumes "i < length (po_threads p)" "po_threads p ! i = a" "ag_current a = Some t" "finishTask out a = (r, a1)"
    and p1: "p1 = answer t r (setThread i a1 p)"
  shows "tasks_inv p \<Longrightarrow> tasks_inv p1" "counts_inv p \<Longrightarrow> counts_inv p1" "agents_inv p \<Longrightarrow> agents_inv p1"
proof -
  note sums = thread_sums [OF assms(1,2), of a1]
  have "current a = {#t#}" "current a1 = {#}" using assms(3,4) by (cases out; auto simp: current_def)+
  then show "tasks_inv p \<Longrightarrow> tasks_inv p1" using sums(1) by (simp add: tasks_inv_def p1 setThread_def answer_def)
  show "counts_inv p \<Longrightarrow> counts_inv p1"
    using sums(2,3,4) assms(4) by (cases out) (auto simp: counts_inv_def answered_def p1 setThread_def answer_def)
  show "agents_inv p \<Longrightarrow> agents_inv p1" by (simp add: agents_inv_def p1 setThread_def answer_def)
qed

lemma drain_inv:
  assumes "i < length (po_threads p)" "po_threads p ! i = a" "tq_queue (po_queue p) = t # ts" "drainOne a = (r, a1)"
    and p1: "p1 = answer t r (setThread i a1 (p\<lparr>po_queue := (po_queue p)\<lparr>tq_queue := ts\<rparr>\<rparr>))"
  shows "tasks_inv p \<Longrightarrow> tasks_inv p1" "counts_inv p \<Longrightarrow> counts_inv p1" "agents_inv p \<Longrightarrow> agents_inv p1"
proof -
  note sums = thread_sums [OF assms(1,2), of a1]
  have "current a1 = current a" using assms(4) by (auto simp: current_def drainOne_def)
  then show "tasks_inv p \<Longrightarrow> tasks_inv p1" using sums(1) assms(3) by (simp add: tasks_inv_def p1 setThread_def answer_def)
  show "counts_inv p \<Longrightarrow> counts_inv p1"
    using sums(2,3,4) assms(4) by (auto simp: counts_inv_def answered_def p1 setThread_def answer_def drainOne_def)
  show "agents_inv p \<Longrightarrow> agents_inv p1" by (simp add: agents_inv_def p1 setThread_def answer_def)
qed

lemma queued_inv:
  assumes "(b, q) = (True, putTask now t (po_queue p)) \<and> length (tq_queue (po_queue p)) < tq_maxSize (po_queue p) \<or>
      \<not> b \<and> tq_queue q = tq_queue (po_queue p) \<and> tq_maxSize q = tq_maxSize (po_queue p) \<and> tq_totalEnq q = tq_totalEnq (po_queue p)"
    and p1: "p1 = snd (queued now t (b, q) (submitted p))"
  shows "tasks_inv p \<Longrightarrow> tasks_inv p1" "counts_inv p \<Longrightarrow> counts_inv p1" "agents_inv p \<Longrightarrow> agents_inv p1"
  using assms by (auto simp: tasks_inv_def counts_inv_def agents_inv_def answered_def queued_def submitted_def putTask_def)

lemma spawn_frame [simp]:
  "po_config (spawnAgentLocked now p) = po_config p" "po_agents (spawnAgentLocked now p) = po_agents p @ [length (po_threads p)]"
  "length (po_threads (spawnAgentLocked now p)) = Suc (length (po_threads p))"
  by (simp_all add: spawnAgentLocked_def Let_def)

lemma spawn_inv:
  assumes p1: "p1 = spawnAgentLocked now p"
  shows "tasks_inv p \<Longrightarrow> tasks_inv p1" "counts_inv p \<Longrightarrow> counts_inv p1"
    "agents_inv p \<Longrightarrow> int (length (po_agents p)) < pc_MaxAgents (po_config p) \<Longrightarrow> agents_inv p1"
  using assms by (auto simp: tasks_inv_def counts_inv_def agents_inv_def answered_def spawnAgentLocked_def Let_def NewAgent_def hands_def current_def
      subset_iff less_Suc_eq)

lemma oldestIdle_Some:
  "oldestIdle ts is best = Some i \<Longrightarrow> (\<And>j. best = Some j \<Longrightarrow> ag_state (ts ! j) = StateIdle) \<Longrightarrow>
    (i \<in> set is \<or> best = Some i) \<and> ag_state (ts ! i) = StateIdle"
  by (induction ts "is" best rule: oldestIdle.induct) (fastforce split: if_splits option.splits)+

lemma scaleUp_inv:
  "tasks_inv p \<Longrightarrow> tasks_inv (scaleUp now p)" "counts_inv p \<Longrightarrow> counts_inv (scaleUp now p)" "agents_inv p \<Longrightarrow> agents_inv (scaleUp now p)"
proof -
  let ?q = "spawnAgentLocked now p"
  let ?r = "?q\<lparr>po_lastScaleTime := now, po_metrics := counterInc ''agent.scale_up_total'' (po_metrics p)\<rparr>"
  have fr: "tasks_inv ?q \<Longrightarrow> tasks_inv ?r" "counts_inv ?q \<Longrightarrow> counts_inv ?r" "agents_inv ?q \<Longrightarrow> agents_inv ?r"
    by (rule inv_frame; simp)+
  show "tasks_inv p \<Longrightarrow> tasks_inv (scaleUp now p)" "counts_inv p \<Longrightarrow> counts_inv (scaleUp now p)" "agents_inv p \<Longrightarrow> agents_inv (scaleUp now p)"
    using fr spawn_inv [OF refl, of p now] by (auto simp: scaleUp_def)
qed

lemma scaleDown_inv:
  assumes "agents_inv p"
  shows "tasks_inv p \<Longrightarrow> tasks_inv (scaleDown now p)" "counts_inv p \<Longrightarrow> counts_inv (scaleDown now p)" "agents_inv (scaleDown now p)"
proof -
  consider "scaleDown now p = p"
    | i where "i \<in> set (po_agents p)" "int (length (po_agents p)) > pc_MinAgents (po_config p)"
      "scaleDown now p = p\<lparr>po_threads := (po_threads p)[i := StopAsync (po_threads p ! i)], po_agents := removeAll i (po_agents p),
                    po_lastScaleTime := now, po_metrics := counterInc ''agent.scale_down_total'' (po_metrics p)\<rparr>"
    using oldestIdle_Some [of "po_threads p" "po_agents p" None] by (fastforce simp: scaleDown_def split: option.splits if_splits)
  then have "(tasks_inv p \<longrightarrow> tasks_inv (scaleDown now p)) \<and> (counts_inv p \<longrightarrow> counts_inv (scaleDown now p)) \<and> agents_inv (scaleDown now p)"
  proof cases
    case 1
    then show ?thesis using assms by simp
  next
    case 2
    let ?q = "p\<lparr>po_threads := (po_threads p)[i := StopAsync (po_threads p ! i)]\<rparr>"
    have i: "i < length (po_threads p)" using 2(1) assms by (auto simp: agents_inv_def)
    have len: "length (removeAll i (po_agents p)) = length (po_agents p) - 1"
      using 2(1) assms by (simp add: agents_inv_def distinct_remove1_removeAll [symmetric] length_remove1)
    note sums = thread_sums [OF i refl, of "StopAsync (po_threads p ! i)"]
    show ?thesis using sums 2(1,2) len assms unfolding 2(3)
      by (auto simp: tasks_inv_def counts_inv_def agents_inv_def answered_def StopAsync_def current_def length_pos_if_in_set distinct_removeAll)
  qed
  then show "tasks_inv p \<Longrightarrow> tasks_inv (scaleDown now p)" "counts_inv p \<Longrightarrow> counts_inv (scaleDown now p)" "agents_inv (scaleDown now p)"
    by blast+
qed

lemma pool_inv_frame:
  assumes "po_accepted q = po_accepted p" "po_queue q = po_queue p" "po_answers q = po_answers p" "po_config q = po_config p"
    "po_agents q = po_agents p" "po_threads q = po_threads p"
  shows "pool_inv p \<Longrightarrow> pool_inv q"
  using inv_frame [of q p] assms by (simp add: pool_inv_def)

lemma checkHealth_inv: "pool_inv p \<Longrightarrow> pool_inv (checkHealth now p)"
proof -
  let ?q = "p\<lparr>po_metrics := gaugeSet ''agent.queue_depth'' (word_of_nat (Len (po_queue p)))
       (gaugeSet ''agent.active_count'' (word_of_nat (length (po_agents p))) (po_metrics p))\<rparr>"
  assume "pool_inv p"
  then have "pool_inv ?q" by (rule pool_inv_frame [rotated -1]) simp_all
  then have "pool_inv (scaleUp now ?q)" using scaleUp_inv [of ?q now] by (simp add: pool_inv_def)
  then show ?thesis using scaleDown_inv [of "scaleUp now ?q" now] by (simp add: pool_inv_def checkHealth_def)
qed

lemma StopPool_inv: "pool_inv p \<Longrightarrow> pool_inv (StopPool p)"
proof -
  let ?ts = "map (\<lambda>(i, a). if i \<in> set (po_agents p) then StopAsync a else a) (enumerate 0 (po_threads p))"
  have same: "map f ?ts = map f (po_threads p)" if "\<And>a. f (StopAsync a) = f a" for f :: "Agent \<Rightarrow> 'b"
    by (rule nth_equalityI) (auto simp: nth_enumerate_eq that)
  have "map current ?ts = map current (po_threads p)" "map ag_tasksExecuted ?ts = map ag_tasksExecuted (po_threads p)"
    "map ag_tasksFailed ?ts = map ag_tasksFailed (po_threads p)" "map ag_panicCount ?ts = map ag_panicCount (po_threads p)"
    by (rule same; simp add: StopAsync_def current_def)+
  then show "pool_inv p \<Longrightarrow> pool_inv (StopPool p)"
    unfolding pool_inv_def tasks_inv_def counts_inv_def agents_inv_def hands_def answered_def StopPool_def StopQueue_def by simp
qed

lemma Submit_inv: "pool_inv p \<Longrightarrow> pool_inv (snd (Submit now task p))"
proof (cases task)
  case (Some t)
  obtain b q where e: "Enqueue now t (po_queue p) = (b, q)" by fastforce
  assume "pool_inv p"
  then show ?thesis using queued_inv [of b q now t p, OF _ refl] e Some by (auto simp: Submit_def Enqueue_def pool_inv_def split: if_splits)
qed (simp add: Submit_def)

lemma SubmitWait_inv: "c \<in> set (enqueueReady dn (po_queue p)) \<Longrightarrow> pool_inv p \<Longrightarrow> pool_inv (snd (SubmitWait now c task p))"
proof (cases task)
  case (Some t)
  obtain b q where e: "EnqueueWait now t c (po_queue p) = (b, q)" by fastforce
  assume "pool_inv p" "c \<in> set (enqueueReady dn (po_queue p))"
  then show ?thesis using queued_inv [of b q now t p, OF _ refl] e Some
    by (cases c) (auto simp: SubmitWait_def enqueueReady_def pool_inv_def split: if_splits)
qed (simp add: SubmitWait_def)

lemma answerCaller_inv: "pool_inv p \<Longrightarrow> pool_inv (snd (answerCaller c p))"
  by (rule pool_inv_frame [rotated -1]; cases "(c, p)" rule: answerCaller.cases) simp_all

lemma pool_step_inv [keep_inv]: "pool_step p q \<Longrightarrow> pool_inv p \<Longrightarrow> pool_inv q"
proof (induction rule: pool_step.induct)
  case (ps_take i p a t q now)
  then show ?case using take_inv [OF ps_take(1,2,4,5) refl] by (simp add: pool_inv_def)
next
  case (ps_finish i p a t out r a1)
  then show ?case using finish_inv [OF ps_finish(1-4) refl] by (simp add: pool_inv_def)
next
  case (ps_drain_one i p a t ts r a1)
  then show ?case using drain_inv [OF ps_drain_one(1,2,4,5) refl] by (simp add: pool_inv_def)
qed (simp_all add: Submit_inv SubmitWait_inv answerCaller_inv checkHealth_inv StopPool_inv setState_pool_inv)

lemma start_inv: "pool_inv (StartPool now (NewPool now c))"
proof -
  let ?p = "NewPool now c"
  let ?mn = "pc_MinAgents (po_config ?p)"
  have cfg: "0 < ?mn" "?mn \<le> pc_MaxAgents (po_config ?p)" by (simp_all add: NewPool_def fixConfig_def Let_def)
  have spawned: "tasks_inv ((spawnAgentLocked now ^^ k) ?p) \<and> counts_inv ((spawnAgentLocked now ^^ k) ?p) \<and>
      po_config ((spawnAgentLocked now ^^ k) ?p) = po_config ?p \<and> po_agents ((spawnAgentLocked now ^^ k) ?p) = [0..<k] \<and>
      length (po_threads ((spawnAgentLocked now ^^ k) ?p)) = k" for k
  proof (induction k)
    case 0
    show ?case by (simp add: NewPool_def tasks_inv_def counts_inv_def answered_def hands_def NewTaskQueue_def)
  next
    case (Suc k)
    then show ?case using spawn_inv(1,2) [OF refl, of "(spawnAgentLocked now ^^ k) ?p" now] by simp
  qed
  show ?thesis using spawned [of "nat ?mn"] cfg by (simp add: pool_inv_def agents_inv_def StartPool_def)
qed

lemma runs_inv: "pool_runs p q \<Longrightarrow> pool_inv p \<Longrightarrow> pool_inv q"
  by (induction rule: pool_runs.induct) (auto intro: pool_step_inv)

text \<open>C21: No task of a running pool is lost or answered twice: the tasks the queue accepted are those still in the queue, those in the hands of an
  agent, and those answered, each exactly once; the queue never holds more than its capacity.  The agents count what they answered: as
  executed the tasks with an output and those turned away when an agent stopped, as failed the others, with the panics among them.
  The pool never has fewer agents than its minimum or more than its maximum.\<close>

theorem pool_conserves:
  assumes "pool_runs (StartPool now (NewPool now c)) p"
  shows "mset (po_accepted p) = mset (tq_queue (po_queue p)) + hands (po_threads p) + image_mset fst (mset (po_answers p)) \<and>
    length (tq_queue (po_queue p)) \<le> tq_maxSize (po_queue p) \<and>
    sum_list (map ag_tasksExecuted (po_threads p)) = answered counted p \<and>
    sum_list (map ag_tasksFailed (po_threads p)) = answered (\<lambda>r. \<not> counted r) p \<and>
    sum_list (map ag_panicCount (po_threads p)) = answered panicked p \<and>
    pc_MinAgents (po_config p) \<le> int (length (po_agents p)) \<and> int (length (po_agents p)) \<le> pc_MaxAgents (po_config p)"
  using runs_inv [OF assms start_inv] by (simp add: pool_inv_def tasks_inv_def counts_inv_def agents_inv_def)

theorem pool_conserves_witness:
  "let p = setThread 0 (setState StateRunning (po_threads (StartPool 7 (NewPool 7 DefaultPoolConfig)) ! 0)) (StartPool 7 (NewPool 7 DefaultPoolConfig));
       t = \<lparr>tk_ID = ''t'', tk_Body = [], tk_Created = 0\<rparr>; q = snd (Submit 8 (Some t) p)
   in mset (po_accepted q) = mset (tq_queue (po_queue q)) + hands (po_threads q) + image_mset fst (mset (po_answers q))"
proof -
  define p0 where "p0 = StartPool 7 (NewPool 7 DefaultPoolConfig)"
  have two: "nat (pc_MinAgents (po_config (NewPool 7 DefaultPoolConfig))) = Suc (Suc 0)"
    by (simp add: NewPool_def fixConfig_def DefaultPoolConfig_def Let_def)
  have th: "0 < length (po_threads p0)" "ag_state (po_threads p0 ! 0) = StateIdle"
    unfolding p0_def StartPool_def two by (simp_all add: spawnAgentLocked_def Let_def NewPool_def NewAgent_def)
  have "pool_runs p0 (snd (Submit 8 (Some t) (setThread 0 (setState StateRunning (po_threads p0 ! 0)) p0)))" for t
    by (rule pr_step [OF pr_step [OF pr_refl ps_begin [OF th(1) refl th(2)]] ps_submit])
  from pool_conserves [OF this [unfolded p0_def]] show ?thesis by (simp add: Let_def)
qed

text \<open>An agent whose goroutine has started is never idle again, and only idle agents are retired.\<close>

definition begun :: "nat \<Rightarrow> AgentPool \<Rightarrow> bool" where
  "begun i p \<longleftrightarrow> i < length (po_threads p) \<and> ag_state (po_threads p ! i) \<noteq> StateIdle"

lemma scale_begun:
  "begun i p \<Longrightarrow> i \<in> set (po_agents p) \<Longrightarrow> begun i (scaleUp now p) \<and> i \<in> set (po_agents (scaleUp now p))"
  "begun i p \<Longrightarrow> i \<in> set (po_agents p) \<Longrightarrow> begun i (scaleDown now p) \<and> i \<in> set (po_agents (scaleDown now p))"
proof -
  show "begun i p \<Longrightarrow> i \<in> set (po_agents p) \<Longrightarrow> begun i (scaleUp now p) \<and> i \<in> set (po_agents (scaleUp now p))"
    by (auto simp: scaleUp_def spawnAgentLocked_def Let_def begun_def nth_append)
  show "begun i p \<Longrightarrow> i \<in> set (po_agents p) \<Longrightarrow> begun i (scaleDown now p) \<and> i \<in> set (po_agents (scaleDown now p))"
    using oldestIdle_Some [of "po_threads p" "po_agents p" None]
    by (auto simp: scaleDown_def begun_def StopAsync_def split: option.splits if_splits) (metis nth_list_update_neq)
qed

lemma step_begun: "pool_step p q \<Longrightarrow> begun i p \<Longrightarrow> i \<in> set (po_agents p) \<Longrightarrow> begun i q \<and> i \<in> set (po_agents q)"
proof (induction rule: pool_step.induct)
  case (ps_health p now)
  let ?q = "p\<lparr>po_metrics := gaugeSet ''agent.queue_depth'' (word_of_nat (Len (po_queue p)))
       (gaugeSet ''agent.active_count'' (word_of_nat (length (po_agents p))) (po_metrics p))\<rparr>"
  have "begun i ?q \<and> i \<in> set (po_agents ?q)" using ps_health by (simp add: begun_def)
  then show ?case using scale_begun unfolding checkHealth_def by blast
next
  case (ps_caller p c)
  then show ?case by (cases "(c, p)" rule: answerCaller.cases) (simp_all add: begun_def)
next
  case (ps_finish j p a t out r a1)
  then show ?case by (cases out) (auto simp: begun_def setThread_def answer_def nth_list_update)
qed (auto simp: begun_def setThread_def setState_def beginTask_def answer_def drainOne_def StopPool_def StopAsync_def nth_enumerate_eq nth_list_update
  Submit_def SubmitWait_def queued_def submitted_def split: option.splits)

text \<open>The pool never retires an agent that has started: whatever happens afterwards, however long it has nothing to do, it stays in the pool.\<close>

lemma agents_never_retire:
  assumes "pool_runs p q" and "begun i p" and "i \<in> set (po_agents p)"
  shows "begun i q \<and> i \<in> set (po_agents q)"
  using assms by (induction rule: pool_runs.induct) (auto dest: step_begun)

end
