(* ===== verification/Cluster_Members.thy ===== *)
theory Cluster_Members
  imports Prelude "HOL-Library.List_Lexorder" "HOL-Library.Char_ord" "HOL-Library.Multiset"
begin

text \<open>
  The nodes of the cluster, of \<^verbatim>\<open>server/internal/membership/membership.go\<close> and \<^verbatim>\<open>lease.go\<close>.  The lease callback is a
  flag, and an operation that may call it returns the list of the leaders it calls it with.  The ticker loops are
  given by what one tick does.
\<close>

subsection \<open>Operations\<close>

record NodeInfo =
  ni_ID :: string
  ni_Address :: string
  ni_IsAlive :: bool
  ni_LastSeen :: gotime

record Membership =
  mb_nodes :: "(string, NodeInfo) gomap"
  mb_heartbeatTimeout :: duration
  mb_leaderLease :: duration
  mb_leaseCallback :: bool

definition NewMembership :: Membership where
  "NewMembership = \<lparr>mb_nodes = [], mb_heartbeatTimeout = 10 * 10 ^ 9, mb_leaderLease = 8 * 10 ^ 9, mb_leaseCallback = False\<rparr>"

definition SetLeaderLease :: "duration \<Rightarrow> Membership \<Rightarrow> Membership" where
  "SetLeaderLease d m = m\<lparr>mb_leaderLease := d\<rparr>"

text \<open>The second operation is the function \<^verbatim>\<open>OnLeaseExpiry\<close> returns.\<close>

definition OnLeaseExpiry :: "Membership \<Rightarrow> Membership" where
  "OnLeaseExpiry m = m\<lparr>mb_leaseCallback := True\<rparr>"

definition cancelLeaseExpiry :: "Membership \<Rightarrow> Membership" where
  "cancelLeaseExpiry m = m\<lparr>mb_leaseCallback := False\<rparr>"

definition setNode :: "string \<Rightarrow> NodeInfo \<Rightarrow> Membership \<Rightarrow> Membership" where
  "setNode k n m = m\<lparr>mb_nodes := AList.update k n (mb_nodes m)\<rparr>"

definition Add :: "gotime \<Rightarrow> string \<Rightarrow> string \<Rightarrow> Membership \<Rightarrow> Membership" where
  "Add now k address = setNode k \<lparr>ni_ID = k, ni_Address = address, ni_IsAlive = True, ni_LastSeen = now\<rparr>"

definition Remove :: "string \<Rightarrow> Membership \<Rightarrow> Membership" where
  "Remove k m = m\<lparr>mb_nodes := AList.delete k (mb_nodes m)\<rparr>"

definition MarkDead :: "string \<Rightarrow> Membership \<Rightarrow> Membership" where
  "MarkDead k m = (case map_of (mb_nodes m) k of None \<Rightarrow> m | Some n \<Rightarrow> setNode k (n\<lparr>ni_IsAlive := False\<rparr>) m)"

definition MarkAlive :: "gotime \<Rightarrow> string \<Rightarrow> Membership \<Rightarrow> Membership" where
  "MarkAlive now k m =
     (case map_of (mb_nodes m) k of None \<Rightarrow> m | Some n \<Rightarrow> setNode k (n\<lparr>ni_IsAlive := True, ni_LastSeen := now\<rparr>) m)"

definition Heartbeat :: "gotime \<Rightarrow> string \<Rightarrow> string \<Rightarrow> Membership \<Rightarrow> Membership" where
  "Heartbeat now k address m =
     (case map_of (mb_nodes m) k of
        Some n \<Rightarrow> setNode k (n\<lparr>ni_IsAlive := True, ni_LastSeen := now,
                               ni_Address := (if address \<noteq> [] then address else ni_Address n)\<rparr>) m
      | None \<Rightarrow> setNode k \<lparr>ni_ID = k, ni_Address = address, ni_IsAlive = True, ni_LastSeen = now\<rparr> m)"

definition AliveCount :: "Membership \<Rightarrow> nat" where
  "AliveCount m = length (filter (ni_IsAlive \<circ> snd) (mb_nodes m))"

definition AliveNodes :: "Membership \<Rightarrow> string list" where
  "AliveNodes m = sort (map (ni_ID \<circ> snd) (filter (ni_IsAlive \<circ> snd) (mb_nodes m)))"

definition LeaderID :: "Membership \<Rightarrow> string" where
  "LeaderID m = (case AliveNodes m of [] \<Rightarrow> [] | n # _ \<Rightarrow> n)"

definition leaderIDLocked :: "Membership \<Rightarrow> string" where
  "leaderIDLocked m =
     foldl (\<lambda>leader (k, n). if ni_IsAlive n \<and> (leader = [] \<or> k < leader) then k else leader) [] (mb_nodes m)"

definition Snapshot :: "Membership \<Rightarrow> NodeInfo list" where
  "Snapshot m = map snd (mb_nodes m)"

definition Lookup :: "string \<Rightarrow> Membership \<Rightarrow> NodeInfo option" where
  "Lookup k m = map_of (mb_nodes m) k"

definition LeaderLastSeen :: "Membership \<Rightarrow> gotime option" where
  "LeaderLastSeen m =
     (let leader = leaderIDLocked m
      in if leader = [] then None else map_option ni_LastSeen (map_of (mb_nodes m) leader))"

definition timedOut :: "gotime \<Rightarrow> Membership \<Rightarrow> NodeInfo \<Rightarrow> bool" where
  "timedOut now m n \<longleftrightarrow> ni_IsAlive n \<and> now - ni_LastSeen n > mb_heartbeatTimeout m"

definition evictStale :: "gotime \<Rightarrow> Membership \<Rightarrow> Membership \<times> string list" where
  "evictStale now m =
     (let leaderBefore = leaderIDLocked m;
          expiredLeader = (if \<exists>(k, n) \<in> set (mb_nodes m). k = leaderBefore \<and> timedOut now m n then leaderBefore else []);
          nodes = map (\<lambda>(k, n). (k, if timedOut now m n then n\<lparr>ni_IsAlive := False\<rparr> else n)) (mb_nodes m)
      in (m\<lparr>mb_nodes := nodes\<rparr>, if expiredLeader \<noteq> [] \<and> mb_leaseCallback m then [expiredLeader] else []))"

text \<open>One tick of the lease checker; it keeps the leader it has called the callback with last.\<close>

definition leaseTick :: "gotime \<Rightarrow> string \<times> Membership \<Rightarrow> (string \<times> Membership) \<times> string list" where
  "leaseTick now = (\<lambda>(lastNotified, m).
     let leader = leaderIDLocked m
     in if leader = [] then (([], m), [])
        else case map_of (mb_nodes m) leader of
               None \<Rightarrow> (([], m), [])
             | Some n \<Rightarrow>
                 if \<not> ni_IsAlive n then (([], m), [])
                 else if now - ni_LastSeen n > mb_leaderLease m then
                   let m1 = setNode leader (n\<lparr>ni_IsAlive := False\<rparr>) m
                   in if mb_leaseCallback m1 \<and> lastNotified \<noteq> leader then ((leader, m1), [leader]) else ((lastNotified, m1), [])
                 else (([], m), []))"

text \<open>A discovery message of another node is a heartbeat of it; the decoder's answer is the argument.\<close>

definition handleNodeDiscoveryMessage :: "string \<Rightarrow> gotime \<Rightarrow> (string \<times> string) option \<Rightarrow> Membership \<Rightarrow> Membership" where
  "handleNodeDiscoveryMessage self now decoded m =
     (case decoded of None \<Rightarrow> m | Some (nodeID, address) \<Rightarrow> if nodeID = self then m else Heartbeat now nodeID address m)"

subsection \<open>The invariant\<close>

text \<open>Every node is stored under its own id, once.\<close>

definition members_ok :: "Membership \<Rightarrow> bool" where
  "members_ok m \<longleftrightarrow> distinct (map fst (mb_nodes m)) \<and> (\<forall>(k, n) \<in> set (mb_nodes m). ni_ID n = k)"

datatype member_event =
    EvAdd gotime string string
  | EvRemove string
  | EvMarkDead string
  | EvMarkAlive gotime string
  | EvHeartbeat gotime string string
  | EvSetLeaderLease duration
  | EvOnLeaseExpiry
  | EvCancelLeaseExpiry
  | EvEvict gotime
  | EvLeaseTick gotime string

fun memberStep :: "Membership \<Rightarrow> member_event \<Rightarrow> Membership" where
  "memberStep m (EvAdd now k a) = Add now k a m"
| "memberStep m (EvRemove k) = Remove k m"
| "memberStep m (EvMarkDead k) = MarkDead k m"
| "memberStep m (EvMarkAlive now k) = MarkAlive now k m"
| "memberStep m (EvHeartbeat now k a) = Heartbeat now k a m"
| "memberStep m (EvSetLeaderLease d) = SetLeaderLease d m"
| "memberStep m EvOnLeaseExpiry = OnLeaseExpiry m"
| "memberStep m EvCancelLeaseExpiry = cancelLeaseExpiry m"
| "memberStep m (EvEvict now) = fst (evictStale now m)"
| "memberStep m (EvLeaseTick now l) = snd (fst (leaseTick now (l, m)))"

lemma members_ok_set: "members_ok m \<Longrightarrow> ni_ID n = k \<Longrightarrow> members_ok (setNode k n m)"
  using set_update_sub [of k n "mb_nodes m"] by (auto simp: members_ok_def setNode_def distinct_update)

lemma members_ok_lookup: "members_ok m \<Longrightarrow> map_of (mb_nodes m) k = Some n \<Longrightarrow> ni_ID n = k"
  by (auto simp: members_ok_def dest: map_of_SomeD)

lemma members_ok_map:
  assumes "members_ok m" and "\<And>n. ni_ID (f n) = ni_ID n"
  shows "members_ok (m\<lparr>mb_nodes := map (\<lambda>(k, n). (k, f n)) (mb_nodes m)\<rparr>)"
proof -
  have "map fst (map (\<lambda>(k, n). (k, f n)) (mb_nodes m)) = map fst (mb_nodes m)" by (simp add: comp_def case_prod_unfold)
  with assms show ?thesis unfolding members_ok_def by (auto simp del: map_map)
qed

lemma members_ok_settings [simp]:
  "members_ok (m\<lparr>mb_leaderLease := d\<rparr>) = members_ok m" "members_ok (m\<lparr>mb_leaseCallback := b\<rparr>) = members_ok m"
  by (simp_all add: members_ok_def)

interpretation members: machine memberStep members_ok
proof
  fix m e
  assume ok: "members_ok m"
  show "members_ok (memberStep m e)"
  proof (cases e)
    case (EvRemove k)
    with ok set_delete_sub [of k "mb_nodes m"] show ?thesis by (auto simp: Remove_def members_ok_def distinct_delete)
  next
    case (EvEvict now)
    with members_ok_map [OF ok, of "\<lambda>n. if timedOut now m n then n\<lparr>ni_IsAlive := False\<rparr> else n"] show ?thesis
      by (simp add: evictStale_def Let_def)
  qed (use ok in \<open>auto simp: Add_def MarkDead_def MarkAlive_def Heartbeat_def SetLeaderLease_def OnLeaseExpiry_def
      cancelLeaseExpiry_def leaseTick_def Let_def members_ok_lookup intro!: members_ok_set split: option.splits if_splits\<close>)
qed

subsection \<open>The leader\<close>

definition alive_ids :: "Membership \<Rightarrow> string list" where
  "alive_ids m = map fst (filter (ni_IsAlive \<circ> snd) (mb_nodes m))"

lemma AliveNodes_ids: "members_ok m \<Longrightarrow> AliveNodes m = sort (alive_ids m)"
  unfolding AliveNodes_def alive_ids_def by (intro arg_cong [of _ _ sort]) (auto simp: members_ok_def)

lemma leader_fold:
  "foldl (\<lambda>leader (k, n). if ni_IsAlive n \<and> (leader = [] \<or> k < leader) then k else leader) l ns =
     foldl (\<lambda>leader k. if leader = [] \<or> k < leader then k else leader) l (map fst (filter (ni_IsAlive \<circ> snd) ns))"
  for l :: string
  by (induction ns arbitrary: l) auto

lemma fold_least:
  "l \<noteq> [] \<Longrightarrow> [] \<notin> set ids \<Longrightarrow>
    foldl (\<lambda>leader k. if leader = [] \<or> k < leader then k else leader) l ids = fold min ids (l :: string)"
proof (induction ids arbitrary: l)
  case (Cons k ids)
  have "(if k < l then k else l) = min k l" by (simp add: min_def order_le_less)
  with Cons show ?case by (simp split: if_splits)
qed simp

lemma leader_Min:
  assumes "[] \<notin> fst ` set (mb_nodes m)"
  shows "leaderIDLocked m = (if alive_ids m = [] then [] else Min (set (alive_ids m)))"
proof -
  have "leaderIDLocked m = foldl (\<lambda>leader k. if leader = [] \<or> k < leader then k else leader) [] (alive_ids m)"
    by (simp add: leaderIDLocked_def alive_ids_def leader_fold)
  moreover have "[] \<notin> set (alive_ids m)" using assms by (auto simp: alive_ids_def)
  ultimately show ?thesis
    using Min.set_eq_fold [of "hd (alive_ids m)" "tl (alive_ids m)"] by (cases "alive_ids m") (auto intro: fold_least)
qed

lemma sort_head_Min: "xs \<noteq> [] \<Longrightarrow> \<exists>ys. sort xs = Min (set xs) # ys"
proof -
  assume "xs \<noteq> []"
  then obtain y ys where s: "sort xs = y # ys" by (cases "sort xs") (auto dest: arg_cong [of _ _ length])
  have "sorted (y # ys)" "set (y # ys) = set xs" using sorted_sort [of xs] set_sort [of "\<lambda>x. x" xs] by (simp_all add: s)
  then have "Min (set xs) = y" by (intro Min_eqI) auto
  with s show ?thesis by simp
qed

lemma LeaderID_Min: "members_ok m \<Longrightarrow> LeaderID m = (if alive_ids m = [] then [] else Min (set (alive_ids m)))"
  using sort_head_Min [of "alive_ids m"] by (auto simp: LeaderID_def AliveNodes_ids)

lemma leader_ids: "members_ok m \<Longrightarrow> [] \<notin> fst ` set (mb_nodes m) \<Longrightarrow> leaderIDLocked m = LeaderID m"
  by (simp add: leader_Min LeaderID_Min)

lemma members_ok_New: "members_ok NewMembership"
  by (simp add: members_ok_def NewMembership_def)

lemma node_stored: "members_ok m \<Longrightarrow> map_of (mb_nodes m) k = Some n \<longleftrightarrow> (k, n) \<in> set (mb_nodes m)"
  by (simp add: members_ok_def map_of_eq_Some_iff)

lemma alive_ids_iff: "members_ok m \<Longrightarrow> k \<in> set (alive_ids m) \<longleftrightarrow> (\<exists>n. map_of (mb_nodes m) k = Some n \<and> ni_IsAlive n)"
  by (auto simp: alive_ids_def image_iff node_stored)

lemma alive_ids_sub: "set (alive_ids m) \<subseteq> fst ` set (mb_nodes m)"
  by (auto simp: alive_ids_def)

lemma evict_alive:
  assumes "evictStale now m = (m', notified)"
  shows "alive_ids m' = map fst (filter (\<lambda>(k, n). ni_IsAlive n \<and> \<not> timedOut now m n) (mb_nodes m))"
proof -
  have "m' = m\<lparr>mb_nodes := map (\<lambda>(k, n). (k, if timedOut now m n then n\<lparr>ni_IsAlive := False\<rparr> else n)) (mb_nodes m)\<rparr>"
    using assms by (simp add: evictStale_def Let_def split: prod.splits)
  moreover have "map fst (filter (ni_IsAlive \<circ> snd) (map (\<lambda>(k, n). (k, if timedOut now m n then n\<lparr>ni_IsAlive := False\<rparr> else n)) ns)) =
      map fst (filter (\<lambda>(k, n). ni_IsAlive n \<and> \<not> timedOut now m n) ns)" for ns :: "(string, NodeInfo) gomap"
    by (induction ns) (auto split: if_splits)
  ultimately show ?thesis by (simp add: alive_ids_def)
qed

subsection \<open>Properties\<close>

text \<open>
  C30: The two ways to find the leader agree: in every membership that operations produce from a new one, if no node
  has the empty id, the loop over the node map finds in every iteration order the first of the sorted alive nodes,
  the smallest id of a node that is alive, and the empty id when no node is.
\<close>

theorem leader_agrees:
  assumes "m = foldl memberStep NewMembership es" and "[] \<notin> fst ` set (mb_nodes m)" and "mset ns = mset (mb_nodes m)"
  shows "leaderIDLocked (m\<lparr>mb_nodes := ns\<rparr>) = LeaderID m \<and> (LeaderID m = [] \<longleftrightarrow> AliveCount m = 0) \<and>
    (AliveCount m \<noteq> 0 \<longrightarrow> (\<exists>n. Lookup (LeaderID m) m = Some n \<and> ni_IsAlive n)) \<and>
    (\<forall>k n. Lookup k m = Some n \<and> ni_IsAlive n \<longrightarrow> LeaderID m \<le> k)"
proof -
  have ok: "members_ok m" unfolding assms(1) by (rule members.run_inv [OF members_ok_New])
  have set_ns: "set ns = set (mb_nodes m)" using assms(3) by (rule mset_eq_setD)
  have "leaderIDLocked (m\<lparr>mb_nodes := ns\<rparr>) = leaderIDLocked m"
    using assms(2) set_ns by (simp add: leader_Min alive_ids_def filter_empty_conv)
  then have "leaderIDLocked (m\<lparr>mb_nodes := ns\<rparr>) = LeaderID m" using leader_ids [OF ok assms(2)] by simp
  moreover have "AliveCount m = length (alive_ids m)" by (simp add: AliveCount_def alive_ids_def)
  moreover have mem: "LeaderID m \<in> set (alive_ids m) \<and> LeaderID m \<noteq> []" if "alive_ids m \<noteq> []"
  proof -
    have "LeaderID m \<in> set (alive_ids m)" using that Min_in [of "set (alive_ids m)"] by (simp add: LeaderID_Min [OF ok])
    then show ?thesis using subsetD [OF alive_ids_sub [of m]] assms(2) by metis
  qed
  moreover have "LeaderID m = []" if "alive_ids m = []" using that by (simp add: LeaderID_Min [OF ok])
  moreover have "LeaderID m \<le> k" if "k \<in> set (alive_ids m)" for k using that by (auto simp: LeaderID_Min [OF ok])
  ultimately show ?thesis using alive_ids_iff [OF ok] unfolding Lookup_def by (metis length_0_conv)
qed

theorem leader_agrees_witness:
  "leaderIDLocked (foldl memberStep NewMembership [EvHeartbeat 1 ''b'' [], EvAdd 2 ''a'' [], EvMarkDead ''a'']) = ''b''"
  using leader_agrees [OF refl, of "[EvHeartbeat 1 ''b'' [], EvAdd 2 ''a'' [], EvMarkDead ''a'']"
      "mb_nodes (foldl memberStep NewMembership [EvHeartbeat 1 ''b'' [], EvAdd 2 ''a'' [], EvMarkDead ''a''])"]
  by (simp add: Heartbeat_def Add_def MarkDead_def setNode_def NewMembership_def LeaderID_def AliveNodes_def)

text \<open>
  Eviction leaves alive exactly the alive nodes that were seen within the heartbeat timeout, and calls the
  lease callback, if there is one, exactly when the leader is among the nodes it gives up, with that leader.
\<close>

lemma evictStale_result:
  assumes "m = foldl memberStep NewMembership es" and "[] \<notin> fst ` set (mb_nodes m)" and "evictStale now m = (m', notified)"
  shows "(\<forall>k. k \<in> set (AliveNodes m') \<longleftrightarrow>
      k \<in> set (AliveNodes m) \<and> (\<exists>n. Lookup k m = Some n \<and> now - ni_LastSeen n \<le> mb_heartbeatTimeout m)) \<and>
    notified = (if mb_leaseCallback m \<and> LeaderID m \<in> set (AliveNodes m) - set (AliveNodes m') then [LeaderID m] else [])"
proof -
  have ok: "members_ok m" unfolding assms(1) by (rule members.run_inv [OF members_ok_New])
  have ok': "members_ok m'" using members.step_inv [OF ok, of "EvEvict now"] assms(3) by simp
  note stored = node_stored [OF ok]
  have alive: "k \<in> set (alive_ids m') \<longleftrightarrow>
      (\<exists>n. map_of (mb_nodes m) k = Some n \<and> ni_IsAlive n \<and> now - ni_LastSeen n \<le> mb_heartbeatTimeout m)" for k
    unfolding evict_alive [OF assms(3)] stored timedOut_def by (auto simp: image_iff split: prod.splits)
  have "(\<exists>(k, n) \<in> set (mb_nodes m). k = LeaderID m \<and> timedOut now m n) \<longleftrightarrow>
      (\<exists>n. map_of (mb_nodes m) (LeaderID m) = Some n \<and> timedOut now m n)" unfolding stored by blast
  also have "\<dots> \<longleftrightarrow> LeaderID m \<in> set (alive_ids m) - set (alive_ids m')"
    by (auto simp: alive alive_ids_iff [OF ok] timedOut_def)
  finally have "(\<exists>(k, n) \<in> set (mb_nodes m). k = LeaderID m \<and> timedOut now m n) \<longleftrightarrow>
      LeaderID m \<in> set (alive_ids m) - set (alive_ids m')" .
  moreover have "LeaderID m \<noteq> []" if "LeaderID m \<in> set (alive_ids m)" using that assms(2) subsetD [OF alive_ids_sub [of m]] by metis
  ultimately have "notified = (if mb_leaseCallback m \<and> LeaderID m \<in> set (alive_ids m) - set (alive_ids m') then [LeaderID m] else [])"
    using assms(3) leader_ids [OF ok assms(2)] by (auto simp: evictStale_def Let_def split: if_splits)
  with alive alive_ids_iff [OF ok] show ?thesis unfolding AliveNodes_ids [OF ok] AliveNodes_ids [OF ok'] Lookup_def by auto
qed

end
