(* ===== verification/Cluster_Partitions.thy ===== *)
theory Cluster_Partitions
  imports Cluster_Members "HOL-Library.Word"
begin

unbundle bit_operations_syntax

text \<open>
  The assignment of partitions to nodes, of \<^verbatim>\<open>server/internal/partition/manager.go\<close> and \<^verbatim>\<open>rebalance.go\<close>.  A message is
  given as what the JSON decoder makes of it; the producer is a function from a message to the error of sending it,
  if there is one.
\<close>

subsection \<open>The manager\<close>

type_synonym PartitionID = "32 word"

record Assignment =
  as_NodeID :: string
  as_Address :: string
  as_Partition :: PartitionID
  as_Term :: "64 word"

record PartitionMessage =
  pm_Type :: string
  pm_Assignments :: "Assignment list"
  pm_NodeID :: string
  pm_Term :: "64 word"

record Manager =
  mg_numPartitions :: "32 word"
  mg_assignments :: "string list"
  mg_nodeParts :: "(string, PartitionID list) gomap"
  mg_currentTerm :: "64 word"
  mg_producer :: "(PartitionMessage \<Rightarrow> string option) option"
  mg_leaderID :: string

datatype partition_error =
    NoProducer
  | SendFailed string
  | Unmarshal string
  | NonLeader string string
  | StaleTerm "64 word" "64 word"

definition NewManager :: "32 word \<Rightarrow> Manager" where
  "NewManager numPartitions =
     (let n = (if numPartitions = 0 then 64 else numPartitions)
      in \<lparr>mg_numPartitions = n, mg_assignments = replicate (unat n) [], mg_nodeParts = [], mg_currentTerm = 0,
          mg_producer = None, mg_leaderID = []\<rparr>)"

definition SetProducer :: "(PartitionMessage \<Rightarrow> string option) option \<Rightarrow> Manager \<Rightarrow> Manager" where
  "SetProducer p m = m\<lparr>mg_producer := p\<rparr>"

definition Assignments :: "Manager \<Rightarrow> string list" where
  "Assignments m = mg_assignments m"

definition NodeForPartition :: "PartitionID \<Rightarrow> Manager \<Rightarrow> string" where
  "NodeForPartition p m = (if length (mg_assignments m) \<le> unat p then [] else mg_assignments m ! unat p)"

definition parts_of :: "string \<Rightarrow> (string, PartitionID list) gomap \<Rightarrow> PartitionID list" where
  "parts_of node ps = (case map_of ps node of None \<Rightarrow> [] | Some is \<Rightarrow> is)"

definition PartitionsForNode :: "string \<Rightarrow> Manager \<Rightarrow> PartitionID list" where
  "PartitionsForNode nodeID m = parts_of nodeID (mg_nodeParts m)"

text \<open>FNV-1a of the standard library, on 32 bits.\<close>

definition fnv32a :: "string \<Rightarrow> 32 word" where
  "fnv32a key = foldl (\<lambda>h c. (h XOR word_of_nat (of_char c)) * 16777619) 2166136261 key"

definition PartitionForKey :: "string \<Rightarrow> Manager \<Rightarrow> PartitionID" where
  "PartitionForKey key m = fnv32a key mod mg_numPartitions m"

definition NumPartitions :: "Manager \<Rightarrow> 32 word" where
  "NumPartitions m = mg_numPartitions m"

definition ManagerLeaderID :: "Manager \<Rightarrow> string" where
  "ManagerLeaderID m = mg_leaderID m"

definition addPart :: "string \<Rightarrow> PartitionID \<Rightarrow> (string, PartitionID list) gomap \<Rightarrow> (string, PartitionID list) gomap" where
  "addPart node i ps = AList.update node (parts_of node ps @ [i]) ps"

fun rebalanceLoop ::
  "string list \<Rightarrow> nat list \<Rightarrow> string list \<times> (string, PartitionID list) gomap \<Rightarrow> string list \<times> (string, PartitionID list) gomap" where
  "rebalanceLoop nodes [] st = st"
| "rebalanceLoop nodes (i # is) (as, ps) =
     (let node = nodes ! (i mod length nodes)
      in rebalanceLoop nodes is (as[i := node], addPart node (word_of_nat i) ps))"

definition Rebalance :: "string list \<Rightarrow> 64 word \<Rightarrow> Manager \<Rightarrow> Assignment list \<times> Manager" where
  "Rebalance aliveNodes term m =
     (let nodes = sort aliveNodes; n = unat (mg_numPartitions m); m1 = m\<lparr>mg_currentTerm := term\<rparr>
      in if nodes = [] then ([], m1\<lparr>mg_assignments := replicate n [], mg_nodeParts := []\<rparr>)
         else case rebalanceLoop nodes [0..<n] (replicate n [], []) of
                (as, ps) \<Rightarrow>
                  (map (\<lambda>i. \<lparr>as_NodeID = as ! i, as_Address = [], as_Partition = word_of_nat i, as_Term = term\<rparr>) [0..<n],
                   m1\<lparr>mg_assignments := as, mg_nodeParts := ps\<rparr>))"

fun applyLoop ::
  "Assignment list \<Rightarrow> string list \<times> (string, PartitionID list) gomap \<times> 64 word \<Rightarrow>
    string list \<times> (string, PartitionID list) gomap \<times> 64 word" where
  "applyLoop [] st = st"
| "applyLoop (a # as) (xs, ps, t) =
     (let t1 = (if as_Term a > t then as_Term a else t)
      in if unat (as_Partition a) < length xs
         then applyLoop as (xs[unat (as_Partition a) := as_NodeID a], addPart (as_NodeID a) (as_Partition a) ps, t1)
         else applyLoop as (xs, ps, t1))"

definition ApplyAssignments :: "Assignment list \<Rightarrow> Manager \<Rightarrow> Manager" where
  "ApplyAssignments as m =
     (case applyLoop as (replicate (unat (mg_numPartitions m)) [], [], mg_currentTerm m) of
        (xs, ps, t) \<Rightarrow> m\<lparr>mg_assignments := xs, mg_nodeParts := ps, mg_currentTerm := t\<rparr>)"

definition assignMessage :: "Assignment list \<Rightarrow> Manager \<Rightarrow> PartitionMessage" where
  "assignMessage as m = \<lparr>pm_Type = ''assign'', pm_Assignments = as, pm_NodeID = mg_leaderID m, pm_Term = mg_currentTerm m\<rparr>"

definition PublishAssignments :: "Assignment list \<Rightarrow> Manager \<Rightarrow> partition_error + unit" where
  "PublishAssignments as m =
     (case mg_producer m of
        None \<Rightarrow> Inl NoProducer
      | Some send \<Rightarrow> (case send (assignMessage as m) of None \<Rightarrow> Inr () | Some e \<Rightarrow> Inl (SendFailed e)))"

definition HandleAssignmentMessage :: "string + PartitionMessage \<Rightarrow> Manager \<Rightarrow> (partition_error + unit) \<times> Manager" where
  "HandleAssignmentMessage decoded m =
     (case decoded of
        Inl e \<Rightarrow> (Inl (Unmarshal e), m)
      | Inr pm \<Rightarrow>
          if pm_Type pm = ''assign'' then
            if mg_leaderID m \<noteq> [] \<and> pm_NodeID pm \<noteq> mg_leaderID m then (Inl (NonLeader (pm_NodeID pm) (mg_leaderID m)), m)
            else if pm_Term pm < mg_currentTerm m \<and> mg_leaderID m \<noteq> [] then (Inl (StaleTerm (pm_Term pm) (mg_currentTerm m)), m)
            else (Inr (), ApplyAssignments (pm_Assignments pm) m)
          else (Inr (), m))"

definition OnLeaderChange :: "string \<Rightarrow> Manager \<Rightarrow> Manager" where
  "OnLeaderChange leaderID m = m\<lparr>mg_leaderID := leaderID\<rparr>"

subsection \<open>The notifier\<close>

text \<open>
  The functions for the alive nodes and the term are given by their values at the call; the answer is whether the
  partitions were assigned anew (and the notification sent, when there is one).
\<close>

record RebalanceNotifier =
  rn_manager :: Manager
  rn_notify :: bool
  rn_lastNodes :: "string list"

definition NewRebalanceNotifier :: "Manager \<Rightarrow> RebalanceNotifier" where
  "NewRebalanceNotifier m = \<lparr>rn_manager = m, rn_notify = False, rn_lastNodes = []\<rparr>"

definition SetNotify :: "bool \<Rightarrow> RebalanceNotifier \<Rightarrow> RebalanceNotifier" where
  "SetNotify fn rn = rn\<lparr>rn_notify := fn\<rparr>"

definition CheckAndRebalance :: "string list \<Rightarrow> 64 word \<Rightarrow> RebalanceNotifier \<Rightarrow> bool \<times> RebalanceNotifier" where
  "CheckAndRebalance alive term rn =
     (let nodes = sort alive
      in if nodes = [] then (False, rn)
         else if nodes = rn_lastNodes rn then (False, rn)
         else (True, rn\<lparr>rn_lastNodes := nodes, rn_manager := snd (Rebalance nodes term (rn_manager rn))\<rparr>))"

text \<open>
  What the node does with a partition message, and with the manager when Raft tells it that it has become the leader
  or stepped down.
\<close>

definition handlePartitionMessage :: "string + PartitionMessage \<Rightarrow> Manager \<Rightarrow> Manager" where
  "handlePartitionMessage decoded m = snd (HandleAssignmentMessage decoded m)"

definition leaderChanged :: "string \<Rightarrow> string list \<Rightarrow> 64 word \<Rightarrow> bool \<Rightarrow> RebalanceNotifier \<Rightarrow> RebalanceNotifier" where
  "leaderChanged nodeID alive term isLeader rn =
     (if isLeader then snd (CheckAndRebalance alive term (rn\<lparr>rn_manager := OnLeaderChange nodeID (rn_manager rn)\<rparr>))
      else rn\<lparr>rn_manager := OnLeaderChange [] (rn_manager rn)\<rparr>)"

subsection \<open>The loops\<close>

lemma parts_of_addPart: "parts_of x (addPart node i ps) = parts_of x ps @ (if x = node then [i] else [])"
  by (simp add: parts_of_def addPart_def)

lemma rebalanceLoop_result:
  assumes "rebalanceLoop nodes is (as, ps) = (as', ps')"
  shows "length as' = length as \<and>
    (\<forall>j < length as. as' ! j = (if j \<in> set is then nodes ! (j mod length nodes) else as ! j)) \<and>
    (\<forall>x. parts_of x ps' = parts_of x ps @ map word_of_nat (filter (\<lambda>i. nodes ! (i mod length nodes) = x) is))"
  using assms
proof (induction "is" arbitrary: as ps)
  case (Cons i "is")
  let ?n = "nodes ! (i mod length nodes)"
  from Cons.prems have "rebalanceLoop nodes is (as[i := ?n], addPart ?n (word_of_nat i) ps) = (as', ps')" by (simp add: Let_def)
  from Cons.IH [OF this] show ?case by (auto simp: parts_of_addPart nth_list_update)
qed simp

lemma applyLoop_result:
  assumes "applyLoop (map (\<lambda>i. \<lparr>as_NodeID = f i, as_Address = ad, as_Partition = word_of_nat i, as_Term = t\<rparr>) is) (xs, ps, t0) = (xs', ps', t')"
    and "\<forall>i \<in> set is. i < length xs" and "length xs < 2 ^ 32"
  shows "length xs' = length xs \<and> (\<forall>j < length xs. xs' ! j = (if j \<in> set is then f j else xs ! j)) \<and>
    (\<forall>x. parts_of x ps' = parts_of x ps @ map word_of_nat (filter (\<lambda>i. f i = x) is)) \<and>
    t' = (if is = [] then t0 else max t0 t)"
  using assms
proof (induction "is" arbitrary: xs ps t0)
  case (Cons i "is")
  then have i: "unat (word_of_nat i :: 32 word) = i" by (simp add: unat_of_nat take_bit_nat_eq_self)
  from Cons.prems have "applyLoop (map (\<lambda>i. \<lparr>as_NodeID = f i, as_Address = ad, as_Partition = word_of_nat i, as_Term = t\<rparr>) is)
      (xs[i := f i], addPart (f i) (word_of_nat i) ps, if t > t0 then t else t0) = (xs', ps', t')" by (simp add: Let_def i cong: if_cong)
  from Cons.IH [OF this] Cons.prems(2,3) show ?case by (auto simp: parts_of_addPart nth_list_update max_def)
qed simp

lemma count_residue:
  "j < k \<Longrightarrow> length (filter (\<lambda>i. i mod k = j) [0..<n]) = (n + k - 1 - j) div k"
proof (induction n)
  case (Suc n)
  have "(n + k - j) mod k = 0 \<longleftrightarrow> n mod k = j"
  proof -
    obtain q r where n: "n = q * k + r" "r < k" "n mod k = r" using Suc.prems by (metis div_mult_mod_eq mod_less_divisor not_less_zero gr0I)
    then have "n + k - j = q * k + (k + r - j)" using Suc.prems by simp
    then have "(n + k - j) mod k = (k + r - j) mod k" by simp
    moreover have "(k + r - j) mod k = (if j \<le> r then r - j else k + r - j)" using Suc.prems n by (auto simp: mod_if)
    ultimately show ?thesis using Suc.prems n by auto
  qed
  moreover have "Suc (n + k - 1 - j) = n + k - j" using Suc.prems by simp
  ultimately show ?case using Suc div_Suc [of "n + k - 1 - j" k] by (simp add: Suc_diff_Suc)
qed simp

lemma share_bounds:
  fixes n k j :: nat
  assumes "j < k"
  shows "n div k \<le> (n + k - 1 - j) div k \<and> (n + k - 1 - j) div k \<le> n div k + 1"
proof -
  have "(n + k - 1 - j) div k \<le> (n + k) div k" by (rule div_le_mono) simp
  moreover have "n div k \<le> (n + k - 1 - j) div k" by (rule div_le_mono) (use assms in simp)
  moreover have "(n + k) div k = n div k + 1" using assms by (simp add: div_add_self2)
  ultimately show ?thesis by simp
qed

subsection \<open>What an assignment looks like\<close>

lemma unat_less_32: "unat (w :: 32 word) < 2 ^ 32"
  using unsigned_less [of w] by simp

lemma unat_small: "i < unat (n :: 32 word) \<Longrightarrow> unat (word_of_nat i :: 32 word) = i"
  using unat_less_32 [of n] by (simp add: unat_of_nat take_bit_nat_eq_self)

lemma Rebalance_result:
  assumes "Rebalance alive term m = (as, m1)" and "alive \<noteq> []"
  defines "n \<equiv> unat (mg_numPartitions m)" and "node \<equiv> (\<lambda>i. sort alive ! (i mod length alive))"
  shows "mg_assignments m1 = map node [0..<n]"
    and "PartitionsForNode x m1 = map word_of_nat (filter (\<lambda>i. node i = x) [0..<n])"
    and "as = map (\<lambda>i. \<lparr>as_NodeID = node i, as_Address = [], as_Partition = word_of_nat i, as_Term = term\<rparr>) [0..<n]"
    and "mg_currentTerm m1 = term" and "mg_numPartitions m1 = mg_numPartitions m" and "mg_leaderID m1 = mg_leaderID m"
proof -
  obtain xs ps where l: "rebalanceLoop (sort alive) [0..<n] (replicate n [], []) = (xs, ps)" by fastforce
  have ne: "sort alive \<noteq> []" using assms(2) by (metis length_0_conv length_sort)
  have as: "as = map (\<lambda>i. \<lparr>as_NodeID = xs ! i, as_Address = [], as_Partition = word_of_nat i, as_Term = term\<rparr>) [0..<n]"
    and m1: "m1 = m\<lparr>mg_currentTerm := term, mg_assignments := xs, mg_nodeParts := ps\<rparr>"
    using assms(1) ne l by (simp_all add: Rebalance_def n_def Let_def)
  note r = rebalanceLoop_result [OF l]
  have xs: "xs = map node [0..<n]" using r by (auto simp: node_def intro: nth_equalityI)
  show "mg_assignments m1 = map node [0..<n]" by (simp add: m1 xs)
  show "PartitionsForNode x m1 = map word_of_nat (filter (\<lambda>i. node i = x) [0..<n])"
    using r by (simp add: m1 PartitionsForNode_def node_def parts_of_def)
  show "as = map (\<lambda>i. \<lparr>as_NodeID = node i, as_Address = [], as_Partition = word_of_nat i, as_Term = term\<rparr>) [0..<n]"
    by (simp add: as xs)
  show "mg_currentTerm m1 = term" "mg_numPartitions m1 = mg_numPartitions m" "mg_leaderID m1 = mg_leaderID m" by (simp_all add: m1)
qed

lemma node_of_residue:
  assumes "distinct alive" and "x \<in> set alive"
  obtains j where "j < length alive" "\<And>i. sort alive ! (i mod length alive) = x \<longleftrightarrow> i mod length alive = j"
proof -
  from assms(2) obtain j where j: "j < length alive" "sort alive ! j = x" by (metis in_set_conv_nth length_sort set_sort)
  have "sort alive ! (i mod length alive) = x \<longleftrightarrow> i mod length alive = j" for i
  proof -
    have "i mod length alive < length alive" using j(1) by (intro mod_less_divisor) linarith
    with j assms(1) nth_eq_iff_index_eq [of "sort alive" "i mod length alive" j] show ?thesis by simp
  qed
  with j(1) show ?thesis using that by blast
qed

subsection \<open>Properties\<close>

text \<open>
  C8: After a rebalance every partition belongs to one of the alive nodes, a node's own list holds exactly its
  partitions, each once, and the shares of two nodes differ by at most one; the assignment does not depend on the
  order in which the alive nodes are given.
\<close>

theorem Rebalance_balanced:
  assumes "Rebalance alive term m = (as, m1)" and "alive \<noteq> []" and "distinct alive"
  shows "(\<forall>i < mg_numPartitions m. NodeForPartition i m1 \<in> set alive) \<and>
    (\<forall>x. distinct (PartitionsForNode x m1) \<and> set (PartitionsForNode x m1) = {i. i < mg_numPartitions m \<and> NodeForPartition i m1 = x}) \<and>
    (\<forall>x \<in> set alive. length (PartitionsForNode x m1) \<in>
      {unat (mg_numPartitions m) div length alive, unat (mg_numPartitions m) div length alive + 1}) \<and>
    (\<forall>alive2. mset alive2 = mset alive \<longrightarrow> Rebalance alive2 term m = (as, m1))"
proof -
  let ?n = "unat (mg_numPartitions m)" and ?k = "length alive" and ?node = "\<lambda>i. sort alive ! (i mod length alive)"
  note r = Rebalance_result [OF assms(1,2)]
  have node: "?node i \<in> set alive" for i
    using assms(2) nth_mem [of "i mod ?k" "sort alive"] by simp
  have owner: "NodeForPartition i m1 = ?node (unat i)" if "i < mg_numPartitions m" for i
    using that by (simp add: NodeForPartition_def r(1) word_less_nat_alt)
  have parts: "distinct (PartitionsForNode x m1)" "set (PartitionsForNode x m1) = {i. i < mg_numPartitions m \<and> NodeForPartition i m1 = x}" for x
  proof -
    have "inj_on (word_of_nat :: nat \<Rightarrow> 32 word) {..<?n}" by (auto intro!: inj_onI dest!: arg_cong [of _ _ unat] simp: unat_small)
    then show "distinct (PartitionsForNode x m1)" unfolding r(2) distinct_map by (auto elim: inj_on_subset)
    show "set (PartitionsForNode x m1) = {i. i < mg_numPartitions m \<and> NodeForPartition i m1 = x}"
    proof (intro set_eqI iffI)
      fix i assume "i \<in> set (PartitionsForNode x m1)"
      then show "i \<in> {i. i < mg_numPartitions m \<and> NodeForPartition i m1 = x}"
        using owner by (auto simp: r(2) word_less_nat_alt unat_small)
    next
      fix i assume "i \<in> {i. i < mg_numPartitions m \<and> NodeForPartition i m1 = x}"
      then show "i \<in> set (PartitionsForNode x m1)"
        using owner by (auto simp: r(2) word_less_nat_alt intro!: image_eqI [of _ _ "unat i"])
    qed
  qed
  have "length (PartitionsForNode x m1) \<in> {?n div ?k, ?n div ?k + 1}" if x: "x \<in> set alive" for x
  proof -
    obtain j where "j < ?k" "\<And>i. ?node i = x \<longleftrightarrow> i mod ?k = j" using node_of_residue [OF assms(3) x] by metis
    then show ?thesis using share_bounds [of j ?k ?n] by (auto simp: r(2) count_residue)
  qed
  moreover have "Rebalance alive2 term m = (as, m1)" if "mset alive2 = mset alive" for alive2
  proof -
    have "sort alive2 = sort alive" using that by (metis sorted_list_of_multiset_mset)
    with assms(1) show ?thesis by (simp add: Rebalance_def)
  qed
  ultimately show ?thesis using owner node parts by simp
qed

theorem Rebalance_balanced_witness:
  "length (PartitionsForNode ''b'' (snd (Rebalance [''b'', ''a''] 1 (NewManager 5)))) \<in> {2, 3}"
proof -
  obtain as m1 where r: "Rebalance [''b'', ''a''] 1 (NewManager 5) = (as, m1)" by fastforce
  have "\<forall>x \<in> set [''b'', ''a'']. length (PartitionsForNode x m1) \<in>
      {unat (mg_numPartitions (NewManager 5)) div length [''b'', ''a''], unat (mg_numPartitions (NewManager 5)) div length [''b'', ''a''] + 1}"
    using Rebalance_balanced [OF r, THEN conjunct2, THEN conjunct2, THEN conjunct1] by simp
  moreover have "unat (mg_numPartitions (NewManager 5)) = 5" by (simp add: NewManager_def)
  ultimately show ?thesis by (simp add: r flip: numeral_2_eq_2)
qed



text \<open>
  A node that is not the leader does not know who is, and applies every assignment that is sent to it, from any
  node and of any term: the check of the sender and the term is made only on the leader itself.
\<close>

lemma follower_unfenced:
  assumes "pm_Type pm = ''assign''"
  shows "handlePartitionMessage (Inr pm) (rn_manager (leaderChanged self alive term False rn)) =
      ApplyAssignments (pm_Assignments pm) (rn_manager (leaderChanged self alive term False rn)) \<and>
    (self \<noteq> [] \<longrightarrow> pm_NodeID pm \<noteq> self \<longrightarrow>
      handlePartitionMessage (Inr pm) (rn_manager (leaderChanged self alive term True rn)) = rn_manager (leaderChanged self alive term True rn))"
proof -
  have "mg_leaderID (snd (Rebalance nodes term m)) = mg_leaderID m" for nodes m
    by (simp add: Rebalance_def Let_def split: prod.split)
  then have "mg_leaderID (rn_manager (leaderChanged self alive term True rn)) = self"
    by (simp add: leaderChanged_def CheckAndRebalance_def Let_def OnLeaderChange_def)
  with assms show ?thesis
    by (simp add: handlePartitionMessage_def HandleAssignmentMessage_def leaderChanged_def OnLeaderChange_def)
qed

end
