(* ===== verification/Rule_Engine.thy ===== *)
theory Rule_Engine
  imports Prelude "HOL-Library.Word"
begin

text \<open>
  The rule engine of \<^verbatim>\<open>server/internal/engine\<close>: the versions of every rule, which one is active, and the file they are
  kept in.  The compiler is the argument \<open>cmp\<close> (\<^verbatim>\<open>compiler.Compiler\<close>), the score of a plan the argument \<open>score\<close>
  (\<^verbatim>\<open>bridge.PlanComplexity\<close>), and running a plan the argument \<open>exec\<close> (\<^verbatim>\<open>bridge.Execute\<close>).  The callbacks
  \<^verbatim>\<open>AfterDeploy\<close> and \<^verbatim>\<open>AfterPromote\<close> are the notes an operation returns.  The engine has one read-write mutex, which a
  goroutine cannot take a second time: an operation that does so ends in \<open>Deadlocks\<close>, and one that waits for
  running executions in \<open>Waits\<close>.
\<close>

subsection \<open>Rules and versions\<close>

datatype 'a eng = Returns 'a | Fails string | Waits | Deadlocks | Panics

fun eng_bind :: "'a eng \<Rightarrow> ('a \<Rightarrow> 'b eng) \<Rightarrow> 'b eng" where
  "eng_bind (Returns x) f = f x"
| "eng_bind (Fails e) f = Fails e"
| "eng_bind Waits f = Waits"
| "eng_bind Deadlocks f = Deadlocks"
| "eng_bind Panics f = Panics"

datatype Lane = LaneFast | LaneNormal | LaneHeavy

definition LaneForScore :: "32 word \<Rightarrow> Lane" where
  "LaneForScore score = (if score < 10 then LaneFast else if score \<le> 50 then LaneNormal else LaneHeavy)"

record LaneConfig =
  lc_Name :: Lane
  lc_BatchSize :: int
  lc_PollTimeout :: int

definition DefaultLanes :: "LaneConfig list" where
  "DefaultLanes =
     [\<lparr>lc_Name = LaneFast, lc_BatchSize = 500, lc_PollTimeout = 10\<rparr>,
      \<lparr>lc_Name = LaneNormal, lc_BatchSize = 100, lc_PollTimeout = 50\<rparr>,
      \<lparr>lc_Name = LaneHeavy, lc_BatchSize = 10, lc_PollTimeout = 500\<rparr>]"

record VersionedPlan =
  vp_Plan :: bytes
  vp_DSL :: string
  vp_Version :: "64 word"
  vp_Lane :: Lane
  vp_ActiveExec :: nat

text \<open>A version may be nil after a load; the active version is an index.\<close>

record Rule =
  ru_ID :: string
  ru_Versions :: "VersionedPlan option list"
  ru_ActiveVersion :: int

definition ActivePlan :: "Rule \<Rightarrow> VersionedPlan option" where
  "ActivePlan r =
     (if ru_ActiveVersion r < 0 \<or> ru_ActiveVersion r \<ge> int (length (ru_Versions r)) then None
      else ru_Versions r ! nat (ru_ActiveVersion r))"

record versionPersistence =
  pv_DSL :: string
  pv_Version :: "64 word"
  pv_Lane :: Lane

record rulePersistence =
  pr_ID :: string
  pr_Versions :: "versionPersistence list"
  pr_ActiveVersion :: int

record Engine =
  en_rules :: "(string, Rule) gomap"
  en_nextVersion :: "64 word"
  en_persistPath :: string
  en_file :: "rulePersistence list option"

datatype engine_note = AfterDeploy string string bytes "64 word" | AfterPromote string "64 word"

type_synonym compiler = "string \<Rightarrow> string \<Rightarrow> string + bytes \<times> 32 word"

subsection \<open>The file\<close>

fun persistVersions :: "VersionedPlan option list \<Rightarrow> versionPersistence list eng" where
  "persistVersions [] = Returns []"
| "persistVersions (None # vs) = Panics"
| "persistVersions (Some v # vs) =
     eng_bind (persistVersions vs) (\<lambda>ps. Returns (\<lparr>pv_DSL = vp_DSL v, pv_Version = vp_Version v, pv_Lane = vp_Lane v\<rparr> # ps))"

fun persistRules :: "(string, Rule) gomap \<Rightarrow> rulePersistence list eng" where
  "persistRules [] = Returns []"
| "persistRules ((k, r) # rs) =
     eng_bind (persistVersions (ru_Versions r)) (\<lambda>vs. eng_bind (persistRules rs) (\<lambda>ps.
       Returns (\<lparr>pr_ID = ru_ID r, pr_Versions = vs, pr_ActiveVersion = ru_ActiveVersion r\<rparr> # ps)))"

text \<open>The first argument says whether the caller holds the lock of the engine; writing the file is taken to succeed.\<close>

definition saveRules :: "bool \<Rightarrow> Engine \<Rightarrow> unit eng \<times> Engine" where
  "saveRules held e =
     (if en_persistPath e = [] then (Returns (), e)
      else if held then (Deadlocks, e)
      else case persistRules (en_rules e) of
             Returns rules \<Rightarrow> (Returns (), e\<lparr>en_file := Some rules\<rparr>)
           | Fails x \<Rightarrow> (Fails x, e)
           | Waits \<Rightarrow> (Waits, e)
           | Deadlocks \<Rightarrow> (Deadlocks, e)
           | Panics \<Rightarrow> (Panics, e))"

definition loadVersion :: "compiler \<Rightarrow> string \<Rightarrow> versionPersistence \<Rightarrow> VersionedPlan option" where
  "loadVersion cmp rule v =
     (case cmp (pv_DSL v) rule of
        Inl _ \<Rightarrow> None
      | Inr (plan, _) \<Rightarrow> Some \<lparr>vp_Plan = plan, vp_DSL = pv_DSL v, vp_Version = pv_Version v, vp_Lane = pv_Lane v, vp_ActiveExec = 0\<rparr>)"

definition loadRule :: "compiler \<Rightarrow> rulePersistence \<Rightarrow> (string, Rule) gomap \<times> 64 word \<Rightarrow> (string, Rule) gomap \<times> 64 word" where
  "loadRule cmp r = (\<lambda>(rules, maxVer).
     let vs = map (loadVersion cmp (pr_ID r)) (pr_Versions r);
         maxVer1 = foldl (\<lambda>m v. case v of None \<Rightarrow> m | Some p \<Rightarrow> max m (vp_Version p)) maxVer vs;
         n = int (length vs);
         active = (if pr_ActiveVersion r < 0 \<or> pr_ActiveVersion r \<ge> n then n - 1 else pr_ActiveVersion r)
     in if vs = [] then (rules, maxVer1)
        else (AList.update (pr_ID r) \<lparr>ru_ID = pr_ID r, ru_Versions = vs, ru_ActiveVersion = active\<rparr> rules, maxVer1))"

definition loadRules :: "compiler \<Rightarrow> Engine \<Rightarrow> Engine" where
  "loadRules cmp e =
     (case en_file e of
        None \<Rightarrow> e
      | Some rs \<Rightarrow>
          (case foldl (\<lambda>st r. loadRule cmp r st) (en_rules e, en_nextVersion e) rs of
             (rules, maxVer) \<Rightarrow> e\<lparr>en_rules := rules, en_nextVersion := maxVer\<rparr>))"

definition NewWithCompiler :: "compiler \<Rightarrow> string \<Rightarrow> rulePersistence list option \<Rightarrow> Engine" where
  "NewWithCompiler cmp persistPath disk =
     (let e = \<lparr>en_rules = [], en_nextVersion = 0, en_persistPath = persistPath, en_file = disk\<rparr>
      in if persistPath \<noteq> [] then loadRules cmp e else e)"

subsection \<open>Operations\<close>

definition Deploy :: "compiler \<Rightarrow> string \<Rightarrow> string \<Rightarrow> Engine \<Rightarrow> unit eng \<times> Engine \<times> engine_note list" where
  "Deploy cmp k dsl e =
     (case cmp dsl k of
        Inl err \<Rightarrow> (Fails err, e, [])
      | Inr (plan, complexity) \<Rightarrow>
          let version = en_nextVersion e + 1;
              vp = \<lparr>vp_Plan = plan, vp_DSL = dsl, vp_Version = version, vp_Lane = LaneForScore complexity, vp_ActiveExec = 0\<rparr>;
              r = (case map_of (en_rules e) k of None \<Rightarrow> \<lparr>ru_ID = k, ru_Versions = [], ru_ActiveVersion = 0\<rparr> | Some r \<Rightarrow> r);
              r1 = r\<lparr>ru_Versions := ru_Versions r @ [Some vp], ru_ActiveVersion := int (length (ru_Versions r))\<rparr>
          in case saveRules True (e\<lparr>en_rules := AList.update k r1 (en_rules e), en_nextVersion := version\<rparr>) of
               (Returns _, e1) \<Rightarrow> (Returns (), e1, [AfterDeploy k dsl plan version])
             | (out, e1) \<Rightarrow> (out, e1, []))"

fun findVersion :: "64 word \<Rightarrow> VersionedPlan option list \<Rightarrow> nat option eng" where
  "findVersion version [] = Returns None"
| "findVersion version (None # vs) = Panics"
| "findVersion version (Some v # vs) =
     (if vp_Version v = version then Returns (Some 0)
      else eng_bind (findVersion version vs) (\<lambda>i. Returns (map_option Suc i)))"

definition AddVersion ::
  "(bytes \<Rightarrow> 32 word) \<Rightarrow> string \<Rightarrow> string \<Rightarrow> bytes \<Rightarrow> 64 word \<Rightarrow> Engine \<Rightarrow> unit eng \<times> Engine" where
  "AddVersion score k dsl plan version e =
     (let vp = \<lparr>vp_Plan = plan, vp_DSL = dsl, vp_Version = version, vp_Lane = LaneForScore (score plan), vp_ActiveExec = 0\<rparr>;
          r = (case map_of (en_rules e) k of None \<Rightarrow> \<lparr>ru_ID = k, ru_Versions = [], ru_ActiveVersion = - 1\<rparr> | Some r \<Rightarrow> r);
          put = (\<lambda>vs. e\<lparr>en_rules := AList.update k (r\<lparr>ru_Versions := vs\<rparr>) (en_rules e)\<rparr>)
      in case findVersion version (ru_Versions r) of
           Returns (Some i) \<Rightarrow> saveRules True (put ((ru_Versions r)[i := Some vp]))
         | Returns None \<Rightarrow> saveRules True (put (ru_Versions r @ [Some vp]))
         | _ \<Rightarrow> (Panics, e))"

definition Promote :: "string \<Rightarrow> 64 word \<Rightarrow> Engine \<Rightarrow> unit eng \<times> Engine \<times> engine_note list" where
  "Promote k version e =
     (case map_of (en_rules e) k of
        None \<Rightarrow> (Fails ''rule not found'', e, [])
      | Some r \<Rightarrow>
          (case findVersion version (ru_Versions r) of
             Returns None \<Rightarrow> (Fails ''version not found'', e, [])
           | Returns (Some i) \<Rightarrow>
               (case saveRules True (e\<lparr>en_rules := AList.update k (r\<lparr>ru_ActiveVersion := int i\<rparr>) (en_rules e)\<rparr>) of
                  (Returns _, e1) \<Rightarrow> (Returns (), e1, [AfterPromote k version])
                | (out, e1) \<Rightarrow> (out, e1, []))
           | _ \<Rightarrow> (Panics, e, [])))"

definition dropVersion :: "string \<Rightarrow> Rule \<Rightarrow> nat option \<Rightarrow> Engine \<Rightarrow> Engine" where
  "dropVersion k r found e =
     (let r1 = (case found of
                  None \<Rightarrow> r
                | Some i \<Rightarrow>
                    let vs = take i (ru_Versions r) @ drop (Suc i) (ru_Versions r)
                    in r\<lparr>ru_Versions := vs,
                         ru_ActiveVersion := (if ru_ActiveVersion r = int i then (if vs \<noteq> [] then 0 else - 1)
                                              else if ru_ActiveVersion r > int i then ru_ActiveVersion r - 1
                                              else ru_ActiveVersion r)\<rparr>)
      in if ru_Versions r1 = [] then e\<lparr>en_rules := AList.delete k (en_rules e)\<rparr>
         else e\<lparr>en_rules := AList.update k r1 (en_rules e)\<rparr>)"

text \<open>
  \<^verbatim>\<open>Drain\<close> looks the version up, waits with the lock released until no execution of it is running, and removes it.
  Here the removal follows at once when none is running.
\<close>

definition Drain :: "string \<Rightarrow> 64 word \<Rightarrow> Engine \<Rightarrow> unit eng \<times> Engine" where
  "Drain k version e =
     (case map_of (en_rules e) k of
        None \<Rightarrow> (Fails ''rule not found'', e)
      | Some r \<Rightarrow>
          (case findVersion version (ru_Versions r) of
             Returns None \<Rightarrow> (Fails ''version not found'', e)
           | Returns (Some i) \<Rightarrow>
               (case ru_Versions r ! i of
                  None \<Rightarrow> (Panics, e)
                | Some vp \<Rightarrow> if vp_ActiveExec vp \<noteq> 0 then (Waits, e) else (Returns (), dropVersion k r (Some i) e))
           | _ \<Rightarrow> (Panics, e)))"

fun waitVersions :: "VersionedPlan option list \<Rightarrow> unit eng" where
  "waitVersions [] = Returns ()"
| "waitVersions (None # vs) = Panics"
| "waitVersions (Some v # vs) = (if vp_ActiveExec v \<noteq> 0 then Waits else waitVersions vs)"

definition Remove :: "string \<Rightarrow> Engine \<Rightarrow> unit eng \<times> Engine" where
  "Remove k e =
     (case map_of (en_rules e) k of
        None \<Rightarrow> (Returns (), e)
      | Some r \<Rightarrow>
          (case waitVersions (ru_Versions r) of
             Returns _ \<Rightarrow> saveRules True (e\<lparr>en_rules := AList.delete k (en_rules e)\<rparr>)
           | out \<Rightarrow> (out, e)))"

definition Rules :: "Engine \<Rightarrow> Rule list" where
  "Rules e = map snd (en_rules e)"

definition ActivePlanBytes :: "Engine \<Rightarrow> bytes list" where
  "ActivePlanBytes e =
     concat (map (\<lambda>r. case ActivePlan r of None \<Rightarrow> [] | Some vp \<Rightarrow> if vp_Plan vp \<noteq> [] then [vp_Plan vp] else []) (Rules e))"

text \<open>Running the active plans one after the other; the counter of a version is its number of running executions.\<close>

definition bumpExec :: "(nat \<Rightarrow> nat) \<Rightarrow> string \<Rightarrow> nat \<Rightarrow> Engine \<Rightarrow> Engine" where
  "bumpExec f k i e =
     (case map_of (en_rules e) k of
        None \<Rightarrow> e
      | Some r \<Rightarrow>
          e\<lparr>en_rules := AList.update k
              (r\<lparr>ru_Versions := (ru_Versions r)[i := map_option (\<lambda>v. v\<lparr>vp_ActiveExec := f (vp_ActiveExec v)\<rparr>) (ru_Versions r ! i)]\<rparr>)
              (en_rules e)\<rparr>)"

definition activePlans :: "Engine \<Rightarrow> (string \<times> nat \<times> bytes) list" where
  "activePlans e =
     concat (map (\<lambda>(k, r). case ActivePlan r of None \<Rightarrow> [] | Some vp \<Rightarrow> [(k, nat (ru_ActiveVersion r), vp_Plan vp)]) (en_rules e))"

fun execLoop ::
  "(bytes \<Rightarrow> bytes \<Rightarrow> string + bytes) \<Rightarrow> bytes \<Rightarrow> (string \<times> nat \<times> bytes) list \<Rightarrow> bytes list \<Rightarrow> Engine \<Rightarrow>
    (bytes list \<times> string option) \<times> Engine" where
  "execLoop exec body [] results e = ((results, None), e)"
| "execLoop exec body ((k, i, plan) # ps) results e =
     (case exec plan body of
        Inl err \<Rightarrow> ((results, Some err), bumpExec (\<lambda>n. n - 1) k i e)
      | Inr res \<Rightarrow> execLoop exec body ps (results @ [res]) (bumpExec (\<lambda>n. n - 1) k i e))"

definition ExecuteAll :: "(bytes \<Rightarrow> bytes \<Rightarrow> string + bytes) \<Rightarrow> bytes \<Rightarrow> Engine \<Rightarrow> (bytes list \<times> string option) \<times> Engine" where
  "ExecuteAll exec body e =
     execLoop exec body (activePlans e) [] (fold (\<lambda>(k, i, _). bumpExec Suc k i) (activePlans e) e)"

subsection \<open>The package interface\<close>

record PkgRule =
  gr_ID :: string
  gr_Active :: bool
  gr_Lane :: Lane

definition AddRule :: "compiler \<Rightarrow> string \<Rightarrow> string \<Rightarrow> Engine \<Rightarrow> unit eng \<times> Engine \<times> engine_note list" where
  "AddRule cmp k dsl e = Deploy cmp k dsl e"

definition CompileRule :: "compiler \<Rightarrow> string \<Rightarrow> string \<Rightarrow> Engine \<Rightarrow> unit eng \<times> Engine \<times> engine_note list" where
  "CompileRule cmp k dsl e = Deploy cmp k dsl e"

definition RemoveRule :: "string \<Rightarrow> Engine \<Rightarrow> unit eng \<times> Engine" where
  "RemoveRule k e = Remove k e"

definition GetRule :: "string \<Rightarrow> Engine \<Rightarrow> PkgRule eng" where
  "GetRule k e =
     (case find (\<lambda>r. ru_ID r = k) (Rules e) of
        None \<Rightarrow> Fails ''rule not found''
      | Some r \<Rightarrow>
          if ru_ActiveVersion r \<ge> 0 \<and> ru_ActiveVersion r < int (length (ru_Versions r)) then
            (case ru_Versions r ! nat (ru_ActiveVersion r) of
               None \<Rightarrow> Panics
             | Some vp \<Rightarrow> Returns \<lparr>gr_ID = ru_ID r, gr_Active = True, gr_Lane = vp_Lane vp\<rparr>)
          else Returns \<lparr>gr_ID = ru_ID r, gr_Active = False, gr_Lane = LaneNormal\<rparr>)"

fun getRules :: "Rule list \<Rightarrow> Engine \<Rightarrow> PkgRule list eng" where
  "getRules [] e = Returns []"
| "getRules (r # rs) e =
     (case GetRule (ru_ID r) e of
        Returns g \<Rightarrow> eng_bind (getRules rs e) (\<lambda>gs. Returns (g # gs))
      | Fails _ \<Rightarrow> getRules rs e
      | _ \<Rightarrow> Panics)"

definition ListRules :: "Engine \<Rightarrow> PkgRule list eng" where
  "ListRules e = getRules (Rules e) e"

definition bridgeExecutePlan :: "bytes \<Rightarrow> bytes \<Rightarrow> bytes option" where
  "bridgeExecutePlan plan body = (if plan = [] then None else Some plan)"

definition executePlanOutputs :: "bytes list \<Rightarrow> bytes \<Rightarrow> bytes option list" where
  "executePlanOutputs plans body = map (\<lambda>plan. bridgeExecutePlan plan body) plans"

definition Execute :: "string \<Rightarrow> bytes \<Rightarrow> Engine \<Rightarrow> bytes option eng" where
  "Execute k body e =
     (case find (\<lambda>r. ru_ID r = k) (Rules e) of
        None \<Rightarrow> Fails ''rule not found''
      | Some r \<Rightarrow>
          (case ActivePlan r of
             None \<Rightarrow> Fails ''no active version''
           | Some vp \<Rightarrow>
               (case executePlanOutputs [vp_Plan vp] body of Some out # _ \<Rightarrow> Returns (Some out) | _ \<Rightarrow> Returns None)))"

subsection \<open>The invariant\<close>

text \<open>Every rule is stored under its id, once, with at least one version, no nil, and an index in range or \<open>- 1\<close>.\<close>

definition rule_ok :: "Rule \<Rightarrow> bool" where
  "rule_ok r \<longleftrightarrow> ru_Versions r \<noteq> [] \<and> None \<notin> set (ru_Versions r) \<and> - 1 \<le> ru_ActiveVersion r \<and>
     ru_ActiveVersion r < int (length (ru_Versions r))"

definition engine_ok :: "Engine \<Rightarrow> bool" where
  "engine_ok e \<longleftrightarrow> distinct (map fst (en_rules e)) \<and> (\<forall>(k, r) \<in> set (en_rules e). ru_ID r = k \<and> rule_ok r)"

lemma engine_ok_update: "engine_ok e \<Longrightarrow> ru_ID r = k \<Longrightarrow> rule_ok r \<Longrightarrow> engine_ok (e\<lparr>en_rules := AList.update k r (en_rules e)\<rparr>)"
  using set_update_sub [of k r "en_rules e"] by (auto simp: engine_ok_def distinct_update)

lemma engine_ok_delete: "engine_ok e \<Longrightarrow> engine_ok (e\<lparr>en_rules := AList.delete k (en_rules e)\<rparr>)"
  using set_delete_sub [of k "en_rules e"] by (auto simp: engine_ok_def distinct_delete)

lemma engine_ok_next [simp]: "engine_ok (e\<lparr>en_nextVersion := n\<rparr>) = engine_ok e" "engine_ok (e\<lparr>en_file := f\<rparr>) = engine_ok e"
  by (simp_all add: engine_ok_def)

lemma engine_ok_lookup: "engine_ok e \<Longrightarrow> map_of (en_rules e) k = Some r \<Longrightarrow> ru_ID r = k \<and> rule_ok r"
  by (auto simp: engine_ok_def dest: map_of_SomeD)

lemma saveRules_held: "saveRules True e = (if en_persistPath e = [] then Returns () else Deadlocks, e)"
  by (simp add: saveRules_def)

lemma findVersion_found:
  "findVersion v vs = Returns (Some i) \<Longrightarrow> i < length vs \<and> (\<exists>p. vs ! i = Some p \<and> vp_Version p = v)"
proof (induction v vs arbitrary: i rule: findVersion.induct)
  case (3 v p vs)
  then show ?case by (cases "findVersion v vs") (auto split: if_splits)
qed auto

lemma findVersion_total: "None \<notin> set vs \<Longrightarrow> \<exists>x. findVersion v vs = Returns x"
  by (induction v vs rule: findVersion.induct) auto

lemma findVersion_missing: "findVersion v vs = Returns None \<Longrightarrow> Some p \<in> set vs \<Longrightarrow> vp_Version p \<noteq> v"
proof (induction v vs rule: findVersion.induct)
  case (3 v q vs)
  then show ?case by (cases "findVersion v vs") (auto split: if_splits)
qed auto

lemma findVersion_replaced:
  "findVersion v vs = Returns (Some i) \<Longrightarrow> vp_Version p = v \<Longrightarrow> findVersion v (vs[i := Some p]) = Returns (Some i)"
proof (induction v vs arbitrary: i rule: findVersion.induct)
  case (3 v q vs)
  then show ?case by (cases "findVersion v vs") (auto split: if_splits)
qed auto

lemma findVersion_appended:
  "findVersion v vs = Returns None \<Longrightarrow> vp_Version p = v \<Longrightarrow> findVersion v (vs @ [Some p]) = Returns (Some (length vs))"
proof (induction v vs rule: findVersion.induct)
  case (3 v q vs)
  then show ?case by (cases "findVersion v vs") (auto split: if_splits)
qed auto

lemma rule_ok_update: "rule_ok r \<Longrightarrow> rule_ok (r\<lparr>ru_Versions := (ru_Versions r)[i := Some p]\<rparr>)"
  by (auto simp: rule_ok_def dest: set_update_subset_insert [THEN subsetD])

lemma rule_ok_append: "rule_ok r \<Longrightarrow> rule_ok (r\<lparr>ru_Versions := ru_Versions r @ [Some p]\<rparr>)"
  by (auto simp: rule_ok_def)

lemma dropVersion_ok:
  assumes "engine_ok e" and "map_of (en_rules e) k = Some r" and "i < length (ru_Versions r)"
  shows "engine_ok (dropVersion k r (Some i) e)"
proof -
  have r: "ru_ID r = k" "rule_ok r" using engine_ok_lookup [OF assms(1,2)] by simp_all
  have "None \<notin> set (take i (ru_Versions r) @ drop (Suc i) (ru_Versions r))"
    using r(2) by (auto simp: rule_ok_def dest: in_set_takeD in_set_dropD)
  with r assms(1,3) show ?thesis
    by (auto simp: dropVersion_def Let_def rule_ok_def intro!: engine_ok_update engine_ok_delete)
qed

lemma bumpExec_ok:
  assumes "engine_ok e"
  shows "engine_ok (bumpExec f k i e)"
proof (cases "map_of (en_rules e) k")
  case (Some r)
  then have r: "ru_ID r = k" "rule_ok r" using engine_ok_lookup [OF assms] by simp_all
  have "rule_ok (r\<lparr>ru_Versions := (ru_Versions r)[i := map_option g (ru_Versions r ! i)]\<rparr>)" for g
  proof (cases "i < length (ru_Versions r)")
    case True
    then obtain p where "ru_Versions r ! i = Some p" using r(2) by (cases "ru_Versions r ! i") (auto simp: rule_ok_def dest: nth_mem)
    with rule_ok_update [OF r(2)] show ?thesis by simp
  qed (use r(2) in \<open>simp add: rule_ok_def list_update_beyond not_less\<close>)
  with r show ?thesis using assms by (auto simp: bumpExec_def Some intro!: engine_ok_update)
qed (use assms in \<open>simp add: bumpExec_def\<close>)

datatype engine_event =
    EvDeploy string string
  | EvAddVersion string string bytes "64 word"
  | EvPromote string "64 word"
  | EvDrain string "64 word"
  | EvRemove string
  | EvStart string nat
  | EvDone string nat

fun engineStep :: "compiler \<Rightarrow> (bytes \<Rightarrow> 32 word) \<Rightarrow> Engine \<Rightarrow> engine_event \<Rightarrow> Engine" where
  "engineStep cmp score e (EvDeploy k dsl) = fst (snd (Deploy cmp k dsl e))"
| "engineStep cmp score e (EvAddVersion k dsl plan v) = snd (AddVersion score k dsl plan v e)"
| "engineStep cmp score e (EvPromote k v) = fst (snd (Promote k v e))"
| "engineStep cmp score e (EvDrain k v) = snd (Drain k v e)"
| "engineStep cmp score e (EvRemove k) = snd (Remove k e)"
| "engineStep cmp score e (EvStart k i) = bumpExec Suc k i e"
| "engineStep cmp score e (EvDone k i) = bumpExec (\<lambda>n. n - 1) k i e"

lemma Deploy_ok: "engine_ok e \<Longrightarrow> engine_ok (fst (snd (Deploy cmp k dsl e)))"
  using engine_ok_lookup [of e k]
  by (auto simp: Deploy_def Let_def saveRules_held rule_ok_def intro!: engine_ok_update split: sum.split option.split)

lemma AddVersion_ok: "engine_ok e \<Longrightarrow> engine_ok (snd (AddVersion score k dsl plan v e))"
  using engine_ok_lookup [of e k]
  by (auto simp: AddVersion_def Let_def saveRules_held rule_ok_append rule_ok_update
      intro!: engine_ok_update split: option.split eng.split) (simp add: rule_ok_def)+

lemma Promote_ok: "engine_ok e \<Longrightarrow> engine_ok (fst (snd (Promote k v e)))"
  using engine_ok_lookup [of e k]
  by (auto simp: Promote_def saveRules_held rule_ok_def dest: findVersion_found intro!: engine_ok_update split: option.split eng.split)

lemma Drain_ok: "engine_ok e \<Longrightarrow> engine_ok (snd (Drain k v e))"
  by (auto simp: Drain_def dest: findVersion_found intro: dropVersion_ok split: option.split eng.split)

lemma Remove_ok: "engine_ok e \<Longrightarrow> engine_ok (snd (Remove k e))"
  by (auto simp: Remove_def saveRules_held intro: engine_ok_delete split: option.split eng.split)

interpretation engine: machine "engineStep cmp score" engine_ok for cmp score
proof
  fix e ev
  assume "engine_ok e"
  then show "engine_ok (engineStep cmp score e ev)"
    by (cases ev) (simp_all add: Deploy_ok AddVersion_ok Promote_ok Drain_ok Remove_ok bumpExec_ok)
qed

lemma waitVersions_total: "None \<notin> set vs \<Longrightarrow> waitVersions vs \<in> {Returns (), Waits}"
  by (induction vs rule: waitVersions.induct) auto

lemma AddVersion_result:
  assumes "engine_ok e" and "en_persistPath e = []"
  obtains e1 r1 i where "AddVersion score k dsl plan v e = (Returns (), e1)" "map_of (en_rules e1) k = Some r1"
    "findVersion v (ru_Versions r1) = Returns (Some i)" "en_persistPath e1 = []"
    "ru_Versions r1 ! i = Some \<lparr>vp_Plan = plan, vp_DSL = dsl, vp_Version = v, vp_Lane = LaneForScore (score plan), vp_ActiveExec = 0\<rparr>"
proof (cases "map_of (en_rules e) k")
  case None
  then show ?thesis using that assms(2) by (simp add: AddVersion_def saveRules_held)
next
  case (Some r)
  obtain x where x: "findVersion v (ru_Versions r) = Returns x"
    using engine_ok_lookup [OF assms(1) Some] findVersion_total by (auto simp: rule_ok_def)
  show ?thesis
  proof (cases x)
    case None
    with x Some show ?thesis using that assms(2) by (simp add: AddVersion_def saveRules_held Let_def findVersion_appended)
  next
    case (Some i)
    with x \<open>map_of (en_rules e) k = Some r\<close> findVersion_found [of v "ru_Versions r" i] show ?thesis
      using that [of _ "r\<lparr>ru_Versions := _\<rparr>"] assms(2) by (simp add: AddVersion_def saveRules_held Let_def findVersion_replaced)
  qed
qed

lemma Promote_result:
  assumes "map_of (en_rules e) k = Some r" and "findVersion v (ru_Versions r) = Returns (Some i)" and "en_persistPath e = []"
  shows "Promote k v e = (Returns (), e\<lparr>en_rules := AList.update k (r\<lparr>ru_ActiveVersion := int i\<rparr>) (en_rules e)\<rparr>, [AfterPromote k v])"
    and "ActivePlan (r\<lparr>ru_ActiveVersion := int i\<rparr>) = ru_Versions r ! i"
  using assms findVersion_found [OF assms(2)] by (simp_all add: Promote_def saveRules_held ActivePlan_def)

subsection \<open>The file and the rules\<close>

definition saved_version :: "VersionedPlan \<Rightarrow> versionPersistence" where
  "saved_version v = \<lparr>pv_DSL = vp_DSL v, pv_Version = vp_Version v, pv_Lane = vp_Lane v\<rparr>"

definition saved_rule :: "Rule \<Rightarrow> rulePersistence" where
  "saved_rule r = \<lparr>pr_ID = ru_ID r, pr_Versions = map (saved_version \<circ> the) (ru_Versions r), pr_ActiveVersion = ru_ActiveVersion r\<rparr>"

text \<open>What is left of a rule after a restart: no execution is running, and some version is active.\<close>

definition restarted :: "Rule \<Rightarrow> Rule" where
  "restarted r = r\<lparr>ru_Versions := map (map_option (\<lambda>v. v\<lparr>vp_ActiveExec := 0\<rparr>)) (ru_Versions r),
     ru_ActiveVersion := (if ru_ActiveVersion r < 0 then int (length (ru_Versions r)) - 1 else ru_ActiveVersion r)\<rparr>"

definition recompiles :: "compiler \<Rightarrow> Rule \<Rightarrow> bool" where
  "recompiles cmp r \<longleftrightarrow> (\<forall>v. Some v \<in> set (ru_Versions r) \<longrightarrow> (\<exists>c. cmp (vp_DSL v) (ru_ID r) = Inr (vp_Plan v, c)))"

lemma persistVersions_saved: "None \<notin> set vs \<Longrightarrow> persistVersions vs = Returns (map (saved_version \<circ> the) vs)"
  by (induction vs rule: persistVersions.induct) (auto simp: saved_version_def)

lemma persistRules_saved: "\<forall>(k, r) \<in> set rs. rule_ok r \<Longrightarrow> persistRules rs = Returns (map (saved_rule \<circ> snd) rs)"
  by (induction rs rule: persistRules.induct) (auto simp: saved_rule_def rule_ok_def persistVersions_saved)

lemma update_fresh: "k \<notin> fst ` set m \<Longrightarrow> AList.update k v m = m @ [(k, v)]"
  by (induction m) auto

lemma loadVersion_saved:
  assumes "cmp (vp_DSL v) k = Inr (vp_Plan v, c)"
  shows "loadVersion cmp k (saved_version v) = Some (v\<lparr>vp_ActiveExec := 0\<rparr>)"
  using assms by (simp add: loadVersion_def saved_version_def)

lemma fold_versions:
  fixes n :: "64 word"
  defines "f \<equiv> \<lambda>m v. case v of None \<Rightarrow> m | Some p \<Rightarrow> max m (vp_Version p)"
  shows "n \<le> foldl f n vs \<and> (\<forall>v. Some v \<in> set vs \<longrightarrow> vp_Version v \<le> foldl f n vs)"
proof (induction vs arbitrary: n)
  case (Cons v vs)
  have "n \<le> f n v" "\<forall>p. v = Some p \<longrightarrow> vp_Version p \<le> f n v" by (auto simp: f_def split: option.split)
  with Cons [of "f n v"] show ?case by (auto intro: order_trans)
qed simp

lemma loadRule_saved:
  assumes "rule_ok r" and "recompiles cmp r" and "ru_ID r \<notin> fst ` set m"
  obtains n1 where "loadRule cmp (saved_rule r) (m, n) = (m @ [(ru_ID r, restarted r)], n1)" "n \<le> n1"
    "\<forall>v. Some v \<in> set (ru_Versions r) \<longrightarrow> vp_Version v \<le> n1"
proof -
  let ?g = "\<lambda>v. v\<lparr>vp_ActiveExec := 0\<rparr>"
  let ?vs = "map (map_option ?g) (ru_Versions r)"
  let ?f = "\<lambda>m v. case v of None \<Rightarrow> m | Some p \<Rightarrow> max m (vp_Version p)"
  have "loadVersion cmp (ru_ID r) (saved_version (the x)) = map_option ?g x" if "x \<in> set (ru_Versions r)" for x
    by (cases x) (use that assms(1,2) in \<open>auto simp: rule_ok_def recompiles_def intro: loadVersion_saved\<close>)
  then have vs: "map (loadVersion cmp (ru_ID r)) (map (saved_version \<circ> the) (ru_Versions r)) = ?vs" by simp
  have "loadRule cmp (saved_rule r) (m, n) = (m @ [(ru_ID r, restarted r)], foldl ?f n ?vs)"
    using assms(1,3) unfolding loadRule_def saved_rule_def restarted_def
    by (simp add: Let_def vs update_fresh rule_ok_def del: map_map)
  moreover have "vp_Version v \<le> foldl ?f n ?vs" if "Some v \<in> set (ru_Versions r)" for v
  proof -
    have "Some (?g v) \<in> set ?vs" using that by force
    with fold_versions [of n ?vs] have "vp_Version (?g v) \<le> foldl ?f n ?vs" by blast
    then show ?thesis by simp
  qed
  ultimately show ?thesis using that fold_versions [of n ?vs] by blast
qed

lemma loadRules_saved:
  assumes "\<forall>(k, r) \<in> set rs. ru_ID r = k \<and> rule_ok r \<and> recompiles cmp r" and "distinct (map fst (m @ rs))"
  shows "\<exists>n1. foldl (\<lambda>st r. loadRule cmp r st) (m, n) (map (saved_rule \<circ> snd) rs) = (m @ map (\<lambda>(k, r). (k, restarted r)) rs, n1) \<and>
    n \<le> n1 \<and> (\<forall>(k, r) \<in> set rs. \<forall>v. Some v \<in> set (ru_Versions r) \<longrightarrow> vp_Version v \<le> n1)"
  using assms
proof (induction rs arbitrary: m n)
  case (Cons kr rs)
  obtain k r where kr: "kr = (k, r)" by fastforce
  with Cons.prems have r: "ru_ID r = k" "rule_ok r" "recompiles cmp r" "ru_ID r \<notin> fst ` set m" by auto
  obtain n1 where n1: "loadRule cmp (saved_rule r) (m, n) = (m @ [(ru_ID r, restarted r)], n1)" "n \<le> n1"
    "\<forall>v. Some v \<in> set (ru_Versions r) \<longrightarrow> vp_Version v \<le> n1" using loadRule_saved [OF r(2-4)] by metis
  have dist: "distinct (map fst ((m @ [(k, restarted r)]) @ rs))" using Cons.prems(2) by (auto simp: kr)
  have "\<forall>(k, r) \<in> set rs. ru_ID r = k \<and> rule_ok r \<and> recompiles cmp r" using Cons.prems(1) by simp
  from Cons.IH [OF this dist, of n1] obtain n2 where
    "foldl (\<lambda>st r. loadRule cmp r st) (m @ [(k, restarted r)], n1) (map (saved_rule \<circ> snd) rs) =
       ((m @ [(k, restarted r)]) @ map (\<lambda>(k, r). (k, restarted r)) rs, n2)" "n1 \<le> n2"
    "\<forall>(k, r) \<in> set rs. \<forall>v. Some v \<in> set (ru_Versions r) \<longrightarrow> vp_Version v \<le> n2"
    by blast
  with n1 show ?case by (intro exI [of _ n2]) (auto simp: kr r(1) comp_def intro: order_trans)
qed simp

subsection \<open>Properties\<close>

text \<open>
  C6: In every engine that operations produce from a new one without a file, each rule has a version and an active
  version in range or none, and no operation or query panics: promoting, draining and removing answer, fail or
  wait for a running execution.
\<close>

theorem engine_safe:
  assumes "e = foldl (engineStep cmp score) (NewWithCompiler cmp [] None) evs"
  shows "engine_ok e \<and> fst (AddVersion score k dsl plan v e) \<noteq> Panics \<and> fst (Promote k v e) \<noteq> Panics \<and>
    fst (Drain k v e) \<noteq> Panics \<and> fst (Remove k e) \<noteq> Panics \<and> GetRule k e \<noteq> Panics"
proof -
  have "engine_ok (NewWithCompiler cmp [] None)" by (simp add: NewWithCompiler_def engine_ok_def)
  then have ok: "engine_ok e" unfolding assms by (rule engine.run_inv)
  have "fst (AddVersion score k dsl plan v e) \<noteq> Panics \<and> fst (Promote k v e) \<noteq> Panics \<and> fst (Drain k v e) \<noteq> Panics \<and>
      fst (Remove k e) \<noteq> Panics"
  proof (cases "map_of (en_rules e) k")
    case None
    then show ?thesis by (simp add: AddVersion_def Promote_def Drain_def Remove_def saveRules_held)
  next
    case (Some r)
    have vs: "None \<notin> set (ru_Versions r)" using engine_ok_lookup [OF ok Some] by (simp add: rule_ok_def)
    obtain x where x: "findVersion v (ru_Versions r) = Returns x" using findVersion_total [OF vs] by blast
    have "waitVersions (ru_Versions r) \<in> {Returns (), Waits}" by (rule waitVersions_total [OF vs])
    with Some x show ?thesis using findVersion_found [of v "ru_Versions r"]
      by (cases x) (auto simp: AddVersion_def Promote_def Drain_def Remove_def saveRules_held Let_def split: if_splits)
  qed
  moreover have "GetRule k e \<noteq> Panics"
  proof (cases "find (\<lambda>r. ru_ID r = k) (Rules e)")
    case (Some r)
    then have "r \<in> set (Rules e)" by (metis find_Some_iff nth_mem)
    then have r: "rule_ok r" using ok by (auto simp: Rules_def engine_ok_def)
    have "ru_Versions r ! nat (ru_ActiveVersion r) \<noteq> None" if "0 \<le> ru_ActiveVersion r"
    proof -
      have "nat (ru_ActiveVersion r) < length (ru_Versions r)" using that r by (auto simp: rule_ok_def nat_less_iff)
      from nth_mem [OF this] r show ?thesis by (metis rule_ok_def)
    qed
    with Some show ?thesis by (auto simp: GetRule_def split: option.splits)
  qed (simp add: GetRule_def)
  ultimately show ?thesis using ok by blast
qed

theorem engine_safe_witness:
  "fst (Drain ''r'' 1 (foldl (engineStep (\<lambda>dsl k. Inr (dsl, 3)) (\<lambda>_. 0)) (NewWithCompiler (\<lambda>dsl k. Inr (dsl, 3)) [] None)
     [EvDeploy ''r'' ''n:a'', EvStart ''r'' 0])) \<noteq> Panics"
  using engine_safe [OF refl, of "\<lambda>dsl k. Inr (dsl, 3)" "\<lambda>_. 0" "[EvDeploy ''r'' ''n:a'', EvStart ''r'' 0]" "''r''" "[]" "[]" 1] by blast

text \<open>
  A deployed rule runs the plan of its text at once, under a new version number, in the lane of its score, and other
  rules are not touched; every version that is not removed can be made active again: promoting it activates the
  first version with that number.
\<close>

lemma Deploy_Promote:
  assumes "en_persistPath e = []" and "cmp dsl k = Inr (plan, c)" and "Deploy cmp k dsl e = (out, e1, notes)"
  shows "out = Returns () \<and> notes = [AfterDeploy k dsl plan (en_nextVersion e + 1)] \<and>
    (\<exists>r1. map_of (en_rules e1) k = Some r1 \<and>
      ActivePlan r1 = Some \<lparr>vp_Plan = plan, vp_DSL = dsl, vp_Version = en_nextVersion e + 1, vp_Lane = LaneForScore c, vp_ActiveExec = 0\<rparr> \<and>
      (\<forall>r. map_of (en_rules e) k = Some r \<longrightarrow> butlast (ru_Versions r1) = ru_Versions r) \<and>
      (\<forall>v i. findVersion v (ru_Versions r1) = Returns (Some i) \<longrightarrow>
        (\<exists>e2 r2. Promote k v e1 = (Returns (), e2, [AfterPromote k v]) \<and> map_of (en_rules e2) k = Some r2 \<and>
          ActivePlan r2 = ru_Versions r1 ! i))) \<and>
    (\<forall>k2. k2 \<noteq> k \<longrightarrow> map_of (en_rules e1) k2 = map_of (en_rules e) k2)"
proof -
  define vp where "vp = \<lparr>vp_Plan = plan, vp_DSL = dsl, vp_Version = en_nextVersion e + 1, vp_Lane = LaneForScore c, vp_ActiveExec = 0\<rparr>"
  define r where "r = (case map_of (en_rules e) k of None \<Rightarrow> \<lparr>ru_ID = k, ru_Versions = [], ru_ActiveVersion = 0\<rparr> | Some r \<Rightarrow> r)"
  define r1 where "r1 = r\<lparr>ru_Versions := ru_Versions r @ [Some vp], ru_ActiveVersion := int (length (ru_Versions r))\<rparr>"
  have d: "out = Returns ()" "notes = [AfterDeploy k dsl plan (en_nextVersion e + 1)]"
    "e1 = e\<lparr>en_rules := AList.update k r1 (en_rules e), en_nextVersion := en_nextVersion e + 1\<rparr>"
    using assms by (simp_all add: Deploy_def Let_def saveRules_held vp_def r_def r1_def)
  have "\<exists>e2 r2. Promote k v e1 = (Returns (), e2, [AfterPromote k v]) \<and> map_of (en_rules e2) k = Some r2 \<and> ActivePlan r2 = ru_Versions r1 ! i"
    if "findVersion v (ru_Versions r1) = Returns (Some i)" for v i
    using Promote_result [of e1 k r1 v i] that assms(1) by (simp add: d(3))
  moreover have "ActivePlan r1 = Some vp" by (simp add: ActivePlan_def r1_def)
  moreover have "butlast (ru_Versions r1) = ru_Versions r'" if "map_of (en_rules e) k = Some r'" for r'
    using that by (simp add: r1_def r_def)
  ultimately show ?thesis using d by (intro conjI exI [of _ r1]) (simp_all add: vp_def)
qed





end
