(* ===== verification/Plan_Dist.thy ===== *)
theory Plan_Dist
  imports Rule_Engine
begin

text \<open>
  The distribution of plans over the cluster, of \<^verbatim>\<open>server/internal/plandist\<close>, and the handlers of
  \<^verbatim>\<open>server/internal/node/lifecycle.go\<close> and \<^verbatim>\<open>messages.go\<close> that connect it to the engine.  An operation that sends a
  message returns it; whether the transport fails is only logged.  Waiting for acknowledgements is three parts (the
  number that is needed and the entry, the acknowledgements that arrive, the end), because the acknowledgements
  are handled by another goroutine in between.
\<close>

subsection \<open>The distributor\<close>

record PlanMessage =
  pl_Type :: string
  pl_RuleID :: string
  pl_Version :: "64 word"
  pl_Term :: "64 word"
  pl_Plan :: bytes
  pl_DSL :: string
  pl_NodeID :: string

record AckMessage =
  ak_NodeID :: string
  ak_RuleID :: string
  ak_Version :: "64 word"
  ak_Status :: string

text \<open>The channel of a pending entry holds one number; the counter and the number needed have 32 bits and a sign.\<close>

record pendingAck =
  pa_done :: "int option"
  pa_received :: "32 word"
  pa_quorum :: "32 word"

record PlanDistributor =
  pd_nodeID :: string
  pd_planProducer :: bool
  pd_ackProducer :: bool
  pd_pendingAcks :: "(string, pendingAck) gomap"
  pd_clusterTerm :: "64 word"
  pd_quorumProvider :: bool
  pd_started :: bool
  pd_stopClosed :: bool

definition NewPlanDistributor :: "string \<Rightarrow> PlanDistributor" where
  "NewPlanDistributor nodeID =
     \<lparr>pd_nodeID = nodeID, pd_planProducer = False, pd_ackProducer = False, pd_pendingAcks = [], pd_clusterTerm = 0,
      pd_quorumProvider = False, pd_started = False, pd_stopClosed = False\<rparr>"

definition WithPlanProducer :: "PlanDistributor \<Rightarrow> PlanDistributor" where
  "WithPlanProducer pd = pd\<lparr>pd_planProducer := True\<rparr>"

definition WithAckProducer :: "PlanDistributor \<Rightarrow> PlanDistributor" where
  "WithAckProducer pd = pd\<lparr>pd_ackProducer := True\<rparr>"

definition WithQuorumProvider :: "PlanDistributor \<Rightarrow> PlanDistributor" where
  "WithQuorumProvider pd = pd\<lparr>pd_quorumProvider := True\<rparr>"

definition WithClusterTerm :: "64 word \<Rightarrow> PlanDistributor \<Rightarrow> PlanDistributor" where
  "WithClusterTerm term pd = pd\<lparr>pd_clusterTerm := term\<rparr>"

definition Start :: "PlanDistributor \<Rightarrow> PlanDistributor" where
  "Start pd = (if pd_started pd then pd else pd\<lparr>pd_started := True\<rparr>)"

text \<open>The stop channel is made once; closing it a second time panics.\<close>

definition Stop :: "PlanDistributor \<Rightarrow> unit eng \<times> PlanDistributor" where
  "Stop pd =
     (if \<not> pd_started pd then (Returns (), pd)
      else if pd_stopClosed pd then (Panics, pd)
      else (Returns (), pd\<lparr>pd_stopClosed := True, pd_started := False\<rparr>))"

definition SetTerm :: "64 word \<Rightarrow> PlanDistributor \<Rightarrow> PlanDistributor" where
  "SetTerm term pd = pd\<lparr>pd_clusterTerm := term\<rparr>"

definition CurrentTerm :: "PlanDistributor \<Rightarrow> 64 word" where
  "CurrentTerm pd = pd_clusterTerm pd"

definition publishMessage ::
  "string \<Rightarrow> string \<Rightarrow> 64 word \<Rightarrow> bytes \<Rightarrow> string \<Rightarrow> PlanDistributor \<Rightarrow> string + PlanMessage" where
  "publishMessage msgType ruleID version plan dsl pd =
     (if pd_planProducer pd
      then Inr \<lparr>pl_Type = msgType, pl_RuleID = ruleID, pl_Version = version, pl_Term = pd_clusterTerm pd, pl_Plan = plan,
                pl_DSL = dsl, pl_NodeID = pd_nodeID pd\<rparr>
      else Inl ''plandist: no plan producer configured'')"

definition PublishPlan :: "string \<Rightarrow> 64 word \<Rightarrow> bytes \<Rightarrow> string \<Rightarrow> PlanDistributor \<Rightarrow> string + PlanMessage" where
  "PublishPlan ruleID version plan dsl pd = publishMessage ''plan'' ruleID version plan dsl pd"

definition ActivatePlan :: "string \<Rightarrow> 64 word \<Rightarrow> PlanDistributor \<Rightarrow> string + PlanMessage" where
  "ActivatePlan ruleID version pd = publishMessage ''activate'' ruleID version [] [] pd"

definition DeactivatePlan :: "string \<Rightarrow> PlanDistributor \<Rightarrow> string + PlanMessage" where
  "DeactivatePlan ruleID pd = publishMessage ''deactivate'' ruleID 0 [] [] pd"

definition SendAck :: "string \<Rightarrow> 64 word \<Rightarrow> string \<Rightarrow> PlanDistributor \<Rightarrow> string + AckMessage" where
  "SendAck ruleID version status pd =
     (if pd_ackProducer pd
      then Inr \<lparr>ak_NodeID = pd_nodeID pd, ak_RuleID = ruleID, ak_Version = version, ak_Status = status\<rparr>
      else Inl ''plandist: no ACK producer configured'')"

definition ackKey :: "string \<Rightarrow> 64 word \<Rightarrow> string" where
  "ackKey ruleID version = ruleID @ '':'' @ dec (unat version)"

text \<open>
  The number of acknowledgements to wait for: \<open>None\<close> when there is nothing to wait for.  \<open>alive\<close> is the answer of the
  quorum provider.
\<close>

definition resolveQuorum :: "int \<Rightarrow> int \<Rightarrow> PlanDistributor \<Rightarrow> string + int option" where
  "resolveQuorum quorum alive pd =
     (if quorum \<le> 0 then
        if pd_quorumProvider pd then
          if alive > 1 then Inr (Some (if quorum = 0 then (alive - 1) div 2 + 1 else alive - 1))
          else Inr None
        else Inl ''plandist: QuorumProvider not configured, cannot determine quorum''
      else Inr (Some quorum))"

definition waitBegin :: "string \<Rightarrow> 64 word \<Rightarrow> int \<Rightarrow> PlanDistributor \<Rightarrow> PlanDistributor" where
  "waitBegin ruleID version quorum pd =
     pd\<lparr>pd_pendingAcks := AList.update (ackKey ruleID version) \<lparr>pa_done = None, pa_received = 0, pa_quorum = word_of_int quorum\<rparr>
         (pd_pendingAcks pd)\<rparr>"

definition handleAck :: "AckMessage \<Rightarrow> PlanDistributor \<Rightarrow> PlanDistributor" where
  "handleAck ack pd =
     (let key = ackKey (ak_RuleID ack) (ak_Version ack)
      in case map_of (pd_pendingAcks pd) key of
           None \<Rightarrow> pd
         | Some pa \<Rightarrow>
             let n = pa_received pa + 1;
                 d = (if sint n \<ge> sint (pa_quorum pa) \<and> pa_done pa = None then Some (sint n) else pa_done pa)
             in pd\<lparr>pd_pendingAcks := AList.update key (pa\<lparr>pa_received := n, pa_done := d\<rparr>) (pd_pendingAcks pd)\<rparr>)"

definition RecordAck :: "AckMessage \<Rightarrow> PlanDistributor \<Rightarrow> PlanDistributor" where
  "RecordAck msg pd = handleAck msg pd"

text \<open>
  The end of the wait, when the channel has a number or the time is over; when both hold the runtime chooses, which
  is the first argument.
\<close>

definition waitEnd :: "bool \<Rightarrow> string \<Rightarrow> 64 word \<Rightarrow> int \<Rightarrow> PlanDistributor \<Rightarrow> unit eng \<times> PlanDistributor" where
  "waitEnd timedOut ruleID version quorum pd =
     (let key = ackKey ruleID version; pd1 = pd\<lparr>pd_pendingAcks := AList.delete key (pd_pendingAcks pd)\<rparr>
      in case map_option pa_done (map_of (pd_pendingAcks pd) key) of
           Some (Some n) \<Rightarrow>
             if timedOut then (Fails ''plandist: ack timeout'', pd1)
             else if n \<ge> quorum then (Returns (), pd1)
             else (Fails ''plandist: insufficient acks'', pd1)
         | _ \<Rightarrow> if timedOut then (Fails ''plandist: ack timeout'', pd1) else (Waits, pd))"

definition WaitForAcks ::
  "string \<Rightarrow> 64 word \<Rightarrow> int \<Rightarrow> int \<Rightarrow> AckMessage list \<Rightarrow> bool \<Rightarrow> PlanDistributor \<Rightarrow> unit eng \<times> PlanDistributor" where
  "WaitForAcks ruleID version quorum alive acks timedOut pd =
     (case resolveQuorum quorum alive pd of
        Inl e \<Rightarrow> (Fails e, pd)
      | Inr None \<Rightarrow> (Returns (), pd)
      | Inr (Some q) \<Rightarrow> waitEnd timedOut ruleID version q (fold handleAck acks (waitBegin ruleID version q pd)))"

subsection \<open>The node\<close>

text \<open>
  A leadership token: whether the node is the leader, and its term.  What Raft says is given as such a pair, or \<open>None\<close> when
  Raft is not configured, for the moment a handler captures its token and for the moment it checks it again.
\<close>

record LeadershipToken =
  lt_Leader :: bool
  lt_Term :: "64 word"

definition Valid :: "LeadershipToken \<Rightarrow> bool" where
  "Valid lt \<longleftrightarrow> lt_Leader lt \<and> lt_Term lt > 0"

definition CaptureLeadershipToken :: "LeadershipToken option \<Rightarrow> LeadershipToken" where
  "CaptureLeadershipToken raft = (case raft of Some rc \<Rightarrow> rc | None \<Rightarrow> \<lparr>lt_Leader = True, lt_Term = 0\<rparr>)"

definition raftValidate :: "LeadershipToken \<Rightarrow> LeadershipToken \<Rightarrow> bool" where
  "raftValidate current token \<longleftrightarrow> Valid token \<and> lt_Leader current \<and> lt_Term current = lt_Term token"

definition ValidateLeadershipToken :: "LeadershipToken option \<Rightarrow> LeadershipToken \<Rightarrow> bool" where
  "ValidateLeadershipToken raft token = (case raft of Some rc \<Rightarrow> raftValidate rc token | None \<Rightarrow> Valid token)"

record PlanNode =
  no_Engine :: Engine
  no_PlanDist :: PlanDistributor

definition sentPlan :: "string + PlanMessage \<Rightarrow> PlanMessage list" where
  "sentPlan r = (case r of Inl _ \<Rightarrow> [] | Inr m \<Rightarrow> [m])"

text \<open>The messages of a deployment: the plan, and then, whatever became of the wait, its activation.\<close>

definition distributePlan ::
  "string \<Rightarrow> string \<Rightarrow> bytes \<Rightarrow> 64 word \<Rightarrow> int \<Rightarrow> AckMessage list \<Rightarrow> bool \<Rightarrow> PlanDistributor \<Rightarrow> PlanMessage list \<times> PlanDistributor" where
  "distributePlan k dsl plan version alive acks timedOut pd =
     (case PublishPlan k version plan dsl pd of
        Inl _ \<Rightarrow> ([], pd)
      | Inr m \<Rightarrow>
          (case WaitForAcks k version 0 alive acks timedOut pd of
             (_, pd1) \<Rightarrow> (m # sentPlan (ActivatePlan k version pd1), pd1)))"

definition distributeActivate :: "string \<Rightarrow> 64 word \<Rightarrow> PlanDistributor \<Rightarrow> PlanMessage list" where
  "distributeActivate k version pd = sentPlan (ActivatePlan k version pd)"

definition handleEngineDeploy ::
  "LeadershipToken option \<Rightarrow> LeadershipToken option \<Rightarrow> string \<Rightarrow> string \<Rightarrow> bytes \<Rightarrow> 64 word \<Rightarrow> int \<Rightarrow> AckMessage list \<Rightarrow> bool \<Rightarrow>
    PlanDistributor \<Rightarrow> PlanMessage list \<times> PlanDistributor" where
  "handleEngineDeploy raft1 raft2 k dsl plan version alive acks timedOut pd =
     (let token = CaptureLeadershipToken raft1
      in if \<not> Valid token then ([], pd)
         else
           let pd1 = SetTerm (lt_Term token) pd
           in if \<not> ValidateLeadershipToken raft2 token then ([], pd1)
              else distributePlan k dsl plan version alive acks timedOut pd1)"

definition handleEnginePromote ::
  "LeadershipToken option \<Rightarrow> LeadershipToken option \<Rightarrow> string \<Rightarrow> 64 word \<Rightarrow> PlanDistributor \<Rightarrow> PlanMessage list" where
  "handleEnginePromote raft1 raft2 k version pd =
     (let token = CaptureLeadershipToken raft1
      in if \<not> Valid token then [] else if \<not> ValidateLeadershipToken raft2 token then [] else distributeActivate k version pd)"

definition handlePlanMessage ::
  "(bytes \<Rightarrow> 32 word) \<Rightarrow> LeadershipToken option \<Rightarrow> LeadershipToken option \<Rightarrow> PlanMessage \<Rightarrow> PlanNode \<Rightarrow>
    unit eng \<times> PlanNode \<times> PlanMessage list \<times> AckMessage list" where
  "handlePlanMessage score raft1 raft2 pm n =
     (if pl_Term pm < CurrentTerm (no_PlanDist n) then (Returns (), n, [], [])
      else if pl_Type pm = ''plan'' then
        (case AddVersion score (pl_RuleID pm) (pl_DSL pm) (pl_Plan pm) (pl_Version pm) (no_Engine n) of
           (Returns _, e1) \<Rightarrow>
             (Returns (), n\<lparr>no_Engine := e1\<rparr>, [],
              case SendAck (pl_RuleID pm) (pl_Version pm) ''ok'' (no_PlanDist n) of Inl _ \<Rightarrow> [] | Inr a \<Rightarrow> [a])
         | (out, e1) \<Rightarrow> (out, n\<lparr>no_Engine := e1\<rparr>, [], []))
      else if pl_Type pm = ''activate'' then
        (case Promote (pl_RuleID pm) (pl_Version pm) (no_Engine n) of
           (Returns _, e1, _) \<Rightarrow>
             (Returns (), n\<lparr>no_Engine := e1\<rparr>,
              handleEnginePromote raft1 raft2 (pl_RuleID pm) (pl_Version pm) (no_PlanDist n), [])
         | (Fails _, e1, _) \<Rightarrow> (Returns (), n\<lparr>no_Engine := e1\<rparr>, [], [])
         | (out, e1, _) \<Rightarrow> (out, n\<lparr>no_Engine := e1\<rparr>, [], []))
      else (Returns (), n, [], []))"

definition handleAckMessage :: "AckMessage \<Rightarrow> PlanNode \<Rightarrow> PlanNode" where
  "handleAckMessage am n = n\<lparr>no_PlanDist := RecordAck am (no_PlanDist n)\<rparr>"

subsection \<open>Counting acknowledgements\<close>

lemma ackKey_inject: "ackKey r v = ackKey r' v' \<longleftrightarrow> r = r' \<and> v = v'"
proof
  assume eq: "ackKey r v = ackKey r' v'"
  have last: "takeWhile (\<lambda>c. c \<noteq> CHR '':'') (rev (ackKey r v)) = rev (dec (unat v))" for r v
    using dec_no_colon [of "unat v"] by (simp add: ackKey_def) (subst takeWhile_append2, auto)
  from last [of r v] last [of r' v'] eq have "dec (unat v) = dec (unat v')" by simp
  then have "v = v'" by (simp add: unsigned_word_eqI)
  with eq show "r = r' \<and> v = v'" by (simp add: ackKey_def)
qed simp

lemma sint_nat: "n < 2 ^ 31 \<Longrightarrow> sint (word_of_nat n :: 32 word) = int n"
  using signed_of_int [where 'a = int and 'b = 32, of "int n"] by (simp add: signed_take_bit_int_eq_self)

lemma sint_int: "0 \<le> q \<Longrightarrow> q < 2 ^ 31 \<Longrightarrow> sint (word_of_int q :: 32 word) = q"
  using sint_nat [of "nat q"] by simp

definition counted :: "string \<Rightarrow> 64 word \<Rightarrow> AckMessage list \<Rightarrow> nat" where
  "counted k v acks = length (filter (\<lambda>a. ak_RuleID a = k \<and> ak_Version a = v) acks)"

definition entry :: "nat \<Rightarrow> int \<Rightarrow> pendingAck" where
  "entry m q = \<lparr>pa_done = (if q \<le> int m then Some q else None), pa_received = word_of_nat m, pa_quorum = word_of_int q\<rparr>"

lemma handleAck_entry:
  assumes "map_of (pd_pendingAcks pd) (ackKey k v) = Some (entry m q)" and "m + 1 < 2 ^ 31" and "1 \<le> q" and "q < 2 ^ 31"
  shows "map_of (pd_pendingAcks (handleAck a pd)) (ackKey k v) = Some (entry (if ak_RuleID a = k \<and> ak_Version a = v then m + 1 else m) q)"
proof (cases "ak_RuleID a = k \<and> ak_Version a = v")
  case True
  have "sint (word_of_nat m + 1 :: 32 word) = int m + 1" using sint_nat [of "m + 1"] assms(2) by (simp add: add.commute)
  with True assms sint_int [of q] show ?thesis by (auto simp: handleAck_def entry_def Let_def add.commute)
next
  case False
  then have "ackKey (ak_RuleID a) (ak_Version a) \<noteq> ackKey k v" by (simp add: ackKey_inject)
  with False assms(1) show ?thesis by (auto simp: handleAck_def Let_def split: option.split)
qed

lemma fold_handleAck:
  "map_of (pd_pendingAcks pd) (ackKey k v) = Some (entry m q) \<Longrightarrow> m + length acks < 2 ^ 31 \<Longrightarrow> 1 \<le> q \<Longrightarrow> q < 2 ^ 31 \<Longrightarrow>
    map_of (pd_pendingAcks (fold handleAck acks pd)) (ackKey k v) = Some (entry (m + counted k v acks) q)"
proof (induction acks arbitrary: pd m)
  case (Cons a acks)
  let ?m = "if ak_RuleID a = k \<and> ak_Version a = v then m + 1 else m"
  have "map_of (pd_pendingAcks (handleAck a pd)) (ackKey k v) = Some (entry ?m q)"
    by (rule handleAck_entry) (use Cons.prems in auto)
  from Cons.IH [OF this] Cons.prems have
    "map_of (pd_pendingAcks (fold handleAck acks (handleAck a pd))) (ackKey k v) = Some (entry (?m + counted k v acks) q)"
    by (auto split: if_splits)
  then show ?case by (auto simp: counted_def)
qed (simp add: counted_def)

lemma WaitForAcks_frame:
  "pd_planProducer (snd (WaitForAcks k v q alive acks timedOut pd)) = pd_planProducer pd \<and>
   pd_clusterTerm (snd (WaitForAcks k v q alive acks timedOut pd)) = pd_clusterTerm pd"
proof -
  have "pd_planProducer (fold handleAck acks pd) = pd_planProducer pd \<and> pd_clusterTerm (fold handleAck acks pd) = pd_clusterTerm pd" for pd
    by (induction acks arbitrary: pd) (auto simp: handleAck_def Let_def split: option.split)
  then show ?thesis by (auto simp: WaitForAcks_def waitEnd_def waitBegin_def Let_def split: sum.split option.split)
qed

subsection \<open>Properties\<close>

text \<open>
  C31: Waiting for acknowledgements ends without an error exactly when the needed number of acknowledgements of this
  rule and version has arrived before the time is over, whatever other acknowledgements arrive; the number needed by
  default is more than half of the other nodes, and never more than there are.  Acknowledgements are counted
  as they come: neither their sender nor their status is looked at.
\<close>

theorem WaitForAcks_quorum:
  assumes "resolveQuorum quorum alive pd = Inr (Some q)" and "quorum < 2 ^ 31" and "alive < 2 ^ 31" and "length acks < 2 ^ 31"
  shows "fst (WaitForAcks k v quorum alive acks timedOut pd) =
      (if timedOut then Fails ''plandist: ack timeout'' else if q \<le> int (counted k v acks) then Returns () else Waits) \<and>
    (quorum = 0 \<longrightarrow> alive - 1 < 2 * q \<and> q \<le> alive - 1)"
proof -
  have q: "1 \<le> q" "q < 2 ^ 31" using assms by (auto simp: resolveQuorum_def split: if_splits)
  have maj: "alive - 1 < 2 * q \<and> q \<le> alive - 1" if "quorum = 0"
    using assms(1) that by (auto simp: resolveQuorum_def split: if_splits)
  have "map_of (pd_pendingAcks (waitBegin k v q pd)) (ackKey k v) = Some (entry 0 q)" using q by (simp add: waitBegin_def entry_def)
  from fold_handleAck [OF this, of acks] q assms(4)
  have "map_of (pd_pendingAcks (fold handleAck acks (waitBegin k v q pd))) (ackKey k v) = Some (entry (counted k v acks) q)" by simp
  with maj assms(1) show ?thesis by (auto simp: WaitForAcks_def waitEnd_def Let_def entry_def)
qed

theorem WaitForAcks_quorum_witness:
  "fst (WaitForAcks ''r'' 1 0 4 (replicate 2 \<lparr>ak_NodeID = ''b'', ak_RuleID = ''r'', ak_Version = 1, ak_Status = ''ok''\<rparr>) False
     (WithQuorumProvider (NewPlanDistributor ''a''))) = Returns ()"
proof -
  have "resolveQuorum 0 4 (WithQuorumProvider (NewPlanDistributor ''a'')) = Inr (Some 2)"
    by (simp add: resolveQuorum_def WithQuorumProvider_def)
  from WaitForAcks_quorum [OF this, of "replicate 2 \<lparr>ak_NodeID = ''b'', ak_RuleID = ''r'', ak_Version = 1, ak_Status = ''ok''\<rparr>" "''r''" 1 False]
  show ?thesis by (simp add: counted_def)
qed

text \<open>
  C3: A deployment of a leader publishes the plan and its activation, both under the term of the leader, and a
  follower that is not at a later term and handles the two messages in this order acknowledges the version and
  runs exactly the plan the leader deployed, under the same version number.  The activation is published whatever
  became of the acknowledgements, also when none has arrived in time.
\<close>

theorem deployment_reaches_follower:
  assumes "en_persistPath e = []" and "cmp dsl k = Inr (plan, c)" and "Deploy cmp k dsl e = (out, e1, notes)"
    and "Valid token" and "pd_planProducer pd"
    and "handleEngineDeploy (Some token) (Some token) k dsl plan (en_nextVersion e + 1) alive acks timedOut pd = (msgs, pd1)"
    and "engine_ok (no_Engine f)" and "en_persistPath (no_Engine f) = []" and "CurrentTerm (no_PlanDist f) \<le> lt_Term token"
    and "pd_ackProducer (no_PlanDist f)" and "\<not> lt_Leader other"
  shows "notes = [AfterDeploy k dsl plan (en_nextVersion e + 1)] \<and>
    (\<exists>m1 m2 f1 f2 r. msgs = [m1, m2] \<and>
      handlePlanMessage score (Some other) again m1 f =
        (Returns (), f1, [], [\<lparr>ak_NodeID = pd_nodeID (no_PlanDist f), ak_RuleID = k, ak_Version = en_nextVersion e + 1, ak_Status = ''ok''\<rparr>]) \<and>
      handlePlanMessage score (Some other) again m2 f1 = (Returns (), f2, [], []) \<and>
      map_of (en_rules (no_Engine f2)) k = Some r \<and>
      ActivePlan r = Some \<lparr>vp_Plan = plan, vp_DSL = dsl, vp_Version = en_nextVersion e + 1, vp_Lane = LaneForScore (score plan), vp_ActiveExec = 0\<rparr>)"
proof -
  let ?v = "en_nextVersion e + 1" and ?pd = "SetTerm (lt_Term token) pd"
  obtain m1 m2 where msgs: "msgs = [m1, m2]"
    and m1: "m1 = \<lparr>pl_Type = ''plan'', pl_RuleID = k, pl_Version = ?v, pl_Term = lt_Term token, pl_Plan = plan, pl_DSL = dsl, pl_NodeID = pd_nodeID pd\<rparr>"
    and m2: "pl_Type m2 = ''activate''" "pl_RuleID m2 = k" "pl_Version m2 = ?v" "pl_Term m2 = lt_Term token"
    using assms(4,5,6) WaitForAcks_frame [of k ?v 0 alive acks timedOut ?pd]
    by (auto simp: handleEngineDeploy_def distributePlan_def PublishPlan_def ActivatePlan_def publishMessage_def SetTerm_def sentPlan_def
        Let_def CaptureLeadershipToken_def ValidateLeadershipToken_def raftValidate_def Valid_def split: prod.splits)
  obtain e2 r1 i where add: "AddVersion score k dsl plan ?v (no_Engine f) = (Returns (), e2)" "map_of (en_rules e2) k = Some r1"
    "findVersion ?v (ru_Versions r1) = Returns (Some i)" "en_persistPath e2 = []"
    "ru_Versions r1 ! i = Some \<lparr>vp_Plan = plan, vp_DSL = dsl, vp_Version = ?v, vp_Lane = LaneForScore (score plan), vp_ActiveExec = 0\<rparr>"
    using AddVersion_result [OF assms(7,8)] by metis
  note promote = Promote_result [OF add(2,3,4)]
  have "handlePlanMessage score (Some other) again m1 f =
      (Returns (), f\<lparr>no_Engine := e2\<rparr>, [], [\<lparr>ak_NodeID = pd_nodeID (no_PlanDist f), ak_RuleID = k, ak_Version = ?v, ak_Status = ''ok''\<rparr>])"
    using assms(9,10) add(1) by (simp add: handlePlanMessage_def m1 SendAck_def not_less)
  moreover define f2 where
    "f2 = f\<lparr>no_Engine := e2\<lparr>en_rules := AList.update k (r1\<lparr>ru_ActiveVersion := int i\<rparr>) (en_rules e2)\<rparr>\<rparr>"
  have "handlePlanMessage score (Some other) again m2 (f\<lparr>no_Engine := e2\<rparr>) = (Returns (), f2, [], [])"
    using assms(9,11) by (simp add: handlePlanMessage_def m2 promote(1) handleEnginePromote_def not_less f2_def CaptureLeadershipToken_def Valid_def)
  moreover have "map_of (en_rules (no_Engine f2)) k = Some (r1\<lparr>ru_ActiveVersion := int i\<rparr>)" by (simp add: f2_def)
  moreover have "notes = [AfterDeploy k dsl plan ?v]" using assms(1,2,3) by (auto simp: Deploy_def Let_def saveRules_held)
  ultimately show ?thesis using msgs promote(2) add(5) by metis
qed

theorem deployment_reaches_follower_witness:
  "\<exists>msgs pd1 m1 m2 f1 f2 r.
     handleEngineDeploy (Some \<lparr>lt_Leader = True, lt_Term = 1\<rparr>) (Some \<lparr>lt_Leader = True, lt_Term = 1\<rparr>) ''r'' ''n:a'' ''n:a'' 1 3 [] True
       (WithQuorumProvider (WithPlanProducer (NewPlanDistributor ''a''))) = (msgs, pd1) \<and> msgs = [m1, m2] \<and>
     handlePlanMessage (\<lambda>_. 0) (Some \<lparr>lt_Leader = False, lt_Term = 1\<rparr>) None m1
       \<lparr>no_Engine = NewWithCompiler (\<lambda>_ _. Inl []) [] None, no_PlanDist = WithAckProducer (NewPlanDistributor ''b'')\<rparr> =
       (Returns (), f1, [], [\<lparr>ak_NodeID = ''b'', ak_RuleID = ''r'', ak_Version = 1, ak_Status = ''ok''\<rparr>]) \<and>
     handlePlanMessage (\<lambda>_. 0) (Some \<lparr>lt_Leader = False, lt_Term = 1\<rparr>) None m2 f1 = (Returns (), f2, [], []) \<and>
     map_of (en_rules (no_Engine f2)) ''r'' = Some r \<and> map_option vp_Plan (ActivePlan r) = Some ''n:a''"
proof -
  let ?cmp = "\<lambda>dsl k. Inr (dsl, 3)" and ?e = "NewWithCompiler (\<lambda>_ _. Inl []) [] None"
  let ?token = "\<lparr>lt_Leader = True, lt_Term = 1\<rparr>" and ?other = "\<lparr>lt_Leader = False, lt_Term = 1\<rparr>"
  let ?pd = "WithQuorumProvider (WithPlanProducer (NewPlanDistributor ''a''))"
  let ?f = "\<lparr>no_Engine = ?e, no_PlanDist = WithAckProducer (NewPlanDistributor ''b'')\<rparr>"
  note eval = NewWithCompiler_def NewPlanDistributor_def WithPlanProducer_def WithAckProducer_def WithQuorumProvider_def
    engine_ok_def CurrentTerm_def Valid_def
  obtain out e1 ns where d: "Deploy ?cmp ''r'' ''n:a'' ?e = (out, e1, ns)" by (metis prod_cases3)
  obtain msgs pd1 where h: "handleEngineDeploy (Some ?token) (Some ?token) ''r'' ''n:a'' ''n:a'' (en_nextVersion ?e + 1) 3 [] True ?pd = (msgs, pd1)"
    by fastforce
  have facts: "en_persistPath ?e = []" "Valid ?token" "pd_planProducer ?pd" "engine_ok (no_Engine ?f)" "en_persistPath (no_Engine ?f) = []"
    "CurrentTerm (no_PlanDist ?f) \<le> lt_Term ?token" "pd_ackProducer (no_PlanDist ?f)" "\<not> lt_Leader ?other"
    "en_nextVersion ?e + 1 = 1" "pd_nodeID (no_PlanDist ?f) = ''b''"
    by (simp_all add: eval)
  from deployment_reaches_follower [OF facts(1) refl d facts(2,3) h facts(4-8), of "\<lambda>_. 0" None] obtain m1 m2 f1 f2 r where
    "msgs = [m1, m2]"
    "handlePlanMessage (\<lambda>_. 0) (Some ?other) None m1 ?f =
        (Returns (), f1, [], [\<lparr>ak_NodeID = pd_nodeID (no_PlanDist ?f), ak_RuleID = ''r'', ak_Version = en_nextVersion ?e + 1, ak_Status = ''ok''\<rparr>])"
    "handlePlanMessage (\<lambda>_. 0) (Some ?other) None m2 f1 = (Returns (), f2, [], [])" "map_of (en_rules (no_Engine f2)) ''r'' = Some r"
    "ActivePlan r = Some \<lparr>vp_Plan = ''n:a'', vp_DSL = ''n:a'', vp_Version = en_nextVersion ?e + 1, vp_Lane = LaneForScore 0, vp_ActiveExec = 0\<rparr>"
    by metis
  with h show ?thesis unfolding facts(9,10) by (intro exI [of _ msgs] exI [of _ pd1] exI [of _ m1] exI [of _ m2] exI [of _ f1]
    exI [of _ f2] exI [of _ r]) simp
qed

text \<open>
  A leader that handles an activation publishes the same activation again: when it receives its own messages, it
  answers each activation with another one, without end.
\<close>

lemma activation_echo:
  assumes "Valid token" and "pd_planProducer (no_PlanDist n)" and "en_persistPath (no_Engine n) = []"
    and "map_of (en_rules (no_Engine n)) k = Some r" and "findVersion v (ru_Versions r) = Returns (Some i)"
  shows "\<exists>m n1. ActivatePlan k v (no_PlanDist n) = Inr m \<and> handlePlanMessage score (Some token) (Some token) m n = (Returns (), n1, [m], []) \<and>
    handlePlanMessage score (Some token) (Some token) m n1 = (Returns (), n1, [m], [])"
proof -
  let ?m = "\<lparr>pl_Type = ''activate'', pl_RuleID = k, pl_Version = v, pl_Term = pd_clusterTerm (no_PlanDist n), pl_Plan = [], pl_DSL = [],
    pl_NodeID = pd_nodeID (no_PlanDist n)\<rparr>"
  let ?r = "r\<lparr>ru_ActiveVersion := int i\<rparr>"
  let ?n = "n\<lparr>no_Engine := (no_Engine n)\<lparr>en_rules := AList.update k ?r (en_rules (no_Engine n))\<rparr>\<rparr>"
  have m: "ActivatePlan k v (no_PlanDist n) = Inr ?m" using assms(2) by (simp add: ActivatePlan_def publishMessage_def)
  have same: "AList.update k ?r (AList.update k ?r rs) = AList.update k ?r rs" for rs by (induction rs) auto
  have "handlePlanMessage score (Some token) (Some token) ?m n = (Returns (), ?n, [?m], [])"
    using assms(1) m by (simp add: handlePlanMessage_def CurrentTerm_def Promote_result(1) [OF assms(4,5,3)] handleEnginePromote_def
      distributeActivate_def sentPlan_def CaptureLeadershipToken_def ValidateLeadershipToken_def raftValidate_def Valid_def)
  moreover have "Promote k v (no_Engine ?n) = (Returns (), no_Engine ?n, [AfterPromote k v])"
    using Promote_result(1) [of "no_Engine ?n" k ?r v i] assms(3,5) by (simp add: same)
  then have "handlePlanMessage score (Some token) (Some token) ?m ?n = (Returns (), ?n, [?m], [])"
    using assms(1) m by (simp add: handlePlanMessage_def CurrentTerm_def handleEnginePromote_def distributeActivate_def sentPlan_def CaptureLeadershipToken_def ValidateLeadershipToken_def raftValidate_def Valid_def)
  ultimately show ?thesis using m by blast
qed



end
