(* ===== verification/Event_Bus.thy ===== *)
theory Event_Bus
  imports Prelude "HOL-Library.Word"
begin

text \<open>
  Messages between the parts of a node, \<^verbatim>\<open>server/internal/transport\<close>: the event bus in memory (\<^verbatim>\<open>memory/bus.go\<close>), the consumer and
  producer in memory and the factory that chooses a transport.  A handler is a function of the subscriber, here its name, or
  the closure that a request waits with.  The goroutines that a publication starts are the list of its deliveries.
\<close>

subsection \<open>Messages\<close>

datatype MessageType = TypePublish | TypeRequest | TypeReply | TypeBroadcast | TypeExecution

record Message =
  ms_ID :: string
  ms_Type :: MessageType
  ms_Topic :: string
  ms_Body :: bytes
  ms_Headers :: "(string, string) gomap"
  ms_CorrelationID :: string
  ms_ReplyTo :: string
  ms_PartitionKey :: string
  ms_CreatedAt :: "gotime option"
  ms_Delay :: duration

datatype 'h handler = Subscriber 'h | ReplyWaiter string

subsection \<open>The bus\<close>

record 'h Bus =
  bs_topics :: "(string, (string, 'h handler) gomap) gomap"
  bs_subs :: "(string, string) gomap"
  bs_msgID :: "64 word"
  bs_closed :: bool
  bs_corrMap :: "(string, string) gomap"

definition NewBus :: "'h Bus" where
  "NewBus = \<lparr>bs_topics = [], bs_subs = [], bs_msgID = 0, bs_closed = False, bs_corrMap = []\<rparr>"

definition nextID :: "'h Bus \<Rightarrow> string \<times> 'h Bus" where
  "nextID b = (''msg-'' @ dec (unat (bs_msgID b + 1)), b\<lparr>bs_msgID := bs_msgID b + 1\<rparr>)"

definition subsOf :: "string \<Rightarrow> 'h Bus \<Rightarrow> (string, 'h handler) gomap" where
  "subsOf topic b = (case map_of (bs_topics b) topic of None \<Rightarrow> [] | Some hs \<Rightarrow> hs)"

definition dispatch :: "Message \<Rightarrow> (string, 'h handler) gomap \<Rightarrow> ('h handler \<times> Message) list" where
  "dispatch msg handlers = map (\<lambda>(i, h). (h, msg)) handlers"

datatype bus_error = BusClosed | UnknownCorrelation string | RequestTimeout

definition Publish :: "gotime \<Rightarrow> string \<Rightarrow> Message \<Rightarrow> 'h Bus \<Rightarrow> (bus_error + ('h handler \<times> Message) list) \<times> 'h Bus" where
  "Publish now topic msg b =
     (if bs_closed b then (Inl BusClosed, b)
      else
        let (i, b1) = (if ms_ID msg = [] then nextID b else (ms_ID msg, b));
            m = msg\<lparr>ms_ID := i, ms_CreatedAt := Some (case ms_CreatedAt msg of None \<Rightarrow> now | Some t \<Rightarrow> t), ms_Topic := topic,
                    ms_Type := TypePublish\<rparr>
        in (Inr (dispatch m (subsOf topic b1)), b1))"

definition PublishToPartition ::
  "gotime \<Rightarrow> string \<Rightarrow> string \<Rightarrow> Message \<Rightarrow> 'h Bus \<Rightarrow> (bus_error + ('h handler \<times> Message) list) \<times> 'h Bus" where
  "PublishToPartition now topic key msg b = Publish now topic (msg\<lparr>ms_PartitionKey := key\<rparr>) b"

definition subID :: "string \<Rightarrow> nat \<Rightarrow> string" where
  "subID topic n = ''sub-'' @ topic @ ''-'' @ dec n"

definition Subscribe :: "string \<Rightarrow> 'h handler \<Rightarrow> 'h Bus \<Rightarrow> string \<times> 'h Bus" where
  "Subscribe topic h b =
     (let i = subID topic (length (subsOf topic b))
      in (i, b\<lparr>bs_topics := AList.update topic (AList.update i h (subsOf topic b)) (bs_topics b),
               bs_subs := AList.update i topic (bs_subs b)\<rparr>))"

definition Unsubscribe :: "string \<Rightarrow> 'h Bus \<Rightarrow> 'h Bus" where
  "Unsubscribe i b =
     (case find (\<lambda>(topic, hs). map_of hs i \<noteq> None) (bs_topics b) of
        None \<Rightarrow> b
      | Some (topic, hs) \<Rightarrow>
          let hs1 = AList.delete i hs
          in b\<lparr>bs_subs := AList.delete i (bs_subs b),
               bs_topics := (if hs1 = [] then AList.delete topic (bs_topics b) else AList.update topic hs1 (bs_topics b))\<rparr>)"

text \<open>A request subscribes to the replies and publishes; the caller then waits with its subscription.\<close>

definition RequestBegin ::
  "gotime \<Rightarrow> string \<Rightarrow> Message \<Rightarrow> 'h Bus \<Rightarrow> (bus_error + string \<times> string \<times> ('h handler \<times> Message) list) \<times> 'h Bus" where
  "RequestBegin now topic msg b =
     (if bs_closed b then (Inl BusClosed, b)
      else
        let (cid, b1) = nextID b;
            b2 = b1\<lparr>bs_corrMap := AList.update cid topic (bs_corrMap b1)\<rparr>;
            (sub, b3) = Subscribe (topic @ ''.reply'') (ReplyWaiter cid) b2
        in case Publish now topic (msg\<lparr>ms_CorrelationID := cid, ms_Type := TypeRequest\<rparr>) b3 of
             (Inl e, b4) \<Rightarrow> (Inl e, Unsubscribe sub b4)
           | (Inr ds, b4) \<Rightarrow> (Inr (cid, sub, ds), b4))"

fun accepts :: "'h handler \<Rightarrow> Message \<Rightarrow> bool" where
  "accepts (ReplyWaiter cid) m \<longleftrightarrow> ms_CorrelationID m = cid"
| "accepts (Subscriber h) m \<longleftrightarrow> False"

text \<open>The end of a request: its first reply, if one came in time, and the subscription is given back.\<close>

definition RequestEnd :: "string \<Rightarrow> string \<Rightarrow> ('h handler \<times> Message) list \<Rightarrow> 'h Bus \<Rightarrow> (bus_error + Message) \<times> 'h Bus" where
  "RequestEnd cid sub deliveries b =
     (case filter (\<lambda>(h, m). h = ReplyWaiter cid \<and> accepts h m) deliveries of
        [] \<Rightarrow> Inl RequestTimeout
      | (h, m) # _ \<Rightarrow> Inr m, Unsubscribe sub b)"

definition Reply :: "gotime \<Rightarrow> string \<Rightarrow> Message \<Rightarrow> 'h Bus \<Rightarrow> (bus_error + ('h handler \<times> Message) list) \<times> 'h Bus" where
  "Reply now cid msg b =
     (case map_of (bs_corrMap b) cid of
        None \<Rightarrow> (Inl (UnknownCorrelation cid), b)
      | Some topic \<Rightarrow> Publish now (topic @ ''.reply'') (msg\<lparr>ms_CorrelationID := cid, ms_Type := TypeReply\<rparr>) b)"

definition Broadcast :: "gotime \<Rightarrow> string \<Rightarrow> Message \<Rightarrow> 'h Bus \<Rightarrow> (bus_error + ('h handler \<times> Message) list) \<times> 'h Bus" where
  "Broadcast now topic msg b = Publish now topic (msg\<lparr>ms_Type := TypeBroadcast\<rparr>) b"

definition TopicStats :: "'h Bus \<Rightarrow> (string, nat) gomap" where
  "TopicStats b = map (\<lambda>(topic, hs). (topic, length hs)) (bs_topics b)"

definition CloseBus :: "'h Bus \<Rightarrow> 'h Bus" where
  "CloseBus b = b\<lparr>bs_closed := True, bs_topics := [], bs_subs := []\<rparr>"

subsection \<open>The consumer in memory and the choice of a transport\<close>

record Consumer =
  co_topic :: string
  co_msgCh :: "bytes list"
  co_stopped :: bool

definition NewConsumer :: "string \<Rightarrow> Consumer" where
  "NewConsumer topic = \<lparr>co_topic = topic, co_msgCh = [], co_stopped = False\<rparr>"

definition Inject :: "bytes \<Rightarrow> Consumer \<Rightarrow> Consumer" where
  "Inject msg c = (if length (co_msgCh c) < 100 then c\<lparr>co_msgCh := co_msgCh c @ [msg]\<rparr> else c)"

text \<open>One turn of the loop: the next message for the handler.\<close>

definition consume :: "Consumer \<Rightarrow> (bytes \<times> Consumer) option" where
  "consume c = (case co_msgCh c of [] \<Rightarrow> None | m # ms \<Rightarrow> Some (m, c\<lparr>co_msgCh := ms\<rparr>))"

text \<open>The result of closing a closed channel is a panic.\<close>

definition StopConsumer :: "Consumer \<Rightarrow> Consumer option" where
  "StopConsumer c = (if co_stopped c then None else Some (c\<lparr>co_stopped := True\<rparr>))"

datatype TransportKind = KindKafka | KindCluster | KindMemory | KindNoop | KindOther string

record ('p, 'c) TransportFactory =
  tf_producers :: "(TransportKind, string \<Rightarrow> 'p) gomap"
  tf_consumers :: "(TransportKind, string \<Rightarrow> 'c) gomap"
  tf_kind :: TransportKind

definition NewTransportFactory :: "TransportKind \<Rightarrow> ('p, 'c) TransportFactory" where
  "NewTransportFactory kind = \<lparr>tf_producers = [], tf_consumers = [], tf_kind = kind\<rparr>"

definition RegisterProducer :: "TransportKind \<Rightarrow> (string \<Rightarrow> 'p) \<Rightarrow> ('p, 'c) TransportFactory \<Rightarrow> ('p, 'c) TransportFactory" where
  "RegisterProducer kind f tf = tf\<lparr>tf_producers := AList.update kind f (tf_producers tf)\<rparr>"

definition RegisterConsumer :: "TransportKind \<Rightarrow> (string \<Rightarrow> 'c) \<Rightarrow> ('p, 'c) TransportFactory \<Rightarrow> ('p, 'c) TransportFactory" where
  "RegisterConsumer kind f tf = tf\<lparr>tf_consumers := AList.update kind f (tf_consumers tf)\<rparr>"

definition SetKind :: "TransportKind \<Rightarrow> ('p, 'c) TransportFactory \<Rightarrow> ('p, 'c) TransportFactory" where
  "SetKind kind tf = tf\<lparr>tf_kind := kind\<rparr>"

text \<open>No producer or consumer stands for the one that does nothing.\<close>

definition factoryProducer :: "string \<Rightarrow> ('p, 'c) TransportFactory \<Rightarrow> 'p option" where
  "factoryProducer topic tf = map_option (\<lambda>f. f topic) (map_of (tf_producers tf) (tf_kind tf))"

definition factoryConsumer :: "string \<Rightarrow> ('p, 'c) TransportFactory \<Rightarrow> 'c option" where
  "factoryConsumer topic tf = map_option (\<lambda>f. f topic) (map_of (tf_consumers tf) (tf_kind tf))"

subsection \<open>Deliveries\<close>

text \<open>The subscriptions of a topic are numbered from 0 as long as none is given back.\<close>

definition numbered :: "'h Bus \<Rightarrow> bool" where
  "numbered b \<longleftrightarrow> (\<forall>topic. map fst (subsOf topic b) = map (subID topic) [0..<length (subsOf topic b)])"

lemma subID_inject [simp]: "subID t m = subID t n \<longleftrightarrow> m = n"
  by (simp add: subID_def)

lemma numbered_keys: "numbered b \<Longrightarrow> fst ` set (subsOf topic b) = subID topic ` {0..<length (subsOf topic b)}"
  unfolding numbered_def by (metis atLeastLessThan_upt list.set_map)

lemma numbered_fresh: "numbered b \<Longrightarrow> subID topic (length (subsOf topic b)) \<notin> fst ` set (subsOf topic b)"
  by (simp add: numbered_keys image_iff)

lemma Subscribe_subs:
  assumes "numbered b"
  shows "subsOf t (snd (Subscribe topic h b)) =
    (if t = topic then subsOf topic b @ [(subID topic (length (subsOf topic b)), h)] else subsOf t b)"
  using update_new [OF numbered_fresh [OF assms]] by (simp add: Subscribe_def Let_def subsOf_def [of t] update_conv' split: option.splits)

lemma Subscribe_numbered:
  assumes "numbered b"
  shows "numbered (snd (Subscribe topic h b))"
  unfolding numbered_def
proof
  fix t
  have "map fst (subsOf t b) = map (subID t) [0..<length (subsOf t b)]" using assms by (simp add: numbered_def)
  then show "map fst (subsOf t (snd (Subscribe topic h b))) = map (subID t) [0..<length (subsOf t (snd (Subscribe topic h b)))]"
    by (auto simp: Subscribe_subs [OF assms])
qed

lemma Subscribe_frame [simp]:
  "bs_msgID (snd (Subscribe topic h b)) = bs_msgID b" "bs_closed (snd (Subscribe topic h b)) = bs_closed b"
  "bs_corrMap (snd (Subscribe topic h b)) = bs_corrMap b"
  by (simp_all add: Subscribe_def Let_def)

lemma subsOf_frame [simp]:
  "subsOf t (b\<lparr>bs_msgID := k\<rparr>) = subsOf t b" "subsOf t (b\<lparr>bs_corrMap := m\<rparr>) = subsOf t b"
  by (simp_all add: subsOf_def)

lemma numbered_frame [simp]: "numbered (b\<lparr>bs_msgID := k\<rparr>) = numbered b" "numbered (b\<lparr>bs_corrMap := m\<rparr>) = numbered b"
  by (simp_all add: numbered_def)

fun subscribeAll :: "(string \<times> 'h) list \<Rightarrow> 'h Bus \<Rightarrow> 'h Bus" where
  "subscribeAll [] b = b"
| "subscribeAll ((topic, h) # ss) b = subscribeAll ss (snd (Subscribe topic (Subscriber h) b))"

lemma subscribeAll_subs:
  "numbered b \<Longrightarrow> map snd (subsOf t (subscribeAll ss b)) = map snd (subsOf t b) @ map (Subscriber \<circ> snd) (filter (\<lambda>(topic, h). topic = t) ss) \<and>
    bs_closed (subscribeAll ss b) = bs_closed b"
proof (induction ss arbitrary: b)
  case (Cons s ss)
  obtain topic h where "s = (topic, h)" by fastforce
  then show ?case using Cons.IH [OF Subscribe_numbered [OF Cons.prems, of topic "Subscriber h"]] by (auto simp: Subscribe_subs [OF Cons.prems])
qed simp

lemma dispatch_fst: "map fst (dispatch m hs) = map snd hs"
  by (simp add: dispatch_def case_prod_unfold)

lemma dispatch_msg: "(h, m') \<in> set (dispatch m hs) \<Longrightarrow> m' = m"
  by (auto simp: dispatch_def)

lemma Publish_open:
  assumes "\<not> bs_closed b"
  obtains m b1 where "Publish now topic msg b = (Inr (dispatch m (subsOf topic b)), b1)" "ms_Body m = ms_Body msg" "ms_Topic m = topic"
    "ms_CorrelationID m = ms_CorrelationID msg" "b1 = b \<or> b1 = b\<lparr>bs_msgID := bs_msgID b + 1\<rparr>"
proof
  let ?i = "if ms_ID msg = [] then fst (nextID b) else ms_ID msg"
  let ?m = "msg\<lparr>ms_ID := ?i, ms_CreatedAt := Some (case ms_CreatedAt msg of None \<Rightarrow> now | Some t \<Rightarrow> t), ms_Topic := topic, ms_Type := TypePublish\<rparr>"
  show "Publish now topic msg b = (Inr (dispatch ?m (subsOf topic b)), if ms_ID msg = [] then snd (nextID b) else b)"
    using assms by (simp add: Publish_def nextID_def Let_def)
qed (simp_all add: nextID_def)

lemma numbered_New [simp]: "numbered NewBus"
  by (simp add: numbered_def subsOf_def NewBus_def)

text \<open>A publication reaches every subscriber of its topic once, in the order of the subscriptions, and no other.\<close>

lemma publish_reaches:
  "\<exists>ds b. Publish now topic msg (subscribeAll ss NewBus) = (Inr ds, b) \<and>
    map fst ds = map (Subscriber \<circ> snd) (filter (\<lambda>(t, h). t = topic) ss) \<and> (\<forall>(h, m) \<in> set ds. ms_Body m = ms_Body msg \<and> ms_Topic m = topic)"
proof -
  let ?b = "subscribeAll ss NewBus"
  note subs = subscribeAll_subs [OF numbered_New, of topic ss]
  have b: "subsOf topic (NewBus :: 'a Bus) = []" "\<not> bs_closed ?b" using subs by (simp_all add: subsOf_def NewBus_def)
  obtain m k where pub: "Publish now topic msg ?b = (Inr (dispatch m (subsOf topic ?b)), k)" and m: "ms_Body m = ms_Body msg" "ms_Topic m = topic"
    using Publish_open [OF b(2), of now topic msg] by metis
  show ?thesis using pub m subs b(1) dispatch_msg by (fastforce simp: dispatch_fst)
qed

text \<open>A subscription that is not the last one, once given back, makes the next one take the number, and the place, of the last.\<close>

lemma resubscribe_overwrites:
  assumes "b = subscribeAll [(topic, h1), (topic, h2)] NewBus"
  shows "map snd (subsOf topic (subscribeAll [(topic, h3)] (Unsubscribe (subID topic 0) b))) = [Subscriber h3]"
  by (simp add: assms subsOf_def NewBus_def Subscribe_def Unsubscribe_def Let_def)

subsection \<open>Requests and replies\<close>

definition corrID :: "nat \<Rightarrow> string" where
  "corrID k = ''msg-'' @ dec k"

definition waits :: "'h Bus \<Rightarrow> string \<Rightarrow> string \<Rightarrow> bool" where
  "waits b topic cid \<longleftrightarrow> map_of (bs_corrMap b) cid = Some topic \<and>
     filter (\<lambda>h. h = ReplyWaiter cid) (map snd (subsOf (topic @ ''.reply'') b)) = [ReplyWaiter cid]"

definition bus_ok :: "'h Bus \<Rightarrow> (string \<times> string) list \<Rightarrow> bool" where
  "bus_ok b W \<longleftrightarrow> numbered b \<and> \<not> bs_closed b \<and> (\<forall>(t, c) \<in> set W. waits b t c) \<and>
     (\<forall>t c. ReplyWaiter c \<in> snd ` set (subsOf t b) \<longrightarrow> (\<exists>k \<le> unat (bs_msgID b). c = corrID k))"

fun requestAll :: "(gotime \<times> string \<times> Message) list \<Rightarrow> 'h Bus \<Rightarrow> string list \<times> 'h Bus" where
  "requestAll [] b = ([], b)"
| "requestAll ((now, topic, msg) # rs) b =
     (case RequestBegin now topic msg b of
        (Inl e, b1) \<Rightarrow> requestAll rs b1
      | (Inr (cid, sub, ds), b1) \<Rightarrow> (case requestAll rs b1 of (cs, b2) \<Rightarrow> (cid # cs, b2)))"

lemma corrID_inject [simp]: "corrID m = corrID n \<longleftrightarrow> m = n"
  by (simp add: corrID_def)

lemma unat_inc: "unat w + 1 < 2 ^ 64 \<Longrightarrow> unat (w + 1 :: 64 word) = unat w + 1"
  by (subst unat_add_lem [THEN iffD1]) simp_all

lemma RequestBegin_ok:
  assumes ok: "bus_ok b W" and room: "unat (bs_msgID b) + 2 < 2 ^ 64"
  shows "\<exists>cid sub ds b1. RequestBegin now topic msg b = (Inr (cid, sub, ds), b1) \<and> bus_ok b1 (W @ [(topic, cid)]) \<and>
    unat (bs_msgID b1) \<le> unat (bs_msgID b) + 2"
proof -
  let ?n = "unat (bs_msgID b)" and ?rt = "topic @ ''.reply''"
  define cid where "cid = corrID (?n + 1)"
  define b2 where "b2 = b\<lparr>bs_msgID := bs_msgID b + 1, bs_corrMap := AList.update cid topic (bs_corrMap b)\<rparr>"
  define b3 where "b3 = snd (Subscribe ?rt (ReplyWaiter cid) b2)"
  have n1: "unat (bs_msgID b + 1) = ?n + 1" using room by (simp add: unat_inc)
  have num: "numbered b2" using ok by (simp add: b2_def bus_ok_def)
  have subs: "subsOf t b3 = (if t = ?rt then subsOf ?rt b @ [(subID ?rt (length (subsOf ?rt b)), ReplyWaiter cid)] else subsOf t b)" for t
    using Subscribe_subs [OF num, of t ?rt "ReplyWaiter cid"] by (simp add: b3_def b2_def)
  have fresh: "ReplyWaiter cid \<notin> snd ` set (subsOf t b)" for t
  proof
    assume "ReplyWaiter cid \<in> snd ` set (subsOf t b)"
    then obtain k where "k \<le> ?n" "cid = corrID k" using ok unfolding bus_ok_def by blast
    then show False by (simp add: cid_def)
  qed
  have corr: "map_of (bs_corrMap b3) c = (if c = cid then Some topic else map_of (bs_corrMap b) c)" for c
    by (simp add: b3_def b2_def update_conv')
  have old: "waits b3 t c" if w: "(t, c) \<in> set W" for t c
  proof -
    have wb: "waits b t c" using ok w by (auto simp: bus_ok_def)
    then have "ReplyWaiter c \<in> set (filter (\<lambda>h. h = ReplyWaiter c) (map snd (subsOf (t @ ''.reply'') b)))" by (simp add: waits_def)
    then have "c \<noteq> cid" using fresh by auto
    then show ?thesis using wb by (auto simp: waits_def subs corr)
  qed
  have new: "waits b3 topic cid"
    using fresh [of ?rt] by (auto simp: waits_def subs corr filter_empty_conv image_iff)
  have open3: "\<not> bs_closed b3" using ok by (simp add: b3_def b2_def bus_ok_def)
  obtain ds b4 where pub: "Publish now topic (msg\<lparr>ms_CorrelationID := cid, ms_Type := TypeRequest\<rparr>) b3 = (Inr ds, b4)"
    and b4: "b4 = b3 \<or> b4 = b3\<lparr>bs_msgID := bs_msgID b3 + 1\<rparr>"
    using Publish_open [OF open3, of now topic "msg\<lparr>ms_CorrelationID := cid, ms_Type := TypeRequest\<rparr>"] by metis
  have m3: "bs_msgID b3 = bs_msgID b + 1" by (simp add: b3_def b2_def)
  have id4: "?n + 1 \<le> unat (bs_msgID b4)" "unat (bs_msgID b4) \<le> ?n + 2"
    using b4 m3 n1 unat_inc [of "bs_msgID b + 1"] room by auto
  have same: "subsOf t b4 = subsOf t b3" "bs_corrMap b4 = bs_corrMap b3" "bs_closed b4 = bs_closed b" "numbered b4" for t
    using b4 Subscribe_numbered [OF num, of ?rt "ReplyWaiter cid"] by (auto simp: b3_def b2_def)
  have ids: "\<exists>k \<le> unat (bs_msgID b4). c = corrID k" if "ReplyWaiter c \<in> snd ` set (subsOf t b4)" for t c
  proof (cases "c = cid")
    case True
    then show ?thesis using id4(1) by (auto simp: cid_def)
  next
    case False
    then have "ReplyWaiter c \<in> snd ` set (subsOf t b)" using that unfolding same(1) subs by (auto split: if_splits)
    then obtain k where "k \<le> ?n" "c = corrID k" using ok unfolding bus_ok_def by blast
    then show ?thesis using id4(1) by (intro exI [of _ k]) simp
  qed
  have "bus_ok b4 (W @ [(topic, cid)])"
    unfolding bus_ok_def using same ok old new ids by (auto simp: waits_def bus_ok_def)
  moreover have "RequestBegin now topic msg b = (Inr (cid, fst (Subscribe ?rt (ReplyWaiter cid) b2), ds), b4)"
    using ok pub unfolding b3_def by (auto simp: RequestBegin_def bus_ok_def nextID_def b2_def cid_def corrID_def n1 Let_def split: prod.splits)
  ultimately show ?thesis using id4 by blast
qed

lemma requestAll_ok:
  "bus_ok b W \<Longrightarrow> unat (bs_msgID b) + 2 * length reqs < 2 ^ 64 \<Longrightarrow> requestAll reqs b = (cs, b1) \<Longrightarrow>
    length cs = length reqs \<and> bus_ok b1 (W @ zip (map (fst \<circ> snd) reqs) cs)"
proof (induction reqs arbitrary: b W cs)
  case (Cons r reqs)
  obtain now topic msg where r: "r = (now, topic, msg)" by (metis prod_cases3)
  obtain cid sub ds b2 where one: "RequestBegin now topic msg b = (Inr (cid, sub, ds), b2)" "bus_ok b2 (W @ [(topic, cid)])"
    "unat (bs_msgID b2) \<le> unat (bs_msgID b) + 2"
    using RequestBegin_ok [OF Cons.prems(1), of now topic msg] Cons.prems(2) by auto
  obtain cs2 where rest: "requestAll reqs b2 = (cs2, b1)" and cs: "cs = cid # cs2"
    using Cons.prems(3) r one(1) by (auto split: prod.splits)
  show ?case using Cons.IH [OF one(2) _ rest] Cons.prems(2) one(3) by (simp add: cs r)
qed simp



end
