(* ===== verification/Reply_Router.thy ===== *)
theory Reply_Router
  imports Prelude "HOL-Library.AList" "HOL-Library.Multiset"
begin

text \<open>
  Replies to requests across nodes, \<^verbatim>\<open>server/internal/replyrouter/router.go\<close>: pending requests by correlation id, each with the channel of its
  caller and a deadline.  A channel is the number of the registration it came with, and what happens to channels is a log: a message is
  put into one when it has room, and a channel is closed.  Closing a closed channel would be a panic.
\<close>

subsection \<open>Operations\<close>

record PendingRequest =
  pq_ReplyCh :: nat
  pq_Deadline :: gotime

datatype 'm ch_event = Sent nat 'm | Closed nat

record 'm ReplyRouter =
  rr_pending :: "(string, PendingRequest) gomap"
  rr_maxPending :: int
  rr_registered :: nat
  rr_log :: "'m ch_event list"

datatype rr_error = EmptyCorrID | DuplicateCorrID | PendingLimit

definition NewReplyRouter :: "int option \<Rightarrow> 'm ReplyRouter" where
  "NewReplyRouter maxPending =
     \<lparr>rr_pending = [], rr_maxPending = (case maxPending of None \<Rightarrow> 10000 | Some n \<Rightarrow> n), rr_registered = 0, rr_log = []\<rparr>"

text \<open>The channel of a caller is a new one, numbered by the registrations so far.\<close>

definition Register :: "gotime \<Rightarrow> string \<Rightarrow> duration \<Rightarrow> 'm ReplyRouter \<Rightarrow> rr_error option \<times> 'm ReplyRouter" where
  "Register now cid timeout rr =
     (if cid = [] then (Some EmptyCorrID, rr)
      else if map_of (rr_pending rr) cid \<noteq> None then (Some DuplicateCorrID, rr)
      else if rr_maxPending rr > 0 \<and> int (length (rr_pending rr)) \<ge> rr_maxPending rr then (Some PendingLimit, rr)
      else (None, rr\<lparr>rr_pending := AList.update cid \<lparr>pq_ReplyCh = rr_registered rr, pq_Deadline = now + timeout\<rparr> (rr_pending rr),
                     rr_registered := Suc (rr_registered rr)\<rparr>))"

definition closeOnce :: "PendingRequest \<Rightarrow> 'm ReplyRouter \<Rightarrow> 'm ReplyRouter" where
  "closeOnce pr rr = rr\<lparr>rr_log := rr_log rr @ [Closed (pq_ReplyCh pr)]\<rparr>"

definition Cancel :: "string \<Rightarrow> 'm ReplyRouter \<Rightarrow> 'm ReplyRouter" where
  "Cancel cid rr =
     (case map_of (rr_pending rr) cid of
        None \<Rightarrow> rr
      | Some pr \<Rightarrow> closeOnce pr (rr\<lparr>rr_pending := AList.delete cid (rr_pending rr)\<rparr>))"

text \<open>\<open>room\<close> tells whether the channel of the caller can take the message.\<close>

definition Deliver :: "bool \<Rightarrow> string \<Rightarrow> 'm \<Rightarrow> 'm ReplyRouter \<Rightarrow> bool \<times> 'm ReplyRouter" where
  "Deliver room cid msg rr =
     (case map_of (rr_pending rr) cid of
        None \<Rightarrow> (False, rr)
      | Some pr \<Rightarrow>
          (True, closeOnce pr (rr\<lparr>rr_pending := AList.delete cid (rr_pending rr),
             rr_log := rr_log rr @ (if room then [Sent (pq_ReplyCh pr) msg] else [])\<rparr>)))"

definition PendingCount :: "'m ReplyRouter \<Rightarrow> nat" where
  "PendingCount rr = length (rr_pending rr)"

definition cleanup :: "gotime \<Rightarrow> 'm ReplyRouter \<Rightarrow> 'm ReplyRouter" where
  "cleanup now rr =
     foldl (\<lambda>r (cid, pr). closeOnce pr r)
       (rr\<lparr>rr_pending := filter (\<lambda>(cid, pr). \<not> now > pq_Deadline pr) (rr_pending rr)\<rparr>)
       (filter (\<lambda>(cid, pr). now > pq_Deadline pr) (rr_pending rr))"

subsection \<open>Every caller is answered once\<close>

datatype 'm rr_call = CallRegister gotime string duration | CallCancel string | CallDeliver bool string 'm | CallCleanup gotime

fun rrStep :: "'m ReplyRouter \<Rightarrow> 'm rr_call \<Rightarrow> 'm ReplyRouter" where
  "rrStep rr (CallRegister now cid t) = snd (Register now cid t rr)"
| "rrStep rr (CallCancel cid) = Cancel cid rr"
| "rrStep rr (CallDeliver room cid m) = snd (Deliver room cid m rr)"
| "rrStep rr (CallCleanup now) = cleanup now rr"

definition pendingChs :: "'m ReplyRouter \<Rightarrow> nat list" where
  "pendingChs rr = map (pq_ReplyCh \<circ> snd) (rr_pending rr)"

fun closedIn :: "'m ch_event list \<Rightarrow> nat list" where
  "closedIn [] = []"
| "closedIn (Closed c # es) = c # closedIn es"
| "closedIn (Sent c m # es) = closedIn es"

text \<open>A channel gets at most one message, and nothing after it is closed.\<close>

fun log_ok :: "'m ch_event list \<Rightarrow> bool" where
  "log_ok [] = True"
| "log_ok (Closed c # es) = (log_ok es \<and> (\<forall>m. Sent c m \<notin> set es))"
| "log_ok (Sent c m # es) = (log_ok es \<and> (\<forall>m. Sent c m \<notin> set es))"

definition rr_inv :: "'m ReplyRouter \<Rightarrow> bool" where
  "rr_inv rr \<longleftrightarrow> distinct (map fst (rr_pending rr)) \<and> distinct (pendingChs rr @ closedIn (rr_log rr)) \<and>
     set (pendingChs rr) \<union> set (closedIn (rr_log rr)) = {0..<rr_registered rr} \<and>
     (\<forall>c m. Sent c m \<in> set (rr_log rr) \<longrightarrow> c \<in> set (closedIn (rr_log rr))) \<and> log_ok (rr_log rr)"

lemma closedIn_append [simp]: "closedIn (xs @ ys) = closedIn xs @ closedIn ys"
  by (induction xs rule: closedIn.induct) auto

lemma log_ok_append: "log_ok (xs @ ys) \<longleftrightarrow> log_ok xs \<and> log_ok ys \<and>
    (\<forall>c. (c \<in> set (closedIn xs) \<or> (\<exists>m. Sent c m \<in> set xs)) \<longrightarrow> (\<forall>m. Sent c m \<notin> set ys))"
  by (induction xs rule: log_ok.induct) auto

lemma chs_delete:
  assumes "distinct (map fst m)" "map_of m cid = Some pr"
  shows "\<exists>xs ys. m = xs @ (cid, pr) # ys \<and> AList.delete cid m = xs @ ys"
  using assms
proof (induction m)
  case (Cons a m)
  show ?case
  proof (cases "fst a = cid")
    case True
    then have "AList.delete cid m = m" using Cons.prems(1) by (simp add: delete_absent)
    then show ?thesis using Cons.prems(2) True by (intro exI [of _ "[]"] exI [of _ m]) (cases a, auto)
  next
    case False
    then obtain xs ys where "m = xs @ (cid, pr) # ys" "AList.delete cid m = xs @ ys" using Cons by (auto split: if_splits)
    then show ?thesis using False by (intro exI [of _ "a # xs"] exI [of _ ys]) (cases a, simp)
  qed
qed simp

lemma Register_inv [keep_inv]: "rr_inv rr \<Longrightarrow> rr_inv (snd (Register now cid t rr))"
proof (cases "snd (Register now cid t rr) = rr")
  case False
  assume inv: "rr_inv rr"
  define pr where "pr = \<lparr>pq_ReplyCh = rr_registered rr, pq_Deadline = now + t\<rparr>"
  have new: "cid \<notin> fst ` set (rr_pending rr)" and
    r: "snd (Register now cid t rr) = rr\<lparr>rr_pending := AList.update cid pr (rr_pending rr), rr_registered := Suc (rr_registered rr)\<rparr>"
    using False by (auto simp: Register_def pr_def map_of_eq_None_iff split: if_splits)
  have up: "AList.update cid pr (rr_pending rr) = rr_pending rr @ [(cid, pr)]" using new by (rule update_new)
  have "set (pendingChs rr) \<union> set (closedIn (rr_log rr)) = {0..<rr_registered rr}" using inv by (simp add: rr_inv_def)
  then have "rr_registered rr \<notin> set (pendingChs rr)" "rr_registered rr \<notin> set (closedIn (rr_log rr))" by auto
  then show ?thesis using inv new unfolding r rr_inv_def pendingChs_def up by (auto simp: pr_def)
qed simp

text \<open>A request that leaves the table has its channel closed, after at most one message.\<close>

lemma leave_inv:
  assumes inv: "rr_inv rr" and "rr_pending rr = xs @ (cid, pr) # ys"
    and "evs = [Closed (pq_ReplyCh pr)] \<or> (\<exists>m. evs = [Sent (pq_ReplyCh pr) m, Closed (pq_ReplyCh pr)])"
  shows "rr_inv (rr\<lparr>rr_pending := xs @ ys, rr_log := rr_log rr @ evs\<rparr>)"
proof -
  let ?c = "pq_ReplyCh pr"
  have notin: "?c \<notin> set (closedIn (rr_log rr))" using inv assms(2) by (auto simp: rr_inv_def pendingChs_def)
  then have nosent: "Sent ?c m \<notin> set (rr_log rr)" for m using inv by (auto simp: rr_inv_def)
  have closed: "closedIn evs = [?c]" "log_ok evs" "\<And>c m. Sent c m \<in> set evs \<Longrightarrow> c = ?c" using assms(3) by auto
  have log: "log_ok (rr_log rr @ evs)" using inv closed notin nosent by (auto simp: rr_inv_def log_ok_append)
  let ?q = "rr\<lparr>rr_pending := xs @ ys, rr_log := rr_log rr @ evs\<rparr>"
  have chs: "pendingChs rr = map (pq_ReplyCh \<circ> snd) xs @ ?c # map (pq_ReplyCh \<circ> snd) ys" "pendingChs ?q = map (pq_ReplyCh \<circ> snd) (xs @ ys)"
    by (simp_all add: pendingChs_def assms(2))
  show ?thesis using inv log closed unfolding rr_inv_def chs by (auto simp: assms(2))
qed

lemma Cancel_inv [keep_inv]: "rr_inv rr \<Longrightarrow> rr_inv (Cancel cid rr)"
proof (cases "map_of (rr_pending rr) cid")
  case (Some pr)
  assume inv: "rr_inv rr"
  then obtain xs ys where "rr_pending rr = xs @ (cid, pr) # ys" "AList.delete cid (rr_pending rr) = xs @ ys"
    using chs_delete [of "rr_pending rr" cid pr] Some by (auto simp: rr_inv_def)
  then show ?thesis using leave_inv [OF inv, of xs cid pr ys "[Closed (pq_ReplyCh pr)]"] Some by (simp add: Cancel_def closeOnce_def)
qed (simp add: Cancel_def)

lemma Deliver_inv [keep_inv]: "rr_inv rr \<Longrightarrow> rr_inv (snd (Deliver room cid m rr))"
proof (cases "map_of (rr_pending rr) cid")
  case (Some pr)
  assume inv: "rr_inv rr"
  let ?evs = "(if room then [Sent (pq_ReplyCh pr) m] else []) @ [Closed (pq_ReplyCh pr)]"
  obtain xs ys where "rr_pending rr = xs @ (cid, pr) # ys" "AList.delete cid (rr_pending rr) = xs @ ys"
    using chs_delete [of "rr_pending rr" cid pr] Some inv by (auto simp: rr_inv_def)
  then show ?thesis using leave_inv [OF inv, of xs cid pr ys ?evs] Some by (simp add: Deliver_def closeOnce_def)
qed (simp add: Deliver_def)

text \<open>One pass of the cleanup lets the expired requests leave one after the other.\<close>

lemma cleanup_step:
  "rr_inv (rr\<lparr>rr_pending := xs @ ys\<rparr>) \<Longrightarrow>
    rr_inv (foldl (\<lambda>r (cid, pr). closeOnce pr r) (rr\<lparr>rr_pending := xs @ filter (\<lambda>(cid, pr). \<not> P pr) ys\<rparr>) (filter (\<lambda>(cid, pr). P pr) ys))"
proof (induction ys arbitrary: xs rr)
  case (Cons y ys)
  obtain cid pr where y: "y = (cid, pr)" by fastforce
  show ?case
  proof (cases "P pr")
    case True
    have "rr_inv ((rr\<lparr>rr_log := rr_log rr @ [Closed (pq_ReplyCh pr)]\<rparr>)\<lparr>rr_pending := xs @ ys\<rparr>)"
      using leave_inv [OF Cons.prems, of xs cid pr ys "[Closed (pq_ReplyCh pr)]"] by (cases rr) (simp add: y)
    moreover have "closeOnce pr (rr\<lparr>rr_pending := X\<rparr>) = (rr\<lparr>rr_log := rr_log rr @ [Closed (pq_ReplyCh pr)]\<rparr>)\<lparr>rr_pending := X\<rparr>" for X
      by (cases rr) (simp add: closeOnce_def)
    ultimately show ?thesis using True Cons.IH by (simp add: y)
  next
    case False
    then show ?thesis using Cons.IH [of "xs @ [y]" rr] Cons.prems by (simp add: y)
  qed
qed simp

lemma pending_cleanup_inv [keep_inv]: "rr_inv rr \<Longrightarrow> rr_inv (cleanup now rr)"
  using cleanup_step [where rr = rr and xs = "[]" and ys = "rr_pending rr" and P = "\<lambda>pr. now > pq_Deadline pr"] by (simp add: cleanup_def)

interpretation replies: machine rrStep rr_inv
proof
  show "rr_inv s \<Longrightarrow> rr_inv (rrStep s e)" for s :: "'m ReplyRouter" and e by (cases e) (simp_all add: keep_inv)
qed

text \<open>C23: Whatever is registered, delivered, cancelled and cleaned up, every channel that was registered is either still pending or was closed
  exactly once, never both; a channel gets at most one message, before it is closed, and only a closed channel has got one.\<close>

theorem replies_once:
  assumes "rr = foldl rrStep (NewReplyRouter maxPending) calls"
  shows "distinct (pendingChs rr @ closedIn (rr_log rr)) \<and>
    set (pendingChs rr) \<union> set (closedIn (rr_log rr)) = {0..<rr_registered rr} \<and>
    (\<forall>c m. Sent c m \<in> set (rr_log rr) \<longrightarrow> c \<in> set (closedIn (rr_log rr))) \<and> log_ok (rr_log rr)"
proof -
  have "rr_inv (NewReplyRouter maxPending)" by (simp add: NewReplyRouter_def rr_inv_def pendingChs_def)
  from replies.run_inv [OF this, of calls] show ?thesis by (simp add: assms rr_inv_def)
qed

theorem replies_once_witness:
  "let rr = foldl rrStep (NewReplyRouter None) [CallRegister 1 ''a'' 5, CallRegister 1 ''b'' 5, CallDeliver True ''a'' ''x'', CallCancel ''a'', CallCleanup 9]
   in rr_log rr = [Sent 0 ''x'', Closed 0, Closed 1] \<and> log_ok (rr_log rr)"
proof -
  let ?calls = "[CallRegister 1 ''a'' 5, CallRegister 1 ''b'' 5, CallDeliver True ''a'' ''x'', CallCancel ''a'', CallCleanup 9]"
  have "rr_log (foldl rrStep (NewReplyRouter None) ?calls) = [Sent 0 ''x'', Closed 0, Closed 1]"
    by (simp add: NewReplyRouter_def Register_def Deliver_def Cancel_def cleanup_def closeOnce_def)
  with replies_once [of _ None ?calls] show ?thesis by (simp add: Let_def)
qed

end
