(* ===== verification/Spec2Isabelle.thy ===== *)
theory Spec2Isabelle
  imports Flow_Registry Timer_Wheel RT_Correct Node_Exec Task_Scheduler Agent_Pool Cluster_Partitions Plan_Dist Event_Bus Reply_Router
begin

text \<open>
  A verification development of FlowRulZ, a distributed rule engine: a server written in Go (under \<^verbatim>\<open>src/server\<close>) around a runtime for
  pipelines written in Rust (under \<^verbatim>\<open>src/runtime\<close>).

  \<^bold>\<open>The program.\<close>  A rule is a text, either a pipeline of the small language that the Rust runtime compiles to bytecode and executes, or
  a flow of the larger language that the Go server compiles to a graph.  A node of the cluster keeps rules in versions, the leader
  distributes compiled plans to its followers and waits for a quorum of acknowledgements, and partitions are dealt out among the
  nodes that are alive.  A message that arrives at a node passes a rate limiter and a tracker of duplicates, is handed to a pool of agents
  and through a scheduler to the runtime, step by step; every step that needs a service calls one that the registry knows, through a
  circuit breaker; failed executions are compensated by a saga, failed messages go to the dead letters, and executions that a crash
  interrupted are taken up again from the state that was saved last.

  \<^bold>\<open>How the code is represented.\<close>  A Go struct or Rust struct is a \<open>record\<close> with one field per field of the code, an enum a \<open>datatype\<close>, a map that is
  iterated over an association list in the order of one iteration (\<open>gomap\<close>), a slice a list, a byte slice or string a \<open>string\<close>, and an integer a
  word of its width where wrapping around can matter.  Every function takes the state and returns the new one; an error, a
  panic, an endless wait and a deadlock are values of its result.  The time is an argument.  Goroutines and threads are step relations
  (\<open>sched_step\<close>, \<open>pool_step\<close>, \<open>par_step\<close>), and what is shown holds for all interleavings.  Code from outside the repository (JSON and
  floating-point libraries, sockets, the file system, the C interface to the runtime) is an argument of the definitions that use it.
  File and function names below are those of the code; definitions keep the names of the code where they are free.

  \<^bold>\<open>Shared.\<close>  \<^verbatim>\<open>Prelude\<close>: types, decimal numbers, association lists, and the locale \<open>machine\<close> of a state with operations that keep an invariant,
  which the breaker, tracker, dead letters, members, engine, registry and reply router interpret.

  \<^bold>\<open>The flow language\<close> (\<^verbatim>\<open>server/internal/flow\<close>).
  \<^item> \<^verbatim>\<open>Flow_Token\<close>, \<^verbatim>\<open>Flow_Lexer\<close> (\<^verbatim>\<open>lexer.go\<close>), \<^verbatim>\<open>Flow_AST\<close> (\<^verbatim>\<open>ast.go\<close>), \<^verbatim>\<open>Flow_Parser\<close> (\<^verbatim>\<open>parser.go\<close>): Parse returns a flow or an error for every text
    but those the lexer loops or panics on, which are named; straight-line workflows are parsed back.
  \<^item> \<^verbatim>\<open>Flow_Semantic\<close> (\<^verbatim>\<open>semantic.go\<close>): a fresh analyser accepts exactly the well-formed flows.
  \<^item> \<^verbatim>\<open>Flow_IR\<close> (\<^verbatim>\<open>ir.go\<close>): the graph of a compiled flow is well formed.
  \<^item> \<^verbatim>\<open>Mem_Cache\<close> (\<^verbatim>\<open>cache\<close>), \<^verbatim>\<open>Flow_Registry\<close> (\<^verbatim>\<open>registry.go\<close>): the registry works over any cache with the laws of \<open>cache_laws\<close>, which the
    memory cache has.

  \<^bold>\<open>The runtime\<close> (\<^verbatim>\<open>runtime/src\<close>).
  \<^item> \<^verbatim>\<open>RT_Strings\<close>, \<^verbatim>\<open>RT_Json\<close>: strings as bytes, results with panics, JSON values.
  \<^item> \<^verbatim>\<open>RT_Bytecode\<close> (\<^verbatim>\<open>bytecode\<close>): instructions and the string tables, which interpret the locale \<open>interner\<close>.
  \<^item> \<^verbatim>\<open>RT_Lexer\<close>, \<^verbatim>\<open>RT_Parser\<close>, \<^verbatim>\<open>RT_Optimizer\<close>, \<^verbatim>\<open>RT_Dag\<close>, \<^verbatim>\<open>RT_Compiler\<close> (\<^verbatim>\<open>dsl\<close>): lexing printed tokens gives them back; the parser accepts exactly the
    lists whose modifiers are well placed; the optimiser keeps calls in order; the search for cycles finds exactly the cycles; compiled operands
    are in range.
  \<^item> \<^verbatim>\<open>RT_Expr\<close>, \<^verbatim>\<open>RT_Exec\<close>, \<^verbatim>\<open>RT_VM\<close> (\<^verbatim>\<open>executor\<close>): base 64, assigned fields, retries and their pauses, parallel groups under every schedule; compiled
    pipelines without jumps end without a panic; a repeated pending step is pending again.
  \<^item> \<^verbatim>\<open>RT_Correct\<close>: compiling a pipeline and running the plan does what its nodes mean from left to right.

  \<^bold>\<open>Reliability\<close> (\<^verbatim>\<open>server/internal/reliability\<close>).  \<^verbatim>\<open>Circuit_Breaker\<close>, \<^verbatim>\<open>Dedup\<close>, \<^verbatim>\<open>Dead_Letter\<close>, \<^verbatim>\<open>Saga\<close>, \<^verbatim>\<open>Rate_Limiter\<close>: what an open breaker answers, which
  keys are remembered, that the directory of the dead letters is the queue, the reverse order of compensation, and the bound of a token bucket
  (over real numbers).

  \<^bold>\<open>Work\<close> (\<^verbatim>\<open>server/internal/scheduler\<close>, \<^verbatim>\<open>agent\<close>, \<^verbatim>\<open>execstate\<close>, \<^verbatim>\<open>observability\<close>).  \<^verbatim>\<open>Metrics\<close>; \<^verbatim>\<open>Timer_Wheel\<close>: when a timer fires; \<^verbatim>\<open>Task_Scheduler\<close> and \<^verbatim>\<open>Agent_Pool\<close>: no
  task is lost or answered twice; \<^verbatim>\<open>Exec_State\<close>: the stores on disk and in memory interpret \<open>state_store\<close> and answer alike.

  \<^bold>\<open>The cluster\<close> (\<^verbatim>\<open>server/internal/membership\<close>, \<^verbatim>\<open>partition\<close>, \<^verbatim>\<open>engine\<close>, \<^verbatim>\<open>plandist\<close>).  \<^verbatim>\<open>Cluster_Members\<close>, \<^verbatim>\<open>Cluster_Partitions\<close>: leader, balanced
  partitions, followers; \<^verbatim>\<open>Rule_Engine\<close>: versions, restart, and the deadlock of saving; \<^verbatim>\<open>Plan_Dist\<close>: quorum, and that a follower runs the plan
  the leader deployed.

  \<^bold>\<open>The node\<close> (\<^verbatim>\<open>server/internal/node\<close>, \<^verbatim>\<open>registry\<close>, \<^verbatim>\<open>transport\<close>, \<^verbatim>\<open>replyrouter\<close>).  \<^verbatim>\<open>Service_Registry\<close>, \<^verbatim>\<open>Service_Call\<close>: choice of an instance, and the outcome that
  a call reports; \<^verbatim>\<open>Node_Exec\<close> puts executions, breakers, saga, store, limiter, tracker and dead letters together: compensation, recovery, and
  the account of incoming messages; \<^verbatim>\<open>Event_Bus\<close>, \<^verbatim>\<open>Reply_Router\<close>: replies find their requests, and channels are closed once.

  \<^bold>\<open>Bounds and fuel.\<close>  The lexer and parser of flows, the search for cycles and the virtual machine are functions with a bound that is proved large
  enough, or partial functions whose result is proved to exist.  The bound of 1000 steps in \<open>runSteps\<close> is \<^verbatim>\<open>maxExecutionSteps\<close> of the code.
  Counters of tasks and statistics are natural numbers where the code has 64 bits; message ids and pauses keep their width.

  \<^bold>\<open>Not modelled.\<close>  HTTP and gRPC servers, the administration interface, the client library, Kafka, the wrappers of the raft and memberlist libraries
  and the set-up of the process are calls of libraries and sockets with little logic of their own.  The tools around flows (formatter, code
  generator, language server, file watcher) only print or read text.  The simulator under \<^verbatim>\<open>src/simulator\<close> is a test tool that models the server
  itself.  The arena, the C interface and the tracing of the runtime are raw memory.  Timeouts of contexts are not measured: that a
  context is done is an argument.
\<close>

end
